(* ===== verification/Prelude.thy ===== *)
theory Prelude
  imports "HOL-Library.Word" "HOL-Library.Signed_Division"
begin

text \<open>
  The vocabulary shared by every component of the development.

  \<^item> Machine types: \<open>u8\<close>, \<open>u16\<close>, \<open>u32\<close> are the C types \<^verbatim>\<open>uint8_t\<close>, \<^verbatim>\<open>uint16_t\<close>,
    \<^verbatim>\<open>uint32_t\<close> of a 32 bit i686 target; \<^verbatim>\<open>size_t\<close> and every pointer are \<open>u32\<close>; the C type
    \<^verbatim>\<open>int\<close> is \<open>int\<close>, with the conversions from and to \<open>u32\<close> written out.
  \<^item> Outcomes: a C function either returns (\<open>Done\<close>), calls \<^verbatim>\<open>panic\<close> and never comes back
    (\<open>Panic\<close>), or makes an access outside any object it may use (\<open>Fault\<close>: undefined
    behaviour in C, silent memory corruption on the machine).
  \<^item> Buffers: a C pointer into a byte array is the list of the elements from the pointer to
    the end of the array, so that reading or writing past the end is a \<open>Fault\<close>.
  \<^item> Status codes (\<^verbatim>\<open>src/status.h\<close>) and the geometry constants (\<^verbatim>\<open>src/config.h\<close>).
\<close>

unbundle bit_operations_syntax

named_theorems run_simps \<open>computation rules of the outcome type\<close>
named_theorems conf \<open>numeric constants of the configuration headers\<close>

section \<open>Machine types\<close>

type_synonym u8 = "8 word"
type_synonym u16 = "16 word"
type_synonym u32 = "32 word"
type_synonym addr = u32

section \<open>Outcomes\<close>

datatype 'a run = Done 'a | Panic | Fault

primrec andthen :: "'a run \<Rightarrow> ('a \<Rightarrow> 'b run) \<Rightarrow> 'b run" where
  "andthen (Done x) f = f x"
| "andthen Panic f = Panic"
| "andthen Fault f = Fault"

lemma andthen_cong [fundef_cong]:
  "m = m' \<Longrightarrow> (\<And>x. m' = Done x \<Longrightarrow> f x = g x) \<Longrightarrow> andthen m f = andthen m' g"
  by (cases m') auto

lemma andthen_eq_Done [simp]:
  "andthen m f = Done y \<longleftrightarrow> (\<exists>x. m = Done x \<and> f x = Done y)"
  by (cases m) auto

lemma andthen_Done_right [simp]: "andthen m Done = m"
  by (cases m) auto

lemma andthen_assoc: "andthen (andthen m f) g = andthen m (\<lambda>x. andthen (f x) g)"
  by (cases m) auto

lemma andthen_neq_Panic:
  "m \<noteq> Panic \<Longrightarrow> (\<And>x. m = Done x \<Longrightarrow> f x \<noteq> Panic) \<Longrightarrow> andthen m f \<noteq> Panic"
  by (cases m) auto

primrec returns :: "'a run \<Rightarrow> bool" where
  "returns (Done x) = True"
| "returns Panic = False"
| "returns Fault = False"

lemma returns_iff: "returns m \<longleftrightarrow> (\<exists>x. m = Done x)"
  by (cases m) auto

section \<open>Array accesses\<close>

definition rd :: "'a list \<Rightarrow> nat \<Rightarrow> 'a run" where
  "rd xs i = (if i < length xs then Done (xs ! i) else Fault)"

definition wr :: "'a list \<Rightarrow> nat \<Rightarrow> 'a \<Rightarrow> 'a list run" where
  "wr xs i x = (if i < length xs then Done (xs[i := x]) else Fault)"

lemma rd_eq_Done [simp]: "rd xs i = Done x \<longleftrightarrow> i < length xs \<and> xs ! i = x"
  by (simp add: rd_def)

lemma wr_eq_Done [simp]: "wr xs i x = Done ys \<longleftrightarrow> i < length xs \<and> ys = xs[i := x]"
  by (auto simp: wr_def)

lemma rd_in [run_simps]: "i < length xs \<Longrightarrow> rd xs i = Done (xs ! i)"
  by simp

lemma wr_in [run_simps]: "i < length xs \<Longrightarrow> wr xs i x = Done (xs[i := x])"
  by simp

lemma rd_out [run_simps]: "length xs \<le> i \<Longrightarrow> rd xs i = Fault"
  by (simp add: rd_def)

lemma wr_out [run_simps]: "length xs \<le> i \<Longrightarrow> wr xs i x = Fault"
  by (simp add: wr_def)

text \<open>Little-endian fields of a packed structure that lies at the start of a buffer.\<close>

definition le16 :: "u8 list \<Rightarrow> nat \<Rightarrow> u16" where
  "le16 b k = ucast (b ! k) OR push_bit 8 (ucast (b ! (k + 1)))"

definition le32 :: "u8 list \<Rightarrow> nat \<Rightarrow> u32" where
  "le32 b k = ucast (b ! k) OR push_bit 8 (ucast (b ! (k + 1))) OR push_bit 16 (ucast (b ! (k + 2)))
     OR push_bit 24 (ucast (b ! (k + 3)))"

text \<open>The \<open>n\<close> bytes from index \<open>k\<close> of an array on, as one object.\<close>

definition sub_object :: "u8 list \<Rightarrow> nat \<Rightarrow> nat \<Rightarrow> u8 list run" where
  "sub_object b k n = (if k + n \<le> length b then Done (take n (drop k b)) else Fault)"

text \<open>Following a pointer into a store of objects of one C type.\<close>

definition deref :: "(addr \<Rightarrow> 'o option) \<Rightarrow> addr \<Rightarrow> 'o run" where
  "deref m p = (case m p of None \<Rightarrow> Fault | Some x \<Rightarrow> Done x)"

lemma deref_eq_Done [simp]: "deref m p = Done x \<longleftrightarrow> m p = Some x"
  by (simp add: deref_def split: option.splits)

lemma deref_Some [run_simps]: "m p = Some x \<Longrightarrow> deref m p = Done x"
  by simp

lemma deref_None [run_simps]: "m p = None \<Longrightarrow> deref m p = Fault"
  by (simp add: deref_def)

section \<open>Conversions between C integers\<close>

text \<open>The conversion of an \<^verbatim>\<open>int\<close> to a 32 bit unsigned value and back.\<close>

abbreviation (input) u32_of_int :: "int \<Rightarrow> u32" where
  "u32_of_int i \<equiv> word_of_int i"

abbreviation (input) int_of_u32 :: "u32 \<Rightarrow> int" where
  "int_of_u32 w \<equiv> sint w"

lemma sint_u32_small:
  assumes "unat (w :: u32) < 2 ^ 31"
  shows "sint w = int (unat w)"
proof -
  have u: "uint w = int (unat w)"
    by simp
  have "int (unat w) < int (2 ^ 31)"
    using assms by (simp only: of_nat_less_iff)
  then have "uint w < 2 ^ 31"
    unfolding u by simp
  moreover have "- (2 ^ 31) \<le> uint w"
    by (rule order_trans [OF _ uint_ge_0]) simp
  ultimately have "signed_take_bit 31 (uint w) = uint w"
    by (intro signed_take_bit_int_eq_self)
  then show ?thesis
    unfolding u [symmetric] by (simp add: sint_uint)
qed

text \<open>The range of the C type \<^verbatim>\<open>int\<close>: signed arithmetic that leaves it is undefined.\<close>

definition in_int :: "int \<Rightarrow> bool" where
  "in_int i \<longleftrightarrow> - (2 ^ 31) \<le> i \<and> i < 2 ^ 31"

lemma in_int_of_nat [simp]: "in_int (int n) \<longleftrightarrow> n < 2 ^ 31"
  by (auto simp: in_int_def)

lemma sint_of_nat_u32: "n < 2 ^ 31 \<Longrightarrow> sint (of_nat n :: u32) = int n"
  by (subst sint_u32_small) (simp_all add: unat_of_nat)

lemma unat_of_nat_u32: "n < 2 ^ 32 \<Longrightarrow> unat (of_nat n :: u32) = n"
  by (simp add: unat_of_nat)

lemma unat_add_u32: "unat a + unat b < 2 ^ 32 \<Longrightarrow> unat (a + b :: u32) = unat a + unat b"
  by (subst unat_add_lem [THEN iffD1]) simp_all

lemma unat_mult_u32: "unat a * unat b < 2 ^ 32 \<Longrightarrow> unat (a * b :: u32) = unat a * unat b"
  by (subst unat_mult_lem [THEN iffD1]) simp_all

lemma unat_u32_less: "unat (w :: u32) < 0x100000000"
  using unsigned_less [of w, where ?'a = nat] by simp

lemma u32_of_int_eq_iff:
  assumes "0 \<le> i" and "i < 2 ^ 32"
  shows "u32_of_int i = w \<longleftrightarrow> i = int (unat w)"
proof -
  have "uint (u32_of_int i) = i"
    using assms by (simp add: uint_word_of_int_eq take_bit_int_eq_self)
  then show ?thesis
    by (auto simp: word_uint_eq_iff)
qed

section \<open>Status codes and configuration\<close>

definition PANDORAOS_ALL_OK :: int where [conf]: "PANDORAOS_ALL_OK = 0"
definition EIO :: int where [conf]: "EIO = 1"
definition EINVARG :: int where [conf]: "EINVARG = 2"
definition ENOMEM :: int where [conf]: "ENOMEM = 3"
definition EBADPATH :: int where [conf]: "EBADPATH = 4"
definition EFSNOTUS :: int where [conf]: "EFSNOTUS = 5"
definition ERDONLY :: int where [conf]: "ERDONLY = 6"
definition EUNIMP :: int where [conf]: "EUNIMP = 7"
definition EISTKN :: int where [conf]: "EISTKN = 8"
definition EINFORMAT :: int where [conf]: "EINFORMAT = 9"

definition PANDORA_SECTOR_SIZE :: int where [conf]: "PANDORA_SECTOR_SIZE = 512"
definition PANDORA_MAX_PATH :: nat where [conf]: "PANDORA_MAX_PATH = 108"

end
