(* ===== verification/Cstring.thy ===== *)
theory Cstring
  imports Prelude
begin

text \<open>
  The kernel's byte and string routines: \<^verbatim>\<open>src/memory/memory.c\<close> and \<^verbatim>\<open>src/string/string.c\<close>
  (\<^verbatim>\<open>programs/stdlib/src\<close> holds the same text for user programs). A \<^verbatim>\<open>char\<close> is a byte,
  read as signed (\<open>sint\<close>) where the code compares it with a number, because the i686 target has
  signed \<^verbatim>\<open>char\<close>. A pointer argument is the list of the bytes from the pointer to the end of the
  object it points into. The lemmas characterise every routine by the C string
  (\<open>cstring\<close>) its arguments hold, the \<open>Fault\<close> cases included.
\<close>

named_theorems cstr \<open>characterisations of the string routines\<close>

section \<open>memory.c\<close>

function memset_loop :: "u8 list \<Rightarrow> u8 \<Rightarrow> nat \<Rightarrow> nat \<Rightarrow> u8 list run" where
  "memset_loop p c i sz =
     (if i < sz then andthen (wr p i c) (\<lambda>p. memset_loop p c (Suc i) sz) else Done p)"
  by pat_completeness auto
termination
  by (relation "measure (\<lambda>(p, c, i, sz). sz - i)") auto

definition memset :: "u8 list \<Rightarrow> int \<Rightarrow> u32 \<Rightarrow> u8 list run" where
  "memset ptr c sz = memset_loop ptr (word_of_int c) 0 (unat sz)"

fun memcmp :: "u8 list \<Rightarrow> u8 list \<Rightarrow> int \<Rightarrow> int run" where
  "memcmp (c1 # s1) (c2 # s2) count =
     (if count > 0 then
        if c1 \<noteq> c2 then Done (if sint c1 < sint c2 then - 1 else 1)
        else memcmp s1 s2 (count - 1)
      else Done 0)"
| "memcmp s1 s2 count = (if count > 0 then Fault else Done 0)"

function memcpy_loop :: "u8 list \<Rightarrow> u8 list \<Rightarrow> nat \<Rightarrow> int \<Rightarrow> u8 list run" where
  "memcpy_loop d s i len =
     (if len \<noteq> 0 then
        andthen (rd s i) (\<lambda>c. andthen (wr d i c) (\<lambda>d. memcpy_loop d s (Suc i) (len - 1)))
      else Done d)"
  by pat_completeness auto
termination
  by (relation "measure (\<lambda>(d, s, i, len). length s - i)") auto

definition memcpy :: "u8 list \<Rightarrow> u8 list \<Rightarrow> int \<Rightarrow> u8 list run" where
  "memcpy dest src len = memcpy_loop dest src 0 len"

declare memset_loop.simps [simp del] memcpy_loop.simps [simp del]

section \<open>string.c\<close>

definition tolower :: "u8 \<Rightarrow> u8" where
  "tolower str1 = (if sint str1 \<ge> 65 \<and> sint str1 \<le> 90 then str1 + 32 else str1)"

fun strlen_loop :: "u8 list \<Rightarrow> int \<Rightarrow> int run" where
  "strlen_loop [] i = Fault"
| "strlen_loop (c # ptr) i = (if c \<noteq> 0 then strlen_loop ptr (i + 1) else Done i)"

definition strlen :: "u8 list \<Rightarrow> int run" where
  "strlen ptr = strlen_loop ptr 0"

function strnlen_loop :: "u8 list \<Rightarrow> nat \<Rightarrow> int \<Rightarrow> int run" where
  "strnlen_loop ptr i mx =
     (if int i < mx then
        andthen (rd ptr i) (\<lambda>c. if c = 0 then Done (int i) else strnlen_loop ptr (Suc i) mx)
      else Done (int i))"
  by pat_completeness auto
termination
  by (relation "measure (\<lambda>(ptr, i, mx). nat (mx - int i))") auto

definition strnlen :: "u8 list \<Rightarrow> int \<Rightarrow> int run" where
  "strnlen ptr mx = strnlen_loop ptr 0 mx"

function strnlen_terminator_loop :: "u8 list \<Rightarrow> nat \<Rightarrow> int \<Rightarrow> u8 \<Rightarrow> int run" where
  "strnlen_terminator_loop str i mx terminator =
     (if int i < mx then
        andthen (rd str i) (\<lambda>c.
          if c = 0 \<or> c = terminator then Done (int i)
          else strnlen_terminator_loop str (Suc i) mx terminator)
      else Done (int i))"
  by pat_completeness auto
termination
  by (relation "measure (\<lambda>(str, i, mx, terminator). nat (mx - int i))") auto

definition strnlen_terminator :: "u8 list \<Rightarrow> int \<Rightarrow> u8 \<Rightarrow> int run" where
  "strnlen_terminator str mx terminator = strnlen_terminator_loop str 0 mx terminator"

declare strnlen_loop.simps [simp del] strnlen_terminator_loop.simps [simp del]

fun istrncmp :: "u8 list \<Rightarrow> u8 list \<Rightarrow> int \<Rightarrow> int run" where
  "istrncmp (u1 # str1) (u2 # str2) n =
     (if n > 0 then
        if u1 \<noteq> u2 \<and> tolower u1 \<noteq> tolower u2 then Done (uint u1 - uint u2)
        else if u1 = 0 then Done 0
        else istrncmp str1 str2 (n - 1)
      else Done 0)"
| "istrncmp str1 str2 n = (if n > 0 then Fault else Done 0)"

fun strncmp :: "u8 list \<Rightarrow> u8 list \<Rightarrow> int \<Rightarrow> int run" where
  "strncmp (u1 # str1) (u2 # str2) n =
     (if n > 0 then
        if u1 \<noteq> u2 then Done (uint u1 - uint u2)
        else if u1 = 0 then Done 0
        else strncmp str1 str2 (n - 1)
      else Done 0)"
| "strncmp str1 str2 n = (if n > 0 then Fault else Done 0)"

fun strcpy_loop :: "u8 list \<Rightarrow> nat \<Rightarrow> u8 list \<Rightarrow> u8 list run" where
  "strcpy_loop dest i [] = Fault"
| "strcpy_loop dest i (c # src) =
     (if c \<noteq> 0 then andthen (wr dest i c) (\<lambda>dest. strcpy_loop dest (Suc i) src)
      else wr dest i 0)"

definition strcpy :: "u8 list \<Rightarrow> u8 list \<Rightarrow> u8 list run" where
  "strcpy dest src = strcpy_loop dest 0 src"

function strncpy_loop :: "u8 list \<Rightarrow> u8 list \<Rightarrow> nat \<Rightarrow> int \<Rightarrow> u8 list run" where
  "strncpy_loop dest src i count =
     (if int i < count - 1 then
        andthen (rd src i) (\<lambda>c.
          if c = 0 then wr dest i 0
          else andthen (wr dest i c) (\<lambda>dest. strncpy_loop dest src (Suc i) count))
      else wr dest i 0)"
  by pat_completeness auto
termination
  by (relation "measure (\<lambda>(dest, src, i, count). nat (count - int i))") auto

definition strncpy :: "u8 list \<Rightarrow> u8 list \<Rightarrow> int \<Rightarrow> u8 list run" where
  "strncpy dest src count = strncpy_loop dest src 0 count"

declare strncpy_loop.simps [simp del]

definition isdigit :: "u8 \<Rightarrow> bool" where
  "isdigit c = (sint c \<ge> 48 \<and> sint c \<le> 57)"

definition tonumericdigit :: "u8 \<Rightarrow> int" where
  "tonumericdigit c = sint c - 48"

section \<open>What the buffers hold\<close>

text \<open>
  \<open>cstring b\<close> is the C string a buffer holds: the bytes before its first zero byte. It is
  meaningful when the buffer is \<open>terminated\<close>, i.e. holds a zero byte at all.
\<close>

definition terminated :: "u8 list \<Rightarrow> bool" where
  "terminated b = (0 \<in> set b)"

definition cstring :: "u8 list \<Rightarrow> u8 list" where
  "cstring b = takeWhile (\<lambda>c. c \<noteq> 0) b"

lemma terminated_simps [simp]:
  "\<not> terminated []"
  "terminated (c # b) \<longleftrightarrow> c = 0 \<or> terminated b"
  by (auto simp: terminated_def)

lemma cstring_simps [simp]:
  "cstring [] = []"
  "cstring (c # b) = (if c = 0 then [] else c # cstring b)"
  by (auto simp: cstring_def)

lemma zero_notin_cstring [simp]: "0 \<notin> set (cstring b)"
  by (auto simp: cstring_def dest: set_takeWhileD)

lemma cstring_append [simp]: "0 \<notin> set s \<Longrightarrow> cstring (s @ 0 # r) = s"
  by (induction s) auto

lemma terminated_append [simp]: "terminated (s @ 0 # r)"
  by (simp add: terminated_def)

lemma length_cstring: "terminated b \<Longrightarrow> length (cstring b) < length b"
  by (induction b) auto

lemma length_cstring_le: "length (cstring b) \<le> length b"
  by (simp add: cstring_def length_takeWhile_le)

lemma nth_cstring: "i < length (cstring b) \<Longrightarrow> cstring b ! i = b ! i"
  by (simp add: cstring_def takeWhile_nth)

lemma nth_before_cstring_end: "i < length (cstring b) \<Longrightarrow> b ! i \<noteq> 0"
  by (metis nth_cstring nth_mem zero_notin_cstring)

lemma nth_cstring_end: "terminated b \<Longrightarrow> b ! length (cstring b) = 0"
  by (induction b) auto

lemma cstring_length_least:
  "\<lbrakk>i < length b; b ! i = 0\<rbrakk> \<Longrightarrow> length (cstring b) \<le> i"
  by (rule ccontr) (auto dest: nth_before_cstring_end simp: not_le)

lemma terminated_iff_nth: "terminated b \<longleftrightarrow> (\<exists>i < length b. b ! i = 0)"
  by (auto simp: terminated_def in_set_conv_nth)

lemma not_terminated_nth: "\<not> terminated b \<Longrightarrow> i < length b \<Longrightarrow> b ! i \<noteq> 0"
  by (auto simp: terminated_iff_nth)

lemma cstring_not_terminated: "\<not> terminated b \<Longrightarrow> cstring b = b"
  by (induction b) auto

section \<open>memset and memcpy\<close>

lemma memset_loop_Done:
  assumes "i \<le> n" and "n \<le> length p"
  shows "memset_loop p c i n = Done (take i p @ replicate (n - i) c @ drop n p)"
  using assms
proof (induction p c i n rule: memset_loop.induct)
  case (1 p c i n)
  show ?case
  proof (cases "i < n")
    case True
    with "1.prems" have "memset_loop (p[i := c]) c (Suc i) n =
        Done (take (Suc i) (p[i := c]) @ replicate (n - Suc i) c @ drop n (p[i := c]))"
      by (intro "1.IH") auto
    moreover have "take (Suc i) (p[i := c]) = take i p @ [c]"
      using True "1.prems" by (simp add: take_Suc_conv_app_nth)
    moreover have "replicate (n - i) c = c # replicate (n - Suc i) c"
      using True by (simp add: Suc_diff_Suc flip: replicate_Suc)
    ultimately show ?thesis
      using True "1.prems" by (simp add: memset_loop.simps [of p] run_simps)
  next
    case False
    with "1.prems" show ?thesis by (simp add: memset_loop.simps [of p])
  qed
qed

lemma memset_loop_Fault:
  "\<lbrakk>length p < n; i \<le> length p\<rbrakk> \<Longrightarrow> memset_loop p c i n = Fault"
proof (induction p c i n rule: memset_loop.induct)
  case (1 p c i n)
  then show ?case
    by (cases "i < length p") (simp_all add: memset_loop.simps [of p] run_simps)
qed

lemma memset_eq [cstr]:
  "memset p c n = (if unat n \<le> length p
     then Done (replicate (unat n) (word_of_int c) @ drop (unat n) p) else Fault)"
  by (simp add: memset_def memset_loop_Done memset_loop_Fault)

lemma memcpy_loop_Done:
  assumes "i + n \<le> length s" and "i + n \<le> length d"
  shows "memcpy_loop d s i (int n) = Done (take i d @ take n (drop i s) @ drop (i + n) d)"
  using assms
proof (induction n arbitrary: d i)
  case 0
  then show ?case by (simp add: memcpy_loop.simps [of d])
next
  case (Suc n)
  have tk: "take (Suc n) (drop i s) = s ! i # take n (drop (Suc i) s)"
    using Suc.prems by (simp flip: Cons_nth_drop_Suc)
  have "memcpy_loop d s i (int (Suc n)) = memcpy_loop (d[i := s ! i]) s (Suc i) (int n)"
    using Suc.prems by (simp add: memcpy_loop.simps [of d] run_simps)
  also have "\<dots> = Done (take (Suc i) (d[i := s ! i]) @ take n (drop (Suc i) s)
      @ drop (Suc i + n) (d[i := s ! i]))"
    using Suc.prems by (intro Suc.IH) auto
  also have "take (Suc i) (d[i := s ! i]) = take i d @ [s ! i]"
    using Suc.prems by (simp add: take_Suc_conv_app_nth)
  finally show ?case
    using Suc.prems tk by simp
qed

lemma memcpy_eq [cstr]:
  "\<lbrakk>n \<le> length src; n \<le> length dest\<rbrakk>
    \<Longrightarrow> memcpy dest src (int n) = Done (take n src @ drop n dest)"
  using memcpy_loop_Done [of 0 n src dest] by (simp add: memcpy_def)

lemma memcmp_eq_0 [cstr]:
  "\<lbrakk>n \<le> length s1; n \<le> length s2\<rbrakk>
    \<Longrightarrow> memcmp s1 s2 (int n) = Done 0 \<longleftrightarrow> take n s1 = take n s2"
proof (induction s1 s2 "int n" arbitrary: n rule: memcmp.induct)
  case (1 c1 s1 c2 s2)
  then show ?case
    by (cases n) (auto simp: nat_diff_distrib)
qed auto

lemma memcmp_returns:
  "\<lbrakk>n \<le> length s1; n \<le> length s2\<rbrakk>
    \<Longrightarrow> \<exists>r. memcmp s1 s2 (int n) = Done r \<and> r \<in> {-1, 0, 1}"
proof (induction s1 s2 "int n" arbitrary: n rule: memcmp.induct)
  case (1 c1 s1 c2 s2)
  then show ?case
    by (cases n) auto
qed auto

section \<open>Lengths\<close>

lemma strlen_loop_eq:
  "strlen_loop b i = (if terminated b then Done (i + int (length (cstring b))) else Fault)"
  by (induction b i rule: strlen_loop.induct) auto

lemma strlen_eq [cstr]:
  "strlen b = (if terminated b then Done (int (length (cstring b))) else Fault)"
  by (simp add: strlen_def strlen_loop_eq)

lemma strnlen_loop_eq:
  assumes "i \<le> length (cstring b)" and "int i \<le> mx" and "terminated b \<or> mx \<le> int (length b)"
  shows "strnlen_loop b i mx = Done (min (int (length (cstring b))) mx)"
  using assms
proof (induction b i mx rule: strnlen_loop.induct)
  case (1 b i mx)
  show ?case
  proof (cases "int i < mx")
    case True
    show ?thesis
    proof (cases "i < length (cstring b)")
      case inside: True
      then have "i < length b" and "b ! i \<noteq> 0"
        using length_cstring_le [of b] by (auto dest: nth_before_cstring_end)
      with True inside "1" show ?thesis
        by (simp add: strnlen_loop.simps [of b] run_simps)
    next
      case False
      with "1.prems" have i: "i = length (cstring b)" by simp
      have t: "terminated b"
        using "1.prems"(3) True i cstring_not_terminated [of b] by fastforce
      with i have "i < length b" and "b ! i = 0"
        by (auto intro: length_cstring nth_cstring_end)
      with True i show ?thesis
        by (simp add: strnlen_loop.simps [of b] run_simps)
    qed
  next
    case False
    with "1.prems" show ?thesis
      by (simp add: strnlen_loop.simps [of b])
  qed
qed

lemma strnlen_eq [cstr]:
  "\<lbrakk>0 \<le> mx; terminated b \<or> mx \<le> int (length b)\<rbrakk>
    \<Longrightarrow> strnlen b mx = Done (min (int (length (cstring b))) mx)"
  by (simp add: strnlen_def strnlen_loop_eq)

section \<open>Comparisons\<close>

lemma uint_inj [simp]: "uint a = uint b \<longleftrightarrow> a = b"
  by (simp add: word_uint_eq_iff)

lemma strncmp_eq_0 [cstr]:
  "\<lbrakk>terminated a; terminated b\<rbrakk> \<Longrightarrow>
    strncmp a b (int n) = Done 0 \<longleftrightarrow> take n (cstring a) = take n (cstring b)"
proof (induction a b "int n" arbitrary: n rule: strncmp.induct)
  case (1 u1 a u2 b)
  then show ?case by (cases n) (auto simp: uint_0_iff)
qed auto

lemma strncmp_returns:
  "\<lbrakk>terminated a; terminated b\<rbrakk> \<Longrightarrow> \<exists>r. strncmp a b n = Done r"
  by (induction a b n rule: strncmp.induct) auto

lemma tolower_eq_0 [simp]: "tolower c = 0 \<longleftrightarrow> c = 0"
proof -
  have "c + 32 \<noteq> 0" if "sint c \<ge> 65"
  proof
    assume "c + 32 = 0"
    then have "c = - 32" by (simp add: eq_neg_iff_add_eq_0)
    then show False using that by simp
  qed
  then show ?thesis by (auto simp: tolower_def)
qed

lemma istrncmp_eq_0 [cstr]:
  "\<lbrakk>terminated a; terminated b\<rbrakk> \<Longrightarrow>
    istrncmp a b (int n) = Done 0 \<longleftrightarrow>
      map tolower (take n (cstring a)) = map tolower (take n (cstring b))"
proof (induction a b "int n" arbitrary: n rule: istrncmp.induct)
  case (1 u1 a u2 b)
  show ?case
  proof (cases n)
    case (Suc m)
    have "u1 = 0 \<longleftrightarrow> u2 = 0" if "tolower u1 = tolower u2"
      using that tolower_eq_0 by metis
    with 1 Suc show ?thesis by (auto simp: uint_0_iff)
  qed simp
qed auto

lemma istrncmp_returns:
  "\<lbrakk>terminated a; terminated b\<rbrakk> \<Longrightarrow> \<exists>r. istrncmp a b n = Done r"
proof (induction a b n rule: istrncmp.induct)
  case (1 u1 a u2 b n)
  have "u1 = 0 \<longleftrightarrow> u2 = 0" if "tolower u1 = tolower u2"
    using that tolower_eq_0 by metis
  with 1 show ?case by auto
qed auto

section \<open>Copies\<close>

lemma strcpy_loop_eq:
  assumes "terminated src" and "i \<le> length dest"
  shows "strcpy_loop dest i src =
    (if i + length (cstring src) < length dest
     then Done (take i dest @ cstring src @ 0 # drop (Suc (i + length (cstring src))) dest)
     else Fault)"
  using assms
proof (induction dest i src rule: strcpy_loop.induct)
  case (2 dest i c src)
  show ?case
  proof (cases "i < length dest")
    case True
    then show ?thesis
      using 2 by (cases "c = 0")
        (simp_all add: run_simps take_Suc_conv_app_nth upd_conv_take_nth_drop [of i dest 0])
  next
    case False
    with 2 show ?thesis by (auto simp: run_simps)
  qed
qed simp

lemma strcpy_eq [cstr]:
  "terminated src \<Longrightarrow> strcpy dest src =
    (if length (cstring src) < length dest
     then Done (cstring src @ 0 # drop (Suc (length (cstring src))) dest) else Fault)"
  by (simp add: strcpy_def strcpy_loop_eq)

lemma strncpy_loop_eq:
  assumes "terminated src" and "i \<le> length dest" and "i \<le> length (cstring src)"
    and "i \<le> nat (count - 1)"
  shows "strncpy_loop dest src i count =
    (let s = take (nat (count - 1)) (cstring src) in
     if length s < length dest
     then Done (take i dest @ drop i s @ 0 # drop (Suc (length s)) dest)
     else Fault)"
  using assms
proof (induction dest src i count rule: strncpy_loop.induct)
  case (1 dest src i count)
  let ?s = "take (nat (count - 1)) (cstring src)"
  show ?case
  proof (cases "int i < count - 1 \<and> i < length (cstring src)")
    case True
    then have "i < length ?s" by auto
    moreover have ne: "src ! i \<noteq> 0" and sl: "i < length src"
      using True length_cstring_le [of src] by (auto dest: nth_before_cstring_end)
    moreover have "?s ! i = src ! i"
      using \<open>i < length ?s\<close> by (simp add: nth_cstring)
    ultimately have dr: "drop i ?s = src ! i # drop (Suc i) ?s"
      by (metis Cons_nth_drop_Suc)
    show ?thesis
    proof (cases "i < length dest")
      case inside: True
      then have "strncpy_loop dest src i count = strncpy_loop (dest[i := src ! i]) src (Suc i) count"
        using True ne sl by (simp add: strncpy_loop.simps [of dest] run_simps)
      also have "\<dots> = (if length ?s < length dest
          then Done (take (Suc i) (dest[i := src ! i]) @ drop (Suc i) ?s
            @ 0 # drop (Suc (length ?s)) (dest[i := src ! i])) else Fault)"
        using True inside ne sl "1.prems"
        by (subst "1.IH") (auto simp: Let_def)
      finally show ?thesis
        using inside dr \<open>i < length ?s\<close>
        by (auto simp: Let_def take_Suc_conv_app_nth drop_update_cancel)
    next
      case False
      moreover have "\<not> length ?s < length dest"
        using False \<open>i < length ?s\<close> by linarith
      ultimately show ?thesis
        using True ne sl by (simp add: strncpy_loop.simps [of dest] run_simps Let_def)
    qed
  next
    case False
    then have len: "length ?s = i"
      using "1.prems" by auto
    have "strncpy_loop dest src i count = wr dest i 0"
    proof (cases "int i < count - 1")
      case True
      with False "1.prems" have i: "i = length (cstring src)" by auto
      with "1.prems" have "src ! i = 0" and "i < length src"
        by (auto intro: nth_cstring_end length_cstring)
      with True show ?thesis
        by (simp add: strncpy_loop.simps [of dest] run_simps)
    qed (simp add: strncpy_loop.simps [of dest])
    with len show ?thesis
      by (auto simp: Let_def wr_def upd_conv_take_nth_drop)
  qed
qed

text \<open>
  \<open>strncpy\<close> stores at most \<open>count - 1\<close> bytes of the string and always a terminator: the
  destination receives a C string, and the call is a fault exactly when the destination is too
  small for it.
\<close>

lemma strncpy_eq [cstr]:
  "terminated src \<Longrightarrow> strncpy dest src count =
    (let s = take (nat (count - 1)) (cstring src) in
     if length s < length dest then Done (s @ 0 # drop (Suc (length s)) dest) else Fault)"
  by (simp add: strncpy_def strncpy_loop_eq Let_def)

section \<open>Digits\<close>

lemma sint_u8_of_nat: "n < 128 \<Longrightarrow> sint (of_nat n :: u8) = int n"
  by (simp add: sint_uint unsigned_of_nat take_bit_nat_eq_self signed_take_bit_int_eq_self)

lemma tonumericdigit_range: "isdigit c \<Longrightarrow> 0 \<le> tonumericdigit c \<and> tonumericdigit c \<le> 9"
  by (simp add: isdigit_def tonumericdigit_def)

end
