(* ===== verification/Heap_Blocks.thy ===== *)
theory Heap_Blocks
  imports Cstring
begin

text \<open>
  The block allocator, \<^verbatim>\<open>src/memory/heap/heap.h\<close> and \<^verbatim>\<open>src/memory/heap/heap.c\<close>: a heap is an
  area of 4096 byte blocks and a table with one byte per block. The low nibble of an entry says
  whether the block is taken, \<open>HEAP_BLOCK_IS_FIRST\<close> marks the first block of an allocation and
  \<open>HEAP_BLOCK_HAS_NEXT\<close> every block of it but the last.

  First the code, function by function. Then the abstract view: a \<open>region\<close> of the table is one
  allocation, \<open>regions\<close> is the set of all of them, and \<open>heap_malloc\<close> and \<open>heap_free\<close> insert
  into and delete from that set. A write past the end of the table is a \<open>Fault\<close>.
\<close>

section \<open>The code\<close>

definition PANDORAOS_HEAP_BLOCK_SIZE :: u32 where [conf]: "PANDORAOS_HEAP_BLOCK_SIZE = 4096"

definition HEAP_BLOCK_TABLE_ENTRY_TAKEN :: u8 where [conf]: "HEAP_BLOCK_TABLE_ENTRY_TAKEN = 0x01"
definition HEAP_BLOCK_TABLE_ENTRY_FREE :: u8 where [conf]: "HEAP_BLOCK_TABLE_ENTRY_FREE = 0x00"
definition HEAP_BLOCK_HAS_NEXT :: u8 where [conf]: "HEAP_BLOCK_HAS_NEXT = 0x80"
definition HEAP_BLOCK_IS_FIRST :: u8 where [conf]: "HEAP_BLOCK_IS_FIRST = 0x40"

record heap_table =
  entries :: "u8 list"
  total :: u32

record heap =
  table :: heap_table
  saddr :: addr

definition heap_validate_table :: "addr \<Rightarrow> addr \<Rightarrow> heap_table \<Rightarrow> int" where
  "heap_validate_table ptr end_ptr tbl =
     (let table_size = end_ptr - ptr;
          total_blocks = table_size div PANDORAOS_HEAP_BLOCK_SIZE
      in if total tbl \<noteq> total_blocks then - EINVARG else 0)"

definition heap_validate_alignment :: "addr \<Rightarrow> bool" where
  "heap_validate_alignment ptr = (ptr mod PANDORAOS_HEAP_BLOCK_SIZE = 0)"

definition heap_create :: "heap \<Rightarrow> addr \<Rightarrow> addr \<Rightarrow> heap_table \<Rightarrow> (int \<times> heap) run" where
  "heap_create hp ptr end_ptr tbl =
     (if \<not> heap_validate_alignment ptr \<or> \<not> heap_validate_alignment end_ptr
      then Done (- EINVARG, hp)
      else
        let hp = \<lparr>table = tbl, saddr = ptr\<rparr>;
            res = heap_validate_table ptr end_ptr tbl
        in if res < 0 then Done (res, hp)
           else andthen (memset (entries tbl) (uint HEAP_BLOCK_TABLE_ENTRY_FREE) (total tbl)) (\<lambda>es.
             Done (res, hp\<lparr>table := tbl\<lparr>entries := es\<rparr>\<rparr>)))"

definition heap_align_value_to_upper :: "u32 \<Rightarrow> u32" where
  "heap_align_value_to_upper val =
     (if val mod PANDORAOS_HEAP_BLOCK_SIZE = 0 then val
      else (val - val mod PANDORAOS_HEAP_BLOCK_SIZE) + PANDORAOS_HEAP_BLOCK_SIZE)"

definition heap_get_entry_type :: "u8 \<Rightarrow> u8" where
  "heap_get_entry_type entry = entry AND 0x0F"

text \<open>The search loop; \<open>bc\<close> counts the current run of free blocks, \<open>bs\<close> is its start or -1.\<close>

function heap_get_start_block_loop ::
    "u8 list \<Rightarrow> nat \<Rightarrow> nat \<Rightarrow> u32 \<Rightarrow> int \<Rightarrow> int \<Rightarrow> int run" where
  "heap_get_start_block_loop es i n total_blocks bc bs =
     (if i < n then
        andthen (rd es i) (\<lambda>entry.
          if heap_get_entry_type entry \<noteq> HEAP_BLOCK_TABLE_ENTRY_FREE
          then heap_get_start_block_loop es (Suc i) n total_blocks 0 (- 1)
          else
            let bs = (if bs = - 1 then int i else bs); bc = bc + 1
            in if u32_of_int bc = total_blocks then Done bs
               else heap_get_start_block_loop es (Suc i) n total_blocks bc bs)
      else Done bs)"
  by pat_completeness auto
termination
  by (relation "measure (\<lambda>(es, i, n, total_blocks, bc, bs). n - i)") auto

declare heap_get_start_block_loop.simps [simp del]

definition heap_get_start_block :: "heap \<Rightarrow> u32 \<Rightarrow> int run" where
  "heap_get_start_block hp total_blocks =
     andthen (heap_get_start_block_loop (entries (table hp)) 0 (unat (total (table hp)))
                total_blocks 0 (- 1)) (\<lambda>bs.
     if bs = - 1 then Done (- ENOMEM) else Done bs)"

definition heap_block_to_address :: "heap \<Rightarrow> u32 \<Rightarrow> addr" where
  "heap_block_to_address hp block = saddr hp + block * PANDORAOS_HEAP_BLOCK_SIZE"

function heap_mark_blocks_taken_loop :: "u8 list \<Rightarrow> int \<Rightarrow> int \<Rightarrow> u8 \<Rightarrow> u8 list run" where
  "heap_mark_blocks_taken_loop es i end_block entry =
     (if i \<le> end_block then
        if i < 0 then Fault
        else andthen (wr es (nat i) entry) (\<lambda>es.
          heap_mark_blocks_taken_loop es (i + 1) end_block
            (if i \<noteq> end_block - 1 then HEAP_BLOCK_TABLE_ENTRY_TAKEN OR HEAP_BLOCK_HAS_NEXT
             else HEAP_BLOCK_TABLE_ENTRY_TAKEN))
      else Done es)"
  by pat_completeness auto
termination
  by (relation "measure (\<lambda>(es, i, end_block, entry). nat (end_block + 1 - i))") auto

declare heap_mark_blocks_taken_loop.simps [simp del]

definition heap_mark_blocks_taken :: "heap \<Rightarrow> u32 \<Rightarrow> u32 \<Rightarrow> heap run" where
  "heap_mark_blocks_taken hp start_block total_blocks =
     (let end_block = int_of_u32 ((start_block + total_blocks) - 1);
          entry = HEAP_BLOCK_TABLE_ENTRY_TAKEN OR HEAP_BLOCK_IS_FIRST;
          entry = (if total_blocks > 1 then entry OR HEAP_BLOCK_HAS_NEXT else entry)
      in andthen (heap_mark_blocks_taken_loop (entries (table hp)) (int_of_u32 start_block)
                    end_block entry) (\<lambda>es.
         Done (hp\<lparr>table := (table hp)\<lparr>entries := es\<rparr>\<rparr>)))"

definition heap_malloc_blocks :: "heap \<Rightarrow> u32 \<Rightarrow> (addr \<times> heap) run" where
  "heap_malloc_blocks hp total_blocks =
     andthen (heap_get_start_block hp total_blocks) (\<lambda>start_block.
     if start_block < 0 then Done (0, hp)
     else
       let address = heap_block_to_address hp (u32_of_int start_block)
       in andthen (heap_mark_blocks_taken hp (u32_of_int start_block) total_blocks) (\<lambda>hp.
          Done (address, hp)))"

function heap_mark_blocks_free_loop :: "u8 list \<Rightarrow> nat \<Rightarrow> nat \<Rightarrow> u8 list run" where
  "heap_mark_blocks_free_loop es i n =
     (if i < n then
        andthen (rd es i) (\<lambda>entry.
        andthen (wr es i HEAP_BLOCK_TABLE_ENTRY_FREE) (\<lambda>es.
        if entry AND HEAP_BLOCK_HAS_NEXT = 0 then Done es
        else heap_mark_blocks_free_loop es (Suc i) n))
      else Done es)"
  by pat_completeness auto
termination
  by (relation "measure (\<lambda>(es, i, n). n - i)") auto

declare heap_mark_blocks_free_loop.simps [simp del]

definition heap_mark_blocks_free :: "heap \<Rightarrow> int \<Rightarrow> heap run" where
  "heap_mark_blocks_free hp start_block =
     andthen (heap_mark_blocks_free_loop (entries (table hp)) (unat (u32_of_int start_block))
                (unat (total (table hp)))) (\<lambda>es.
     Done (hp\<lparr>table := (table hp)\<lparr>entries := es\<rparr>\<rparr>))"

definition heap_address_to_block :: "heap \<Rightarrow> addr \<Rightarrow> int" where
  "heap_address_to_block hp address =
     int_of_u32 (address - saddr hp) sdiv uint PANDORAOS_HEAP_BLOCK_SIZE"

definition heap_malloc :: "heap \<Rightarrow> u32 \<Rightarrow> (addr \<times> heap) run" where
  "heap_malloc hp sz =
     (let aligned_size = heap_align_value_to_upper sz;
          total_blocks = aligned_size div PANDORAOS_HEAP_BLOCK_SIZE
      in heap_malloc_blocks hp total_blocks)"

definition heap_free :: "heap \<Rightarrow> addr \<Rightarrow> heap run" where
  "heap_free hp ptr = heap_mark_blocks_free hp (heap_address_to_block hp ptr)"

section \<open>Regions: the allocations a table describes\<close>

text \<open>
  The entries of one allocation of \<open>n\<close> blocks: a first block (with a successor unless it is the
  only one), inner blocks, and a last block without successor.
\<close>

fun rest_marks :: "nat \<Rightarrow> u8 list" where
  "rest_marks 0 = []"
| "rest_marks (Suc k) = (if k = 0 then 0x01 else 0x81) # rest_marks k"

definition marks :: "nat \<Rightarrow> u8 list" where
  "marks n = (if n \<le> 1 then 0x41 else 0xC1) # rest_marks (n - 1)"

lemma length_rest_marks [simp]: "length (rest_marks k) = k"
  by (induction k) auto

lemma length_marks [simp]: "0 < n \<Longrightarrow> length (marks n) = n"
  by (simp add: marks_def)

lemma rest_marks_nth: "j < k \<Longrightarrow> rest_marks k ! j = (if j = k - 1 then 0x01 else 0x81)"
  by (induction k arbitrary: j) (auto simp: nth_Cons' split: if_splits)

lemma marks_nth:
  "j < n \<Longrightarrow> marks n ! j =
     (if j = 0 then (if n = 1 then 0x41 else 0xC1) else if j = n - 1 then 0x01 else 0x81)"
  by (auto simp: marks_def nth_Cons' rest_marks_nth)

definition region :: "u8 list \<Rightarrow> nat \<Rightarrow> nat \<Rightarrow> bool" where
  "region es s n \<longleftrightarrow> 0 < n \<and> s + n \<le> length es \<and> take n (drop s es) = marks n"

definition regions :: "u8 list \<Rightarrow> (nat \<times> nat) set" where
  "regions es = {(s, n). region es s n}"

definition free_entry :: "u8 list \<Rightarrow> nat \<Rightarrow> bool" where
  "free_entry es j \<longleftrightarrow> heap_get_entry_type (es ! j) = HEAP_BLOCK_TABLE_ENTRY_FREE"

definition free_run :: "u8 list \<Rightarrow> nat \<Rightarrow> nat \<Rightarrow> bool" where
  "free_run es s k \<longleftrightarrow> s + k \<le> length es \<and> (\<forall>j \<in> {s..<s + k}. free_entry es j)"

definition first_fit :: "u8 list \<Rightarrow> nat \<Rightarrow> nat \<Rightarrow> bool" where
  "first_fit es k s \<longleftrightarrow> free_run es s k \<and> (\<forall>s'. free_run es s' k \<longrightarrow> s \<le> s')"

text \<open>Overwriting the entries from \<open>s\<close> on.\<close>

definition overwrite :: "u8 list \<Rightarrow> nat \<Rightarrow> u8 list \<Rightarrow> u8 list" where
  "overwrite es s xs = take s es @ xs @ drop (s + length xs) es"

lemma length_overwrite [simp]: "s + length xs \<le> length es \<Longrightarrow> length (overwrite es s xs) = length es"
  by (simp add: overwrite_def)

lemma nth_overwrite:
  "s + length xs \<le> length es \<Longrightarrow> overwrite es s xs ! j =
     (if s \<le> j \<and> j < s + length xs then xs ! (j - s) else es ! j)"
  by (auto simp: overwrite_def nth_append)

lemma region_iff_nth:
  "region es s n \<longleftrightarrow> 0 < n \<and> s + n \<le> length es \<and> (\<forall>j < n. es ! (s + j) = marks n ! j)"
  by (auto simp: region_def list_eq_iff_nth_eq)

lemma region_nth: "region es s n \<Longrightarrow> j < n \<Longrightarrow> es ! (s + j) = marks n ! j"
  by (simp add: region_iff_nth)

lemma region_bounds: "region es s n \<Longrightarrow> 0 < n \<and> s + n \<le> length es"
  by (simp add: region_def)

lemma marks_head: "marks n ! 0 = 0x41 \<or> marks n ! 0 = 0xC1"
  by (simp add: marks_def)

lemma region_start_inside:
  assumes "region es s n" and "region es s' n'" and "s < s'" and "s' < s + n"
  shows False
proof -
  have "es ! s' = marks n ! (s' - s)"
    using region_nth [OF assms(1), of "s' - s"] assms(3,4) by simp
  moreover have "es ! s' = marks n' ! 0"
    using region_nth [OF assms(2), of 0] region_bounds [OF assms(2)] by simp
  ultimately show False
    using assms(3,4) marks_head [of n'] by (simp add: marks_nth split: if_splits)
qed

lemma region_unique_length:
  assumes "region es s n" and "region es s n'"
  shows "n = n'"
proof -
  have "\<not> n < n'" if "region es s n" and "region es s n'" for n n'
  proof
    assume "n < n'"
    then have "marks n ! (n - 1) = marks n' ! (n - 1)"
      using region_nth [OF that(1), of "n - 1"] region_nth [OF that(2), of "n - 1"]
        region_bounds [OF that(1)] by simp
    then show False
      using \<open>n < n'\<close> region_bounds [OF that(1)] by (simp add: marks_nth split: if_splits)
  qed
  from this [OF assms] this [OF assms(2,1)] show ?thesis by simp
qed

lemma regions_disjoint:
  assumes "region es s n" and "region es s' n'"
  shows "(s, n) = (s', n') \<or> s + n \<le> s' \<or> s' + n' \<le> s"
proof (cases "s = s'")
  case True
  with assms region_unique_length show ?thesis by auto
next
  case False
  with region_start_inside [OF assms] region_start_inside [OF assms(2,1)] show ?thesis
    by (meson linorder_neqE_nat not_le)
qed

lemma marks_not_free: "j < n \<Longrightarrow> heap_get_entry_type (marks n ! j) \<noteq> 0"
  by (auto simp: marks_nth heap_get_entry_type_def)

lemma region_not_free: "region es s n \<Longrightarrow> j \<in> {s..<s + n} \<Longrightarrow> \<not> free_entry es j"
  using region_nth [of es s n "j - s"] marks_not_free [of "j - s" n]
  by (auto simp: free_entry_def conf)

lemma region_free_run_disjoint:
  assumes "region es s n" and "free_run es s' k" and "0 < k"
  shows "s + n \<le> s' \<or> s' + k \<le> s"
proof (rule ccontr)
  assume "\<not> ?thesis"
  then have "max s s' \<in> {s..<s + n}" and in': "max s s' \<in> {s'..<s' + k}"
    using region_bounds [OF assms(1)] assms(3) by auto
  then have "\<not> free_entry es (max s s')"
    using region_not_free [OF assms(1)] by blast
  moreover have "free_entry es (max s s')"
    using assms(2) in' unfolding free_run_def by blast
  ultimately show False ..
qed

lemma region_overwrite_other:
  assumes "s + length xs \<le> length es" and "s' + n' \<le> s \<or> s + length xs \<le> s'"
  shows "region (overwrite es s xs) s' n' \<longleftrightarrow> region es s' n'"
proof -
  have "overwrite es s xs ! (s' + j) = es ! (s' + j)" if "j < n'" for j
    using assms that by (auto simp: nth_overwrite)
  with assms(1) show ?thesis by (simp add: region_iff_nth)
qed

lemma region_overwrite_marks:
  "\<lbrakk>0 < k; s + k \<le> length es\<rbrakk> \<Longrightarrow> region (overwrite es s (marks k)) s k"
  by (simp add: region_iff_nth nth_overwrite)

lemma regions_malloc:
  assumes "free_run es s k" and "0 < k"
  shows "regions (overwrite es s (marks k)) = insert (s, k) (regions es)"
proof -
  have len: "s + length (marks k) \<le> length es"
    using assms by (simp add: free_run_def)
  have new: "region (overwrite es s (marks k)) s k"
    using assms by (intro region_overwrite_marks) (auto simp: free_run_def)
  have "region (overwrite es s (marks k)) s' n' \<longleftrightarrow> (s', n') = (s, k) \<or> region es s' n'" for s' n'
  proof
    assume r: "region (overwrite es s (marks k)) s' n'"
    from regions_disjoint [OF new r] show "(s', n') = (s, k) \<or> region es s' n'"
      using region_overwrite_other [OF len, of s' n'] r assms(2) by auto
  next
    assume "(s', n') = (s, k) \<or> region es s' n'"
    then show "region (overwrite es s (marks k)) s' n'"
    proof
      assume r: "region es s' n'"
      from region_free_run_disjoint [OF r assms] show ?thesis
        using region_overwrite_other [OF len, of s' n'] r assms(2) by auto
    qed (use new in simp)
  qed
  then show ?thesis by (auto simp: regions_def)
qed

lemma regions_free:
  assumes "region es s n"
  shows "regions (overwrite es s (replicate n 0)) = regions es - {(s, n)}"
proof -
  let ?es = "overwrite es s (replicate n 0)"
  have len: "s + length (replicate n (0 :: u8)) \<le> length es"
    using region_bounds [OF assms] by simp
  have fr: "free_run ?es s n"
    using len by (auto simp: free_run_def free_entry_def nth_overwrite heap_get_entry_type_def conf)
  have "region ?es s' n' \<longleftrightarrow> (s', n') \<noteq> (s, n) \<and> region es s' n'" for s' n'
  proof
    assume r: "region ?es s' n'"
    from region_free_run_disjoint [OF r fr] region_bounds [OF assms] region_bounds [OF r]
    show "(s', n') \<noteq> (s, n) \<and> region es s' n'"
      using region_overwrite_other [OF len, of s' n'] r by auto
  next
    assume r: "(s', n') \<noteq> (s, n) \<and> region es s' n'"
    with regions_disjoint [OF assms, of s' n'] show "region ?es s' n'"
      using region_overwrite_other [OF len, of s' n'] by auto
  qed
  then show ?thesis by (auto simp: regions_def)
qed

section \<open>The loops over the table\<close>

text \<open>
  The state of the search at block \<open>i\<close>: either no run is open and the block before is taken, or
  the free run \<open>[bs, i)\<close> is open and shorter than wanted; every run long enough starts at or
  after the open one.
\<close>

definition search_inv :: "u8 list \<Rightarrow> nat \<Rightarrow> nat \<Rightarrow> int \<Rightarrow> int \<Rightarrow> bool" where
  "search_inv es k i bc bs \<longleftrightarrow> i \<le> length es \<and>
     (if bs = - 1
      then bc = 0 \<and> (i = 0 \<or> \<not> free_entry es (i - 1)) \<and> (\<forall>s. free_run es s k \<longrightarrow> i \<le> s)
      else 0 \<le> bs \<and> bs < int i \<and> bc = int i - bs \<and> bc < int k \<and>
           free_run es (nat bs) (i - nat bs) \<and> (\<forall>s. free_run es s k \<longrightarrow> nat bs \<le> s))"

lemma free_run_Suc:
  "free_run es s (Suc n) \<longleftrightarrow> free_run es s n \<and> s + n < length es \<and> free_entry es (s + n)"
  by (auto simp: free_run_def less_Suc_eq)

lemma free_run_avoids:
  "\<lbrakk>free_run es s k; \<not> free_entry es i; s \<le> i\<rbrakk> \<Longrightarrow> s + k \<le> i"
  by (auto simp: free_run_def not_le[symmetric])

lemma search_inv_start: "search_inv es k 0 0 (- 1)"
  by (simp add: search_inv_def)

lemma search_inv_taken:
  assumes "search_inv es k i bc bs" and "i < length es" and "\<not> free_entry es i" and "0 < k"
  shows "search_inv es k (Suc i) 0 (- 1)"
proof -
  have "Suc i \<le> s" if r: "free_run es s k" for s
  proof (rule ccontr)
    assume "\<not> Suc i \<le> s"
    then have le: "s + k \<le> i"
      using free_run_avoids [OF r assms(3)] by simp
    show False
    proof (cases "bs = - 1")
      case True
      with assms(1) r have "i \<le> s" by (simp add: search_inv_def)
      with le assms(4) show False by simp
    next
      case False
      with assms(1) r have "nat bs \<le> s" and "int i - bs < int k"
        by (auto simp: search_inv_def)
      with le False assms(1) show False by (auto simp: search_inv_def)
    qed
  qed
  with assms(2,3) show ?thesis by (simp add: search_inv_def)
qed

lemma search_inv_free:
  assumes "search_inv es k i bc bs" and "i < length es" and "free_entry es i"
    and "bs' = (if bs = - 1 then int i else bs)" and "bc + 1 < int k"
  shows "search_inv es k (Suc i) (bc + 1) bs'"
proof -
  have "free_run es (nat bs') (Suc i - nat bs')"
  proof (cases "bs = - 1")
    case True
    with assms show ?thesis by (simp add: search_inv_def free_run_def)
  next
    case False
    with assms have "free_run es (nat bs) (i - nat bs)" and "nat bs < i"
      by (auto simp: search_inv_def)
    moreover from this have "Suc i - nat bs = Suc (i - nat bs)" by simp
    ultimately show ?thesis
      using assms False by (simp add: free_run_Suc)
  qed
  with assms show ?thesis by (auto simp: search_inv_def)
qed

lemma search_inv_found:
  assumes "search_inv es k i bc bs" and "i < length es" and "free_entry es i"
    and "bs' = (if bs = - 1 then int i else bs)" and "bc + 1 = int k"
  shows "first_fit es k (nat bs')" and "0 \<le> bs'"
proof -
  show "0 \<le> bs'" using assms by (auto simp: search_inv_def split: if_splits)
  show "first_fit es k (nat bs')"
  proof (cases "bs = - 1")
    case True
    with assms have "k = 1" by (simp add: search_inv_def)
    with assms True show ?thesis
      by (auto simp: search_inv_def first_fit_def free_run_def)
  next
    case False
    with assms have "free_run es (nat bs) (i - nat bs)" "nat bs < i" "k = Suc (i - nat bs)"
      by (auto simp: search_inv_def)
    with assms False show ?thesis
      by (auto simp: search_inv_def first_fit_def free_run_Suc)
  qed
qed

text \<open>
  What the search returns: the first run that is long enough; or, when there is none, -1 if the
  last block is taken, and the start of the (too short) last run otherwise.
\<close>

definition search_result :: "u8 list \<Rightarrow> nat \<Rightarrow> int \<Rightarrow> bool" where
  "search_result es k r \<longleftrightarrow>
     (0 \<le> r \<and> first_fit es k (nat r)) \<or>
     ((\<forall>s. \<not> free_run es s k) \<and>
        (if r = - 1 then es = [] \<or> \<not> free_entry es (length es - 1)
         else 0 \<le> r \<and> r < int (length es) \<and> free_run es (nat r) (length es - nat r)))"

lemma search_inv_end:
  assumes "search_inv es k (length es) bc bs" and "0 < k"
  shows "search_result es k bs"
proof -
  have none: "\<not> free_run es s k" for s
  proof
    assume r: "free_run es s k"
    then have "s + k \<le> length es" by (simp add: free_run_def)
    moreover have "if bs = - 1 then length es \<le> s else nat bs \<le> s"
      and "bs \<noteq> - 1 \<longrightarrow> int (length es) - bs < int k"
      using assms(1) r by (auto simp: search_inv_def split: if_splits)
    ultimately show False
      using assms(2) by (cases "bs = - 1") auto
  qed
  show ?thesis
  proof (cases "bs = - 1")
    case True
    with assms(1) none show ?thesis
      by (simp add: search_inv_def search_result_def)
  next
    case False
    with assms(1) none show ?thesis
      by (simp add: search_inv_def search_result_def)
  qed
qed

text \<open>
  The loop compares the length of the run with the wanted number of blocks after counting a block,
  so that a request for no block at all never stops it: it searches for a run of \<open>2 ^ 32\<close> blocks.
\<close>

definition wanted :: "u32 \<Rightarrow> nat" where
  "wanted total_blocks = (if total_blocks = 0 then 2 ^ 32 else unat total_blocks)"

lemma wanted_pos: "0 < wanted n"
  by (simp add: wanted_def unat_gt_0)

lemma wanted_eq_unat: "0 < unat n \<Longrightarrow> wanted n = unat n"
  by (auto simp: wanted_def)

lemma count_reaches_wanted:
  assumes "0 < bc" and "bc < 2 ^ 32"
  shows "u32_of_int bc = total_blocks \<longleftrightarrow> bc = int (wanted total_blocks)"
proof (cases "total_blocks = 0")
  case True
  have "u32_of_int bc \<noteq> 0"
    using assms u32_of_int_eq_iff [of bc 0] by simp
  with True assms show ?thesis by (simp add: wanted_def)
next
  case False
  with assms u32_of_int_eq_iff [of bc total_blocks] show ?thesis by (simp add: wanted_def)
qed

lemma heap_get_start_block_loop_result:
  assumes "search_inv es k i bc bs" and "n = length es" and "0 < k"
    and "k = wanted total_blocks" and "n < 2 ^ 31"
  shows "\<exists>r. heap_get_start_block_loop es i n total_blocks bc bs = Done r \<and> search_result es k r"
  using assms
proof (induction es i n total_blocks bc bs rule: heap_get_start_block_loop.induct)
  case (1 es i n total_blocks bc bs)
  show ?case
  proof (cases "i < n")
    case False
    with "1.prems" have "i = length es" by (simp add: search_inv_def)
    with "1.prems" False search_inv_end show ?thesis
      by (auto simp: heap_get_start_block_loop.simps [of es])
  next
    case True
    note in_table = this
    show ?thesis
    proof (cases "free_entry es i")
      case False
      with True "1.prems" have "search_inv es k (Suc i) 0 (- 1)"
        by (intro search_inv_taken) auto
      with True False "1.prems" show ?thesis
        using "1.IH"(1) [of "es ! i"]
        by (simp add: heap_get_start_block_loop.simps [of es] run_simps free_entry_def)
    next
      case free: True
      let ?bs = "if bs = - 1 then int i else bs"
      have bc: "0 < bc + 1" "bc + 1 < 2 ^ 32"
        using "1.prems" True by (auto simp: search_inv_def split: if_splits)
      then have "u32_of_int (bc + 1) = total_blocks \<longleftrightarrow> bc + 1 = int k"
        using "1.prems"(4) count_reaches_wanted [of "bc + 1" total_blocks] by simp
      with True free have step: "heap_get_start_block_loop es i n total_blocks bc bs =
          (if bc + 1 = int k then Done ?bs
           else heap_get_start_block_loop es (Suc i) n total_blocks (bc + 1) ?bs)"
        using "1.prems"(2)
        by (simp add: heap_get_start_block_loop.simps [of es] run_simps free_entry_def Let_def)
      show ?thesis
      proof (cases "bc + 1 = int k")
        case found: True
        have "first_fit es k (nat ?bs)" and "0 \<le> ?bs"
          using search_inv_found [of es k i bc bs ?bs] True "1.prems"(1,2) free found by blast+
        then have "search_result es k ?bs"
          by (simp add: search_result_def)
        with found step show ?thesis by simp
      next
        case False
        moreover have "bc < int k"
          using "1.prems"(1,3) by (auto simp: search_inv_def split: if_splits)
        ultimately have "search_inv es k (Suc i) (bc + 1) ?bs"
          using True free "1.prems" by (intro search_inv_free) auto
        with False True free "1.prems" step show ?thesis
          using "1.IH"(2) [of "es ! i" ?bs "bc + 1"]
            \<open>u32_of_int (bc + 1) = total_blocks \<longleftrightarrow> bc + 1 = int k\<close>
          by (simp add: free_entry_def)
      qed
    qed
  qed
qed

lemma heap_mark_blocks_taken_loop_Done:
  "i + k < length es \<Longrightarrow>
   heap_mark_blocks_taken_loop es (int i) (int (i + k)) entry =
     Done (overwrite es i (entry # rest_marks k))"
proof (induction k arbitrary: es i entry)
  case 0
  then show ?case
    by (simp add: heap_mark_blocks_taken_loop.simps run_simps overwrite_def upd_conv_take_nth_drop)
next
  case (Suc k)
  let ?next = "if k = 0 then 0x01 else 0x81 :: u8"
  have "heap_mark_blocks_taken_loop es (int i) (int (i + Suc k)) entry =
      heap_mark_blocks_taken_loop (es[i := entry]) (int (Suc i)) (int (Suc i + k)) ?next"
    using Suc.prems
    by (subst heap_mark_blocks_taken_loop.simps) (auto simp: run_simps conf add.commute)
  also have "\<dots> = Done (overwrite (es[i := entry]) (Suc i) (?next # rest_marks k))"
    using Suc.prems by (intro Suc.IH) simp
  also have "overwrite (es[i := entry]) (Suc i) (?next # rest_marks k)
      = overwrite es i (entry # rest_marks (Suc k))"
    using Suc.prems by (simp add: overwrite_def take_Suc_conv_app_nth)
  finally show ?case .
qed

lemma heap_mark_blocks_taken_loop_Fault:
  "\<lbrakk>i \<le> length es; length es \<le> i + k\<rbrakk> \<Longrightarrow>
   heap_mark_blocks_taken_loop es (int i) (int (i + k)) entry = Fault"
proof (induction "length es - i" arbitrary: es i k entry)
  case 0
  then show ?case
    by (simp add: heap_mark_blocks_taken_loop.simps run_simps)
next
  case (Suc d)
  then obtain k' where k: "k = Suc k'"
    by (cases k) auto
  have "heap_mark_blocks_taken_loop (es[i := entry]) (int (Suc i)) (int (Suc i + k')) e = Fault" for e
    using Suc k by (intro Suc.hyps(1)) auto
  then show ?case
    using Suc k by (subst heap_mark_blocks_taken_loop.simps) (simp add: run_simps add.commute)
qed

lemma heap_mark_blocks_free_loop_rest:
  assumes "i + k \<le> length es" and "\<forall>j < k. es ! (i + j) = rest_marks k ! j" and "0 < k"
  shows "heap_mark_blocks_free_loop es i (length es) = Done (overwrite es i (replicate k 0))"
  using assms
proof (induction k arbitrary: es i)
  case (Suc k)
  have head: "es ! i = (if k = 0 then 0x01 else 0x81)"
    using Suc.prems(2) [rule_format, of 0] by simp
  show ?case
  proof (cases "k = 0")
    case True
    with Suc.prems head show ?thesis
      by (simp add: heap_mark_blocks_free_loop.simps [of es] run_simps conf overwrite_def
          upd_conv_take_nth_drop)
  next
    case False
    let ?es = "es[i := 0]"
    have "?es ! (Suc i + j) = rest_marks k ! j" if "j < k" for j
      using Suc.prems(2) [rule_format, of "Suc j"] that by simp
    then have "heap_mark_blocks_free_loop ?es (Suc i) (length ?es)
        = Done (overwrite ?es (Suc i) (replicate k 0))"
      using Suc.prems False by (intro Suc.IH) auto
    moreover have "overwrite ?es (Suc i) (replicate k 0) = overwrite es i (replicate (Suc k) 0)"
      using Suc.prems by (simp add: overwrite_def take_Suc_conv_app_nth)
    ultimately show ?thesis
      using False head Suc.prems(1)
      by (simp add: heap_mark_blocks_free_loop.simps [of es] run_simps conf)
  qed
qed simp

lemma heap_mark_blocks_free_loop_region:
  assumes "region es s n"
  shows "heap_mark_blocks_free_loop es s (length es) = Done (overwrite es s (replicate n 0))"
proof -
  note b = region_bounds [OF assms]
  have head: "es ! s = (if n = 1 then 0x41 else 0xC1)"
    using region_nth [OF assms, of 0] b by (simp add: marks_nth)
  show ?thesis
  proof (cases "n = 1")
    case True
    with b head show ?thesis
      by (simp add: heap_mark_blocks_free_loop.simps [of es] run_simps conf overwrite_def
          upd_conv_take_nth_drop)
  next
    case False
    let ?es = "es[s := 0]" and ?k = "n - 1"
    have "?es ! (Suc s + j) = rest_marks ?k ! j" if "j < ?k" for j
    proof -
      have "es ! (s + Suc j) = marks n ! Suc j"
        using region_nth [OF assms, of "Suc j"] that by simp
      then show ?thesis by (simp add: marks_def)
    qed
    then have "heap_mark_blocks_free_loop ?es (Suc s) (length ?es)
        = Done (overwrite ?es (Suc s) (replicate ?k 0))"
      using False b by (intro heap_mark_blocks_free_loop_rest) auto
    moreover have "overwrite ?es (Suc s) (replicate ?k 0) = overwrite es s (replicate n 0)"
      using b by (cases n) (simp_all add: overwrite_def take_Suc_conv_app_nth)
    ultimately show ?thesis
      using False b head by (simp add: heap_mark_blocks_free_loop.simps [of es] run_simps conf)
  qed
qed

section \<open>Well-formed heaps\<close>

text \<open>
  The invariant of a heap: the table has \<open>total\<close> entries, the area is aligned, does not wrap
  around the address space, is at most 2 GB (beyond that the \<^verbatim>\<open>(int)\<close> cast in
  \<open>heap_address_to_block\<close> is negative), and every entry is either zero or part of a region.
\<close>

definition tiled :: "u8 list \<Rightarrow> bool" where
  "tiled es \<longleftrightarrow> (\<forall>i < length es. es ! i = 0 \<or> (\<exists>(s, n) \<in> regions es. s \<le> i \<and> i < s + n))"

definition heap_ok :: "heap \<Rightarrow> bool" where
  "heap_ok hp \<longleftrightarrow>
     unat (total (table hp)) = length (entries (table hp)) \<and>
     heap_validate_alignment (saddr hp) \<and> saddr hp \<noteq> 0 \<and>
     unat (saddr hp) + 4096 * length (entries (table hp)) \<le> 2 ^ 32 \<and>
     4096 * length (entries (table hp)) \<le> 2 ^ 31 \<and>
     tiled (entries (table hp))"

definition set_entries :: "heap \<Rightarrow> u8 list \<Rightarrow> heap" where
  "set_entries hp es = hp\<lparr>table := (table hp)\<lparr>entries := es\<rparr>\<rparr>"

lemma set_entries_simps [simp]:
  "entries (table (set_entries hp es)) = es"
  "total (table (set_entries hp es)) = total (table hp)"
  "saddr (set_entries hp es) = saddr hp"
  "set_entries (set_entries hp es) es' = set_entries hp es'"
  "set_entries hp (entries (table hp)) = hp"
  by (simp_all add: set_entries_def)

lemma tiled_malloc:
  assumes "tiled es" and "free_run es s k" and "0 < k"
  shows "tiled (overwrite es s (marks k))"
  unfolding tiled_def
proof (intro allI impI)
  fix i
  assume i: "i < length (overwrite es s (marks k))"
  have len: "s + length (marks k) \<le> length es"
    using assms by (simp add: free_run_def)
  show "overwrite es s (marks k) ! i = 0 \<or>
      (\<exists>(s', n') \<in> regions (overwrite es s (marks k)). s' \<le> i \<and> i < s' + n')"
    using assms i len by (auto simp: regions_malloc nth_overwrite tiled_def)
qed

lemma tiled_free:
  assumes "tiled es" and "region es s n"
  shows "tiled (overwrite es s (replicate n 0))"
  unfolding tiled_def
proof (intro allI impI)
  fix i
  let ?es = "overwrite es s (replicate n 0)"
  have len: "s + length (replicate n (0 :: u8)) \<le> length es"
    using region_bounds [OF assms(2)] by simp
  assume "i < length ?es"
  then have i: "i < length es" using len by simp
  show "?es ! i = 0 \<or> (\<exists>(s', n') \<in> regions ?es. s' \<le> i \<and> i < s' + n')"
  proof (cases "s \<le> i \<and> i < s + n")
    case True
    then have "i - s < n" by linarith
    with True show ?thesis using len by (simp add: nth_overwrite)
  next
    case False
    then have "?es ! i = es ! i"
      using len by (auto simp: nth_overwrite)
    with False assms(1) i show ?thesis
      by (auto simp: regions_free [OF assms(2)] tiled_def)
  qed
qed

lemma heap_ok_malloc:
  "\<lbrakk>heap_ok hp; free_run (entries (table hp)) s k; 0 < k\<rbrakk>
    \<Longrightarrow> heap_ok (set_entries hp (overwrite (entries (table hp)) s (marks k)))"
  by (auto simp: heap_ok_def free_run_def intro!: tiled_malloc)

lemma heap_ok_free:
  "\<lbrakk>heap_ok hp; region (entries (table hp)) s n\<rbrakk>
    \<Longrightarrow> heap_ok (set_entries hp (overwrite (entries (table hp)) s (replicate n 0)))"
  by (auto simp: heap_ok_def region_def intro!: tiled_free)

lemma tiled_free_entry: "\<lbrakk>tiled es; i < length es; free_entry es i\<rbrakk> \<Longrightarrow> es ! i = 0"
  by (fastforce simp: tiled_def regions_def dest: region_not_free)

lemma overwrite_back:
  assumes "tiled es" and "free_run es s k" and "0 < k"
  shows "overwrite (overwrite es s (marks k)) s (replicate k 0) = es"
proof (rule nth_equalityI)
  have len: "s + length (marks k) \<le> length es"
    using assms by (simp add: free_run_def)
  then show "length (overwrite (overwrite es s (marks k)) s (replicate k 0)) = length es"
    using assms(3) by simp
  fix i
  assume "i < length (overwrite (overwrite es s (marks k)) s (replicate k 0))"
  then have "i < length es" using len assms(3) by simp
  moreover have "es ! i = 0" if "s \<le> i" "i < s + k"
    using assms that len by (intro tiled_free_entry) (auto simp: free_run_def)
  ultimately show "overwrite (overwrite es s (marks k)) s (replicate k 0) ! i = es ! i"
    using len assms(3) by (auto simp: nth_overwrite)
qed

section \<open>Addresses and sizes\<close>

lemma unat_block_size: "unat PANDORAOS_HEAP_BLOCK_SIZE = 4096"
  by (simp add: conf)

lemma unat_mod_block: "unat (w mod PANDORAOS_HEAP_BLOCK_SIZE) = unat w mod 4096"
  by (simp add: unat_mod unat_block_size)

text \<open>The number of blocks \<open>heap_malloc\<close> asks for.\<close>

definition blocks_for :: "u32 \<Rightarrow> u32" where
  "blocks_for sz = heap_align_value_to_upper sz div PANDORAOS_HEAP_BLOCK_SIZE"

definition blocks_needed :: "nat \<Rightarrow> nat" where
  "blocks_needed n = (n + 4095) div 4096"

lemma blocks_needed_eq:
  "r < 4096 \<Longrightarrow> blocks_needed (4096 * q + r) = q + (if r = 0 then 0 else 1)"
  unfolding blocks_needed_def by (cases r) auto

lemma blocks_needed_div_mod:
  "blocks_needed n = n div 4096 + (if n mod 4096 = 0 then 0 else 1)"
  using blocks_needed_eq [of "n mod 4096" "n div 4096"] by simp

lemma blocks_needed_pos [simp]: "0 < blocks_needed n \<longleftrightarrow> 0 < n"
  by (auto simp: blocks_needed_def div_eq_0_iff)

lemma blocks_needed_enough: "n \<le> 4096 * blocks_needed n"
proof -
  have "n = 4096 * (n div 4096) + n mod 4096" by simp
  moreover have "n mod 4096 < 4096" by simp
  ultimately show ?thesis
    unfolding blocks_needed_div_mod [of n] by (cases "n mod 4096 = 0") simp_all
qed

lemma unat_minus_mod_block:
  "unat (w - w mod PANDORAOS_HEAP_BLOCK_SIZE) = 4096 * (unat w div 4096)"
proof -
  have "w mod PANDORAOS_HEAP_BLOCK_SIZE \<le> w"
    by (simp add: word_le_nat_alt unat_mod_block)
  then have "unat (w - w mod PANDORAOS_HEAP_BLOCK_SIZE) = unat w - unat w mod 4096"
    by (simp add: unat_sub unat_mod_block)
  then show ?thesis by (simp add: minus_mod_eq_mult_div)
qed

lemma mod_block_eq_0: "w mod PANDORAOS_HEAP_BLOCK_SIZE = 0 \<longleftrightarrow> unat w mod 4096 = 0"
  by (simp add: word_unat_eq_iff unat_mod_block)

lemma heap_align_value_to_upper_ok:
  assumes "unat sz \<le> 0xFFFFF000"
  shows "unat (heap_align_value_to_upper sz) = 4096 * blocks_needed (unat sz)"
proof (cases "unat sz mod 4096 = 0")
  case True
  moreover from this have "4096 * (unat sz div 4096) = unat sz"
    by (metis add.right_neutral mult_div_mod_eq)
  ultimately show ?thesis
    by (simp add: heap_align_value_to_upper_def mod_block_eq_0 blocks_needed_div_mod)
next
  case False
  let ?q = "unat sz div 4096"
  have "4096 * ?q + unat sz mod 4096 \<le> 0xFFFFF000"
    using assms by simp
  with False have "?q < 0xFFFFF" by linarith
  then have small: "4096 * ?q + 4096 < 2 ^ 32" by simp
  have "unat ((sz - sz mod PANDORAOS_HEAP_BLOCK_SIZE) + PANDORAOS_HEAP_BLOCK_SIZE)
      = 4096 * ?q + 4096"
    using small unat_minus_mod_block [of sz] by (subst unat_add_u32) (simp_all add: unat_block_size)
  with False show ?thesis
    by (simp add: heap_align_value_to_upper_def mod_block_eq_0 blocks_needed_div_mod)
qed

lemma unat_blocks_for:
  "unat sz \<le> 0xFFFFF000 \<Longrightarrow> unat (blocks_for sz) = blocks_needed (unat sz)"
  by (simp add: blocks_for_def unat_div unat_block_size heap_align_value_to_upper_ok)

text \<open>Sizes in the last page of the address space wrap around to zero blocks.\<close>

lemma blocks_for_wraps:
  assumes "0xFFFFF000 < unat sz"
  shows "blocks_for sz = 0"
proof -
  have eq: "4096 * (unat sz div 4096) + unat sz mod 4096 = unat sz" and lt: "unat sz mod 4096 < 4096"
    by simp_all
  with assms have "0xFFFFF \<le> unat sz div 4096" by linarith
  moreover have "unat sz div 4096 \<le> 0xFFFFF"
    using eq unat_u32_less [of sz] by linarith
  ultimately have q: "unat sz div 4096 = 0xFFFFF" by simp
  with eq assms have md: "unat sz mod 4096 \<noteq> 0" by linarith
  have "unat (sz - sz mod PANDORAOS_HEAP_BLOCK_SIZE) = unat (0xFFFFF000 :: u32)"
    unfolding unat_minus_mod_block q by simp
  then have "sz - sz mod PANDORAOS_HEAP_BLOCK_SIZE = 0xFFFFF000"
    by (simp only: word_unat_eq_iff)
  moreover have "sz mod PANDORAOS_HEAP_BLOCK_SIZE \<noteq> 0"
    using md by (simp add: mod_block_eq_0)
  ultimately show ?thesis
    by (simp add: blocks_for_def heap_align_value_to_upper_def) (simp add: conf)
qed

lemma heap_ok_bounds:
  assumes "heap_ok hp" and "s < length (entries (table hp))"
  shows "unat (of_nat s :: u32) = s" and "sint (of_nat s :: u32) = int s"
    and "unat (heap_block_to_address hp (of_nat s)) = unat (saddr hp) + 4096 * s"
proof -
  have s: "4096 * s < 2 ^ 31" "unat (saddr hp) + 4096 * s < 2 ^ 32"
    using assms by (auto simp: heap_ok_def)
  then show u: "unat (of_nat s :: u32) = s"
    by (intro unat_of_nat_u32) simp
  show "sint (of_nat s :: u32) = int s"
    using s by (intro sint_of_nat_u32) simp
  have m: "unat (of_nat s * PANDORAOS_HEAP_BLOCK_SIZE) = s * 4096"
    using s u by (subst unat_mult_u32) (simp_all add: unat_block_size)
  show "unat (heap_block_to_address hp (of_nat s)) = unat (saddr hp) + 4096 * s"
    unfolding heap_block_to_address_def
    using s m by (subst unat_add_u32) simp_all
qed

section \<open>What the operations do to a well-formed heap\<close>

text \<open>The address of block \<open>s\<close>.\<close>

abbreviation block_addr :: "heap \<Rightarrow> nat \<Rightarrow> addr" where
  "block_addr hp s \<equiv> heap_block_to_address hp (of_nat s)"

lemma heap_malloc_blocks_for: "heap_malloc hp sz = heap_malloc_blocks hp (blocks_for sz)"
  by (simp add: heap_malloc_def blocks_for_def Let_def)

lemma heap_get_start_block_result:
  assumes "heap_ok hp"
  shows "\<exists>r. search_result (entries (table hp)) (wanted n) r \<and>
     heap_get_start_block hp n = Done (if r = - 1 then - ENOMEM else r)"
proof -
  obtain r where "heap_get_start_block_loop (entries (table hp)) 0 (length (entries (table hp))) n
      0 (- 1) = Done r" and r: "search_result (entries (table hp)) (wanted n) r"
    using heap_get_start_block_loop_result
      [OF search_inv_start [of "entries (table hp)"] refl wanted_pos refl] assms
    by (auto simp: heap_ok_def)
  with assms have "heap_get_start_block hp n = Done (if r = - 1 then - ENOMEM else r)"
    by (simp del: andthen_eq_Done add: heap_get_start_block_def heap_ok_def)
  with r show ?thesis by blast
qed

lemma heap_mark_blocks_taken_Done:
  assumes "heap_ok hp" and "s + k \<le> length (entries (table hp))" and "0 < k" and "unat n = k"
  shows "heap_mark_blocks_taken hp (of_nat s) n
    = Done (set_entries hp (overwrite (entries (table hp)) s (marks k)))"
proof -
  have s: "s < length (entries (table hp))" and last: "s + (k - 1) < length (entries (table hp))"
    using assms by auto
  have n: "n = of_nat k"
    using assms(4) by (simp add: word_unat_eq_iff unat_of_nat_u32 flip: assms(4))
  have e: "(of_nat s + n) - 1 = (of_nat (s + (k - 1)) :: u32)"
    using assms(3) by (cases k) (simp_all add: n)
  have "n > 1 \<longleftrightarrow> k > 1"
    using assms(4) by (auto simp: word_less_nat_alt)
  then show ?thesis
    using assms heap_ok_bounds(2) [OF assms(1) s] heap_ok_bounds(2) [OF assms(1) last]
      heap_mark_blocks_taken_loop_Done [OF last]
    by (simp add: heap_mark_blocks_taken_def e Let_def set_entries_def marks_def conf)
qed

lemma heap_mark_blocks_taken_Fault:
  assumes "heap_ok hp" and "s < length (entries (table hp))"
    and "length (entries (table hp)) < s + k" and "unat n = k" and "k < 2 ^ 20"
  shows "heap_mark_blocks_taken hp (of_nat s) n = Fault"
proof -
  have sk: "s + (k - 1) < 2 ^ 31"
    using assms by (auto simp: heap_ok_def)
  have n: "n = of_nat k"
    using assms(4) by (simp add: word_unat_eq_iff unat_of_nat_u32 flip: assms(4))
  have k: "0 < k" using assms(2,3) by simp
  have e: "(of_nat s + n) - 1 = (of_nat (s + (k - 1)) :: u32)"
    using k by (cases k) (simp_all add: n)
  have "heap_mark_blocks_taken_loop (entries (table hp)) (int s) (int (s + (k - 1))) entry = Fault"
    for entry
    using assms(2,3) k by (intro heap_mark_blocks_taken_loop_Fault) auto
  then show ?thesis
    using heap_ok_bounds(2) [OF assms(1,2)] sint_of_nat_u32 [OF sk]
    by (simp add: heap_mark_blocks_taken_def e Let_def)
qed

lemma heap_malloc_blocks_fit:
  assumes "heap_ok hp" and "0 < unat n" and "first_fit (entries (table hp)) (unat n) s"
  shows "heap_malloc_blocks hp n =
    Done (block_addr hp s, set_entries hp (overwrite (entries (table hp)) s (marks (unat n))))"
proof -
  have run: "free_run (entries (table hp)) s (unat n)"
    using assms(3) by (simp add: first_fit_def)
  obtain r where r: "search_result (entries (table hp)) (unat n) r"
    and get: "heap_get_start_block hp n = Done (if r = - 1 then - ENOMEM else r)"
    using heap_get_start_block_result [OF assms(1), of n] wanted_eq_unat [OF assms(2)] by auto
  from r run have "0 \<le> r" and "first_fit (entries (table hp)) (unat n) (nat r)"
    by (auto simp: search_result_def)
  with assms(3) have "nat r = s"
    by (auto simp: first_fit_def intro: antisym)
  with \<open>0 \<le> r\<close> have "r = int s" by simp
  with get assms run show ?thesis
    by (simp add: heap_malloc_blocks_def free_run_def heap_mark_blocks_taken_Done)
qed

lemma heap_malloc_blocks_full:
  assumes "heap_ok hp" and "0 < unat n" and "\<forall>s. \<not> free_run (entries (table hp)) s (unat n)"
    and "entries (table hp) = [] \<or> \<not> free_entry (entries (table hp)) (length (entries (table hp)) - 1)"
  shows "heap_malloc_blocks hp n = Done (0, hp)"
proof -
  obtain r where r: "search_result (entries (table hp)) (unat n) r"
    and get: "heap_get_start_block hp n = Done (if r = - 1 then - ENOMEM else r)"
    using heap_get_start_block_result [OF assms(1), of n] wanted_eq_unat [OF assms(2)] by auto
  have "r = - 1"
  proof (rule ccontr)
    assume "r \<noteq> - 1"
    with r assms(3) have "0 \<le> r" "r < int (length (entries (table hp)))"
      and "free_run (entries (table hp)) (nat r) (length (entries (table hp)) - nat r)"
      by (auto simp: search_result_def first_fit_def split: if_splits)
    then have "entries (table hp) \<noteq> []" and "free_entry (entries (table hp)) (length (entries (table hp)) - 1)"
      by (force simp: free_run_def)+
    with assms(4) show False by simp
  qed
  with get show ?thesis by (simp add: heap_malloc_blocks_def conf)
qed

lemma heap_malloc_blocks_zero_full:
  assumes "heap_ok hp"
    and "entries (table hp) = [] \<or> \<not> free_entry (entries (table hp)) (length (entries (table hp)) - 1)"
  shows "heap_malloc_blocks hp 0 = Done (0, hp)"
proof -
  obtain r where r: "search_result (entries (table hp)) (wanted 0) r"
    and get: "heap_get_start_block hp 0 = Done (if r = - 1 then - ENOMEM else r)"
    using heap_get_start_block_result [OF assms(1)] by blast
  have "\<not> free_run (entries (table hp)) s (wanted 0)" for s
    using assms(1) by (auto simp: free_run_def wanted_def heap_ok_def)
  with r have "r = - 1 \<or> (0 \<le> r \<and> r < int (length (entries (table hp))) \<and>
      free_run (entries (table hp)) (nat r) (length (entries (table hp)) - nat r))"
    by (auto simp: search_result_def first_fit_def split: if_splits)
  with assms(2) have "r = - 1"
    by (force simp: free_run_def)
  with get show ?thesis by (simp add: heap_malloc_blocks_def conf)
qed

lemma heap_malloc_blocks_overrun:
  assumes "heap_ok hp" and "0 < unat n" and "unat n < 2 ^ 20"
    and "\<forall>s. \<not> free_run (entries (table hp)) s (unat n)"
    and "entries (table hp) \<noteq> []" and "free_entry (entries (table hp)) (length (entries (table hp)) - 1)"
  shows "heap_malloc_blocks hp n = Fault"
proof -
  obtain r where r: "search_result (entries (table hp)) (unat n) r"
    and get: "heap_get_start_block hp n = Done (if r = - 1 then - ENOMEM else r)"
    using heap_get_start_block_result [OF assms(1), of n] wanted_eq_unat [OF assms(2)] by auto
  from r assms(4-6) have "r \<noteq> - 1" and r0: "0 \<le> r" and rn: "r < int (length (entries (table hp)))"
    and run: "free_run (entries (table hp)) (nat r) (length (entries (table hp)) - nat r)"
    by (auto simp: search_result_def first_fit_def split: if_splits)
  have "length (entries (table hp)) < nat r + unat n"
  proof (rule ccontr)
    assume "\<not> ?thesis"
    with run have "free_run (entries (table hp)) (nat r) (unat n)"
      by (auto simp: free_run_def)
    with assms(4) show False by blast
  qed
  with get \<open>r \<noteq> - 1\<close> r0 rn assms(1,3) show ?thesis
    using heap_mark_blocks_taken_Fault [of hp "nat r" "unat n" n]
    by (simp add: heap_malloc_blocks_def Let_def)
qed

lemma heap_malloc_blocks_zero:
  assumes "heap_ok hp" and "entries (table hp) \<noteq> []"
    and "free_entry (entries (table hp)) (length (entries (table hp)) - 1)"
  shows "\<exists>s < length (entries (table hp)). free_entry (entries (table hp)) s \<and>
    heap_malloc_blocks hp 0 = Done (block_addr hp s, hp)"
proof -
  obtain r where r: "search_result (entries (table hp)) (wanted 0) r"
    and get: "heap_get_start_block hp 0 = Done (if r = - 1 then - ENOMEM else r)"
    using heap_get_start_block_result [OF assms(1)] by blast
  have "\<not> free_run (entries (table hp)) s (wanted 0)" for s
    using assms(1) by (auto simp: free_run_def wanted_def heap_ok_def)
  with r assms(2,3) have "r \<noteq> - 1" and r0: "0 \<le> r" and rn: "r < int (length (entries (table hp)))"
    and run: "free_run (entries (table hp)) (nat r) (length (entries (table hp)) - nat r)"
    by (auto simp: search_result_def first_fit_def split: if_splits)
  have s: "nat r < length (entries (table hp))" using rn r0 by simp
  have "int_of_u32 (u32_of_int r - 1) < int_of_u32 (u32_of_int r)"
  proof (cases "r = 0")
    case False
    then have "u32_of_int r - 1 = of_nat (nat r - 1)" using r0 by (simp add: of_nat_diff)
    moreover have "sint (of_nat (nat r - 1) :: u32) = int (nat r - 1)"
      using heap_ok_bounds(2) [OF assms(1), of "nat r - 1"] s by simp
    ultimately show ?thesis
      using heap_ok_bounds(2) [OF assms(1) s] r0 False by simp
  qed simp
  then have "heap_mark_blocks_taken hp (u32_of_int r) 0 = Done hp"
    by (simp add: heap_mark_blocks_taken_def Let_def heap_mark_blocks_taken_loop.simps)
  with get \<open>r \<noteq> - 1\<close> r0 have "heap_malloc_blocks hp 0 = Done (block_addr hp (nat r), hp)"
    by (simp add: heap_malloc_blocks_def Let_def)
  moreover have "free_entry (entries (table hp)) (nat r)"
    using run s by (simp add: free_run_def)
  ultimately show ?thesis using s by blast
qed

lemma heap_address_to_block_inside:
  assumes "heap_ok hp" and "s < length (entries (table hp))" and "off < 4096"
  shows "heap_address_to_block hp (block_addr hp s + of_nat off) = int s"
proof -
  have "block_addr hp s + of_nat off - saddr hp = of_nat (s * 4096 + off)"
    by (simp add: heap_block_to_address_def conf)
  moreover have "s * 4096 + off < 2 ^ 31"
    using assms by (auto simp: heap_ok_def)
  ultimately have "sint (block_addr hp s + of_nat off - saddr hp) = int (s * 4096 + off)"
    by (simp only: sint_of_nat_u32)
  moreover have "int (s * 4096 + off) sdiv 4096 = int s"
    using assms(3) by (cases "s * 4096 + off = 0") (auto simp: signed_divide_int_def sgn_if)
  ultimately show ?thesis
    by (simp add: heap_address_to_block_def) (simp add: conf)
qed

lemma heap_free_region:
  assumes "heap_ok hp" and "region (entries (table hp)) s n"
  shows "heap_free hp (block_addr hp s) =
    Done (set_entries hp (overwrite (entries (table hp)) s (replicate n 0)))"
proof -
  have s: "s < length (entries (table hp))"
    using region_bounds [OF assms(2)] by simp
  have "heap_address_to_block hp (block_addr hp s) = int s"
    using heap_address_to_block_inside [OF assms(1) s, of 0] by simp
  with assms s show ?thesis
    by (simp add: heap_free_def heap_mark_blocks_free_def heap_ok_bounds(1)
        heap_mark_blocks_free_loop_region set_entries_def heap_ok_def)
qed

end
