(* ===== verification/Kheap.thy ===== *)
theory Kheap
  imports Heap_Blocks
begin

text \<open>
  The kernel heap, \<^verbatim>\<open>src/memory/heap/kheap.c\<close>, on top of the block allocator, and the interface
  its clients use. \<open>allocator\<close> states what a client may rely on: fresh allocations are disjoint
  from the live ones, a release removes exactly one of them, and an allocation followed by its
  release changes nothing. It is interpreted on \<open>heap_malloc\<close>/\<open>heap_free\<close> and on
  \<open>kzalloc\<close>/\<open>kfree\<close>. The kernel memory (\<open>kmem\<close>) holds the heap and the byte buffers
  allocated in it; the theories of the clients extend it with their own objects.
\<close>

section \<open>The abstract allocator\<close>

text \<open>
  \<open>allocations\<close> is the abstract state of a heap: the set of its (first block, number of blocks)
  pairs. \<open>gap\<close> says that an interval of blocks lies inside the heap and avoids all of them.
\<close>

definition allocations :: "heap \<Rightarrow> (nat \<times> nat) set" where
  "allocations hp = regions (entries (table hp))"

definition heap_blocks :: "heap \<Rightarrow> nat" where
  "heap_blocks hp = length (entries (table hp))"

definition gap :: "(nat \<times> nat) set \<Rightarrow> nat \<Rightarrow> nat \<Rightarrow> nat \<Rightarrow> bool" where
  "gap A n s k \<longleftrightarrow> s + k \<le> n \<and> (\<forall>(s', n') \<in> A. s' + n' \<le> s \<or> s + k \<le> s')"

lemma gap_iff_free_run:
  assumes "heap_ok hp" and "0 < k"
  shows "gap (allocations hp) (heap_blocks hp) s k \<longleftrightarrow> free_run (entries (table hp)) s k"
proof
  assume "free_run (entries (table hp)) s k"
  then show "gap (allocations hp) (heap_blocks hp) s k"
    using region_free_run_disjoint [OF _ _ assms(2)]
    by (fastforce simp: gap_def allocations_def heap_blocks_def regions_def free_run_def)
next
  assume g: "gap (allocations hp) (heap_blocks hp) s k"
  have "free_entry (entries (table hp)) j" if j: "s \<le> j" "j < s + k" for j
  proof -
    have len: "j < length (entries (table hp))"
      using g j by (simp add: gap_def heap_blocks_def)
    have "\<not> (s' \<le> j \<and> j < s' + n')" if "(s', n') \<in> regions (entries (table hp))" for s' n'
      using g that j by (fastforce simp: gap_def allocations_def)
    then have "entries (table hp) ! j = 0"
      using assms(1) len by (fastforce simp: heap_ok_def tiled_def)
    then show ?thesis
      by (simp add: free_entry_def heap_get_entry_type_def conf)
  qed
  with g show "free_run (entries (table hp)) s k"
    by (simp add: free_run_def gap_def heap_blocks_def)
qed

lemma first_fit_iff_gap:
  assumes "heap_ok hp" and "0 < k"
  shows "first_fit (entries (table hp)) k s \<longleftrightarrow>
    gap (allocations hp) (heap_blocks hp) s k \<and>
    (\<forall>s'. gap (allocations hp) (heap_blocks hp) s' k \<longrightarrow> s \<le> s')"
  by (simp add: first_fit_def gap_iff_free_run [OF assms])

lemma gap_last:
  assumes "heap_ok hp"
  shows "gap (allocations hp) (heap_blocks hp) (heap_blocks hp - 1) 1 \<longleftrightarrow>
    entries (table hp) \<noteq> [] \<and> free_entry (entries (table hp)) (length (entries (table hp)) - 1)"
proof (cases "entries (table hp) = []")
  case False
  then have "{heap_blocks hp - 1..<heap_blocks hp - 1 + 1} = {heap_blocks hp - 1}"
    by auto
  with False gap_iff_free_run [OF assms, of 1 "heap_blocks hp - 1"] show ?thesis
    by (simp add: free_run_def heap_blocks_def Suc_le_eq)
qed (simp add: gap_def heap_blocks_def)

lemma gap_least:
  assumes "gap A n s k"
  obtains s' where "gap A n s' k" and "\<forall>s''. gap A n s'' k \<longrightarrow> s' \<le> s''"
  using assms LeastI [of "\<lambda>s. gap A n s k"] Least_le [of "\<lambda>s. gap A n s k"] by blast

text \<open>The effect of the two operations on the abstract state.\<close>

lemma heap_malloc_least_gap:
  assumes "heap_ok hp" and "0 < unat sz" and "unat sz \<le> 0xFFFFF000"
    and "k = blocks_needed (unat sz)"
    and "gap (allocations hp) (heap_blocks hp) s k"
    and "\<forall>s'. gap (allocations hp) (heap_blocks hp) s' k \<longrightarrow> s \<le> s'"
  shows "\<exists>hp'. heap_malloc hp sz = Done (block_addr hp s, hp') \<and> heap_ok hp' \<and>
    allocations hp' = insert (s, k) (allocations hp) \<and> saddr hp' = saddr hp \<and>
    heap_blocks hp' = heap_blocks hp \<and> heap_free hp' (block_addr hp s) = Done hp"
proof -
  let ?es = "entries (table hp)"
  let ?hp = "set_entries hp (overwrite ?es s (marks k))"
  have k: "0 < k" and n: "unat (blocks_for sz) = k"
    using assms(2-4) by (simp_all add: unat_blocks_for)
  have ff: "first_fit ?es k s"
    using assms(5,6) by (simp add: first_fit_iff_gap [OF assms(1) k])
  then have run: "free_run ?es s k" by (simp add: first_fit_def)
  then have len: "s + length (marks k) \<le> length ?es"
    using k by (simp add: free_run_def)
  have "heap_malloc hp sz = Done (block_addr hp s, ?hp)"
    using heap_malloc_blocks_fit [OF assms(1), of "blocks_for sz" s] k n ff
    by (simp add: heap_malloc_blocks_for)
  moreover have ok: "heap_ok ?hp"
    using heap_ok_malloc [OF assms(1) run k] .
  moreover have "allocations ?hp = insert (s, k) (allocations hp)"
    by (simp add: allocations_def regions_malloc [OF run k])
  moreover have "heap_blocks ?hp = heap_blocks hp"
    using len by (simp add: heap_blocks_def)
  moreover have "heap_free ?hp (block_addr hp s) = Done hp"
  proof -
    have "region (entries (table ?hp)) s k"
      using k len by (simp add: region_overwrite_marks)
    from heap_free_region [OF ok this] show ?thesis
      using overwrite_back [OF _ run k] assms(1)
      by (simp add: heap_ok_def heap_block_to_address_def)
  qed
  ultimately show ?thesis by auto
qed

lemma heap_free_allocation:
  assumes "heap_ok hp" and "(s, k) \<in> allocations hp"
  shows "\<exists>hp'. heap_free hp (block_addr hp s) = Done hp' \<and> heap_ok hp' \<and>
    allocations hp' = allocations hp - {(s, k)} \<and> saddr hp' = saddr hp \<and>
    heap_blocks hp' = heap_blocks hp"
proof -
  have r: "region (entries (table hp)) s k"
    using assms(2) by (simp add: allocations_def regions_def)
  with heap_free_region [OF assms(1) r] heap_ok_free [OF assms(1) r] show ?thesis
    using region_bounds [OF r]
    by (simp add: allocations_def heap_blocks_def regions_free)
qed

lemma heap_malloc_cases:
  assumes "heap_ok hp" and "0 < unat sz" and "unat sz \<le> 0xFFFFF000"
    and "heap_malloc hp sz = Done (p, hp')"
  shows "(p = 0 \<and> hp' = hp) \<or>
    (\<exists>s. gap (allocations hp) (heap_blocks hp) s (blocks_needed (unat sz)) \<and>
       p = block_addr hp s \<and> heap_ok hp' \<and> saddr hp' = saddr hp \<and>
       heap_blocks hp' = heap_blocks hp \<and> heap_free hp' p = Done hp \<and>
       allocations hp' = insert (s, blocks_needed (unat sz)) (allocations hp))"
proof (cases "\<exists>s. gap (allocations hp) (heap_blocks hp) s (blocks_needed (unat sz))")
  case True
  then obtain s where "gap (allocations hp) (heap_blocks hp) s (blocks_needed (unat sz))"
    and "\<forall>s'. gap (allocations hp) (heap_blocks hp) s' (blocks_needed (unat sz)) \<longrightarrow> s \<le> s'"
    using gap_least by blast
  with heap_malloc_least_gap [OF assms(1-3) refl this] assms(4) show ?thesis by auto
next
  case False
  let ?n = "blocks_for sz"
  have n: "unat ?n = blocks_needed (unat sz)" "0 < unat ?n"
    using assms(2,3) by (simp_all add: unat_blocks_for)
  then have none: "\<forall>s. \<not> free_run (entries (table hp)) s (unat ?n)"
    using False gap_iff_free_run [OF assms(1) n(2)] by simp
  have small: "unat ?n < 2 ^ 20 \<or> entries (table hp) = []"
  proof -
    have "4096 * unat ?n \<le> 0xFFFFF000 + 4095"
    proof -
      have "4096 * blocks_needed (unat sz) = unat (heap_align_value_to_upper sz)"
        using assms(3) by (simp add: heap_align_value_to_upper_ok)
      then show ?thesis
        using n(1) unat_u32_less [of "heap_align_value_to_upper sz"] by simp
    qed
    then show ?thesis by simp
  qed
  have "heap_malloc_blocks hp ?n \<in> {Done (0, hp), Fault}"
    using heap_malloc_blocks_full [OF assms(1) n(2) none]
      heap_malloc_blocks_overrun [OF assms(1) n(2) _ none] small by blast
  with assms(4) show ?thesis
    by (simp add: heap_malloc_blocks_for)
qed

section \<open>The interface of an allocator\<close>

text \<open>
  \<open>live h\<close> is the set of the (address, length in bytes) pairs of the live allocations. Sizes
  above \<open>0xFFFFF000\<close> are excluded: rounding them up to a block wraps around.
\<close>

locale allocator =
  fixes alloc :: "'h \<Rightarrow> u32 \<Rightarrow> (addr \<times> 'h) run"
    and release :: "'h \<Rightarrow> addr \<Rightarrow> 'h run"
    and live :: "'h \<Rightarrow> (nat \<times> nat) set"
    and invar :: "'h \<Rightarrow> bool"
  assumes alloc_null: "\<lbrakk>invar h; 0 < unat n; unat n \<le> 0xFFFFF000; alloc h n = Done (0, h')\<rbrakk>
      \<Longrightarrow> h' = h"
    and alloc_fresh: "\<lbrakk>invar h; 0 < unat n; unat n \<le> 0xFFFFF000; alloc h n = Done (p, h'); p \<noteq> 0\<rbrakk>
      \<Longrightarrow> invar h' \<and> (\<exists>k \<ge> unat n. live h' = insert (unat p, k) (live h) \<and> (unat p, k) \<notin> live h)"
    and alloc_release: "\<lbrakk>invar h; 0 < unat n; unat n \<le> 0xFFFFF000; alloc h n = Done (p, h'); p \<noteq> 0\<rbrakk>
      \<Longrightarrow> release h' p = Done h"
    and release_live: "\<lbrakk>invar h; (unat p, k) \<in> live h\<rbrakk>
      \<Longrightarrow> \<exists>h'. release h p = Done h' \<and> invar h' \<and> live h' = live h - {(unat p, k)}"
    and live_disjoint: "\<lbrakk>invar h; (a, l) \<in> live h; (b, m) \<in> live h\<rbrakk>
      \<Longrightarrow> (a, l) = (b, m) \<or> a + l \<le> b \<or> b + m \<le> a"
    and live_positive: "\<lbrakk>invar h; (a, l) \<in> live h\<rbrakk> \<Longrightarrow> 0 < a \<and> 0 < l"
begin

lemma alloc_invar:
  "\<lbrakk>invar h; 0 < unat n; unat n \<le> 0xFFFFF000; alloc h n = Done (p, h')\<rbrakk> \<Longrightarrow> invar h'"
  using alloc_null alloc_fresh by metis

lemma alloc_keeps_live:
  "\<lbrakk>invar h; 0 < unat n; unat n \<le> 0xFFFFF000; alloc h n = Done (p, h')\<rbrakk> \<Longrightarrow> live h \<subseteq> live h'"
  using alloc_null alloc_fresh by (metis order_refl subset_insertI)

lemma live_size_unique: "\<lbrakk>invar h; (a, l) \<in> live h; (a, m) \<in> live h\<rbrakk> \<Longrightarrow> l = m"
  using live_disjoint [of h a l a m] live_positive by fastforce

text \<open>A new allocation does not overlap any live one.\<close>

lemma alloc_disjoint:
  assumes "invar h" and "0 < unat n" and "unat n \<le> 0xFFFFF000"
    and "alloc h n = Done (p, h')" and "p \<noteq> 0" and "(a, m) \<in> live h"
  shows "a + m \<le> unat p \<or> unat p + unat n \<le> a"
proof -
  from alloc_fresh [OF assms(1-5)] obtain k where k: "unat n \<le> k" "invar h'"
    "live h' = insert (unat p, k) (live h)" "(unat p, k) \<notin> live h" by blast
  with assms(6) live_disjoint [OF k(2), of a m "unat p" k] show ?thesis by auto
qed

text \<open>Releasing the older of two allocations leaves the younger one alive.\<close>

lemma release_older:
  assumes "invar h" and "0 < unat n" and "unat n \<le> 0xFFFFF000"
    and "alloc h n = Done (p, h')" and "p \<noteq> 0" and "(unat q, m) \<in> live h"
  shows "\<exists>h'' k. release h' q = Done h'' \<and> invar h'' \<and> unat n \<le> k \<and>
    live h'' = insert (unat p, k) (live h - {(unat q, m)})"
proof -
  from alloc_fresh [OF assms(1-5)] obtain k where k: "unat n \<le> k" "invar h'"
    "live h' = insert (unat p, k) (live h)" "(unat p, k) \<notin> live h" by blast
  with assms(6) have "(unat p, k) \<noteq> (unat q, m)" by auto
  then have "live h' - {(unat q, m)} = insert (unat p, k) (live h - {(unat q, m)})"
    using k(3) by auto
  moreover obtain h'' where "release h' q = Done h''" "invar h''" "live h'' = live h' - {(unat q, m)}"
    using release_live [OF k(2), of q m] assms(6) k(3) by auto
  ultimately show ?thesis using k(1) by auto
qed

text \<open>A sequence of allocations, as the loop of a client makes them.\<close>

fun alloc_seq :: "'h \<Rightarrow> u32 list \<Rightarrow> (addr list \<times> 'h) run" where
  "alloc_seq h [] = Done ([], h)"
| "alloc_seq h (n # ns) =
     andthen (alloc h n) (\<lambda>(p, h). andthen (alloc_seq h ns) (\<lambda>(ps, h). Done (p # ps, h)))"

lemma alloc_seq_live:
  assumes "invar h" and "alloc_seq h ns = Done (ps, h')" and "0 \<notin> set ps"
    and "\<forall>n \<in> set ns. 0 < unat n \<and> unat n \<le> 0xFFFFF000"
  shows "invar h' \<and> length ps = length ns \<and> live h \<subseteq> live h' \<and> distinct ps \<and>
    (\<forall>i < length ns. \<exists>k \<ge> unat (ns ! i). (unat (ps ! i), k) \<in> live h' - live h)"
  using assms
proof (induction ns arbitrary: h ps)
  case Nil
  then show ?case by simp
next
  case (Cons n ns)
  from Cons.prems obtain p qs h1 where 1: "alloc h n = Done (p, h1)"
    and 2: "alloc_seq h1 ns = Done (qs, h')" and ps: "ps = p # qs"
    by auto
  from Cons.prems ps have n: "0 < unat n" "unat n \<le> 0xFFFFF000" and p: "p \<noteq> 0" by auto
  from alloc_fresh [OF Cons.prems(1) n 1 p] obtain k where k: "unat n \<le> k" "invar h1"
    "live h1 = insert (unat p, k) (live h)" "(unat p, k) \<notin> live h" by blast
  have IH: "invar h' \<and> length qs = length ns \<and> live h1 \<subseteq> live h' \<and> distinct qs \<and>
    (\<forall>i < length ns. \<exists>k \<ge> unat (ns ! i). (unat (qs ! i), k) \<in> live h' - live h1)"
    using Cons.prems ps 2 k(2) by (intro Cons.IH) auto
  have "p \<notin> set qs"
  proof
    assume "p \<in> set qs"
    with IH obtain l where l: "(unat p, l) \<in> live h'" "(unat p, l) \<notin> live h1"
      by (metis DiffD1 DiffD2 in_set_conv_nth)
    have "(unat p, k) \<in> live h'" using IH k(3) by auto
    with IH l live_disjoint [of h' "unat p" l "unat p" k] live_positive [of h' "unat p" l]
      live_positive [of h' "unat p" k] k(3) show False by auto
  qed
  moreover have "\<exists>k \<ge> unat ((n # ns) ! i). (unat (ps ! i), k) \<in> live h' - live h"
    if "i < length (n # ns)" for i
    using that IH k ps by (cases i) auto
  ultimately show ?case using IH k(3) ps by auto
qed

end

text \<open>An allocator that hands out whole pages, aligned.\<close>

locale page_allocator = allocator +
  assumes live_aligned: "\<lbrakk>invar h; (a, l) \<in> live h\<rbrakk> \<Longrightarrow> 4096 dvd a \<and> 4096 dvd l"
begin

lemma alloc_aligned:
  "\<lbrakk>invar h; 0 < unat n; unat n \<le> 0xFFFFF000; alloc h n = Done (p, h')\<rbrakk> \<Longrightarrow> 4096 dvd unat p"
  using alloc_fresh [of h n p h'] live_aligned [of h' "unat p"] by (cases "p = 0") auto

end

section \<open>The block allocator provides the interface\<close>

definition heap_live :: "heap \<Rightarrow> (nat \<times> nat) set" where
  "heap_live hp = (\<lambda>(s, k). (unat (saddr hp) + 4096 * s, 4096 * k)) ` allocations hp"

lemma allocations_bounds:
  "(s, k) \<in> allocations hp \<Longrightarrow> 0 < k \<and> s + k \<le> length (entries (table hp))"
  by (auto simp: allocations_def regions_def region_def)

lemma heap_live_block:
  assumes "heap_ok hp" and "s < heap_blocks hp"
  shows "unat (block_addr hp s) = unat (saddr hp) + 4096 * s" and "block_addr hp s \<noteq> 0"
proof -
  show u: "unat (block_addr hp s) = unat (saddr hp) + 4096 * s"
    using heap_ok_bounds(3) [OF assms(1)] assms(2) by (simp add: heap_blocks_def)
  have "unat (saddr hp) \<noteq> 0"
    using assms(1) by (auto simp: heap_ok_def unat_eq_0)
  with u have "unat (block_addr hp s) \<noteq> 0" by simp
  then show "block_addr hp s \<noteq> 0"
    by (metis unat_0)
qed

lemma heap_live_allocation:
  assumes "heap_ok hp" and "(unat p, n) \<in> heap_live hp"
  obtains s k where "(s, k) \<in> allocations hp" and "n = 4096 * k" and "p = block_addr hp s"
proof -
  from assms(2) obtain s k where sk: "(s, k) \<in> allocations hp" "n = 4096 * k"
    "unat p = unat (saddr hp) + 4096 * s"
    by (auto simp: heap_live_def)
  then have "unat p = unat (block_addr hp s)"
    using heap_live_block(1) [OF assms(1)] allocations_bounds [OF sk(1)]
    by (simp add: heap_blocks_def)
  with sk that show thesis by (simp add: word_unat_eq_iff)
qed

lemma heap_malloc_alloc:
  assumes "heap_ok hp" and "0 < unat n" and "unat n \<le> 0xFFFFF000"
    and "heap_malloc hp n = Done (p, hp')"
  shows "p = 0 \<and> hp' = hp \<or>
    p \<noteq> 0 \<and> heap_ok hp' \<and> heap_free hp' p = Done hp \<and>
    (\<exists>k \<ge> unat n. heap_live hp' = insert (unat p, k) (heap_live hp) \<and> (unat p, k) \<notin> heap_live hp)"
  using heap_malloc_cases [OF assms]
proof (elim disjE exE conjE)
  fix s
  let ?k = "blocks_needed (unat n)"
  assume g: "gap (allocations hp) (heap_blocks hp) s ?k" and p: "p = block_addr hp s"
    and ok: "heap_ok hp'" and sa: "saddr hp' = saddr hp" and hb: "heap_blocks hp' = heap_blocks hp"
    and fr: "heap_free hp' p = Done hp"
    and al: "allocations hp' = insert (s, ?k) (allocations hp)"
  have k: "0 < ?k" using assms(2) by simp
  moreover have "s + ?k \<le> heap_blocks hp" using g by (simp add: gap_def)
  ultimately have s: "s < heap_blocks hp" by linarith
  note addr = heap_live_block [OF assms(1) s]
  have live: "heap_live hp' = insert (unat p, 4096 * ?k) (heap_live hp)"
    using addr p by (simp add: heap_live_def al sa)
  have "(unat p, 4096 * ?k) \<notin> heap_live hp"
  proof
    assume "(unat p, 4096 * ?k) \<in> heap_live hp"
    then have "(s, ?k) \<in> allocations hp"
      using addr(1) p by (auto simp: heap_live_def)
    with g have "s + ?k \<le> s \<or> s + ?k \<le> s" by (auto simp: gap_def)
    with k show False by linarith
  qed
  moreover have "p \<noteq> 0" using addr(2) p by simp
  ultimately show ?thesis
    using live ok fr blocks_needed_enough [of "unat n"]
    by (intro disjI2 conjI exI [of _ "4096 * ?k"]) simp_all
qed simp

lemma heap_free_live:
  assumes "heap_ok hp" and "(unat p, n) \<in> heap_live hp"
  shows "\<exists>hp'. heap_free hp p = Done hp' \<and> heap_ok hp' \<and> heap_live hp' = heap_live hp - {(unat p, n)}"
proof -
  from heap_live_allocation [OF assms] obtain s k where sk: "(s, k) \<in> allocations hp"
    "n = 4096 * k" "p = block_addr hp s" .
  from heap_free_allocation [OF assms(1) sk(1)] obtain hp' where hp':
    "heap_free hp p = Done hp'" "heap_ok hp'" "saddr hp' = saddr hp"
    "allocations hp' = allocations hp - {(s, k)}"
    unfolding sk(3) by blast
  have "unat p = unat (saddr hp) + 4096 * s"
    using heap_live_block(1) [OF assms(1)] allocations_bounds [OF sk(1)] sk(3)
    by (simp add: heap_blocks_def)
  moreover have "inj (\<lambda>(s :: nat, k :: nat). (unat (saddr hp) + 4096 * s, 4096 * k))"
    by (auto simp: inj_on_def)
  ultimately have "heap_live hp' = heap_live hp - {(unat p, n)}"
    using sk(2) hp'(3,4) by (simp add: heap_live_def image_set_diff)
  with hp' show ?thesis by blast
qed

text \<open>The addresses of the heap; allocation and release do not move it.\<close>

definition in_heap :: "heap \<Rightarrow> addr \<Rightarrow> bool" where
  "in_heap hp p \<longleftrightarrow> unat (saddr hp) \<le> unat p \<and> unat p < unat (saddr hp) + 4096 * heap_blocks hp"

lemma in_heap_cong: "saddr hp' = saddr hp \<Longrightarrow> heap_blocks hp' = heap_blocks hp \<Longrightarrow> in_heap hp' = in_heap hp"
  by (simp add: in_heap_def fun_eq_iff)

lemma heap_live_in_heap:
  assumes "(unat p, n) \<in> heap_live hp"
  shows "in_heap hp p"
proof -
  from assms obtain s k where "(s, k) \<in> allocations hp" "unat p = unat (saddr hp) + 4096 * s"
    by (auto simp: heap_live_def)
  with allocations_bounds [of s k hp] show ?thesis by (simp add: in_heap_def heap_blocks_def)
qed

lemma heap_malloc_in_heap:
  assumes "heap_ok hp" and "0 < unat sz" and "unat sz \<le> 0xFFFFF000" and "heap_malloc hp sz = Done (p, hp')"
  shows "in_heap hp' = in_heap hp"
  using heap_malloc_cases [OF assms] by (auto simp: in_heap_def fun_eq_iff)

lemma heap_free_in_heap:
  assumes "heap_ok hp" and "(unat p, n) \<in> heap_live hp" and "heap_free hp p = Done hp'"
  shows "in_heap hp' = in_heap hp"
proof -
  from heap_live_allocation [OF assms(1,2)] obtain s k where "(s, k) \<in> allocations hp" "p = block_addr hp s" by metis
  with heap_free_allocation [OF assms(1), of s k] assms(3) show ?thesis by (auto simp: in_heap_def fun_eq_iff)
qed

lemma heap_live_disjoint:
  assumes "(a, n) \<in> heap_live hp" and "(b, m) \<in> heap_live hp"
  shows "(a, n) = (b, m) \<or> a + n \<le> b \<or> b + m \<le> a"
proof -
  from assms obtain s k s' k' where "region (entries (table hp)) s k" "region (entries (table hp)) s' k'"
    and eq: "a = unat (saddr hp) + 4096 * s" "n = 4096 * k"
      "b = unat (saddr hp) + 4096 * s'" "m = 4096 * k'"
    by (auto simp: heap_live_def allocations_def regions_def)
  from regions_disjoint [OF this(1,2)] show ?thesis
    unfolding eq by auto
qed

lemma heap_live_positive:
  "\<lbrakk>heap_ok hp; (a, n) \<in> heap_live hp\<rbrakk> \<Longrightarrow> 0 < a \<and> 0 < n"
  using unat_eq_0 [of "saddr hp"] by (auto simp: heap_live_def heap_ok_def dest: allocations_bounds)

lemma heap_live_aligned:
  "\<lbrakk>heap_ok hp; (a, n) \<in> heap_live hp\<rbrakk> \<Longrightarrow> 4096 dvd a \<and> 4096 dvd n"
  by (auto simp: heap_live_def heap_ok_def heap_validate_alignment_def mod_block_eq_0
      dvd_eq_mod_eq_0)

interpretation block: page_allocator heap_malloc heap_free heap_live heap_ok
proof unfold_locales
  fix h n h'
  assume "heap_ok h" "0 < unat n" "unat n \<le> 0xFFFFF000" "heap_malloc h n = Done (0, h')"
  then show "h' = h" using heap_malloc_alloc by blast
next
  fix h n p h'
  assume "heap_ok h" "0 < unat n" "unat n \<le> 0xFFFFF000" "heap_malloc h n = Done (p, h')" "p \<noteq> 0"
  then show "heap_ok h' \<and> (\<exists>k \<ge> unat n. heap_live h' = insert (unat p, k) (heap_live h) \<and>
      (unat p, k) \<notin> heap_live h)" and "heap_free h' p = Done h"
    using heap_malloc_alloc by blast+
next
  fix h a l b m
  assume "(a, l) \<in> heap_live h" "(b, m) \<in> heap_live h"
  then show "(a, l) = (b, m) \<or> a + l \<le> b \<or> b + m \<le> a" by (rule heap_live_disjoint)
qed (simp_all add: heap_free_live heap_live_positive heap_live_aligned)

section \<open>kheap.c\<close>

definition PANDORAOS_HEAP_SIZE_BYTES :: int where [conf]: "PANDORAOS_HEAP_SIZE_BYTES = 104857600"
definition PANDORAOS_HEAP_ADDRESS :: addr where [conf]: "PANDORAOS_HEAP_ADDRESS = 0x01000000"

text \<open>
  \<open>mem\<close> is the memory from \<^verbatim>\<open>PANDORAOS_HEAP_TABLE_ADDRESS\<close> on, which becomes the table;
  \<open>hp\<close> is the global \<^verbatim>\<open>kernel_heap\<close> before the call.
\<close>

definition kheap_init :: "heap \<Rightarrow> u8 list \<Rightarrow> heap run" where
  "kheap_init hp mem =
     (let total_table_entries = PANDORAOS_HEAP_SIZE_BYTES sdiv uint PANDORAOS_HEAP_BLOCK_SIZE;
          kernel_heap_table = \<lparr>entries = mem, total = u32_of_int total_table_entries\<rparr>;
          end_ptr = PANDORAOS_HEAP_ADDRESS + u32_of_int PANDORAOS_HEAP_SIZE_BYTES
      in andthen (heap_create hp PANDORAOS_HEAP_ADDRESS end_ptr kernel_heap_table) (\<lambda>(res, hp).
         if res < 0 then Panic else Done hp))"

text \<open>
  The kernel memory: the heap, and the byte buffers allocated in it (the objects of other C types
  are the fields that the theories of the clients add). A buffer has the size that was asked for,
  so that an access to the slack at the end of its last block is a \<open>Fault\<close> as well.
\<close>

record kmem =
  kernel_heap :: heap
  bufs :: "addr \<Rightarrow> u8 list option"

definition kmalloc :: "'a kmem_scheme \<Rightarrow> u32 \<Rightarrow> (addr \<times> 'a kmem_scheme) run" where
  "kmalloc m sz =
     andthen (heap_malloc (kernel_heap m) sz) (\<lambda>(p, hp). Done (p, m\<lparr>kernel_heap := hp\<rparr>))"

lemma blocks_for_0: "blocks_for 0 = 0"
  by (simp add: blocks_for_def heap_align_value_to_upper_def)

text \<open>The bytes of the blocks behind an allocation of \<open>sz\<close> bytes, with stale contents.\<close>

definition block_bytes :: "u32 \<Rightarrow> u8 list" where
  "block_bytes sz = replicate (4096 * unat (blocks_for sz)) 0xAA"

definition kzalloc :: "'a kmem_scheme \<Rightarrow> u32 \<Rightarrow> (addr \<times> 'a kmem_scheme) run" where
  "kzalloc m sz =
     andthen (kmalloc m sz) (\<lambda>(ptr, m).
     if ptr = 0 then Done (0, m)
     else andthen (memset (block_bytes sz) 0 sz) (\<lambda>b.
       Done (ptr, m\<lparr>bufs := (bufs m)(ptr \<mapsto> take (unat sz) b)\<rparr>)))"

definition kfree :: "'a kmem_scheme \<Rightarrow> addr \<Rightarrow> 'a kmem_scheme run" where
  "kfree m ptr =
     andthen (heap_free (kernel_heap m) ptr) (\<lambda>hp.
     Done (m\<lparr>kernel_heap := hp, bufs := (bufs m)(ptr := None)\<rparr>))"

lemma block_bytes_enough:
  "unat sz \<le> 0xFFFFF000 \<Longrightarrow> unat sz \<le> length (block_bytes sz)"
  using blocks_needed_enough [of "unat sz"] by (simp add: block_bytes_def unat_blocks_for)

lemma kzalloc_eq:
  "unat sz \<le> 0xFFFFF000 \<Longrightarrow> kzalloc m sz =
     andthen (heap_malloc (kernel_heap m) sz) (\<lambda>(p, hp).
       if p = 0 then Done (0, m\<lparr>kernel_heap := hp\<rparr>)
       else Done (p, m\<lparr>kernel_heap := hp, bufs := (bufs m)(p \<mapsto> replicate (unat sz) 0)\<rparr>))"
  using block_bytes_enough [of sz]
  by (cases "heap_malloc (kernel_heap m) sz")
    (auto simp: kzalloc_def kmalloc_def memset_eq split: prod.splits)

text \<open>
  The invariant of the kernel memory: buffers in the heap are live. (Memory of the kernel outside the
  heap, such as a local variable whose address is taken, may be a buffer as well.)
\<close>

definition kmem_live :: "'a kmem_scheme \<Rightarrow> (nat \<times> nat) set" where
  "kmem_live m = heap_live (kernel_heap m)"

definition kmem_ok :: "'a kmem_scheme \<Rightarrow> bool" where
  "kmem_ok m \<longleftrightarrow> heap_ok (kernel_heap m) \<and>
     (\<forall>p \<in> dom (bufs m). in_heap (kernel_heap m) p \<longrightarrow> unat p \<in> fst ` kmem_live m)"

lemma kzalloc_alloc:
  assumes "kmem_ok m" and "0 < unat sz" and "unat sz \<le> 0xFFFFF000"
    and "kzalloc m sz = Done (p, m')"
  shows "p = 0 \<and> m' = m \<or>
    p \<noteq> 0 \<and> bufs m p = None \<and>
    (\<exists>hp. m' = m\<lparr>kernel_heap := hp, bufs := (bufs m)(p \<mapsto> replicate (unat sz) 0)\<rparr>) \<and>
    kmem_ok m' \<and> kfree m' p = Done m \<and>
    (\<exists>k \<ge> unat sz. kmem_live m' = insert (unat p, k) (kmem_live m) \<and> (unat p, k) \<notin> kmem_live m)"
proof -
  have ok: "heap_ok (kernel_heap m)" using assms(1) by (simp add: kmem_ok_def)
  from assms(4) obtain hp where hp: "heap_malloc (kernel_heap m) sz = Done (p, hp)"
    and m': "m' = (if p = 0 then m\<lparr>kernel_heap := hp\<rparr>
      else m\<lparr>kernel_heap := hp, bufs := (bufs m)(p \<mapsto> replicate (unat sz) 0)\<rparr>)"
    by (auto simp: kzalloc_eq [OF assms(3)] split: if_splits)
  show ?thesis
  proof (cases "p = 0")
    case True
    with block.alloc_null [OF ok assms(2,3)] hp have "hp = kernel_heap m" by simp
    with True m' show ?thesis by simp
  next
    case False
    from block.alloc_fresh [OF ok assms(2,3) hp False] obtain k where k: "heap_ok hp" "unat sz \<le> k"
      "heap_live hp = insert (unat p, k) (heap_live (kernel_heap m))"
      "(unat p, k) \<notin> heap_live (kernel_heap m)"
      by blast
    have fresh: "unat p \<notin> fst ` heap_live (kernel_heap m)"
    proof
      assume "unat p \<in> fst ` heap_live (kernel_heap m)"
      then obtain l where l: "(unat p, l) \<in> heap_live (kernel_heap m)" by auto
      with block.live_positive [OF ok l] block.live_positive [OF k(1), of "unat p" k]
        block.live_disjoint [OF k(1), of "unat p" l "unat p" k] k(3,4) show False by auto
    qed
    have same: "in_heap hp = in_heap (kernel_heap m)" by (rule heap_malloc_in_heap [OF ok assms(2,3) hp])
    moreover have "in_heap hp p" using heap_live_in_heap [of p k hp] k(3) by simp
    ultimately have none: "bufs m p = None"
      using assms(1) fresh by (auto simp: kmem_ok_def kmem_live_def)
    have "kmem_ok m'"
      using assms(1) False k(1,3) m' same by (auto simp: kmem_ok_def kmem_live_def)
    moreover have "kfree m' p = Done m"
      using block.alloc_release [OF ok assms(2,3) hp False] False m' none
      by (simp add: kfree_def fun_upd_idem)
    ultimately show ?thesis
      using False k m' none by (auto simp: kmem_live_def)
  qed
qed

lemma kfree_live:
  assumes "kmem_ok m" and "(unat p, k) \<in> kmem_live m"
  shows "\<exists>m'. kfree m p = Done m' \<and> kmem_ok m' \<and> kmem_live m' = kmem_live m - {(unat p, k)}"
proof -
  have ok: "heap_ok (kernel_heap m)" using assms(1) by (simp add: kmem_ok_def)
  from block.release_live [OF ok, of p k] assms(2) obtain hp where hp:
    "heap_free (kernel_heap m) p = Done hp" "heap_ok hp"
    "heap_live hp = heap_live (kernel_heap m) - {(unat p, k)}"
    by (auto simp: kmem_live_def)
  have same: "in_heap hp = in_heap (kernel_heap m)"
    using heap_free_in_heap [OF ok _ hp(1)] assms(2) by (simp add: kmem_live_def)
  have "unat q \<in> fst ` heap_live hp" if q: "bufs m q = Some b" "q \<noteq> p" "in_heap (kernel_heap m) q" for q b
  proof -
    have "unat q \<in> fst ` heap_live (kernel_heap m)"
      using q assms(1) by (auto simp: kmem_ok_def kmem_live_def)
    then obtain l where "(unat q, l) \<in> heap_live (kernel_heap m)" by auto
    with q(2) hp(3) have "(unat q, l) \<in> heap_live hp" by (simp add: word_unat_eq_iff)
    then show ?thesis by force
  qed
  with hp same show ?thesis
    by (auto simp: kfree_def kmem_ok_def kmem_live_def split: if_splits)
qed

interpretation kernel: page_allocator kzalloc kfree kmem_live kmem_ok
proof unfold_locales
  fix h :: "'a kmem_scheme" and n :: u32 and p h'
  assume a: "kmem_ok h" "0 < unat n" "unat n \<le> 0xFFFFF000"
  show "kzalloc h n = Done (0, h') \<Longrightarrow> h' = h"
    using kzalloc_alloc [OF a] by blast
  assume "kzalloc h n = Done (p, h')" "p \<noteq> 0"
  from kzalloc_alloc [OF a this(1)] this(2)
  show "kmem_ok h' \<and> (\<exists>k \<ge> unat n. kmem_live h' = insert (unat p, k) (kmem_live h) \<and>
      (unat p, k) \<notin> kmem_live h)" and "kfree h' p = Done h"
    by blast+
next
  fix h :: "'a kmem_scheme" and a l b m
  assume "kmem_ok h" "(a, l) \<in> kmem_live h"
  then show "0 < a \<and> 0 < l" and "4096 dvd a \<and> 4096 dvd l"
    and "(b, m) \<in> kmem_live h \<Longrightarrow> (a, l) = (b, m) \<or> a + l \<le> b \<or> b + m \<le> a"
    using block.live_positive block.live_aligned block.live_disjoint
    unfolding kmem_ok_def kmem_live_def by blast+
qed (rule kfree_live)

section \<open>The heap after start-up\<close>

definition boot_heap :: heap where
  "boot_heap = \<lparr>table = \<lparr>entries = replicate 25600 0, total = 25600\<rparr>, saddr = PANDORAOS_HEAP_ADDRESS\<rparr>"

lemma regions_replicate_0: "regions (replicate n 0) = {}"
proof -
  have "\<not> region (replicate n 0) s k" for s k
  proof
    assume r: "region (replicate n 0) s k"
    then show False
      using region_nth [OF r, of 0] region_bounds [OF r] marks_head [of k] by auto
  qed
  then show ?thesis by (simp add: regions_def)
qed

lemma boot_heap_ok: "heap_ok boot_heap"
  by (simp add: heap_ok_def boot_heap_def heap_validate_alignment_def tiled_def conf)

lemma boot_heap_simps:
  "allocations boot_heap = {}" "heap_blocks boot_heap = 25600" "saddr boot_heap = 0x01000000"
  by (simp_all add: allocations_def heap_blocks_def boot_heap_def regions_replicate_0 conf)

lemma kheap_init_eq: "length mem = 25600 \<Longrightarrow> kheap_init hp mem = Done boot_heap"
  by (simp add: kheap_init_def heap_create_def heap_validate_alignment_def heap_validate_table_def
      memset_eq boot_heap_def conf Let_def signed_divide_int_def)

text \<open>
  \<open>below m b\<close>: every allocation ends at or before block \<open>b\<close>. While the area above has room,
  \<open>kzalloc\<close> succeeds, whatever holes there are below.
\<close>

definition below :: "'a kmem_scheme \<Rightarrow> nat \<Rightarrow> bool" where
  "below m b \<longleftrightarrow> (\<forall>(s, n) \<in> allocations (kernel_heap m). s + n \<le> b)"

lemma kzalloc_below:
  assumes "kmem_ok m" and "below m b" and "0 < unat sz" and "unat sz \<le> 0xFFFFF000"
    and "b + blocks_needed (unat sz) \<le> heap_blocks (kernel_heap m)"
  shows "\<exists>p m'. kzalloc m sz = Done (p, m') \<and> p \<noteq> 0 \<and> kmem_ok m' \<and>
    below m' (b + blocks_needed (unat sz)) \<and>
    heap_blocks (kernel_heap m') = heap_blocks (kernel_heap m) \<and>
    saddr (kernel_heap m') = saddr (kernel_heap m)"
proof -
  let ?hp = "kernel_heap m" and ?k = "blocks_needed (unat sz)"
  have ok: "heap_ok ?hp" using assms(1) by (simp add: kmem_ok_def)
  have g: "gap (allocations ?hp) (heap_blocks ?hp) b ?k"
    using assms(2,5) by (auto simp: gap_def below_def)
  then obtain s where s: "gap (allocations ?hp) (heap_blocks ?hp) s ?k"
    "\<forall>s'. gap (allocations ?hp) (heap_blocks ?hp) s' ?k \<longrightarrow> s \<le> s'"
    by (rule gap_least)
  with g have sb: "s \<le> b" by blast
  have "0 < ?k" using assms(3) by simp
  then have "s < heap_blocks ?hp" using sb assms(5) by linarith
  then have nz: "block_addr ?hp s \<noteq> 0" using heap_live_block(2) [OF ok] by simp
  from heap_malloc_least_gap [OF ok assms(3,4) refl s] obtain hp' where hp':
    "heap_malloc ?hp sz = Done (block_addr ?hp s, hp')" "saddr hp' = saddr ?hp"
    "allocations hp' = insert (s, ?k) (allocations ?hp)" "heap_blocks hp' = heap_blocks ?hp"
    by blast
  let ?m = "m\<lparr>kernel_heap := hp', bufs := (bufs m)(block_addr ?hp s \<mapsto> replicate (unat sz) 0)\<rparr>"
  have z: "kzalloc m sz = Done (block_addr ?hp s, ?m)"
    using hp'(1) nz by (simp add: kzalloc_eq [OF assms(4)] del: andthen_eq_Done)
  moreover have "below ?m (b + ?k)"
    using assms(2) sb by (auto simp: below_def hp'(3))
  ultimately show ?thesis
    using kzalloc_alloc [OF assms(1,3,4) z] nz hp' by auto
qed

text \<open>The same for an object that fits into one block, with all that is known of the result.\<close>

lemma kzalloc_page:
  assumes "kmem_ok m" and "below m b" and "0 < unat sz" and "unat sz \<le> 4096"
    and "b + 1 \<le> heap_blocks (kernel_heap m)"
  shows "\<exists>p hp. kzalloc m sz =
      Done (p, m\<lparr>kernel_heap := hp, bufs := (bufs m)(p \<mapsto> replicate (unat sz) 0)\<rparr>) \<and>
    p \<noteq> 0 \<and> bufs m p = None \<and> unat p \<notin> fst ` kmem_live m \<and> 4096 dvd unat p \<and>
    kmem_ok (m\<lparr>kernel_heap := hp, bufs := (bufs m)(p \<mapsto> replicate (unat sz) 0)\<rparr>) \<and>
    heap_live hp = insert (unat p, 4096) (kmem_live m) \<and>
    below (m\<lparr>kernel_heap := hp, bufs := (bufs m)(p \<mapsto> replicate (unat sz) 0)\<rparr>) (b + 1) \<and>
    heap_blocks hp = heap_blocks (kernel_heap m) \<and> saddr hp = saddr (kernel_heap m) \<and>
    unat p + 4096 \<le> unat (saddr hp) + 4096 * heap_blocks hp"
proof -
  have ok: "heap_ok (kernel_heap m)" using assms(1) by (simp add: kmem_ok_def)
  have sz: "unat sz \<le> 0xFFFFF000" using assms(4) by simp
  have one: "blocks_needed (unat sz) = 1"
    using assms(3,4) by (simp add: blocks_needed_def div_nat_eqI)
  from kzalloc_below [OF assms(1-3) sz] assms(5) one obtain p m' where z: "kzalloc m sz = Done (p, m')"
    "p \<noteq> 0" "below m' (b + 1)" "heap_blocks (kernel_heap m') = heap_blocks (kernel_heap m)"
    "saddr (kernel_heap m') = saddr (kernel_heap m)" by auto
  from kzalloc_alloc [OF assms(1,3) sz z(1)] z(2) obtain hp where hp: "bufs m p = None"
    "m' = m\<lparr>kernel_heap := hp, bufs := (bufs m)(p \<mapsto> replicate (unat sz) 0)\<rparr>" "kmem_ok m'"
    by blast
  have hm: "heap_malloc (kernel_heap m) sz = Done (p, hp)"
    using z(1,2) hp(2) by (auto simp: kzalloc_eq [OF sz] split: if_splits dest: arg_cong [of _ _ kernel_heap])
  from heap_malloc_cases [OF ok assms(3) sz hm] z(2) one obtain s where s:
    "gap (allocations (kernel_heap m)) (heap_blocks (kernel_heap m)) s 1"
    "p = block_addr (kernel_heap m) s" "allocations hp = insert (s, 1) (allocations (kernel_heap m))"
    "saddr hp = saddr (kernel_heap m)" by auto
  have "s < heap_blocks (kernel_heap m)" using s(1) by (simp add: gap_def)
  from heap_live_block(1) [OF ok this] s(2) have up: "unat p = unat (saddr (kernel_heap m)) + 4096 * s"
    by simp
  have live: "heap_live hp = insert (unat p, 4096) (kmem_live m)"
    using s(3,4) up by (simp add: heap_live_def kmem_live_def)
  have "(s, l) \<notin> allocations (kernel_heap m)" for l
    using s(1) allocations_bounds [of s l "kernel_heap m"] by (fastforce simp: gap_def)
  then have fresh: "unat p \<notin> fst ` kmem_live m"
    using up by (auto simp: kmem_live_def heap_live_def)
  have "4096 dvd unat p"
    using kernel.live_aligned [OF hp(3), of "unat p" 4096] live hp(2) by (simp add: kmem_live_def)
  moreover have "unat p + 4096 \<le> unat (saddr hp) + 4096 * heap_blocks hp"
    using \<open>s < heap_blocks (kernel_heap m)\<close> up s(4) z(4) hp(2) by simp
  ultimately show ?thesis
    using z hp live fresh s(4) by (intro exI [of _ p] exI [of _ hp]) simp
qed

text \<open>A well-formed heap is determined by the set of its allocations.\<close>

lemma heap_eqI:
  assumes "heap_ok h" and "heap_ok h'" and "allocations h = allocations h'"
    and "heap_blocks h = heap_blocks h'" and "saddr h = saddr h'"
  shows "h = h'"
proof -
  have len: "length (entries (table h)) = length (entries (table h'))"
    using assms(4) by (simp add: heap_blocks_def)
  have "entries (table h) = entries (table h')"
  proof (rule nth_equalityI [OF len])
    fix i
    assume i: "i < length (entries (table h))"
    show "entries (table h) ! i = entries (table h') ! i"
    proof (cases "\<exists>(s, n) \<in> allocations h. s \<le> i \<and> i < s + n")
      case True
      then obtain s n where sn: "(s, n) \<in> allocations h" "s \<le> i" "i < s + n" by blast
      then have r: "region (entries (table h)) s n" "region (entries (table h')) s n"
        using assms(3) by (auto simp: allocations_def regions_def)
      from region_nth [OF r(1), of "i - s"] region_nth [OF r(2), of "i - s"] sn(2,3)
      show ?thesis by simp
    next
      case False
      moreover have "tiled (entries (table h))" "tiled (entries (table h'))"
        using assms(1,2) by (simp_all add: heap_ok_def)
      ultimately have "entries (table h) ! i = 0 \<and> entries (table h') ! i = 0"
        using i len assms(3) unfolding tiled_def allocations_def by (metis (no_types, lifting))
      then show ?thesis by simp
    qed
  qed
  moreover have "total (table h) = total (table h')"
    using assms(1,2) len by (simp add: heap_ok_def word_unat_eq_iff)
  ultimately have "table h = table h'" by simp
  with assms(5) show ?thesis by simp
qed

lemma heap_live_inj:
  assumes "saddr h = saddr h'" and "heap_live h = heap_live h'"
  shows "allocations h = allocations h'"
proof -
  have "inj (\<lambda>(s :: nat, k :: nat). (unat (saddr h) + 4096 * s, 4096 * k))"
    by (auto simp: inj_on_def)
  with assms show ?thesis by (simp add: heap_live_def inj_image_eq_iff)
qed

definition boot_kmem :: kmem where
  "boot_kmem = \<lparr>kernel_heap = boot_heap, bufs = (\<lambda>_. None)\<rparr>"

lemma boot_kmem_ok: "kmem_ok boot_kmem"
  by (simp add: kmem_ok_def boot_kmem_def boot_heap_ok)

lemma boot_kmem_below: "below boot_kmem 0"
  by (simp add: below_def boot_kmem_def boot_heap_simps)

text \<open>
  When no interval of blocks is long enough and the last block of the heap is in use,
  \<open>heap_malloc\<close> reports the failure: it returns the null pointer and leaves the heap alone.
\<close>

lemma heap_malloc_exhausted:
  assumes "heap_ok hp" and "0 < unat sz" and "unat sz \<le> 0xFFFFF000"
    and "\<nexists>s. gap (allocations hp) (heap_blocks hp) s (blocks_needed (unat sz))"
    and "\<not> gap (allocations hp) (heap_blocks hp) (heap_blocks hp - 1) 1"
  shows "heap_malloc hp sz = Done (0, hp)"
proof -
  have n: "unat (blocks_for sz) = blocks_needed (unat sz)" "0 < unat (blocks_for sz)"
    using assms(2,3) by (simp_all add: unat_blocks_for)
  with assms(4) have "\<forall>s. \<not> free_run (entries (table hp)) s (unat (blocks_for sz))"
    using gap_iff_free_run [OF assms(1) n(2)] by simp
  with heap_malloc_blocks_full [OF assms(1) n(2)] assms(5) gap_last [OF assms(1)] show ?thesis
    by (auto simp: heap_malloc_blocks_for)
qed

text \<open>
  When no interval is long enough but the last block is free, the table is overrun.
\<close>

lemma heap_malloc_too_short:
  assumes "heap_ok hp" and "0 < unat sz" and "unat sz \<le> 0xFFFFF000"
    and "\<nexists>s. gap (allocations hp) (heap_blocks hp) s (blocks_needed (unat sz))"
    and "gap (allocations hp) (heap_blocks hp) (heap_blocks hp - 1) 1"
  shows "heap_malloc hp sz = Fault"
proof -
  have n: "unat (blocks_for sz) = blocks_needed (unat sz)" "0 < unat (blocks_for sz)"
    using assms(2,3) by (simp_all add: unat_blocks_for)
  with assms(4) have none: "\<forall>s. \<not> free_run (entries (table hp)) s (unat (blocks_for sz))"
    using gap_iff_free_run [OF assms(1) n(2)] by simp
  have "4096 * blocks_needed (unat sz) < 2 ^ 32"
    using heap_align_value_to_upper_ok [OF assms(3)]
      unat_u32_less [of "heap_align_value_to_upper sz"] by simp
  then have "unat (blocks_for sz) < 2 ^ 20" using n(1) by simp
  with heap_malloc_blocks_overrun [OF assms(1) n(2) _ none] assms(5) gap_last [OF assms(1)]
  show ?thesis by (auto simp: heap_malloc_blocks_for)
qed

text \<open>So the allocations of a heap and its last block decide what a legal request does.\<close>

lemma kzalloc_outcome:
  assumes "kmem_ok m" and "0 < unat sz" and "unat sz \<le> 0xFFFFF000"
  shows "if \<exists>s. gap (allocations (kernel_heap m)) (heap_blocks (kernel_heap m)) s (blocks_needed (unat sz))
    then \<exists>p m'. p \<noteq> 0 \<and> kzalloc m sz = Done (p, m')
    else if gap (allocations (kernel_heap m)) (heap_blocks (kernel_heap m)) (heap_blocks (kernel_heap m) - 1) 1
    then kzalloc m sz = Fault else kzalloc m sz = Done (0, m)"
proof -
  let ?hp = "kernel_heap m" and ?k = "blocks_needed (unat sz)"
  have ok: "heap_ok ?hp" using assms(1) by (simp add: kmem_ok_def)
  show ?thesis
  proof (cases "\<exists>s. gap (allocations ?hp) (heap_blocks ?hp) s ?k")
    case True
    then obtain s where s: "gap (allocations ?hp) (heap_blocks ?hp) s ?k"
      "\<forall>s'. gap (allocations ?hp) (heap_blocks ?hp) s' ?k \<longrightarrow> s \<le> s'" using gap_least by blast
    have "0 < ?k" using assms(2) by simp
    then have "s < heap_blocks ?hp" using s(1) unfolding gap_def by linarith
    then have nz: "block_addr ?hp s \<noteq> 0" using heap_live_block(2) [OF ok] by simp
    from heap_malloc_least_gap [OF ok assms(2,3) refl s] obtain hp' where
      "heap_malloc ?hp sz = Done (block_addr ?hp s, hp')" by blast
    then show ?thesis using True nz by (auto simp: kzalloc_eq [OF assms(3)] simp del: andthen_eq_Done)
  next
    case False
    then show ?thesis
      using heap_malloc_too_short [OF ok assms(2,3)] heap_malloc_exhausted [OF ok assms(2,3)]
      by (simp add: kzalloc_eq [OF assms(3)] del: andthen_eq_Done)
  qed
qed

section \<open>Properties\<close>

text \<open>
  At start-up \<open>kheap_init\<close> does not panic: it turns the table memory, whatever it holds,
  into a well-formed heap of 25600 blocks (100 MB) with no allocation.
\<close>

theorem kheap_init_well_formed:
  assumes "length mem = 25600"
  shows "\<exists>hp'. kheap_init hp mem = Done hp' \<and> heap_ok hp' \<and> allocations hp' = {} \<and>
    heap_blocks hp' = 25600 \<and> saddr hp' = 0x01000000"
  using kheap_init_eq [OF assms] boot_heap_ok boot_heap_simps by simp

theorem kheap_init_well_formed_witness:
  "\<exists>hp'. kheap_init boot_heap (replicate 25600 0xFF) = Done hp' \<and> heap_ok hp' \<and>
    allocations hp' = {} \<and> heap_blocks hp' = 25600 \<and> saddr hp' = 0x01000000"
  by (rule kheap_init_well_formed) simp

text \<open>
  C13. \<open>heap_malloc\<close> implements first fit: if some interval of \<open>k\<close> blocks (the size rounded up to
  whole blocks) avoids every allocation and \<open>s\<close> is the least start of one, then the call returns
  the address of block \<open>s\<close>, keeps the heap well-formed, and adds exactly the allocation
  \<open>(s, k)\<close> to the abstract state.
\<close>

theorem heap_malloc_first_fit:
  assumes "heap_ok hp" and "0 < unat sz" and "unat sz \<le> 0xFFFFF000"
    and "k = blocks_needed (unat sz)"
    and "gap (allocations hp) (heap_blocks hp) s k"
    and "\<forall>s'. gap (allocations hp) (heap_blocks hp) s' k \<longrightarrow> s \<le> s'"
  shows "\<exists>hp'. heap_malloc hp sz = Done (block_addr hp s, hp') \<and> heap_ok hp' \<and>
    unat (block_addr hp s) = unat (saddr hp) + 4096 * s \<and>
    allocations hp' = insert (s, k) (allocations hp) \<and> heap_blocks hp' = heap_blocks hp"
proof -
  have "s < heap_blocks hp"
    using assms(2,4,5) blocks_needed_pos [of "unat sz"] unfolding gap_def by linarith
  with heap_live_block(1) [OF assms(1)] heap_malloc_least_gap [OF assms] show ?thesis by auto
qed

theorem heap_malloc_first_fit_witness:
  "\<exists>hp'. heap_malloc boot_heap 5000 = Done (block_addr boot_heap 0, hp') \<and> heap_ok hp' \<and>
    unat (block_addr boot_heap 0) = unat (saddr boot_heap) + 4096 * 0 \<and>
    allocations hp' = insert (0, 2) (allocations boot_heap) \<and>
    heap_blocks hp' = heap_blocks boot_heap"
  by (rule heap_malloc_first_fit)
    (simp_all add: boot_heap_ok boot_heap_simps gap_def blocks_needed_def)

text \<open>
  C15. \<open>heap_free\<close> of the address of an allocation removes that allocation and no other one, and
  keeps the heap well-formed.
\<close>

theorem heap_free_removes:
  assumes "heap_ok hp" and "(s, k) \<in> allocations hp"
  shows "\<exists>hp'. heap_free hp (block_addr hp s) = Done hp' \<and> heap_ok hp' \<and>
    allocations hp' = allocations hp - {(s, k)} \<and> heap_blocks hp' = heap_blocks hp"
  using heap_free_allocation [OF assms] by blast

definition one_block_heap :: heap where
  "one_block_heap = \<lparr>table = \<lparr>entries = [0x41, 0], total = 2\<rparr>, saddr = 0x01000000\<rparr>"

lemma one_block_heap_region: "region [0x41, 0 :: u8] 0 1"
  by (simp add: region_def marks_def)

lemma one_block_heap_alloc: "(0, 1) \<in> allocations one_block_heap"
  using one_block_heap_region by (simp add: allocations_def regions_def one_block_heap_def)

lemma one_block_heap_tiled: "tiled (entries (table one_block_heap))"
  unfolding tiled_def
proof (intro allI impI)
  fix i
  assume "i < length (entries (table one_block_heap))"
  then consider "i = 0" | "i = 1" by (fastforce simp: one_block_heap_def)
  then show "entries (table one_block_heap) ! i = 0 \<or>
      (\<exists>(s, n) \<in> regions (entries (table one_block_heap)). s \<le> i \<and> i < s + n)"
  proof cases
    case 1
    then show ?thesis
      using one_block_heap_alloc unfolding allocations_def by (intro disjI2 bexI [of _ "(0, 1)"]) auto
  qed (simp add: one_block_heap_def)
qed

lemma one_block_heap_ok: "heap_ok one_block_heap"
  using one_block_heap_tiled
  by (simp add: heap_ok_def one_block_heap_def heap_validate_alignment_def conf)

theorem heap_free_removes_witness:
  "\<exists>hp'. heap_free one_block_heap (block_addr one_block_heap 0) = Done hp' \<and> heap_ok hp' \<and>
    allocations hp' = allocations one_block_heap - {(0, 1)} \<and>
    heap_blocks hp' = heap_blocks one_block_heap"
  by (rule heap_free_removes [OF one_block_heap_ok one_block_heap_alloc])

text \<open>
  An allocation followed by its release restores the heap bit for bit: whenever
  \<open>heap_malloc\<close> returns a block, \<open>heap_free\<close> of it gives back the heap before the call.
\<close>

theorem heap_malloc_free_roundtrip:
  assumes "heap_ok hp" and "0 < unat sz" and "unat sz \<le> 0xFFFFF000"
    and "heap_malloc hp sz = Done (p, hp')" and "p \<noteq> 0"
  shows "heap_free hp' p = Done hp"
  by (rule block.alloc_release [OF assms])

theorem heap_malloc_free_roundtrip_witness:
  "\<exists>p hp'. heap_malloc boot_heap 5000 = Done (p, hp') \<and> p \<noteq> 0 \<and> heap_free hp' p = Done boot_heap"
proof -
  have g: "gap (allocations boot_heap) (heap_blocks boot_heap) 0 2"
    by (simp add: boot_heap_simps gap_def)
  have "2 = blocks_needed (unat (5000 :: u32))"
    by (simp add: blocks_needed_def)
  from heap_malloc_least_gap [OF boot_heap_ok _ _ this g]
  obtain hp' where m: "heap_malloc boot_heap 5000 = Done (block_addr boot_heap 0, hp')"
    by fastforce
  moreover have "block_addr boot_heap 0 \<noteq> 0"
    by (simp add: heap_block_to_address_def boot_heap_simps)
  ultimately show ?thesis
    using heap_malloc_free_roundtrip [OF boot_heap_ok _ _ m] by auto
qed

definition full_heap :: heap where
  "full_heap = \<lparr>table = \<lparr>entries = [0x41], total = 1\<rparr>, saddr = 0x01000000\<rparr>"

lemma full_heap_allocations: "allocations full_heap = {(0, 1)}"
proof -
  have "region [0x41] s n \<longleftrightarrow> (s, n) = (0, 1)" for s n
  proof
    assume r: "region [0x41] s n"
    with region_bounds [OF r] show "(s, n) = (0, 1)" by auto
  qed (simp add: region_def marks_def)
  then show ?thesis by (auto simp: allocations_def regions_def full_heap_def)
qed

lemma full_heap_ok: "heap_ok full_heap"
  using full_heap_allocations
  by (simp add: heap_ok_def full_heap_def heap_validate_alignment_def tiled_def allocations_def conf)

theorem heap_malloc_exhausted_witness: "heap_malloc full_heap 5000 = Done (0, full_heap)"
  by (rule heap_malloc_exhausted)
    (simp_all add: full_heap_ok full_heap_allocations gap_def heap_blocks_def blocks_needed_def,
     simp_all add: full_heap_def)

text \<open>
  C36. When no interval of blocks is long enough but the last block of the heap is free,
  \<open>heap_get_start_block\<close> returns the start of the last, too short, run of free blocks, and
  \<open>heap_mark_blocks_taken\<close> writes past the end of the table: the request is not refused.
\<close>

theorem heap_malloc_overruns_table:
  assumes "heap_ok hp" and "0 < unat sz" and "unat sz \<le> 0xFFFFF000"
    and "\<nexists>s. gap (allocations hp) (heap_blocks hp) s (blocks_needed (unat sz))"
    and "gap (allocations hp) (heap_blocks hp) (heap_blocks hp - 1) 1"
  shows "heap_malloc hp sz = Fault"
  by (rule heap_malloc_too_short [OF assms])

theorem heap_malloc_overruns_table_witness: "heap_malloc one_block_heap 5000 = Fault"
proof (rule heap_malloc_overruns_table [OF one_block_heap_ok])
  have b: "heap_blocks one_block_heap = 2"
    by (simp add: heap_blocks_def one_block_heap_def)
  show "\<nexists>s. gap (allocations one_block_heap) (heap_blocks one_block_heap) s
      (blocks_needed (unat (5000 :: u32)))"
    using one_block_heap_alloc by (fastforce simp: gap_def b blocks_needed_def)
  have "free_entry (entries (table one_block_heap)) 1"
    by (simp add: one_block_heap_def free_entry_def heap_get_entry_type_def conf)
  with gap_last [OF one_block_heap_ok]
  show "gap (allocations one_block_heap) (heap_blocks one_block_heap)
      (heap_blocks one_block_heap - 1) 1"
    by (simp add: one_block_heap_def)
qed simp_all

text \<open>
  C37. A request for 0 bytes, and one so large that rounding it up to whole blocks wraps around, is a
  request for no block. If the last block of the heap is free it is answered with the address of a block that
  stays free: the caller gets a non-null pointer to memory that the next allocation may hand out again. If
  the last block is in use the request is refused with the null pointer. In both cases the heap is unchanged.
\<close>

theorem heap_malloc_unbacked_pointer:
  assumes "heap_ok hp" and "sz = 0 \<or> 0xFFFFF000 < unat sz"
  shows "if gap (allocations hp) (heap_blocks hp) (heap_blocks hp - 1) 1
    then \<exists>s p. heap_malloc hp sz = Done (p, hp) \<and> p = block_addr hp s \<and> p \<noteq> 0 \<and>
      gap (allocations hp) (heap_blocks hp) s 1
    else heap_malloc hp sz = Done (0, hp)"
proof -
  have b0: "blocks_for sz = 0"
    using assms(2) blocks_for_wraps blocks_for_0 by auto
  show ?thesis
  proof (cases "gap (allocations hp) (heap_blocks hp) (heap_blocks hp - 1) 1")
    case True
    with heap_malloc_blocks_zero [OF assms(1)] b0 gap_last [OF assms(1)]
    obtain s where s: "s < length (entries (table hp))" "free_entry (entries (table hp)) s"
      "heap_malloc hp sz = Done (block_addr hp s, hp)"
      by (auto simp: heap_malloc_blocks_for)
    moreover have "gap (allocations hp) (heap_blocks hp) s 1"
      using s gap_iff_free_run [OF assms(1), of 1 s] by (auto simp: free_run_def le_less_Suc_eq)
    ultimately show ?thesis
      using True heap_live_block(2) [OF assms(1), of s] by (auto simp: heap_blocks_def)
  next
    case False
    with heap_malloc_blocks_zero_full [OF assms(1)] b0 gap_last [OF assms(1)] show ?thesis
      by (simp add: heap_malloc_blocks_for)
  qed
qed

theorem heap_malloc_unbacked_pointer_witness:
  "(\<exists>s p. heap_malloc boot_heap 0xFFFFFFFF = Done (p, boot_heap) \<and> p = block_addr boot_heap s \<and>
    p \<noteq> 0 \<and> gap (allocations boot_heap) (heap_blocks boot_heap) s 1) \<and>
   heap_malloc full_heap 0 = Done (0, full_heap)"
proof
  have "gap (allocations boot_heap) (heap_blocks boot_heap) (heap_blocks boot_heap - 1) 1"
    by (simp add: boot_heap_simps gap_def)
  with heap_malloc_unbacked_pointer [OF boot_heap_ok, of "0xFFFFFFFF"]
  show "\<exists>s p. heap_malloc boot_heap 0xFFFFFFFF = Done (p, boot_heap) \<and> p = block_addr boot_heap s \<and>
    p \<noteq> 0 \<and> gap (allocations boot_heap) (heap_blocks boot_heap) s 1" by simp
  have "\<not> gap (allocations full_heap) (heap_blocks full_heap) (heap_blocks full_heap - 1) 1"
    unfolding full_heap_allocations by (simp add: gap_def heap_blocks_def full_heap_def)
  with heap_malloc_unbacked_pointer [OF full_heap_ok, of 0]
  show "heap_malloc full_heap 0 = Done (0, full_heap)" by simp
qed

text \<open>
  The zeroing allocator of the kernel never gives the same memory out twice: after any
  sequence of successful \<open>kzalloc\<close> calls every allocation is still live, has at least the size
  asked for, was not live before, and no two of them overlap.
\<close>

theorem kzalloc_sequence_disjoint:
  assumes "kmem_ok m" and "kernel.alloc_seq m ns = Done (ps, m')" and "0 \<notin> set ps"
    and "\<forall>n \<in> set ns. 0 < unat n \<and> unat n \<le> 0xFFFFF000"
    and "i < length ns" and "j < length ns" and "i \<noteq> j"
  shows "unat (ps ! i) + unat (ns ! i) \<le> unat (ps ! j) \<or> unat (ps ! j) + unat (ns ! j) \<le> unat (ps ! i)"
proof -
  note live = kernel.alloc_seq_live [OF assms(1-4)]
  from live assms(5) obtain k where k: "unat (ns ! i) \<le> k" "(unat (ps ! i), k) \<in> kmem_live m'"
    by blast
  from live assms(6) obtain l where l: "unat (ns ! j) \<le> l" "(unat (ps ! j), l) \<in> kmem_live m'"
    by blast
  from live have ok: "kmem_ok m'" and "distinct ps" and "length ps = length ns" by simp_all
  then have "ps ! i \<noteq> ps ! j"
    using assms(5-7) by (simp add: nth_eq_iff_index_eq)
  with ok kernel.live_disjoint [OF ok k(2) l(2)] k(1) l(1) show ?thesis
    by (auto simp: word_unat_eq_iff)
qed

theorem kzalloc_sequence_disjoint_witness:
  "\<exists>ps m'. kernel.alloc_seq boot_kmem [16, 5000] = Done (ps, m') \<and>
    (unat (ps ! 0) + 16 \<le> unat (ps ! 1) \<or> unat (ps ! 1) + 5000 \<le> unat (ps ! 0))"
proof -
  from kzalloc_below [OF boot_kmem_ok boot_kmem_below, of 16] obtain p m1 where
    1: "kzalloc boot_kmem 16 = Done (p, m1)" "p \<noteq> 0" "kmem_ok m1" "below m1 1"
    "heap_blocks (kernel_heap m1) = 25600"
    by (auto simp: blocks_needed_def boot_kmem_def boot_heap_simps)
  from kzalloc_below [OF 1(3,4), of 5000] obtain q m2 where
    2: "kzalloc m1 5000 = Done (q, m2)" "q \<noteq> 0"
    by (auto simp: blocks_needed_def 1(5))
  from 1 2 have seq: "kernel.alloc_seq boot_kmem [16, 5000] = Done ([p, q], m2)" by simp
  with kzalloc_sequence_disjoint [OF boot_kmem_ok seq, of 0 1] 1(2) 2(2) show ?thesis by auto
qed

end
