(* ===== verification/Paging.thy ===== *)
theory Paging
  imports Kheap
begin

text \<open>
  Two level page tables, \<^verbatim>\<open>src/memory/paging/paging.c\<close>. A page table is 1024 words in a block of
  the kernel heap; the store \<open>ptables\<close> holds them by address, page directories included, and
  \<open>chunks\<close> holds the \<^verbatim>\<open>struct paging_4gb_chunk\<close> objects. After the code: the address space a
  directory describes (\<open>space\<close>: the entry of every page), what each operation does to it, and
  the identity mapping a new chunk starts with.
\<close>

section \<open>The code\<close>

definition PAGING_CACHE_DISABLED :: u32 where [conf]: "PAGING_CACHE_DISABLED = 0x10"
definition PAGING_WRITE_THROUGH :: u32 where [conf]: "PAGING_WRITE_THROUGH = 0x08"
definition PAGING_ACCESS_FROM_ALL :: u32 where [conf]: "PAGING_ACCESS_FROM_ALL = 0x04"
definition PAGING_IS_WRITEABLE :: u32 where [conf]: "PAGING_IS_WRITEABLE = 0x02"
definition PAGING_IS_PRESENT :: u32 where [conf]: "PAGING_IS_PRESENT = 0x01"
definition PAGING_TOTAL_ENTRIES_PER_TABLE :: u32 where [conf]: "PAGING_TOTAL_ENTRIES_PER_TABLE = 1024"
definition PAGING_PAGE_SIZE :: u32 where [conf]: "PAGING_PAGE_SIZE = 4096"

record pmem = kmem +
  ptables :: "addr \<Rightarrow> u32 list option"
  chunks :: "addr \<Rightarrow> addr option"
  current_directory :: addr
  cr3 :: addr

text \<open>Reading and writing a word of the table at address \<open>p\<close>.\<close>

definition tab_rd :: "'a pmem_scheme \<Rightarrow> addr \<Rightarrow> nat \<Rightarrow> u32 run" where
  "tab_rd m p i = andthen (deref (ptables m) p) (\<lambda>t. rd t i)"

definition tab_wr :: "'a pmem_scheme \<Rightarrow> addr \<Rightarrow> nat \<Rightarrow> u32 \<Rightarrow> 'a pmem_scheme run" where
  "tab_wr m p i v =
     andthen (deref (ptables m) p) (\<lambda>t.
     andthen (wr t i v) (\<lambda>t. Done (m\<lparr>ptables := (ptables m)(p \<mapsto> t)\<rparr>)))"

text \<open>\<^verbatim>\<open>kzalloc(sizeof(uint32_t) * PAGING_TOTAL_ENTRIES_PER_TABLE)\<close>, used as an array of words.\<close>

definition kzalloc_table :: "'a pmem_scheme \<Rightarrow> (addr \<times> 'a pmem_scheme) run" where
  "kzalloc_table m =
     andthen (kzalloc m (4 * PAGING_TOTAL_ENTRIES_PER_TABLE)) (\<lambda>(p, m).
     if p = 0 then Done (0, m)
     else Done (p, m\<lparr>bufs := (bufs m)(p := None),
                    ptables := (ptables m)(p \<mapsto> replicate (unat PAGING_TOTAL_ENTRIES_PER_TABLE) 0)\<rparr>))"

definition kfree_table :: "'a pmem_scheme \<Rightarrow> addr \<Rightarrow> 'a pmem_scheme run" where
  "kfree_table m p =
     andthen (kfree m p) (\<lambda>m. Done (m\<lparr>ptables := (ptables m)(p := None)\<rparr>))"

text \<open>
  The two loops of \<open>paging_new_4gb\<close>. The C variable \<^verbatim>\<open>offset\<close> is an \<^verbatim>\<open>int\<close> that wraps
  around in the upper half of the address space; here it is the word it is stored as.
\<close>

function paging_fill_table ::
    "'a pmem_scheme \<Rightarrow> addr \<Rightarrow> nat \<Rightarrow> u32 \<Rightarrow> u8 \<Rightarrow> 'a pmem_scheme run" where
  "paging_fill_table m entry b offset flags =
     (if b < unat PAGING_TOTAL_ENTRIES_PER_TABLE then
        andthen (tab_wr m entry b ((offset + of_nat b * PAGING_PAGE_SIZE) OR ucast flags)) (\<lambda>m.
        paging_fill_table m entry (Suc b) offset flags)
      else Done m)"
  by pat_completeness auto
termination
  by (relation "measure (\<lambda>(m, entry, b, offset, flags). unat PAGING_TOTAL_ENTRIES_PER_TABLE - b)") auto

function paging_new_tables ::
    "'a pmem_scheme \<Rightarrow> addr \<Rightarrow> nat \<Rightarrow> u32 \<Rightarrow> u8 \<Rightarrow> 'a pmem_scheme run" where
  "paging_new_tables m directory i offset flags =
     (if i < unat PAGING_TOTAL_ENTRIES_PER_TABLE then
        andthen (kzalloc_table m) (\<lambda>(entry, m).
        andthen (paging_fill_table m entry 0 offset flags) (\<lambda>m.
        andthen (tab_wr m directory i (entry OR ucast flags OR PAGING_IS_WRITEABLE)) (\<lambda>m.
        paging_new_tables m directory (Suc i)
          (offset + PAGING_TOTAL_ENTRIES_PER_TABLE * PAGING_PAGE_SIZE) flags)))
      else Done m)"
  by pat_completeness auto
termination
  by (relation "measure (\<lambda>(m, directory, i, offset, flags). unat PAGING_TOTAL_ENTRIES_PER_TABLE - i)") auto

declare paging_fill_table.simps [simp del] paging_new_tables.simps [simp del]

definition paging_new_4gb :: "'a pmem_scheme \<Rightarrow> u8 \<Rightarrow> (addr \<times> 'a pmem_scheme) run" where
  "paging_new_4gb m flags =
     andthen (kzalloc_table m) (\<lambda>(directory, m).
     andthen (paging_new_tables m directory 0 0 flags) (\<lambda>m.
     andthen (kzalloc m 4) (\<lambda>(chunk_4gb, m).
     if chunk_4gb = 0 then Fault
     else Done (chunk_4gb, m\<lparr>bufs := (bufs m)(chunk_4gb := None),
                            chunks := (chunks m)(chunk_4gb \<mapsto> directory)\<rparr>))))"

definition paging_switch :: "'a pmem_scheme \<Rightarrow> addr \<Rightarrow> 'a pmem_scheme run" where
  "paging_switch m directory =
     andthen (deref (chunks m) directory) (\<lambda>directory_entry.
     Done (m\<lparr>cr3 := directory_entry, current_directory := directory_entry\<rparr>))"

function paging_free_tables :: "'a pmem_scheme \<Rightarrow> addr \<Rightarrow> nat \<Rightarrow> 'a pmem_scheme run" where
  "paging_free_tables m chunk i =
     (if i < 1024 then
        andthen (deref (chunks m) chunk) (\<lambda>directory_entry.
        andthen (tab_rd m directory_entry i) (\<lambda>entry.
        andthen (kfree_table m (entry AND 0xFFFFF000)) (\<lambda>m.
        paging_free_tables m chunk (Suc i))))
      else Done m)"
  by pat_completeness auto
termination
  by (relation "measure (\<lambda>(m, chunk, i). 1024 - i)") auto

declare paging_free_tables.simps [simp del]

definition paging_free_4gb :: "'a pmem_scheme \<Rightarrow> addr \<Rightarrow> 'a pmem_scheme run" where
  "paging_free_4gb m chunk =
     andthen (paging_free_tables m chunk 0) (\<lambda>m.
     andthen (deref (chunks m) chunk) (\<lambda>directory_entry.
     andthen (kfree_table m directory_entry) (\<lambda>m.
     andthen (kfree m chunk) (\<lambda>m.
     Done (m\<lparr>chunks := (chunks m)(chunk := None)\<rparr>)))))"

definition paging_4gb_chunk_get_directory :: "'a pmem_scheme \<Rightarrow> addr \<Rightarrow> addr run" where
  "paging_4gb_chunk_get_directory m chunk = deref (chunks m) chunk"

definition paging_is_aligned :: "addr \<Rightarrow> bool" where
  "paging_is_aligned a = (a mod PAGING_PAGE_SIZE = 0)"

text \<open>The out parameters are passed in with the values they have before the call.\<close>

definition paging_get_indexes :: "addr \<Rightarrow> u32 \<Rightarrow> u32 \<Rightarrow> int \<times> u32 \<times> u32" where
  "paging_get_indexes virtual_address directory_index table_index =
     (if \<not> paging_is_aligned virtual_address then (- EINVARG, directory_index, table_index)
      else (0,
        virtual_address div (PAGING_TOTAL_ENTRIES_PER_TABLE * PAGING_PAGE_SIZE),
        (virtual_address mod (PAGING_TOTAL_ENTRIES_PER_TABLE * PAGING_PAGE_SIZE)) div PAGING_PAGE_SIZE))"

definition paging_align_to_lower_page :: "addr \<Rightarrow> addr" where
  "paging_align_to_lower_page a = a - a mod PAGING_PAGE_SIZE"

definition paging_align_address :: "addr \<Rightarrow> addr" where
  "paging_align_address ptr =
     (if ptr mod PAGING_PAGE_SIZE \<noteq> 0 then ptr + PAGING_PAGE_SIZE - ptr mod PAGING_PAGE_SIZE
      else ptr)"

definition paging_set :: "'a pmem_scheme \<Rightarrow> addr \<Rightarrow> addr \<Rightarrow> u32 \<Rightarrow> (int \<times> 'a pmem_scheme) run" where
  "paging_set m directory virt val =
     (if \<not> paging_is_aligned virt then Done (- EINVARG, m)
      else
        let (res, directory_index, table_index) = paging_get_indexes virt 0 0
        in if res < 0 then Done (res, m)
           else andthen (tab_rd m directory (unat directory_index)) (\<lambda>entry.
                andthen (tab_wr m (entry AND 0xFFFFF000) (unat table_index) val) (\<lambda>m.
                Done (0, m))))"

definition paging_map ::
    "'a pmem_scheme \<Rightarrow> addr \<Rightarrow> addr \<Rightarrow> addr \<Rightarrow> u32 \<Rightarrow> (int \<times> 'a pmem_scheme) run" where
  "paging_map m directory virt phys flags =
     (if virt mod PAGING_PAGE_SIZE \<noteq> 0 \<or> phys mod PAGING_PAGE_SIZE \<noteq> 0 then Done (- EINVARG, m)
      else andthen (deref (chunks m) directory) (\<lambda>directory_entry.
           paging_set m directory_entry virt (phys OR flags)))"

text \<open>\<open>n\<close> is the number of rounds that are left, \<open>res\<close> the result of the last one.\<close>

fun paging_map_range_loop ::
    "'a pmem_scheme \<Rightarrow> addr \<Rightarrow> addr \<Rightarrow> addr \<Rightarrow> nat \<Rightarrow> u32 \<Rightarrow> int \<Rightarrow> (int \<times> 'a pmem_scheme) run" where
  "paging_map_range_loop m directory virt phys 0 flags res = Done (res, m)"
| "paging_map_range_loop m directory virt phys (Suc n) flags res =
     andthen (paging_map m directory virt phys flags) (\<lambda>(res, m).
     if res < 0 then Done (res, m)
     else paging_map_range_loop m directory (virt + PAGING_PAGE_SIZE) (phys + PAGING_PAGE_SIZE)
            n flags res)"

definition paging_map_range ::
    "'a pmem_scheme \<Rightarrow> addr \<Rightarrow> addr \<Rightarrow> addr \<Rightarrow> int \<Rightarrow> u32 \<Rightarrow> (int \<times> 'a pmem_scheme) run" where
  "paging_map_range m directory virt phys count flags =
     paging_map_range_loop m directory virt phys (nat count) flags 0"

definition paging_map_to ::
    "'a pmem_scheme \<Rightarrow> addr \<Rightarrow> addr \<Rightarrow> addr \<Rightarrow> addr \<Rightarrow> u32 \<Rightarrow> (int \<times> 'a pmem_scheme) run" where
  "paging_map_to m directory virt phys phys_end flags =
     (if virt mod PAGING_PAGE_SIZE \<noteq> 0 then Done (- EINVARG, m)
      else if phys mod PAGING_PAGE_SIZE \<noteq> 0 then Done (- EINVARG, m)
      else if phys_end mod PAGING_PAGE_SIZE \<noteq> 0 then Done (- EINVARG, m)
      else if phys_end < phys then Done (- EINVARG, m)
      else
        let total_bytes = phys_end - phys;
            total_pages = int_of_u32 (total_bytes div PAGING_PAGE_SIZE)
        in paging_map_range m directory virt phys total_pages flags)"

text \<open>The mask of \<open>paging_get\<close> has seven digits where the one of \<open>paging_set\<close> has eight.\<close>

definition paging_get :: "'a pmem_scheme \<Rightarrow> addr \<Rightarrow> addr \<Rightarrow> u32 run" where
  "paging_get m directory virt =
     (let (res, directory_index, table_index) = paging_get_indexes virt 0 0
      in andthen (tab_rd m directory (unat directory_index)) (\<lambda>entry.
         tab_rd m (entry AND 0xFFFF000) (unat table_index)))"

definition paging_get_phyiscal_address :: "'a pmem_scheme \<Rightarrow> addr \<Rightarrow> addr \<Rightarrow> addr run" where
  "paging_get_phyiscal_address m directory virt =
     (let virt_addr_new = paging_align_to_lower_page virt;
          difference = virt - virt_addr_new
      in andthen (paging_get m directory virt_addr_new) (\<lambda>entry.
         Done ((entry AND 0xFFFFF000) + difference)))"

section \<open>Addresses, pages and masks\<close>

definition page_no :: "addr \<Rightarrow> nat" where
  "page_no v = unat v div 4096"

lemma page_no_less: "page_no v < 1024 * 1024"
  using unat_u32_less [of v] by (simp add: page_no_def less_mult_imp_div_less)

lemma paging_is_aligned_iff: "paging_is_aligned v \<longleftrightarrow> 4096 dvd unat v"
  by (simp add: paging_is_aligned_def conf word_unat_eq_iff unat_mod dvd_eq_mod_eq_0)

lemma mod_page_eq_0: "v mod PAGING_PAGE_SIZE = 0 \<longleftrightarrow> paging_is_aligned v"
  by (simp add: paging_is_aligned_def)

lemma paging_get_indexes_aligned:
  assumes "paging_is_aligned v"
  obtains di ti where "paging_get_indexes v a b = (0, di, ti)"
    and "unat di = page_no v div 1024" and "unat ti = page_no v mod 1024"
proof -
  have m: "(4194304 :: nat) = 4096 * 1024" by simp
  have "unat (v div 0x400000) = page_no v div 1024"
    unfolding page_no_def div_mult2_eq [symmetric] by (simp add: unat_div)
  moreover have "unat ((v mod 0x400000) div 4096) = page_no v mod 1024"
  proof -
    have "unat ((v mod 0x400000) div 4096) = (unat v mod (4096 * 1024)) div 4096"
      by (simp add: unat_div unat_mod)
    also have "\<dots> = page_no v mod 1024"
      unfolding mod_mult2_eq by (simp add: page_no_def)
    finally show ?thesis .
  qed
  ultimately show thesis
    using that assms by (simp add: paging_get_indexes_def conf)
qed

text \<open>The table address in a directory entry.\<close>

abbreviation table_of :: "u32 \<Rightarrow> addr" where
  "table_of entry \<equiv> entry AND 0xFFFFF000"

lemma high_mask: "(0xFFFFF000 :: u32) = NOT (mask 12)"
  by (simp only: mask_eq_exp_minus_1 minus_eq_not_plus_1 [symmetric]) (simp add: not_eq_complement)

lemma high_mask_bit: "bit (0xFFFFF000 :: u32) n \<longleftrightarrow> 12 \<le> n \<and> n < 32"
  by (subst high_mask) (auto simp: bit_not_iff bit_mask_iff)

lemma aligned_bit:
  assumes "4096 dvd unat (p :: addr)" and "n < 12"
  shows "\<not> bit p n"
proof -
  from assms(1) obtain q where q: "unat p = 4096 * q" by (auto elim: dvdE)
  have "bit p n = bit (unat p) n"
    by (simp add: bit_unsigned_iff)
  also have "\<dots> = bit (push_bit 12 q) n"
    by (simp add: q push_bit_eq_mult mult.commute)
  finally show ?thesis using assms(2) by (simp add: bit_push_bit_iff)
qed

lemma table_of_bit: "n < 32 \<Longrightarrow> bit (table_of e) n \<longleftrightarrow> 12 \<le> n \<and> bit e n"
  unfolding bit_and_iff high_mask_bit by auto

lemma table_of_aligned:
  assumes "4096 dvd unat p"
  shows "table_of p = p"
proof (rule bit_word_eqI)
  fix n
  assume "n < LENGTH(32)"
  then have "n < 32" by simp
  from table_of_bit [OF this] show "bit (table_of p) n = bit p n"
    using aligned_bit [OF assms, of n] by (cases "12 \<le> n") simp_all
qed

lemma writeable_bit:
  assumes "12 \<le> n"
  shows "\<not> bit PAGING_IS_WRITEABLE n"
proof -
  have "PAGING_IS_WRITEABLE = push_bit 1 1" by (simp add: conf)
  moreover have "\<not> bit (push_bit 1 1 :: u32) n"
    using assms unfolding bit_push_bit_iff by (simp add: bit_1_iff)
  ultimately show ?thesis by metis
qed

lemma ucast_u8_bit: "12 \<le> n \<Longrightarrow> \<not> bit (ucast (flags :: u8) :: u32) n"
  by (auto simp: bit_unsigned_iff dest: bit_imp_le_length)

lemma table_of_flags:
  assumes "4096 dvd unat p"
  shows "table_of (p OR ucast (flags :: u8) OR PAGING_IS_WRITEABLE) = p"
proof (rule bit_word_eqI)
  fix n
  assume n: "n < LENGTH(32)"
  then have "n < 32" by simp
  from table_of_bit [OF this]
  show "bit (table_of (p OR ucast flags OR PAGING_IS_WRITEABLE)) n = bit p n"
    using aligned_bit [OF assms, of n] writeable_bit [of n] ucast_u8_bit [of n flags]
    by (cases "12 \<le> n") (simp_all add: bit_or_iff)
qed

lemma table_of_or_small:
  assumes "4096 dvd unat p" and "unat flags < 4096"
  shows "table_of (p OR flags) = p"
proof (rule bit_word_eqI)
  fix n
  assume n: "n < LENGTH(32)"
  then have "n < 32" by simp
  have "take_bit 12 flags = flags"
    using assms(2) by (simp add: word_unat_eq_iff unsigned_take_bit_eq take_bit_nat_eq_self)
  then have "\<not> bit flags n" if "12 \<le> n"
    using that by (metis bit_take_bit_iff not_le)
  with table_of_bit [OF \<open>n < 32\<close>] aligned_bit [OF assms(1), of n]
  show "bit (table_of (p OR flags)) n = bit p n"
    by (cases "12 \<le> n") (simp_all add: bit_or_iff)
qed

text \<open>The short mask of \<open>paging_get\<close> finds the same table as long as it is below 256 MB.\<close>

lemma short_mask:
  assumes "unat e < 2 ^ 28"
  shows "e AND 0xFFFF000 = table_of e"
proof -
  have "e AND mask 28 = take_bit 28 e"
    by (simp add: take_bit_eq_mask)
  also have "\<dots> = e"
    using assms by (simp add: word_unat_eq_iff unsigned_take_bit_eq take_bit_nat_eq_self)
  finally have "e AND mask 28 = e" .
  moreover have "(mask 28 AND 0xFFFFF000 :: u32) = 0xFFFF000"
    by (simp add: mask_eq_exp_minus_1)
  ultimately show ?thesis
    by (metis and.assoc)
qed

section \<open>Address spaces\<close>

text \<open>The entry a directory holds for a page.\<close>

definition space :: "'a pmem_scheme \<Rightarrow> addr \<Rightarrow> nat \<Rightarrow> u32 option" where
  "space m dir n =
     (case ptables m dir of None \<Rightarrow> None
      | Some d \<Rightarrow> if n div 1024 < length d
          then (case ptables m (table_of (d ! (n div 1024))) of None \<Rightarrow> None
                | Some t \<Rightarrow> if n mod 1024 < length t then Some (t ! (n mod 1024)) else None)
          else None)"

text \<open>
  A well-formed directory: 1024 entries that lead to different tables of 1024 entries, none of
  which is the directory itself. \<open>footprint\<close> is the set of the tables it consists of.
\<close>

definition dir_ok :: "'a pmem_scheme \<Rightarrow> addr \<Rightarrow> bool" where
  "dir_ok m dir \<longleftrightarrow> (\<exists>d. ptables m dir = Some d \<and> length d = 1024 \<and>
     (\<forall>i < 1024. (\<exists>t. ptables m (table_of (d ! i)) = Some t \<and> length t = 1024) \<and>
        table_of (d ! i) \<noteq> dir \<and> (\<forall>j < i. table_of (d ! j) \<noteq> table_of (d ! i))))"

definition footprint :: "'a pmem_scheme \<Rightarrow> addr \<Rightarrow> addr set" where
  "footprint m dir = insert dir
     (case ptables m dir of None \<Rightarrow> {} | Some d \<Rightarrow> (\<lambda>e. table_of e) ` set d)"

lemma dir_okE:
  assumes "dir_ok m dir"
  obtains d where "ptables m dir = Some d" and "length d = 1024"
    and "\<And>i. i < 1024 \<Longrightarrow> \<exists>t. ptables m (table_of (d ! i)) = Some t \<and> length t = 1024"
    and "\<And>i. i < 1024 \<Longrightarrow> table_of (d ! i) \<noteq> dir"
    and "\<And>i j. i < 1024 \<Longrightarrow> j < 1024 \<Longrightarrow> table_of (d ! i) = table_of (d ! j) \<Longrightarrow> i = j"
proof -
  from assms obtain d where d: "ptables m dir = Some d" "length d = 1024"
    "\<forall>i < 1024. (\<exists>t. ptables m (table_of (d ! i)) = Some t \<and> length t = 1024) \<and>
        table_of (d ! i) \<noteq> dir \<and> (\<forall>j < i. table_of (d ! j) \<noteq> table_of (d ! i))"
    unfolding dir_ok_def by blast
  have "i = j" if "i < 1024" "j < 1024" "table_of (d ! i) = table_of (d ! j)" for i j
    using d(3) that by (metis linorder_neqE_nat)
  with d that show thesis by blast
qed

lemma page_split: "page_no v div 1024 < 1024" "page_no v mod 1024 < 1024"
  using page_no_less [of v] by (simp_all add: less_mult_imp_div_less)

text \<open>What \<open>paging_set\<close> does to the store: it replaces one table of the footprint.\<close>

lemma paging_set_eq:
  assumes "dir_ok m dir" and "paging_is_aligned virt"
    and "ptables m dir = Some d" and "ptables m (table_of (d ! (page_no virt div 1024))) = Some t"
  shows "paging_set m dir virt val = Done (0, m\<lparr>ptables := (ptables m)
    (table_of (d ! (page_no virt div 1024)) \<mapsto> t[page_no virt mod 1024 := val])\<rparr>)"
proof -
  from assms(1,3) have d: "length d = 1024"
    and t: "length t = 1024"
    using assms(4) page_split(1) [of virt] by (auto elim!: dir_okE)
  obtain di ti where ix: "paging_get_indexes virt 0 0 = (0, di, ti)"
    "unat di = page_no virt div 1024" "unat ti = page_no virt mod 1024"
    using paging_get_indexes_aligned [OF assms(2)] by metis
  show ?thesis
    using assms(2) page_split [of virt] ix d t
    by (simp add: paging_set_def tab_rd_def tab_wr_def run_simps assms(3,4))
qed

lemma space_update:
  fixes val :: u32
  assumes "dir_ok m dir" and "ptables m dir = Some d" and "i < 1024" and "j < 1024"
    and "ptables m (table_of (d ! i)) = Some t"
    and m'_def: "m' = m\<lparr>ptables := (ptables m)(table_of (d ! i) \<mapsto> t[j := val])\<rparr>"
  shows "dir_ok m' dir" and "space m' dir = (space m dir)(1024 * i + j \<mapsto> val)"
    and "footprint m' dir = footprint m dir"
proof -
  from assms(1,2) have d: "length d = 1024"
    "\<And>k. k < 1024 \<Longrightarrow> \<exists>t. ptables m (table_of (d ! k)) = Some t \<and> length t = 1024"
    "\<And>k. k < 1024 \<Longrightarrow> table_of (d ! k) \<noteq> dir"
    "\<And>k l. \<lbrakk>k < 1024; l < 1024; table_of (d ! k) = table_of (d ! l)\<rbrakk> \<Longrightarrow> k = l"
    by (auto elim!: dir_okE)
  have t: "length t = 1024" using d(2) [OF assms(3)] assms(5) by simp
  have d': "ptables m' dir = Some d" using assms(2) d(3) [OF assms(3)] by (simp add: m'_def)
  have t': "ptables m' (table_of (d ! k)) = (if k = i then Some (t[j := val])
      else ptables m (table_of (d ! k)))" if "k < 1024" for k
    using d(4) [OF assms(3) that] by (auto simp: m'_def)
  have "(\<exists>t. ptables m' (table_of (d ! k)) = Some t \<and> length t = 1024) \<and>
      table_of (d ! k) \<noteq> dir \<and> (\<forall>l < k. table_of (d ! l) \<noteq> table_of (d ! k))" if "k < 1024" for k
  proof (intro conjI allI impI)
    show "\<exists>t. ptables m' (table_of (d ! k)) = Some t \<and> length t = 1024"
      using t' [OF that] d(2) [OF that] t by (cases "k = i") auto
    show "table_of (d ! k) \<noteq> dir" using d(3) that by simp
    show "table_of (d ! l) \<noteq> table_of (d ! k)" if "l < k" for l
      using d(4) [of l k] that \<open>k < 1024\<close> by auto
  qed
  with d' d(1) show "dir_ok m' dir" unfolding dir_ok_def by blast
  show "footprint m' dir = footprint m dir" by (simp add: footprint_def d' assms(2))
  show "space m' dir = (space m dir)(1024 * i + j \<mapsto> val)"
  proof
    fix n
    consider (out) "1024 \<le> n div 1024" | (here) "n div 1024 = i"
      | (other) "n div 1024 < 1024" "n div 1024 \<noteq> i" by linarith
    then show "space m' dir n = ((space m dir)(1024 * i + j \<mapsto> val)) n"
    proof cases
      case out
      then have "n \<noteq> 1024 * i + j" using assms(3,4) by auto
      with out show ?thesis by (simp add: space_def d' assms(2) d(1))
    next
      case here
      have n: "n = 1024 * i + n mod 1024"
        unfolding here [symmetric] by simp
      then have "n = 1024 * i + j \<longleftrightarrow> n mod 1024 = j"
        by linarith
      then show ?thesis
        using here t' [OF assms(3)] assms(3,4,5) by (auto simp: space_def d' assms(2) d(1) t nth_list_update)
    next
      case other
      then have "n \<noteq> 1024 * i + j" using assms(4) by auto
      with other t' [OF other(1)] show ?thesis by (simp add: space_def d' assms(2) d(1))
    qed
  qed
qed

text \<open>Nothing outside the footprint is written: a directory with other tables keeps its space.\<close>

lemma space_frame:
  assumes "\<And>p. p \<in> footprint m dir \<Longrightarrow> ptables m' p = ptables m p"
  shows "space m' dir = space m dir" and "footprint m' dir = footprint m dir"
    and "dir_ok m' dir = dir_ok m dir"
proof -
  have dir: "ptables m' dir = ptables m dir"
    using assms by (simp add: footprint_def)
  have t: "ptables m' (table_of (d ! i)) = ptables m (table_of (d ! i))"
    if "ptables m dir = Some d" "i < length d" for d i
    using assms that by (simp add: footprint_def)
  show "space m' dir = space m dir"
    by (rule ext) (auto simp: space_def dir t split: option.splits)
  show "footprint m' dir = footprint m dir"
    by (simp add: footprint_def dir)
  show "dir_ok m' dir = dir_ok m dir"
    unfolding dir_ok_def dir by (metis t)
qed

lemma paging_set_space:
  assumes "dir_ok m dir" and "paging_is_aligned virt"
  shows "\<exists>m'. paging_set m dir virt val = Done (0, m') \<and> m' = m\<lparr>ptables := ptables m'\<rparr> \<and>
    dir_ok m' dir \<and> space m' dir = (space m dir)(page_no virt \<mapsto> val) \<and>
    footprint m' dir = footprint m dir \<and>
    (\<forall>p. p \<notin> footprint m dir - {dir} \<longrightarrow> ptables m' p = ptables m p)"
proof -
  from assms(1) obtain d where d: "ptables m dir = Some d" "length d = 1024"
    "\<And>k. k < 1024 \<Longrightarrow> \<exists>t. ptables m (table_of (d ! k)) = Some t \<and> length t = 1024"
    "\<And>k. k < 1024 \<Longrightarrow> table_of (d ! k) \<noteq> dir"
    by (auto elim!: dir_okE)
  let ?i = "page_no virt div 1024" and ?j = "page_no virt mod 1024"
  from d(3) [OF page_split(1)] obtain t where t: "ptables m (table_of (d ! ?i)) = Some t" by blast
  have "1024 * ?i + ?j = page_no virt" by simp
  with space_update [OF assms(1) d(1) page_split [of virt] t refl, of val]
  have su: "dir_ok (m\<lparr>ptables := (ptables m)(table_of (d ! ?i) \<mapsto> t[?j := val])\<rparr>) dir"
    "space (m\<lparr>ptables := (ptables m)(table_of (d ! ?i) \<mapsto> t[?j := val])\<rparr>) dir =
      (space m dir)(page_no virt \<mapsto> val)"
    "footprint (m\<lparr>ptables := (ptables m)(table_of (d ! ?i) \<mapsto> t[?j := val])\<rparr>) dir = footprint m dir"
    by simp_all
  moreover have "table_of (d ! ?i) \<in> footprint m dir - {dir}"
    using d page_split(1) [of virt] by (simp add: footprint_def)
  ultimately show ?thesis
    using paging_set_eq [OF assms d(1) t, of val] by auto
qed


lemma page_no_step:
  assumes "paging_is_aligned v" and "page_no v + 1 < 1024 * 1024"
  shows "paging_is_aligned (v + PAGING_PAGE_SIZE)" and "page_no (v + PAGING_PAGE_SIZE) = page_no v + 1"
proof -
  have v: "unat v = 4096 * page_no v"
    using assms(1) by (simp add: page_no_def paging_is_aligned_iff)
  have "unat (v + PAGING_PAGE_SIZE) = unat v + unat PAGING_PAGE_SIZE"
    using assms(2) by (intro unat_add_u32) (simp add: v conf)
  then have u: "unat (v + PAGING_PAGE_SIZE) = 4096 * (page_no v + 1)" by (simp add: v conf)
  then show "paging_is_aligned (v + PAGING_PAGE_SIZE)" by (simp only: paging_is_aligned_iff dvd_triv_left)
  from u show "page_no (v + PAGING_PAGE_SIZE) = page_no v + 1" by (simp only: page_no_def) simp
qed

lemma aligned_step:
  assumes "paging_is_aligned v"
  shows "paging_is_aligned (v + PAGING_PAGE_SIZE)"
proof (cases "page_no v + 1 < 1024 * 1024")
  case True
  then show ?thesis using page_no_step(1) [OF assms] by simp
next
  case False
  have v: "unat v = 4096 * page_no v"
    using assms by (simp add: page_no_def paging_is_aligned_iff)
  then have "unat v = unat (0xFFFFF000 :: u32)"
    using False page_no_less [of v] by simp
  then have "v = 0xFFFFF000" by (simp add: word_unat_eq_iff)
  then show ?thesis by (simp add: paging_is_aligned_def conf)
qed

lemma paging_map_eq:
  assumes "chunks m c = Some dir" and "paging_is_aligned virt" and "paging_is_aligned phys"
  shows "paging_map m c virt phys flags = paging_set m dir virt (phys OR flags)"
  using assms by (simp add: paging_map_def mod_page_eq_0 run_simps)

lemma paging_map_range_loop_space:
  assumes "chunks m c = Some dir" and "dir_ok m dir" and "paging_is_aligned virt"
    and "paging_is_aligned phys" and "page_no virt + n \<le> 1024 * 1024"
  shows "\<exists>m'. paging_map_range_loop m c virt phys n flags 0 = Done (0, m') \<and>
    m' = m\<lparr>ptables := ptables m'\<rparr> \<and> dir_ok m' dir \<and> footprint m' dir = footprint m dir \<and>
    (\<forall>p. p \<notin> footprint m dir - {dir} \<longrightarrow> ptables m' p = ptables m p) \<and>
    (\<forall>k. space m' dir k = (if page_no virt \<le> k \<and> k < page_no virt + n
       then Some ((phys + of_nat (k - page_no virt) * PAGING_PAGE_SIZE) OR flags)
       else space m dir k))"
  using assms
proof (induction n arbitrary: m virt phys)
  case 0
  then show ?case by (auto simp: not_le)
next
  case (Suc n)
  from paging_set_space [OF Suc.prems(2,3), of "phys OR flags"] obtain m1 where m1:
    "paging_set m dir virt (phys OR flags) = Done (0, m1)" "m1 = m\<lparr>ptables := ptables m1\<rparr>"
    "dir_ok m1 dir" "space m1 dir = (space m dir)(page_no virt \<mapsto> phys OR flags)"
    "footprint m1 dir = footprint m dir"
    "\<forall>p. p \<notin> footprint m dir - {dir} \<longrightarrow> ptables m1 p = ptables m p" by blast
  have step: "paging_map_range_loop m c virt phys (Suc n) flags 0 =
      paging_map_range_loop m1 c (virt + PAGING_PAGE_SIZE) (phys + PAGING_PAGE_SIZE) n flags 0"
    using m1(1) by (simp add: paging_map_eq [OF Suc.prems(1,3,4)])
  show ?case
  proof (cases n)
    case 0
    have "k = page_no virt" if "page_no virt \<le> k" "k < page_no virt + 1" for k
      using that by simp
    then show ?thesis
      unfolding step using m1 0 by (intro exI [of _ m1]) (auto simp: fun_upd_def)
  next
    case (Suc n')
    have pg: "page_no (virt + PAGING_PAGE_SIZE) = page_no virt + 1"
      and al: "paging_is_aligned (virt + PAGING_PAGE_SIZE)"
      using page_no_step [OF Suc.prems(3)] Suc.prems(5) Suc by simp_all
    have c: "chunks m1 c = Some dir"
      using Suc.prems(1) m1(2) by (metis pmem.select_convs(2) pmem.surjective pmem.update_convs(1))
    from Suc.IH [OF c m1(3) al aligned_step [OF Suc.prems(4)]] Suc.prems(5) pg obtain m2 where m2:
      "paging_map_range_loop m1 c (virt + PAGING_PAGE_SIZE) (phys + PAGING_PAGE_SIZE) n flags 0 = Done (0, m2)"
      "m2 = m1\<lparr>ptables := ptables m2\<rparr>" "dir_ok m2 dir" "footprint m2 dir = footprint m1 dir"
      "\<forall>p. p \<notin> footprint m1 dir - {dir} \<longrightarrow> ptables m2 p = ptables m1 p"
      "\<forall>k. space m2 dir k = (if page_no virt + 1 \<le> k \<and> k < page_no virt + 1 + n
         then Some ((phys + PAGING_PAGE_SIZE + of_nat (k - (page_no virt + 1)) * PAGING_PAGE_SIZE) OR flags)
         else space m1 dir k)"
      by auto
    have "space m2 dir k = (if page_no virt \<le> k \<and> k < page_no virt + Suc n
       then Some ((phys + of_nat (k - page_no virt) * PAGING_PAGE_SIZE) OR flags)
       else space m dir k)" for k
    proof (cases "page_no virt + 1 \<le> k")
      case True
      then obtain d where k: "k = page_no virt + 1 + d" by (metis le_add_diff_inverse)
      then show ?thesis
        using m2(6) m1(4) by (simp add: algebra_simps)
    next
      case False
      then show ?thesis using m2(6) m1(4) by auto
    qed
    moreover have "m2 = m\<lparr>ptables := ptables m2\<rparr>"
      using m1(2) m2(2) by (metis pmem.surjective pmem.update_convs(1))
    ultimately show ?thesis
      unfolding step using m1 m2 by (intro exI [of _ m2]) simp
  qed
qed

text \<open>Reading an entry back.\<close>

definition low_tables :: "'a pmem_scheme \<Rightarrow> addr \<Rightarrow> bool" where
  "low_tables m dir \<longleftrightarrow> (\<forall>d. ptables m dir = Some d \<longrightarrow> (\<forall>e \<in> set d. unat e < 2 ^ 28))"

lemma paging_get_space:
  assumes "dir_ok m dir" and "low_tables m dir" and "paging_is_aligned virt"
    and "space m dir (page_no virt) = Some e"
  shows "paging_get m dir virt = Done e"
proof -
  from assms(1) obtain d where d: "ptables m dir = Some d" "length d = 1024"
    "\<And>k. k < 1024 \<Longrightarrow> \<exists>t. ptables m (table_of (d ! k)) = Some t \<and> length t = 1024"
    by (auto elim!: dir_okE)
  obtain di ti where ix: "paging_get_indexes virt 0 0 = (0, di, ti)"
    "unat di = page_no virt div 1024" "unat ti = page_no virt mod 1024"
    using paging_get_indexes_aligned [OF assms(3)] by metis
  have "d ! (page_no virt div 1024) AND 0xFFFF000 = table_of (d ! (page_no virt div 1024))"
    using assms(2) d page_split(1) [of virt] by (intro short_mask) (simp add: low_tables_def)
  with d(3) [OF page_split(1) [of virt]] assms(4) show ?thesis
    using page_split [of virt] ix
    by (auto simp: paging_get_def tab_rd_def space_def d(1,2) run_simps simp del: rd_eq_Done)
qed

lemma space_Some:
  assumes "dir_ok m dir" and "k < 1024 * 1024"
  obtains e where "space m dir k = Some e"
proof -
  from assms(1) obtain d where d: "ptables m dir = Some d" "length d = 1024"
    "\<And>k. k < 1024 \<Longrightarrow> \<exists>t. ptables m (table_of (d ! k)) = Some t \<and> length t = 1024"
    by (auto elim!: dir_okE)
  have "k div 1024 < 1024" using assms(2) by auto
  with d(3) [OF this] that show thesis by (auto simp: space_def d(1,2))
qed

lemma page_no_lower: "page_no (paging_align_to_lower_page v) = page_no v"
  and lower_aligned: "paging_is_aligned (paging_align_to_lower_page v)"
  and lower_rest: "v - paging_align_to_lower_page v = v mod 4096"
proof -
  have "unat (v - v mod 4096) = unat v - unat v mod 4096"
    by (subst unat_sub) (simp_all add: word_le_nat_alt unat_mod)
  then have u: "unat (v - v mod 4096) = 4096 * (unat v div 4096)"
    by (simp add: minus_mod_eq_mult_div)
  then show "page_no (paging_align_to_lower_page v) = page_no v"
    and "paging_is_aligned (paging_align_to_lower_page v)"
    unfolding page_no_def paging_is_aligned_iff paging_align_to_lower_page_def conf by simp_all
  show "v - paging_align_to_lower_page v = v mod 4096"
    by (simp add: paging_align_to_lower_page_def conf)
qed

lemma paging_get_phyiscal_address_space:
  assumes "dir_ok m dir" and "low_tables m dir" and "space m dir (page_no virt) = Some e"
  shows "paging_get_phyiscal_address m dir virt = Done (table_of e + virt mod 4096)"
  using paging_get_space [OF assms(1,2) lower_aligned, of virt] assms(3)
  by (simp add: paging_get_phyiscal_address_def page_no_lower lower_rest Let_def del: andthen_eq_Done)

section \<open>Creating and releasing an address space\<close>

text \<open>
  The tables live in the kernel heap. \<open>pages_ok\<close> says so of every table, \<open>paging_room\<close> that the
  blocks from \<open>b\<close> on are free and that the heap is below the limit of the short mask.
\<close>

definition pages_ok :: "'a pmem_scheme \<Rightarrow> bool" where
  "pages_ok m \<longleftrightarrow> kmem_ok m \<and> (\<forall>p \<in> dom (ptables m) \<union> dom (chunks m). unat p \<in> fst ` kmem_live m)"

definition paging_room :: "'a pmem_scheme \<Rightarrow> nat \<Rightarrow> nat \<Rightarrow> bool" where
  "paging_room m b n \<longleftrightarrow> below m b \<and> b + n \<le> heap_blocks (kernel_heap m) \<and>
     unat (saddr (kernel_heap m)) + 4096 * heap_blocks (kernel_heap m) \<le> 2 ^ 28"

lemma kzalloc_table_page:
  assumes "pages_ok m" and "paging_room m b (Suc n)"
  shows "\<exists>p hp. kzalloc_table m =
      Done (p, m\<lparr>kernel_heap := hp, ptables := (ptables m)(p \<mapsto> replicate 1024 0)\<rparr>) \<and>
    pages_ok (m\<lparr>kernel_heap := hp, ptables := (ptables m)(p \<mapsto> replicate 1024 0)\<rparr>) \<and>
    paging_room (m\<lparr>kernel_heap := hp, ptables := (ptables m)(p \<mapsto> replicate 1024 0)\<rparr>) (Suc b) n \<and>
    ptables m p = None \<and> bufs m p = None \<and> unat p \<notin> fst ` kmem_live m \<and> 4096 dvd unat p \<and>
    unat p + 4096 \<le> 2 ^ 28 \<and> heap_live hp = insert (unat p, 4096) (kmem_live m) \<and>
    heap_blocks hp = heap_blocks (kernel_heap m) \<and> saddr hp = saddr (kernel_heap m)"
proof -
  have m: "kmem_ok m" "below m b" "b + 1 \<le> heap_blocks (kernel_heap m)"
    using assms by (simp_all add: pages_ok_def paging_room_def)
  have sz: "4 * PAGING_TOTAL_ENTRIES_PER_TABLE = 4096" "unat PAGING_TOTAL_ENTRIES_PER_TABLE = 1024"
    by (simp_all add: conf)
  from kzalloc_page [OF m(1,2) _ _ m(3), of 4096] obtain p hp where z:
    "kzalloc m 4096 = Done (p, m\<lparr>kernel_heap := hp, bufs := (bufs m)(p \<mapsto> replicate 4096 0)\<rparr>)"
    "p \<noteq> 0" "bufs m p = None" "unat p \<notin> fst ` kmem_live m" "4096 dvd unat p"
    "kmem_ok (m\<lparr>kernel_heap := hp, bufs := (bufs m)(p \<mapsto> replicate 4096 0)\<rparr>)"
    "heap_live hp = insert (unat p, 4096) (kmem_live m)"
    "below (m\<lparr>kernel_heap := hp, bufs := (bufs m)(p \<mapsto> replicate 4096 0)\<rparr>) (b + 1)"
    "heap_blocks hp = heap_blocks (kernel_heap m)" "saddr hp = saddr (kernel_heap m)"
    "unat p + 4096 \<le> unat (saddr hp) + 4096 * heap_blocks hp"
    by auto
  have idem: "(bufs m)(p := None) = bufs m"
    using z(3) by (simp add: fun_upd_idem)
  have "kzalloc_table m =
      Done (p, m\<lparr>kernel_heap := hp, ptables := (ptables m)(p \<mapsto> replicate 1024 0)\<rparr>)"
    using z(1,2) idem by (simp add: kzalloc_table_def sz del: andthen_eq_Done)
  moreover have "ptables m p = None"
    using assms(1) z(4) by (auto simp: pages_ok_def)
  moreover have "pages_ok (m\<lparr>kernel_heap := hp, ptables := (ptables m)(p \<mapsto> replicate 1024 0)\<rparr>)"
    using assms(1) z(6,7) by (auto simp: pages_ok_def kmem_ok_def kmem_live_def)
  moreover have "paging_room (m\<lparr>kernel_heap := hp, ptables := (ptables m)(p \<mapsto> replicate 1024 0)\<rparr>) (Suc b) n"
    using assms(2) z(8-10) by (simp add: paging_room_def below_def)
  moreover have "unat p + 4096 \<le> 2 ^ 28"
    using assms(2) z(9-11) by (simp add: paging_room_def)
  ultimately show ?thesis
    using z by blast
qed

text \<open>The identity table number \<open>i\<close>.\<close>

definition identity_table :: "nat \<Rightarrow> u8 \<Rightarrow> u32 list" where
  "identity_table i flags =
     map (\<lambda>b. (of_nat i * 0x400000 + of_nat b * PAGING_PAGE_SIZE) OR ucast flags) [0..<1024]"

lemma paging_fill_table_eq:
  assumes "ptables m entry = Some t" and "length t = 1024" and "b \<le> 1024"
  shows "paging_fill_table m entry b offset flags = Done (m\<lparr>ptables := (ptables m)(entry \<mapsto>
    take b t @ map (\<lambda>b. (offset + of_nat b * PAGING_PAGE_SIZE) OR ucast flags) [b..<1024])\<rparr>)"
  using assms
proof (induction "1024 - b" arbitrary: b t m)
  case 0
  then have "(ptables m)(entry \<mapsto> t) = ptables m" by (simp add: fun_upd_idem)
  with 0 show ?case by (subst paging_fill_table.simps) (simp add: conf)
next
  case (Suc k)
  then have b: "b < 1024" by simp
  let ?v = "(offset + of_nat b * PAGING_PAGE_SIZE) OR ucast flags :: u32"
  let ?m = "m\<lparr>ptables := (ptables m)(entry \<mapsto> t[b := ?v])\<rparr>"
  have w: "tab_wr m entry b ?v = Done ?m"
    using Suc.prems b by (simp add: tab_wr_def run_simps)
  have "k = 1024 - Suc b" using Suc.hyps(2) by simp
  note IH = Suc.hyps(1) [OF this, of ?m "t[b := ?v]"]
  have up: "[b..<1024] = b # [Suc b..<1024]" using b by (simp add: upt_conv_Cons)
  have "take (Suc b) (t[b := ?v]) = take b t @ [?v]"
    using b Suc.prems(2) by (simp add: take_Suc_conv_app_nth)
  then show ?case
    using IH Suc.prems b w by (subst paging_fill_table.simps) (simp add: conf up)
qed

text \<open>
  The outer loop: \<open>ps\<close> are the tables it allocates, with the identity tables as contents, and the
  directory gets their addresses.
\<close>

abbreviation dir_entry :: "u8 \<Rightarrow> addr \<Rightarrow> u32" where
  "dir_entry flags p \<equiv> p OR ucast flags OR PAGING_IS_WRITEABLE"

lemma paging_new_tables_eq:
  assumes "pages_ok m" and "paging_room m b (1024 - i + n)" and "ptables m dir = Some D"
    and "length D = 1024" and "i \<le> 1024"
  shows "\<exists>ps hp. let m' = m\<lparr>kernel_heap := hp, ptables := ((ptables m)(dir \<mapsto>
        take i D @ map (dir_entry flags) ps)) ++ map_of (zip ps (map (\<lambda>k. identity_table k flags) [i..<1024]))\<rparr>
    in paging_new_tables m dir i (of_nat i * 0x400000) flags = Done m' \<and>
      pages_ok m' \<and> paging_room m' (b + (1024 - i)) n \<and> length ps = 1024 - i \<and> distinct ps \<and>
      (\<forall>p \<in> set ps. ptables m p = None \<and> bufs m p = None \<and> unat p \<notin> fst ` kmem_live m \<and>
         4096 dvd unat p \<and> unat p + 4096 \<le> 2 ^ 28) \<and>
      heap_live hp = kmem_live m \<union> (\<lambda>p. (unat p, 4096)) ` set ps \<and>
      heap_blocks hp = heap_blocks (kernel_heap m) \<and> saddr hp = saddr (kernel_heap m)"
  using assms
proof (induction "1024 - i" arbitrary: i b m D)
  case 0
  then have "(ptables m)(dir \<mapsto> D) = ptables m" by (simp add: fun_upd_idem)
  with 0 show ?case
    by (intro exI [of _ "[]"] exI [of _ "kernel_heap m"], subst paging_new_tables.simps)
      (simp add: conf kmem_live_def Let_def)
next
  case (Suc k)
  then have i: "i < 1024" and k: "k = 1024 - Suc i" by simp_all
  have "1024 - i + n = Suc (k + n)" using Suc.hyps(2) by linarith
  with Suc.prems(2) have room: "paging_room m b (Suc (k + n))" by metis
  from kzalloc_table_page [OF Suc.prems(1) room] obtain p hp where z: "kzalloc_table m =
      Done (p, m\<lparr>kernel_heap := hp, ptables := (ptables m)(p \<mapsto> replicate 1024 0)\<rparr>)"
    "pages_ok (m\<lparr>kernel_heap := hp, ptables := (ptables m)(p \<mapsto> replicate 1024 0)\<rparr>)"
    "paging_room (m\<lparr>kernel_heap := hp, ptables := (ptables m)(p \<mapsto> replicate 1024 0)\<rparr>) (Suc b) (k + n)"
    "ptables m p = None" "bufs m p = None" "unat p \<notin> fst ` kmem_live m" "4096 dvd unat p"
    "unat p + 4096 \<le> 2 ^ 28" "heap_live hp = insert (unat p, 4096) (kmem_live m)"
    "heap_blocks hp = heap_blocks (kernel_heap m)" "saddr hp = saddr (kernel_heap m)" by blast
  have dp: "dir \<noteq> p" using Suc.prems(3) z(4) by auto
  let ?off = "of_nat i * 0x400000 :: u32"
  let ?D = "D[i := dir_entry flags p]"
  let ?m = "m\<lparr>kernel_heap := hp, ptables := (ptables m)(p \<mapsto> identity_table i flags, dir \<mapsto> ?D)\<rparr>"
  have fill: "paging_fill_table (m\<lparr>kernel_heap := hp, ptables := (ptables m)(p \<mapsto> replicate 1024 0)\<rparr>)
      p 0 ?off flags = Done (m\<lparr>kernel_heap := hp, ptables := (ptables m)(p \<mapsto> identity_table i flags)\<rparr>)"
    by (subst paging_fill_table_eq [where t = "replicate 1024 0"]) (simp_all add: identity_table_def)
  have wr: "tab_wr (m\<lparr>kernel_heap := hp, ptables := (ptables m)(p \<mapsto> identity_table i flags)\<rparr>) dir i
      (dir_entry flags p) = Done ?m"
    using dp Suc.prems(3,4) i by (simp add: tab_wr_def run_simps)
  have off: "?off + PAGING_TOTAL_ENTRIES_PER_TABLE * PAGING_PAGE_SIZE = of_nat (Suc i) * 0x400000"
    by (simp add: conf algebra_simps)
  have step: "paging_new_tables m dir i ?off flags =
      paging_new_tables ?m dir (Suc i) (of_nat (Suc i) * 0x400000) flags"
    using i by (subst paging_new_tables.simps, simp only: z(1) andthen.simps prod.case fill wr off)
      (simp add: conf)
  have ok: "pages_ok ?m" "paging_room ?m (Suc b) (1024 - Suc i + n)"
    using z(2,3) k Suc.prems(3) by (auto simp: pages_ok_def paging_room_def kmem_ok_def kmem_live_def below_def)
  have "ptables ?m dir = Some ?D" "length ?D = 1024" "Suc i \<le> 1024"
    using Suc.prems(4) i by simp_all
  from Suc.hyps(1) [OF k ok this] obtain ps hp' where IH:
    "let m' = ?m\<lparr>kernel_heap := hp', ptables := ((ptables ?m)(dir \<mapsto>
        take (Suc i) ?D @ map (dir_entry flags) ps)) ++ map_of (zip ps (map (\<lambda>k. identity_table k flags) [Suc i..<1024]))\<rparr>
    in paging_new_tables ?m dir (Suc i) (of_nat (Suc i) * 0x400000) flags = Done m' \<and>
      pages_ok m' \<and> paging_room m' (Suc b + (1024 - Suc i)) n \<and> length ps = 1024 - Suc i \<and> distinct ps \<and>
      (\<forall>p \<in> set ps. ptables ?m p = None \<and> bufs ?m p = None \<and> unat p \<notin> fst ` kmem_live ?m \<and>
         4096 dvd unat p \<and> unat p + 4096 \<le> 2 ^ 28) \<and>
      heap_live hp' = kmem_live ?m \<union> (\<lambda>p. (unat p, 4096)) ` set ps \<and>
      heap_blocks hp' = heap_blocks (kernel_heap ?m) \<and> saddr hp' = saddr (kernel_heap ?m)"
    by blast
  have live: "kmem_live ?m = insert (unat p, 4096) (kmem_live m)"
    using z(9) by (simp add: kmem_live_def)
  have p: "p \<notin> set ps" using IH live by (auto simp: Let_def)
  have tk: "take (Suc i) ?D = take i D @ [dir_entry flags p]"
    using i Suc.prems(4) by (simp add: take_Suc_conv_app_nth)
  have up: "[i..<1024] = i # [Suc i..<1024]" using i by (simp add: upt_conv_Cons)
  let ?ts = "map (\<lambda>k. identity_table k flags) [Suc i..<1024]"
  have "map_of (zip ps ?ts) p = None"
    using p IH by (simp add: Let_def map_of_zip_is_None)
  moreover have "map_of (zip ps ?ts) dir = None"
    using IH by (auto simp: Let_def map_of_zip_is_None)
  ultimately have maps: "((ptables ?m)(dir \<mapsto> take (Suc i) ?D @ map (dir_entry flags) ps)) ++ map_of (zip ps ?ts) =
      ((ptables m)(dir \<mapsto> take i D @ map (dir_entry flags) (p # ps))) ++
        map_of (zip (p # ps) (map (\<lambda>k. identity_table k flags) [i..<1024]))"
    unfolding tk up using dp by (auto simp: map_add_def fun_eq_iff split: option.splits)
  have none: "\<forall>q \<in> set ps. ptables m q = None \<and> bufs m q = None \<and> unat q \<notin> fst ` kmem_live m"
    using IH live by (auto simp: Let_def split: if_splits)
  define M where "M = m\<lparr>kernel_heap := hp', ptables := ((ptables m)(dir \<mapsto>
    take i D @ map (dir_entry flags) (p # ps))) ++
      map_of (zip (p # ps) (map (\<lambda>k. identity_table k flags) [i..<1024]))\<rparr>"
  have M: "?m\<lparr>kernel_heap := hp', ptables := ((ptables ?m)(dir \<mapsto>
    take (Suc i) ?D @ map (dir_entry flags) ps)) ++ map_of (zip ps ?ts)\<rparr> = M"
    unfolding maps M_def by simp
  note IH' = IH [unfolded Let_def M]
  have num: "Suc b + (1024 - Suc i) = b + (1024 - i)" "Suc (1024 - Suc i) = 1024 - i"
    using i by simp_all
  have hl: "heap_live hp' = kmem_live m \<union> (\<lambda>q. (unat q, 4096)) ` set (p # ps)"
    using IH' live by simp
  have hb: "heap_blocks hp' = heap_blocks (kernel_heap m)" "saddr hp' = saddr (kernel_heap m)"
    using IH' z(10,11) by simp_all
  have "paging_new_tables m dir i ?off flags = Done M \<and> pages_ok M \<and>
      paging_room M (b + (1024 - i)) n \<and> length (p # ps) = 1024 - i \<and> distinct (p # ps)"
    using IH' p num unfolding step by simp
  moreover have "\<forall>q \<in> set (p # ps). ptables m q = None \<and> bufs m q = None \<and>
      unat q \<notin> fst ` kmem_live m \<and> 4096 dvd unat q \<and> unat q + 4096 \<le> 2 ^ 28"
    using IH' none z(4-8) by simp
  ultimately show ?case
    unfolding Let_def using hl hb unfolding M_def by blast
qed

text \<open>The complete chunk.\<close>

definition new_4gb_result :: "'a pmem_scheme \<Rightarrow> u8 \<Rightarrow> heap \<Rightarrow> addr \<Rightarrow> addr \<Rightarrow> addr list \<Rightarrow> 'a pmem_scheme" where
  "new_4gb_result m flags hp c dir ps = m\<lparr>kernel_heap := hp,
     ptables := ((ptables m)(dir \<mapsto> map (dir_entry flags) ps)) ++
       map_of (zip ps (map (\<lambda>k. identity_table k flags) [0..<1024])),
     chunks := (chunks m)(c \<mapsto> dir)\<rparr>"

lemma paging_new_4gb_eq_room:
  assumes "pages_ok m" and "paging_room m b (1026 + n)"
  shows "\<exists>c dir ps hp. paging_new_4gb m flags = Done (c, new_4gb_result m flags hp c dir ps) \<and>
    pages_ok (new_4gb_result m flags hp c dir ps) \<and> length ps = 1024 \<and> distinct (c # dir # ps) \<and>
    (\<forall>p \<in> set (dir # ps). ptables m p = None) \<and> (\<forall>p \<in> set (c # dir # ps). bufs m p = None) \<and>
    (\<forall>p \<in> set (c # dir # ps). unat p \<notin> fst ` kmem_live m \<and> 4096 dvd unat p \<and> unat p + 4096 \<le> 2 ^ 28) \<and>
    heap_live hp = kmem_live m \<union> (\<lambda>p. (unat p, 4096)) ` set (c # dir # ps) \<and>
    heap_blocks hp = heap_blocks (kernel_heap m) \<and> saddr hp = saddr (kernel_heap m) \<and>
    paging_room (new_4gb_result m flags hp c dir ps) (b + 1026) n"
proof -
  have room: "paging_room m b (Suc (1024 - 0 + Suc n))" using assms(2) by simp
  from kzalloc_table_page [OF assms(1) room] obtain dir hp1 where z1:
    "kzalloc_table m = Done (dir, m\<lparr>kernel_heap := hp1, ptables := (ptables m)(dir \<mapsto> replicate 1024 0)\<rparr>)"
    "pages_ok (m\<lparr>kernel_heap := hp1, ptables := (ptables m)(dir \<mapsto> replicate 1024 0)\<rparr>)"
    "paging_room (m\<lparr>kernel_heap := hp1, ptables := (ptables m)(dir \<mapsto> replicate 1024 0)\<rparr>) (Suc b) (1024 - 0 + Suc n)"
    "ptables m dir = None" "bufs m dir = None" "unat dir \<notin> fst ` kmem_live m" "4096 dvd unat dir"
    "unat dir + 4096 \<le> 2 ^ 28" "heap_live hp1 = insert (unat dir, 4096) (kmem_live m)"
    "heap_blocks hp1 = heap_blocks (kernel_heap m)" "saddr hp1 = saddr (kernel_heap m)" by blast
  define m1 where "m1 = m\<lparr>kernel_heap := hp1, ptables := (ptables m)(dir \<mapsto> replicate 1024 0)\<rparr>"
  note z1 = z1 [folded m1_def]
  have "ptables m1 dir = Some (replicate 1024 0)" by (simp add: m1_def)
  from paging_new_tables_eq [OF z1(2,3) this, of flags] obtain ps hp2 where z2:
    "let m' = m1\<lparr>kernel_heap := hp2, ptables := ((ptables m1)(dir \<mapsto> map (dir_entry flags) ps)) ++
        map_of (zip ps (map (\<lambda>k. identity_table k flags) [0..<1024]))\<rparr>
    in paging_new_tables m1 dir 0 0 flags = Done m' \<and> pages_ok m' \<and> paging_room m' (Suc b + 1024) (Suc n) \<and>
      length ps = 1024 \<and> distinct ps \<and>
      (\<forall>p \<in> set ps. ptables m1 p = None \<and> bufs m1 p = None \<and> unat p \<notin> fst ` kmem_live m1 \<and>
         4096 dvd unat p \<and> unat p + 4096 \<le> 2 ^ 28) \<and>
      heap_live hp2 = kmem_live m1 \<union> (\<lambda>p. (unat p, 4096)) ` set ps \<and>
      heap_blocks hp2 = heap_blocks (kernel_heap m1) \<and> saddr hp2 = saddr (kernel_heap m1)"
    by auto
  define m2 where "m2 = m\<lparr>kernel_heap := hp2, ptables := ((ptables m)(dir \<mapsto> map (dir_entry flags) ps)) ++
        map_of (zip ps (map (\<lambda>k. identity_table k flags) [0..<1024]))\<rparr>"
  have "m1\<lparr>kernel_heap := hp2, ptables := ((ptables m1)(dir \<mapsto> map (dir_entry flags) ps)) ++
        map_of (zip ps (map (\<lambda>k. identity_table k flags) [0..<1024]))\<rparr> = m2"
    by (simp add: m1_def m2_def)
  note z2 = z2 [unfolded this Let_def]
  have live1: "kmem_live m1 = insert (unat dir, 4096) (kmem_live m)"
    using z1(9) by (simp add: kmem_live_def m1_def)
  have live2: "kmem_live m2 = kmem_live m \<union> (\<lambda>p. (unat p, 4096)) ` set (dir # ps)"
    using z2 live1 by (auto simp: kmem_live_def m2_def)
  have old: "\<forall>p \<in> set ps. ptables m p = None \<and> bufs m p = None \<and> unat p \<notin> fst ` kmem_live m \<and> p \<noteq> dir"
    using z2 live1 by (auto simp: m1_def split: if_splits)
  have hb2: "heap_blocks (kernel_heap m2) = heap_blocks (kernel_heap m)"
    "saddr (kernel_heap m2) = saddr (kernel_heap m)"
    using z1(10,11) z2 by (simp_all add: m1_def m2_def)
  have m2: "kmem_ok m2" "below m2 (Suc b + 1024)" "Suc b + 1024 + 1 \<le> heap_blocks (kernel_heap m2)"
    using z2 by (simp_all add: pages_ok_def paging_room_def)
  from kzalloc_page [OF m2(1,2) _ _ m2(3), of 4] obtain c hp where z3:
    "kzalloc m2 4 = Done (c, m2\<lparr>kernel_heap := hp, bufs := (bufs m2)(c \<mapsto> replicate 4 0)\<rparr>)"
    "c \<noteq> 0" "bufs m2 c = None" "unat c \<notin> fst ` kmem_live m2" "4096 dvd unat c"
    "kmem_ok (m2\<lparr>kernel_heap := hp, bufs := (bufs m2)(c \<mapsto> replicate 4 0)\<rparr>)"
    "heap_live hp = insert (unat c, 4096) (kmem_live m2)"
    "heap_blocks hp = heap_blocks (kernel_heap m2)" "saddr hp = saddr (kernel_heap m2)"
    "unat c + 4096 \<le> unat (saddr hp) + 4096 * heap_blocks hp"
    "below (m2\<lparr>kernel_heap := hp, bufs := (bufs m2)(c \<mapsto> replicate 4 0)\<rparr>) (Suc b + 1024 + 1)"
    by auto
  have bufs: "bufs m2 = bufs m" "(bufs m)(c := None) = bufs m"
    using z3(3) by (simp_all add: m2_def fun_upd_idem)
  let ?r = "new_4gb_result m flags hp c dir ps"
  have r: "m2\<lparr>kernel_heap := hp, bufs := bufs m, chunks := (chunks m2)(c \<mapsto> dir)\<rparr> = ?r"
    by (simp add: new_4gb_result_def m2_def)
  have run: "paging_new_4gb m flags = Done (c, ?r)"
    using z1(1) z2 z3(1,2) r bufs by (simp add: paging_new_4gb_def del: andthen_eq_Done)
  have ok: "pages_ok ?r"
  proof -
    have "heap_ok hp" using z3(6) by (simp add: kmem_ok_def)
    moreover have "pages_ok m2" using z2 by simp
    moreover have "in_heap hp = in_heap (kernel_heap m2)" using z3(8,9) by (simp add: in_heap_def fun_eq_iff)
    ultimately show ?thesis
      unfolding pages_ok_def kmem_ok_def r [symmetric] using z3(7) bufs(1)
      by (simp add: kmem_live_def)
  qed
  have "unat c + 4096 \<le> 2 ^ 28"
    using z3(8,9,10) hb2 assms(2) by (simp add: paging_room_def)
  moreover have "c \<notin> set (dir # ps)" and "unat c \<notin> fst ` kmem_live m"
    using z3(4) live2 by (auto simp: image_Un image_image)
  moreover have "bufs m c = None" using z3(3) bufs by simp
  moreover have "heap_live hp = kmem_live m \<union> (\<lambda>p. (unat p, 4096)) ` set (c # dir # ps)"
    using z3(7) live2 by auto
  moreover have "heap_blocks hp = heap_blocks (kernel_heap m)" "saddr hp = saddr (kernel_heap m)"
    using z3(8,9) hb2 by simp_all
  moreover have "dir \<notin> set ps" using old by blast
  moreover have "paging_room ?r (b + 1026) n"
  proof -
    have "paging_room m2 (Suc b + 1024) (Suc n)" using z2 by simp
    moreover have "Suc b + 1024 + 1 = b + 1026" by simp
    ultimately show ?thesis
      using z3(8-11) unfolding paging_room_def r [symmetric] by (simp add: below_def add.commute)
  qed
  ultimately show ?thesis
    using run ok old z1(4-8) z2 z3(5)
    by (intro exI [of _ c] exI [of _ dir] exI [of _ ps] exI [of _ hp]) simp
qed

lemmas paging_new_4gb_eq = paging_new_4gb_eq_room [where n = 0, unfolded add_0_right]

lemma paging_new_4gb_room:
  assumes "pages_ok m" and "paging_room m b (1026 + n)" and "paging_new_4gb m flags = Done (c, m')"
  shows "paging_room m' (b + 1026) n"
  using paging_new_4gb_eq_room [OF assms(1,2), of flags] assms(3) by auto

lemma or_less_28:
  assumes "unat (a :: u32) < 2 ^ 28" and "unat (b :: u32) < 2 ^ 28"
  shows "unat (a OR b) < 2 ^ 28"
proof -
  have "take_bit 28 a = a" "take_bit 28 b = b"
    using assms by (simp_all add: word_unat_eq_iff unsigned_take_bit_eq take_bit_nat_eq_self)
  then have "take_bit 28 (a OR b) = a OR b" by (simp add: take_bit_or)
  then have "unat (a OR b) = take_bit 28 (unat (a OR b))"
    by (metis unsigned_take_bit_eq)
  then show ?thesis
    using take_bit_nat_less_exp [of 28 "unat (a OR b)"] by metis
qed

lemma dir_entry_low:
  assumes "unat p + 4096 \<le> 2 ^ 28"
  shows "unat (dir_entry flags p) < 2 ^ 28"
proof -
  have "unat (ucast flags :: u32) < 2 ^ 28"
    using unsigned_less [of flags, where ?'a = nat] by (simp add: unsigned_ucast_eq take_bit_nat_eq_self)
  moreover have "unat PAGING_IS_WRITEABLE < 2 ^ 28" by (simp add: conf)
  ultimately show ?thesis using assms by (intro or_less_28) auto
qed

lemma new_4gb_ptables:
  assumes "length ps = 1024" and "distinct (dir # ps)"
  shows "ptables (new_4gb_result m flags hp c dir ps) dir = Some (map (dir_entry flags) ps)"
    and "i < 1024 \<Longrightarrow> ptables (new_4gb_result m flags hp c dir ps) (ps ! i) = Some (identity_table i flags)"
    and "p \<notin> set (dir # ps) \<Longrightarrow> ptables (new_4gb_result m flags hp c dir ps) p = ptables m p"
    and "chunks (new_4gb_result m flags hp c dir ps) c = Some dir"
proof -
  let ?ts = "map (\<lambda>k. identity_table k flags) [0..<1024]"
  have "map_of (zip ps ?ts) (ps ! i) = Some (identity_table i flags)" if "i < 1024"
    using map_of_zip_nth [of ps ?ts i] assms that by simp
  moreover have "map_of (zip ps ?ts) p = None" if "p \<notin> set ps" for p
    using that assms(1) by (simp add: map_of_zip_is_None)
  ultimately show
    "ptables (new_4gb_result m flags hp c dir ps) dir = Some (map (dir_entry flags) ps)"
    "i < 1024 \<Longrightarrow> ptables (new_4gb_result m flags hp c dir ps) (ps ! i) = Some (identity_table i flags)"
    "p \<notin> set (dir # ps) \<Longrightarrow> ptables (new_4gb_result m flags hp c dir ps) p = ptables m p"
    "chunks (new_4gb_result m flags hp c dir ps) c = Some dir"
    using assms(2) by (auto simp: new_4gb_result_def map_add_def)
qed

lemma new_4gb_space:
  assumes "length ps = 1024" and "distinct (dir # ps)" and "\<forall>p \<in> set ps. 4096 dvd unat p"
  shows "dir_ok (new_4gb_result m flags hp c dir ps) dir"
    and "k < 1024 * 1024 \<Longrightarrow> space (new_4gb_result m flags hp c dir ps) dir k =
      Some ((of_nat k * PAGING_PAGE_SIZE) OR ucast flags)"
    and "footprint (new_4gb_result m flags hp c dir ps) dir = set (dir # ps)"
proof -
  let ?m = "new_4gb_result m flags hp c dir ps" and ?d = "map (dir_entry flags) ps"
  note pt = new_4gb_ptables [OF assms(1,2)]
  have t: "table_of (dir_entry flags p) = p" if "p \<in> set ps" for p
    using table_of_flags assms(3) that by blast
  have ti: "table_of (?d ! i) = ps ! i" if "i < 1024" for i
    using t that assms(1) by simp
  show "dir_ok ?m dir"
    unfolding dir_ok_def
  proof (rule exI [of _ ?d], intro conjI allI impI pt(1))
    fix i :: nat
    assume i: "i < 1024"
    show "\<exists>t. ptables ?m (table_of (?d ! i)) = Some t \<and> length t = 1024"
      unfolding ti [OF i] pt(2) [OF i] by (simp add: identity_table_def)
    show "table_of (?d ! i) \<noteq> dir"
      unfolding ti [OF i] using assms(1,2) i by auto
    show "table_of (?d ! j) \<noteq> table_of (?d ! i)" if "j < i" for j
      using ti [OF i] ti [of j] that i assms(1,2) by (auto simp: nth_eq_iff_index_eq)
  qed (simp add: assms(1))
  show "footprint ?m dir = set (dir # ps)"
    using t by (force simp: footprint_def pt(1))
  assume k: "k < 1024 * 1024"
  then have i: "k div 1024 < 1024" by auto
  have "of_nat (k div 1024) * 0x400000 + of_nat (k mod 1024) * PAGING_PAGE_SIZE =
      (of_nat (1024 * (k div 1024) + k mod 1024) * PAGING_PAGE_SIZE :: u32)"
    unfolding of_nat_add of_nat_mult by (simp add: conf algebra_simps)
  then have e: "of_nat (k div 1024) * 0x400000 + of_nat (k mod 1024) * PAGING_PAGE_SIZE =
      (of_nat k * PAGING_PAGE_SIZE :: u32)"
    by (simp only: mult_div_mod_eq)
  have "identity_table (k div 1024) flags ! (k mod 1024) = (of_nat k * PAGING_PAGE_SIZE) OR ucast flags"
    unfolding e [symmetric] by (simp add: identity_table_def)
  then show "space ?m dir k = Some ((of_nat k * PAGING_PAGE_SIZE) OR ucast flags)"
    using i ti [OF i] by (simp add: space_def pt(1) pt(2) [OF i] assms(1)) (simp add: identity_table_def)
qed

lemma new_4gb_low:
  assumes "length ps = 1024" and "distinct (dir # ps)" and "\<forall>p \<in> set ps. unat p + 4096 \<le> 2 ^ 28"
  shows "low_tables (new_4gb_result m flags hp c dir ps) dir"
  using assms(3) dir_entry_low by (auto simp: low_tables_def new_4gb_ptables(1) [OF assms(1,2)])

text \<open>Releasing.\<close>

lemma kfree_page:
  assumes "kmem_ok m" and "(unat p, n) \<in> kmem_live m" and "bufs m p = None"
  shows "\<exists>hp. kfree m p = Done (m\<lparr>kernel_heap := hp\<rparr>) \<and> kmem_ok (m\<lparr>kernel_heap := hp\<rparr>) \<and>
    heap_live hp = kmem_live m - {(unat p, n)} \<and>
    heap_blocks hp = heap_blocks (kernel_heap m) \<and> saddr hp = saddr (kernel_heap m)"
proof -
  have ok: "heap_ok (kernel_heap m)" using assms(1) by (simp add: kmem_ok_def)
  obtain s k where sk: "(s, k) \<in> allocations (kernel_heap m)" "p = block_addr (kernel_heap m) s"
    using heap_live_allocation [OF ok] assms(2) unfolding kmem_live_def by metis
  from heap_free_allocation [OF ok sk(1)] sk(2) obtain hp where hp:
    "heap_free (kernel_heap m) p = Done hp" "heap_blocks hp = heap_blocks (kernel_heap m)"
    "saddr hp = saddr (kernel_heap m)" by blast
  then have kf: "kfree m p = Done (m\<lparr>kernel_heap := hp\<rparr>)"
    using assms(3) by (simp add: kfree_def fun_upd_idem)
  with kfree_live [OF assms(1,2)] hp show ?thesis
    by (intro exI [of _ hp]) (auto simp: kmem_live_def)
qed

lemma kfree_table_page:
  assumes "kmem_ok m" and "(unat p, n) \<in> kmem_live m" and "bufs m p = None"
  shows "\<exists>hp. kfree_table m p = Done (m\<lparr>kernel_heap := hp, ptables := (ptables m)(p := None)\<rparr>) \<and>
    kmem_ok (m\<lparr>kernel_heap := hp, ptables := (ptables m)(p := None)\<rparr>) \<and>
    heap_live hp = kmem_live m - {(unat p, n)} \<and>
    heap_blocks hp = heap_blocks (kernel_heap m) \<and> saddr hp = saddr (kernel_heap m)"
proof -
  from kfree_page [OF assms] obtain hp where "kfree m p = Done (m\<lparr>kernel_heap := hp\<rparr>)"
    "kmem_ok (m\<lparr>kernel_heap := hp\<rparr>)" "heap_live hp = kmem_live m - {(unat p, n)}"
    "heap_blocks hp = heap_blocks (kernel_heap m)" "saddr hp = saddr (kernel_heap m)" by blast
  then show ?thesis
    by (intro exI [of _ hp]) (simp add: kfree_table_def kmem_ok_def kmem_live_def)
qed

lemma paging_free_tables_eq:
  assumes "kmem_ok m" and "chunks m c = Some dir" and "ptables m dir = Some (map e ps)"
    and "length ps = 1024" and "distinct (dir # ps)" and "i \<le> 1024"
    and "\<forall>p \<in> set ps. table_of (e p) = p \<and> bufs m p = None"
    and "\<forall>p \<in> set (drop i ps). (unat p, 4096) \<in> kmem_live m"
  shows "\<exists>hp. paging_free_tables m c i =
      Done (m\<lparr>kernel_heap := hp, ptables := ptables m |` (- set (drop i ps))\<rparr>) \<and>
    kmem_ok (m\<lparr>kernel_heap := hp\<rparr>) \<and>
    heap_live hp = kmem_live m - (\<lambda>p. (unat p, 4096)) ` set (drop i ps) \<and>
    heap_blocks hp = heap_blocks (kernel_heap m) \<and> saddr hp = saddr (kernel_heap m)"
  using assms
proof (induction "1024 - i" arbitrary: i m)
  case 0
  then show ?case
    by (intro exI [of _ "kernel_heap m"], subst paging_free_tables.simps) (simp add: kmem_live_def restrict_map_def)
next
  case (Suc k)
  then have i: "i < 1024" and k: "k = 1024 - Suc i" by simp_all
  let ?p = "ps ! i"
  have dr: "drop i ps = ?p # drop (Suc i) ps"
    using i Suc.prems(4) by (simp add: Cons_nth_drop_Suc)
  have p: "?p \<in> set ps" "?p \<noteq> dir" using i Suc.prems(4,5) by auto
  have d: "?p \<notin> set (drop (Suc i) ps)"
    using Suc.prems(5) dr by (metis distinct.simps(2) distinct_drop)
  have "(unat ?p, 4096) \<in> kmem_live m" "bufs m ?p = None" "table_of (e ?p) = ?p"
    using Suc.prems(7,8) dr p by auto
  from kfree_table_page [OF Suc.prems(1) this(1,2)] this(3) obtain hp where hp:
    "kfree_table m (table_of (e ?p)) = Done (m\<lparr>kernel_heap := hp, ptables := (ptables m)(?p := None)\<rparr>)"
    "kmem_ok (m\<lparr>kernel_heap := hp, ptables := (ptables m)(?p := None)\<rparr>)"
    "heap_live hp = kmem_live m - {(unat ?p, 4096)}"
    "heap_blocks hp = heap_blocks (kernel_heap m)" "saddr hp = saddr (kernel_heap m)"
    by auto
  let ?m = "m\<lparr>kernel_heap := hp, ptables := (ptables m)(?p := None)\<rparr>"
  have step: "paging_free_tables m c i = paging_free_tables ?m c (Suc i)"
    using i Suc.prems(2-4) hp(1)
    by (subst paging_free_tables.simps) (simp add: tab_rd_def run_simps del: rd_eq_Done)
  have "\<forall>p \<in> set (drop (Suc i) ps). (unat p, 4096) \<in> kmem_live ?m"
    using Suc.prems(8) d hp(3) unfolding dr
    by (auto simp: kmem_live_def dest: word_unat_eq_iff [THEN iffD2])
  with Suc.hyps(1) [OF k hp(2)] Suc.prems(2-7) p i obtain hp' where IH:
    "paging_free_tables ?m c (Suc i) =
      Done (?m\<lparr>kernel_heap := hp', ptables := ptables ?m |` (- set (drop (Suc i) ps))\<rparr>)"
    "kmem_ok (?m\<lparr>kernel_heap := hp'\<rparr>)"
    "heap_live hp' = kmem_live ?m - (\<lambda>p. (unat p, 4096)) ` set (drop (Suc i) ps)"
    "heap_blocks hp' = heap_blocks (kernel_heap ?m)" "saddr hp' = saddr (kernel_heap ?m)"
    by auto
  have "ptables ?m |` (- set (drop (Suc i) ps)) = ptables m |` (- set (drop i ps))"
    unfolding dr by (auto simp: restrict_map_def fun_eq_iff)
  moreover have "heap_live hp' = kmem_live m - (\<lambda>p. (unat p, 4096)) ` set (drop i ps)"
    unfolding IH(3) dr using hp(3) by (auto simp: kmem_live_def)
  moreover have "kmem_ok (m\<lparr>kernel_heap := hp'\<rparr>)"
    using IH(2) by (simp add: kmem_ok_def kmem_live_def)
  ultimately show ?case
    unfolding step using IH(1,4,5) hp(4,5) by (intro exI [of _ hp']) simp
qed

text \<open>What is known of the objects of a new address space when it is released.\<close>

definition new_space :: "'a pmem_scheme \<Rightarrow> u8 \<Rightarrow> heap \<Rightarrow> addr \<Rightarrow> addr \<Rightarrow> addr list \<Rightarrow> bool" where
  "new_space m flags hp c dir ps \<longleftrightarrow> pages_ok (new_4gb_result m flags hp c dir ps) \<and> length ps = 1024 \<and>
     distinct (c # dir # ps) \<and> (\<forall>p \<in> set (dir # ps). ptables m p = None) \<and> (\<forall>p \<in> set (c # dir # ps). bufs m p = None) \<and>
     (\<forall>p \<in> set (c # dir # ps). unat p \<notin> fst ` kmem_live m \<and> 4096 dvd unat p \<and> unat p + 4096 \<le> 2 ^ 28) \<and>
     heap_live hp = kmem_live m \<union> (\<lambda>p. (unat p, 4096)) ` set (c # dir # ps) \<and>
     heap_blocks hp = heap_blocks (kernel_heap m) \<and> saddr hp = saddr (kernel_heap m)"

lemma paging_new_4gb_space:
  assumes "pages_ok m" and "paging_room m b (1026 + n)"
  obtains c dir ps hp where "paging_new_4gb m flags = Done (c, new_4gb_result m flags hp c dir ps)"
    and "new_space m flags hp c dir ps" and "paging_room (new_4gb_result m flags hp c dir ps) (b + 1026) n"
proof -
  from paging_new_4gb_eq_room [OF assms, of flags] show thesis
    by (elim exE conjE) (rule that, assumption, unfold new_space_def, intro conjI, assumption+)
qed

lemma paging_free_4gb_result:
  assumes "pages_ok m" and "new_space m flags hp c dir ps"
  shows "paging_free_4gb (new_4gb_result m flags hp c dir ps) c = Done m"
proof -
  define m' where "m' = new_4gb_result m flags hp c dir ps"
  from assms(2) have n:
    "m' = new_4gb_result m flags hp c dir ps" "pages_ok m'" "length ps = 1024" "distinct (c # dir # ps)"
    "\<forall>p \<in> set (dir # ps). ptables m p = None" "\<forall>p \<in> set (c # dir # ps). bufs m p = None"
    "\<forall>p \<in> set (c # dir # ps). unat p \<notin> fst ` kmem_live m \<and> 4096 dvd unat p \<and> unat p + 4096 \<le> 2 ^ 28"
    "heap_live hp = kmem_live m \<union> (\<lambda>p. (unat p, 4096)) ` set (c # dir # ps)"
    "heap_blocks hp = heap_blocks (kernel_heap m)" "saddr hp = saddr (kernel_heap m)"
    by (simp_all only: new_space_def m'_def) (elim conjE, assumption)+
  have ds: "distinct (dir # ps)" using n(4) by simp
  have m': "bufs m' = bufs m" "kernel_heap m' = hp" "chunks m' = (chunks m)(c \<mapsto> dir)"
    by (simp_all add: n(1) new_4gb_result_def)
  note pt = new_4gb_ptables [OF n(3) ds, where m = m and flags = flags and hp = hp and c = c, folded n(1)]
  have live: "kmem_live m' = kmem_live m \<union> (\<lambda>p. (unat p, 4096)) ` set (c # dir # ps)"
    using n(8) m'(2) by (simp add: kmem_live_def)
  have inj: "(unat p, k) \<in> (\<lambda>p. (unat p, 4096)) ` A \<longleftrightarrow> p \<in> A \<and> k = 4096" for p :: addr and k :: nat and A
    by (auto dest: word_unat_eq_iff [THEN iffD2])
  have "kmem_ok m'" using n(2) by (simp add: pages_ok_def)
  moreover have "\<forall>p \<in> set ps. table_of (dir_entry flags p) = p \<and> bufs m' p = None"
    using n(6,7) m'(1) table_of_flags by simp
  moreover have "\<forall>p \<in> set (drop 0 ps). (unat p, 4096) \<in> kmem_live m'"
    using live by auto
  ultimately obtain h1 where h1: "paging_free_tables m' c 0 =
      Done (m'\<lparr>kernel_heap := h1, ptables := ptables m' |` (- set ps)\<rparr>)"
    "kmem_ok (m'\<lparr>kernel_heap := h1\<rparr>)" "heap_live h1 = kmem_live m' - (\<lambda>p. (unat p, 4096)) ` set ps"
    "heap_blocks h1 = heap_blocks hp" "saddr h1 = saddr hp"
    using paging_free_tables_eq [OF _ pt(4) pt(1) n(3) ds, of 0] m'(2) by auto
  let ?m1 = "m'\<lparr>kernel_heap := h1, ptables := ptables m' |` (- set ps)\<rparr>"
  have "kmem_ok ?m1" using h1(2) by (simp add: kmem_ok_def kmem_live_def)
  moreover have "(unat dir, 4096) \<in> kmem_live ?m1"
    using h1(3) live inj ds by (simp add: kmem_live_def)
  moreover have "bufs ?m1 dir = None" using n(6) m'(1) by simp
  ultimately obtain h2 where h2: "kfree_table ?m1 dir =
      Done (?m1\<lparr>kernel_heap := h2, ptables := (ptables ?m1)(dir := None)\<rparr>)"
    "kmem_ok (?m1\<lparr>kernel_heap := h2, ptables := (ptables ?m1)(dir := None)\<rparr>)"
    "heap_live h2 = kmem_live ?m1 - {(unat dir, 4096)}" "heap_blocks h2 = heap_blocks h1" "saddr h2 = saddr h1"
    using kfree_table_page by fastforce
  let ?m2 = "?m1\<lparr>kernel_heap := h2, ptables := (ptables ?m1)(dir := None)\<rparr>"
  have "(unat c, 4096) \<in> kmem_live ?m2"
    using h1(3) h2(3) live inj n(4) by (simp add: kmem_live_def word_unat_eq_iff [symmetric])
  moreover have "bufs ?m2 c = None" using n(6) m'(1) by simp
  ultimately obtain h3 where h3: "kfree ?m2 c = Done (?m2\<lparr>kernel_heap := h3\<rparr>)"
    "kmem_ok (?m2\<lparr>kernel_heap := h3\<rparr>)" "heap_live h3 = kmem_live ?m2 - {(unat c, 4096)}"
    "heap_blocks h3 = heap_blocks h2" "saddr h3 = saddr h2"
    using kfree_page [OF h2(2), of c 4096] by auto
  let ?X = "(\<lambda>p. (unat p, 4096 :: nat)) ` set (c # dir # ps)"
  have "(unat p, 4096) \<notin> kmem_live m" if "p \<in> set (c # dir # ps)" for p
    using n(7) that by (metis fst_conv image_eqI)
  then have "kmem_live m \<inter> ?X = {}" by blast
  moreover have "heap_live h3 = (kmem_live m \<union> ?X) - ?X"
  proof -
    have "A - Y - {d} - {e} = A - insert e (insert d Y)" for A Y :: "(nat \<times> nat) set" and d e
      by auto
    moreover have "heap_live h3 = kmem_live m' - (\<lambda>p. (unat p, 4096)) ` set ps -
        {(unat dir, 4096)} - {(unat c, 4096)}"
      using h3(3) h2(3) h1(3) by (simp add: kmem_live_def)
    ultimately show ?thesis unfolding live by simp
  qed
  ultimately have "heap_live h3 = kmem_live m" by blast
  then have "allocations h3 = allocations (kernel_heap m)"
    using heap_live_inj [of h3 "kernel_heap m"] h3(5) h2(5) h1(5) n(10) by (simp add: kmem_live_def)
  then have heap: "h3 = kernel_heap m"
    using h3(2,4,5) h2(4,5) h1(4,5) n(9,10) assms(1)
    by (intro heap_eqI) (simp_all add: pages_ok_def kmem_ok_def)
  have tables: "(ptables ?m1)(dir := None) = ptables m"
  proof
    fix p
    show "((ptables ?m1)(dir := None)) p = ptables m p"
      using n(5) pt(3) [of p] by (cases "p \<in> set (dir # ps)") (auto simp: restrict_map_def)
  qed
  have "chunks m c = None" using assms(1) n(7) by (auto simp: pages_ok_def)
  then have "(chunks m')(c := None) = chunks m"
    using m'(3) by (simp add: fun_upd_idem)
  moreover have "ptables ?m2 = ptables m" using tables by simp
  ultimately show ?thesis
    using h1(1) h2(1) h3(1) pt(4) heap tables
    by (simp add: paging_free_4gb_def run_simps n(1) new_4gb_result_def)
qed

lemma paging_free_4gb_new:
  assumes "pages_ok m" and "paging_room m b 1026" and "paging_new_4gb m flags = Done (c, m')"
  shows "paging_free_4gb m' c = Done m"
proof -
  have "paging_room m b (1026 + 0)" using assms(2) by simp
  from paging_new_4gb_space [OF assms(1) this, of flags] obtain c' dir ps hp where
    "paging_new_4gb m flags = Done (c', new_4gb_result m flags hp c' dir ps)" "new_space m flags hp c' dir ps" .
  with paging_free_4gb_result [OF assms(1), of flags hp c' dir ps] assms(3) show ?thesis by auto
qed

section \<open>A concrete address space\<close>

definition boot_pmem :: pmem where
  "boot_pmem = \<lparr>kernel_heap = boot_heap, bufs = Map.empty, ptables = Map.empty, chunks = Map.empty,
     current_directory = 0, cr3 = 0\<rparr>"

lemma boot_pmem_ok: "pages_ok boot_pmem" "paging_room boot_pmem 0 1026"
  by (simp_all add: pages_ok_def kmem_ok_def boot_pmem_def boot_heap_ok paging_room_def below_def
      boot_heap_simps)

text \<open>What a new chunk guarantees, in terms of its directory.\<close>

lemma new_space_directory:
  assumes "new_space m flags hp c dir ps" and "r = new_4gb_result m flags hp c dir ps"
  shows "chunks r = (chunks m)(c \<mapsto> dir)" and "dir_ok r dir" and "low_tables r dir"
    and "k < 1024 * 1024 \<Longrightarrow> space r dir k = Some ((of_nat k * PAGING_PAGE_SIZE) OR ucast flags)"
    and "footprint r dir \<inter> dom (ptables m) = {}" and "p \<in> dom (ptables m) \<Longrightarrow> ptables r p = ptables m p"
proof -
  from assms(1) have n: "length ps = 1024" "distinct (dir # ps)" "\<forall>p \<in> set (dir # ps). ptables m p = None"
    "\<forall>p \<in> set ps. 4096 dvd unat p" "\<forall>p \<in> set ps. unat p + 4096 \<le> 2 ^ 28"
    by (simp_all add: new_space_def)
  show "chunks r = (chunks m)(c \<mapsto> dir)" by (simp add: assms(2) new_4gb_result_def)
  show "dir_ok r dir" unfolding assms(2) by (rule new_4gb_space(1) [OF n(1,2,4)])
  show "low_tables r dir" unfolding assms(2) by (rule new_4gb_low [OF n(1,2,5)])
  show "k < 1024 * 1024 \<Longrightarrow> space r dir k = Some ((of_nat k * PAGING_PAGE_SIZE) OR ucast flags)"
    unfolding assms(2) by (rule new_4gb_space(2) [OF n(1,2,4)])
  show "footprint r dir \<inter> dom (ptables m) = {}"
    unfolding assms(2) new_4gb_space(3) [OF n(1,2,4)] using n(3) by auto
  show "p \<in> dom (ptables m) \<Longrightarrow> ptables r p = ptables m p"
    unfolding assms(2) using n(3) by (intro new_4gb_ptables(3) [OF n(1,2)]) auto
qed

lemma new_4gb_directory:
  assumes "pages_ok m" and "paging_room m b 1026"
  obtains c dir m' where "paging_new_4gb m flags = Done (c, m')" and "pages_ok m'"
    and "chunks m' c = Some dir" and "dir_ok m' dir" and "low_tables m' dir"
    and "\<And>k. k < 1024 * 1024 \<Longrightarrow> space m' dir k = Some ((of_nat k * PAGING_PAGE_SIZE) OR ucast flags)"
    and "footprint m' dir \<inter> dom (ptables m) = {}"
    and "\<And>p. p \<in> dom (ptables m) \<Longrightarrow> ptables m' p = ptables m p"
    and "\<And>q. q \<in> dom (chunks m) \<Longrightarrow> chunks m' q = chunks m q"
proof -
  have "paging_room m b (1026 + 0)" using assms(2) by simp
  from paging_new_4gb_space [OF assms(1) this, of flags] obtain c dir ps hp where
    n: "paging_new_4gb m flags = Done (c, new_4gb_result m flags hp c dir ps)" "new_space m flags hp c dir ps" .
  let ?r = "new_4gb_result m flags hp c dir ps"
  note d = new_space_directory [OF n(2) refl]
  have "pages_ok ?r" "unat c \<notin> fst ` kmem_live m" using n(2) by (simp_all add: new_space_def)
  moreover from this(2) have "chunks ?r q = chunks m q" if "q \<in> dom (chunks m)" for q
    using that assms(1) unfolding d(1) by (auto simp: pages_ok_def)
  moreover have "chunks ?r c = Some dir" unfolding d(1) by simp
  ultimately show thesis using that [OF n(1) _ _ d(2,3)] d(4,5,6) by blast
qed

section \<open>Properties\<close>

text \<open>
  C14. \<open>paging_map_range\<close> maps exactly the pages asked for: on a well-formed directory and for
  page aligned addresses it returns 0, the entry of page \<open>k\<close> of the range becomes the \<open>k\<close>-th page
  frame from \<open>phys\<close> on with the flags, every other page of the address space keeps its entry, and
  nothing outside the tables of this directory is written.
\<close>

theorem paging_map_range_maps:
  assumes "chunks m c = Some dir" and "dir_ok m dir" and "paging_is_aligned virt"
    and "paging_is_aligned phys" and "page_no virt + n \<le> 1024 * 1024"
  shows "\<exists>m'. paging_map_range m c virt phys (int n) flags = Done (0, m') \<and> dir_ok m' dir \<and>
    m' = m\<lparr>ptables := ptables m'\<rparr> \<and>
    (\<forall>k < n. space m' dir (page_no virt + k) = Some ((phys + of_nat k * PAGING_PAGE_SIZE) OR flags)) \<and>
    (\<forall>k. k < page_no virt \<or> page_no virt + n \<le> k \<longrightarrow> space m' dir k = space m dir k) \<and>
    (\<forall>p. p \<notin> footprint m dir \<longrightarrow> ptables m' p = ptables m p)"
proof -
  from paging_map_range_loop_space [OF assms, of flags] obtain m' where m':
    "paging_map_range_loop m c virt phys n flags 0 = Done (0, m')" "m' = m\<lparr>ptables := ptables m'\<rparr>"
    "dir_ok m' dir" "\<forall>p. p \<notin> footprint m dir - {dir} \<longrightarrow> ptables m' p = ptables m p"
    "\<forall>k. space m' dir k = (if page_no virt \<le> k \<and> k < page_no virt + n
       then Some ((phys + of_nat (k - page_no virt) * PAGING_PAGE_SIZE) OR flags)
       else space m dir k)" by blast
  have "\<forall>k < n. space m' dir (page_no virt + k) = Some ((phys + of_nat k * PAGING_PAGE_SIZE) OR flags)"
    using m'(5) by simp
  moreover have "\<forall>k. k < page_no virt \<or> page_no virt + n \<le> k \<longrightarrow> space m' dir k = space m dir k"
    using m'(5) by auto
  ultimately show ?thesis
    using m'(1-4) unfolding paging_map_range_def nat_int by blast
qed

theorem paging_map_range_maps_witness:
  "\<exists>c dir m m'. paging_new_4gb boot_pmem 1 = Done (c, m) \<and>
    paging_map_range m c 0x400000 0x1000000 2 7 = Done (0, m') \<and>
    space m' dir 1025 = Some ((0x1000000 + 1 * PAGING_PAGE_SIZE) OR 7)"
proof -
  from new_4gb_directory [OF boot_pmem_ok, of 1] obtain c dir m where d:
    "paging_new_4gb boot_pmem 1 = Done (c, m)" "chunks m c = Some dir" "dir_ok m dir" by metis
  have p: "page_no 0x400000 = 1024" by (simp add: page_no_def)
  from paging_map_range_maps [OF d(2,3), of "0x400000" "0x1000000" 2 7]
  obtain m' where m': "paging_map_range m c 0x400000 0x1000000 2 7 = Done (0, m')"
    "\<forall>k < 2. space m' dir (page_no 0x400000 + k) = Some ((0x1000000 + of_nat k * PAGING_PAGE_SIZE) OR 7)"
    by (auto simp: paging_is_aligned_def conf p)
  from m'(2) [rule_format, of 1] have "space m' dir 1025 = Some ((0x1000000 + 1 * PAGING_PAGE_SIZE) OR 7)"
    by (simp add: p)
  with d(1) m'(1) show ?thesis by blast
qed

text \<open>
  Address spaces are isolated: mapping pages in one directory changes no entry of another
  directory that shares no table with it.
\<close>

theorem paging_map_range_isolated:
  assumes "chunks m c = Some dir" and "dir_ok m dir" and "paging_is_aligned virt"
    and "paging_is_aligned phys" and "page_no virt + n \<le> 1024 * 1024"
    and "footprint m dir \<inter> footprint m dir2 = {}"
    and "paging_map_range m c virt phys (int n) flags = Done (res, m')"
  shows "space m' dir2 = space m dir2 \<and> dir_ok m' dir2 = dir_ok m dir2"
proof -
  from paging_map_range_loop_space [OF assms(1-5), of flags] assms(7)
  have "\<forall>p. p \<notin> footprint m dir - {dir} \<longrightarrow> ptables m' p = ptables m p"
    by (auto simp: paging_map_range_def)
  with assms(6) have "ptables m' p = ptables m p" if "p \<in> footprint m dir2" for p
    using that by blast
  with space_frame [of m dir2 m'] show ?thesis by blast
qed

theorem paging_map_range_isolated_witness:
  "\<exists>c1 d1 c2 d2 m1 m2 m3. paging_new_4gb boot_pmem 1 = Done (c1, m1) \<and> dir_ok m1 d1 \<and>
    paging_new_4gb m1 7 = Done (c2, m2) \<and> d1 \<noteq> d2 \<and>
    paging_map_range m2 c2 0x400000 0x1000000 2 7 = Done (0, m3) \<and> space m3 d1 = space m2 d1"
proof -
  from boot_pmem_ok(2) have "paging_room boot_pmem 0 (1026 + 1026)"
    by (simp add: paging_room_def boot_pmem_def boot_heap_simps)
  from new_4gb_directory [OF boot_pmem_ok, of 1] obtain c1 d1 m1 where 1:
    "paging_new_4gb boot_pmem 1 = Done (c1, m1)" "pages_ok m1" "dir_ok m1 d1" by metis
  from paging_new_4gb_room [OF boot_pmem_ok(1) \<open>paging_room boot_pmem 0 (1026 + 1026)\<close> 1(1)]
  have room: "paging_room m1 1026 1026" by simp
  from new_4gb_directory [OF 1(2) room, of 7] obtain c2 d2 m2 where 2:
    "paging_new_4gb m1 7 = Done (c2, m2)" "chunks m2 c2 = Some d2" "dir_ok m2 d2"
    "footprint m2 d2 \<inter> dom (ptables m1) = {}"
    "\<And>p. p \<in> dom (ptables m1) \<Longrightarrow> ptables m2 p = ptables m1 p" by metis
  have sub: "footprint m1 d1 \<subseteq> dom (ptables m1)"
    using 1(3) by (fastforce simp: footprint_def in_set_conv_nth elim!: dir_okE)
  then have "footprint m2 d1 = footprint m1 d1"
    using space_frame(2) [of m1 d1 m2] 2(5) by blast
  with sub 2(4) have dj: "footprint m2 d2 \<inter> footprint m2 d1 = {}" by blast
  have al: "paging_is_aligned 0x400000" "paging_is_aligned 0x1000000" "page_no 0x400000 + 2 \<le> 1024 * 1024"
    by (simp_all add: paging_is_aligned_def page_no_def conf)
  from paging_map_range_loop_space [OF 2(2,3) al, of 7] obtain m3 where
    3: "paging_map_range m2 c2 0x400000 0x1000000 (int 2) 7 = Done (0, m3)"
    by (auto simp: paging_map_range_def)
  have "d1 \<noteq> d2"
    using dj by (auto simp: footprint_def)
  with paging_map_range_isolated [OF 2(2,3) al dj 3] 1 2(1) 3 show ?thesis by auto
qed
lemma paging_map_to_space:
  assumes "chunks m c = Some dir" and "dir_ok m dir"
    and "paging_is_aligned virt" and "paging_is_aligned phys" and "paging_is_aligned phys_end"
    and "phys \<le> phys_end" and "unat virt + (unat phys_end - unat phys) \<le> 2 ^ 32"
  shows "\<exists>m'. paging_map_to m c virt phys phys_end flags = Done (0, m') \<and>
    m' = m\<lparr>ptables := ptables m'\<rparr> \<and> dir_ok m' dir \<and>
    (\<forall>p. p \<notin> footprint m dir - {dir} \<longrightarrow> ptables m' p = ptables m p) \<and>
    (\<forall>k. space m' dir k = (if page_no virt \<le> k \<and> k < page_no virt + (unat phys_end - unat phys) div 4096
       then Some ((phys + of_nat (k - page_no virt) * PAGING_PAGE_SIZE) OR flags)
       else space m dir k))"
proof -
  let ?n = "(unat phys_end - unat phys) div 4096"
  have le: "unat phys \<le> unat phys_end" using assms(6) by (simp add: word_le_nat_alt)
  have bytes: "unat (phys_end - phys) = unat phys_end - unat phys"
    using assms(6) by (simp add: unat_sub)
  have aligned: "4096 dvd unat virt" "4096 dvd unat phys_end - unat phys"
    using assms(3-5) le by (simp_all add: paging_is_aligned_iff dvd_diff_nat)
  have "page_no virt + ?n = (unat virt + (unat phys_end - unat phys)) div 4096"
    using aligned by (simp add: page_no_def div_add)
  also have "\<dots> \<le> 2 ^ 32 div 4096" using assms(7) by (rule div_le_mono)
  finally have n: "page_no virt + ?n \<le> 1024 * 1024" by simp
  have pages: "sint ((phys_end - phys) div PAGING_PAGE_SIZE) = int ?n"
  proof -
    have "unat ((phys_end - phys) div PAGING_PAGE_SIZE) = ?n"
      by (simp add: unat_div bytes conf)
    moreover have "?n < 2 ^ 31" using n by simp
    ultimately show ?thesis by (simp add: sint_u32_small)
  qed
  from paging_map_range_loop_space [OF assms(1-4) n, of flags] obtain m' where m':
    "paging_map_range_loop m c virt phys ?n flags 0 = Done (0, m')" "m' = m\<lparr>ptables := ptables m'\<rparr>" "dir_ok m' dir"
    "\<forall>p. p \<notin> footprint m dir - {dir} \<longrightarrow> ptables m' p = ptables m p"
    "\<forall>k. space m' dir k = (if page_no virt \<le> k \<and> k < page_no virt + ?n
       then Some ((phys + of_nat (k - page_no virt) * PAGING_PAGE_SIZE) OR flags)
       else space m dir k)" by blast
  have "paging_map_to m c virt phys phys_end flags = Done (0, m')"
    using assms(3-5) leD [OF assms(6)] m'(1) pages
    by (simp add: paging_map_to_def mod_page_eq_0 paging_map_range_def Let_def)
  then show ?thesis using m'(2-5) by blast
qed


text \<open>
  C16. Translation agrees with the mapping: after a successful \<open>paging_map_to\<close> of the physical
  bytes from \<open>phys\<close> to \<open>phys_end\<close> at \<open>virt\<close>, \<open>paging_get_phyiscal_address\<close> sends byte \<open>i\<close> of the
  virtual range to byte \<open>i\<close> of the physical one, for every offset, aligned or not.
\<close>

theorem paging_map_to_translates:
  assumes "chunks m c = Some dir" and "dir_ok m dir" and "low_tables m dir"
    and "paging_is_aligned virt" and "paging_is_aligned phys" and "paging_is_aligned phys_end"
    and "phys \<le> phys_end" and "unat virt + (unat phys_end - unat phys) \<le> 2 ^ 32"
    and "unat flags < 4096"
  shows "\<exists>m'. paging_map_to m c virt phys phys_end flags = Done (0, m') \<and>
    (\<forall>i < unat phys_end - unat phys.
       paging_get_phyiscal_address m' dir (virt + of_nat i) = Done (phys + of_nat i))"
proof -
  let ?n = "(unat phys_end - unat phys) div 4096"
  have aligned: "4096 dvd unat virt" "4096 dvd unat phys_end - unat phys"
    using assms(4-7) by (simp_all add: paging_is_aligned_iff dvd_diff_nat word_le_nat_alt)
  from paging_map_to_space [OF assms(1,2,4-8), of flags] obtain m' where
    run: "paging_map_to m c virt phys phys_end flags = Done (0, m')" and m': "dir_ok m' dir"
    "\<forall>p. p \<notin> footprint m dir - {dir} \<longrightarrow> ptables m' p = ptables m p"
    "\<forall>k. space m' dir k = (if page_no virt \<le> k \<and> k < page_no virt + ?n
       then Some ((phys + of_nat (k - page_no virt) * PAGING_PAGE_SIZE) OR flags)
       else space m dir k)" by blast
  have "low_tables m' dir"
    using assms(3) m'(2) by (simp add: low_tables_def)
  note phys_of = paging_get_phyiscal_address_space [OF m'(1) this]
  have "paging_get_phyiscal_address m' dir (virt + of_nat i) = Done (phys + of_nat i)"
    if i: "i < unat phys_end - unat phys" for i
  proof -
    let ?q = "i div 4096"
    have i32: "unat (of_nat i :: u32) = i"
      using i unat_u32_less [of phys_end] by (intro unat_of_nat_u32) simp
    have vi: "unat (virt + of_nat i) = unat virt + i"
      using i assms(8) by (subst unat_add_u32) (simp_all add: i32)
    have pg: "page_no (virt + of_nat i) = page_no virt + ?q"
      unfolding page_no_def vi using aligned(1) by (metis div_plus_div_distrib_dvd_left)
    have "?q < ?n"
      using i aligned(2) by (simp add: less_mult_imp_div_less)
    with m'(3) pg have e: "space m' dir (page_no (virt + of_nat i)) =
        Some ((phys + of_nat ?q * PAGING_PAGE_SIZE) OR flags)" by simp
    have "unat ((virt + of_nat i) mod 4096) = i mod 4096"
      using aligned(1) by (simp add: unat_mod vi mod_add_left_eq [symmetric] dvd_imp_mod_0)
    then have low: "(virt + of_nat i) mod 4096 = of_nat (i mod 4096)"
      by (simp add: word_unat_eq_iff unat_of_nat_u32 less_trans [OF pos_mod_bound])
    have "paging_is_aligned (phys + of_nat k * PAGING_PAGE_SIZE)" for k
    proof (induction k)
      case (Suc k)
      then show ?case using aligned_step [of "phys + of_nat k * PAGING_PAGE_SIZE"]
        by (simp add: algebra_simps)
    qed (simp add: assms(5))
    then have "table_of ((phys + of_nat ?q * PAGING_PAGE_SIZE) OR flags) = phys + of_nat ?q * PAGING_PAGE_SIZE"
      using table_of_or_small assms(9) by (simp add: paging_is_aligned_iff)
    then have "table_of ((phys + of_nat ?q * PAGING_PAGE_SIZE) OR flags) + (virt + of_nat i) mod 4096 =
        phys + of_nat (4096 * ?q + i mod 4096)"
      unfolding low of_nat_add of_nat_mult by (simp add: conf algebra_simps)
    then show ?thesis unfolding phys_of [OF e] by simp
  qed
  with run show ?thesis by blast
qed

theorem paging_map_to_translates_witness:
  "\<exists>c dir m m'. paging_new_4gb boot_pmem 1 = Done (c, m) \<and>
    paging_map_to m c 0x400000 0x1000000 0x1002000 7 = Done (0, m') \<and>
    paging_get_phyiscal_address m' dir (0x400000 + of_nat 5000) = Done (0x1000000 + of_nat 5000)"
proof -
  from new_4gb_directory [OF boot_pmem_ok, of 1] obtain c dir m where d:
    "paging_new_4gb boot_pmem 1 = Done (c, m)" "chunks m c = Some dir" "dir_ok m dir"
    "low_tables m dir" by metis
  have "paging_is_aligned 0x400000" "paging_is_aligned 0x1000000" "paging_is_aligned 0x1002000"
    by (simp_all add: paging_is_aligned_def conf)
  from paging_map_to_translates [OF d(2-4) this, of 7] obtain m' where
    "paging_map_to m c 0x400000 0x1000000 0x1002000 7 = Done (0, m')"
    "\<forall>i < 8192. paging_get_phyiscal_address m' dir (0x400000 + of_nat i) = Done (0x1000000 + of_nat i)"
    by auto
  moreover have "(5000 :: nat) < 8192" by simp
  ultimately show ?thesis using d(1) by blast
qed

text \<open>
  Paging refuses addresses that are not page aligned: \<open>paging_set\<close>, \<open>paging_map\<close> and
  \<open>paging_map_to\<close> return \<open>-EINVARG\<close> and write nothing; so does \<open>paging_map_to\<close> when the physical
  range ends before it starts.
\<close>

theorem paging_misaligned:
  assumes "\<not> paging_is_aligned virt"
  shows "paging_set m dir virt val = Done (- EINVARG, m) \<and>
    paging_map m c virt phys flags = Done (- EINVARG, m) \<and>
    paging_map_to m c virt phys phys_end flags = Done (- EINVARG, m) \<and>
    paging_map m c phys virt flags = Done (- EINVARG, m) \<and>
    paging_map_to m c phys virt phys_end flags = Done (- EINVARG, m) \<and>
    (phys_end < phys \<longrightarrow> paging_map_to m c v phys phys_end flags = Done (- EINVARG, m))"
  using assms
  by (simp add: paging_set_def paging_map_def paging_map_to_def mod_page_eq_0)

theorem paging_misaligned_witness:
  "paging_set boot_pmem 0 0x1001 7 = Done (- EINVARG, boot_pmem) \<and>
   paging_map boot_pmem 0 0x1001 0x2000 7 = Done (- EINVARG, boot_pmem) \<and>
   paging_map_to boot_pmem 0 0x1000 0x3000 0x2000 7 = Done (- EINVARG, boot_pmem)"
  using paging_misaligned [where virt = "0x1001" and m = boot_pmem and c = 0 and phys = "0x2000"
      and dir = 0 and val = 7 and flags = 7]
    paging_misaligned [where virt = "0x1001" and m = boot_pmem and c = 0 and phys = "0x3000"
      and phys_end = "0x2000" and flags = 7 and v = "0x1000"]
  by (simp add: paging_is_aligned_def conf)

text \<open>
  C27. A new chunk is the identity mapping of the whole 4 GB address space with the flags given:
  while 1026 blocks of the kernel heap are free, \<open>paging_new_4gb\<close> succeeds, and \<open>paging_get\<close> of
  every page aligned address in the new directory returns the address itself with the flags.
\<close>

theorem paging_new_4gb_identity:
  assumes "pages_ok m" and "paging_room m b 1026"
  shows "\<exists>c dir m'. paging_new_4gb m flags = Done (c, m') \<and> pages_ok m' \<and> chunks m' c = Some dir \<and>
    dir_ok m' dir \<and> (\<forall>v. paging_is_aligned v \<longrightarrow> paging_get m' dir v = Done (v OR ucast flags))"
proof -
  from new_4gb_directory [OF assms, of flags] obtain c dir m' where n:
    "paging_new_4gb m flags = Done (c, m')" "pages_ok m'" "chunks m' c = Some dir" "dir_ok m' dir"
    "low_tables m' dir"
    "\<And>k. k < 1024 * 1024 \<Longrightarrow> space m' dir k = Some ((of_nat k * PAGING_PAGE_SIZE) OR ucast flags)"
    by metis
  have "paging_get m' dir v = Done (v OR ucast flags)" if v: "paging_is_aligned v" for v
  proof -
    have "v = of_nat (page_no v * 4096)"
      using v by (simp add: page_no_def paging_is_aligned_iff)
    then have "of_nat (page_no v) * PAGING_PAGE_SIZE = v"
      by (simp add: conf)
    with paging_get_space [OF n(4,5) v] n(6) [OF page_no_less [of v]] show ?thesis by simp
  qed
  with n show ?thesis by blast
qed

theorem paging_new_4gb_identity_witness:
  "\<exists>c dir m'. paging_new_4gb boot_pmem 3 = Done (c, m') \<and> pages_ok m' \<and> chunks m' c = Some dir \<and>
    dir_ok m' dir \<and> (\<forall>v. paging_is_aligned v \<longrightarrow> paging_get m' dir v = Done (v OR ucast (3 :: u8)))"
  by (rule paging_new_4gb_identity [OF boot_pmem_ok])

text \<open>
  \<open>paging_free_4gb\<close> undoes \<open>paging_new_4gb\<close>: the 1026 allocations of a chunk are all
  released, and heap, tables and chunks are what they were before.
\<close>

theorem paging_new_free_roundtrip:
  assumes "pages_ok m" and "paging_room m b 1026"
  shows "\<exists>c m'. paging_new_4gb m flags = Done (c, m') \<and> paging_free_4gb m' c = Done m"
proof -
  from paging_new_4gb_eq [OF assms, of flags] obtain c m' where "paging_new_4gb m flags = Done (c, m')"
    by metis
  with paging_free_4gb_new [OF assms this] show ?thesis by blast
qed

theorem paging_new_free_roundtrip_witness:
  "\<exists>c m'. paging_new_4gb boot_pmem 7 = Done (c, m') \<and> paging_free_4gb m' c = Done boot_pmem"
  by (rule paging_new_free_roundtrip [OF boot_pmem_ok])

end
