(* ===== verification/Address_Spaces.thy ===== *)
theory Address_Spaces
  imports Paging
begin

text \<open>
  Several address spaces at once (\<^verbatim>\<open>src/memory/paging/paging.c\<close>). The kernel keeps one page directory per
  task and maps into them in any order. \<open>address_spaces\<close> is the typing of the page table store: every
  directory well-formed, no table in two of them. \<open>mapped\<close> is the specification: one independent map from
  pages to entries per directory. Every sequence of \<open>paging_map_range\<close> calls keeps the typing and implements
  the specification.
\<close>

type_synonym map_request = "addr \<times> addr \<times> addr \<times> nat \<times> u32"

definition address_spaces :: "'a pmem_scheme \<Rightarrow> addr set \<Rightarrow> bool" where
  "address_spaces m ds \<longleftrightarrow> (\<forall>d \<in> ds. dir_ok m d) \<and>
     (\<forall>d \<in> ds. \<forall>e \<in> ds. d \<noteq> e \<longrightarrow> footprint m d \<inter> footprint m e = {})"

fun legal_request :: "(addr \<Rightarrow> addr option) \<Rightarrow> addr set \<Rightarrow> map_request \<Rightarrow> bool" where
  "legal_request dirs ds (c, virt, phys, n, f) \<longleftrightarrow> (\<exists>d \<in> ds. dirs c = Some d) \<and>
     paging_is_aligned virt \<and> paging_is_aligned phys \<and> page_no virt + n \<le> 1024 * 1024"

text \<open>The calls, one after the other, and what they mean on independent maps.\<close>

fun map_requests :: "'a pmem_scheme \<Rightarrow> map_request list \<Rightarrow> (int \<times> 'a pmem_scheme) run" where
  "map_requests m [] = Done (0, m)"
| "map_requests m ((c, virt, phys, n, f) # rs) =
     andthen (paging_map_range m c virt phys (int n) f) (\<lambda>(res, m).
     if res < 0 then Done (res, m) else map_requests m rs)"

fun map_pages :: "(nat \<Rightarrow> u32 option) \<Rightarrow> addr \<Rightarrow> addr \<Rightarrow> nat \<Rightarrow> u32 \<Rightarrow> nat \<Rightarrow> u32 option" where
  "map_pages s virt phys n f k = (if page_no virt \<le> k \<and> k < page_no virt + n
     then Some ((phys + of_nat (k - page_no virt) * PAGING_PAGE_SIZE) OR f) else s k)"

fun mapped :: "(addr \<Rightarrow> addr option) \<Rightarrow> (addr \<Rightarrow> nat \<Rightarrow> u32 option) \<Rightarrow> map_request list \<Rightarrow> addr \<Rightarrow> nat \<Rightarrow> u32 option" where
  "mapped dirs S [] = S"
| "mapped dirs S ((c, virt, phys, n, f) # rs) =
     mapped dirs (\<lambda>d. if dirs c = Some d then map_pages (S d) virt phys n f else S d) rs"

section \<open>One request\<close>

lemma paging_map_range_spaces:
  assumes "address_spaces m ds" and "legal_request (chunks m) ds (c, virt, phys, n, f)"
  shows "\<exists>m'. paging_map_range m c virt phys (int n) f = Done (0, m') \<and> m' = m\<lparr>ptables := ptables m'\<rparr> \<and>
    address_spaces m' ds \<and>
    (\<forall>d \<in> ds. footprint m' d = footprint m d \<and>
       space m' d = (if chunks m c = Some d then map_pages (space m d) virt phys n f else space m d))"
proof -
  from assms obtain d0 where d0: "d0 \<in> ds" "chunks m c = Some d0" "dir_ok m d0"
    and al: "paging_is_aligned virt" "paging_is_aligned phys" "page_no virt + n \<le> 1024 * 1024"
    by (auto simp: address_spaces_def)
  from paging_map_range_loop_space [OF d0(2,3) al, of f] obtain m' where m':
    "paging_map_range_loop m c virt phys n f 0 = Done (0, m')" "m' = m\<lparr>ptables := ptables m'\<rparr>"
    "dir_ok m' d0" "footprint m' d0 = footprint m d0"
    "\<forall>p. p \<notin> footprint m d0 - {d0} \<longrightarrow> ptables m' p = ptables m p"
    "\<forall>k. space m' d0 k = map_pages (space m d0) virt phys n f k" by auto
  have other: "space m' d = space m d" "footprint m' d = footprint m d" "dir_ok m' d" if "d \<in> ds" "d \<noteq> d0" for d
  proof -
    from assms(1) d0(1) that have "footprint m d \<inter> footprint m d0 = {}" "dir_ok m d"
      by (auto simp: address_spaces_def)
    with m'(5) have "ptables m' p = ptables m p" if "p \<in> footprint m d" for p using that by blast
    with space_frame [of m d m'] \<open>dir_ok m d\<close>
    show "space m' d = space m d" "footprint m' d = footprint m d" "dir_ok m' d" by auto
  qed
  have fp: "footprint m' d = footprint m d" and ok: "dir_ok m' d" if "d \<in> ds" for d
    using other [OF that] m'(3,4) by (cases "d = d0"; simp)+
  have "space m' d = (if chunks m c = Some d then map_pages (space m d) virt phys n f else space m d)"
    if "d \<in> ds" for d
    using other(1) [OF that] m'(6) d0(2) by (cases "d = d0") auto
  moreover have "address_spaces m' ds" using assms(1) fp ok by (simp add: address_spaces_def)
  moreover have "paging_map_range m c virt phys (int n) f = Done (0, m')"
    using m'(1) by (simp add: paging_map_range_def)
  ultimately show ?thesis using m'(2) fp by blast
qed

lemma mapped_cong: "(\<And>d. d \<in> ds \<Longrightarrow> S d = T d) \<Longrightarrow> d \<in> ds \<Longrightarrow> mapped dirs S rs d = mapped dirs T rs d"
proof (induction rs arbitrary: S T)
  case (Cons r rs)
  obtain c virt phys n f where r: "r = (c, virt, phys, n, f)" by (metis prod_cases5)
  show ?case unfolding r mapped.simps by (rule Cons.IH) (simp_all add: Cons.prems del: map_pages.simps)
qed simp

lemma map_requests_spaces:
  assumes "address_spaces m ds" and "list_all (legal_request (chunks m) ds) rs"
  shows "\<exists>m'. map_requests m rs = Done (0, m') \<and> m' = m\<lparr>ptables := ptables m'\<rparr> \<and> address_spaces m' ds \<and>
    (\<forall>d \<in> ds. footprint m' d = footprint m d \<and> space m' d = mapped (chunks m) (space m) rs d)"
  using assms
proof (induction rs arbitrary: m)
  case (Cons r rs)
  obtain c virt phys n f where r: "r = (c, virt, phys, n, f)" by (metis prod_cases5)
  from Cons.prems have l: "legal_request (chunks m) ds (c, virt, phys, n, f)" by (simp add: r)
  from paging_map_range_spaces [OF Cons.prems(1) l] obtain m1 where m1:
    "paging_map_range m c virt phys (int n) f = Done (0, m1)" "m1 = m\<lparr>ptables := ptables m1\<rparr>" "address_spaces m1 ds"
    "\<forall>d \<in> ds. footprint m1 d = footprint m d \<and>
       space m1 d = (if chunks m c = Some d then map_pages (space m d) virt phys n f else space m d)" by blast
  have ch: "chunks m1 = chunks m" using arg_cong [OF m1(2), of chunks] by simp
  with Cons.prems(2) have "list_all (legal_request (chunks m1) ds) rs" by simp
  from Cons.IH [OF m1(3) this] obtain m2 where m2: "map_requests m1 rs = Done (0, m2)"
    "m2 = m1\<lparr>ptables := ptables m2\<rparr>" "address_spaces m2 ds"
    "\<forall>d \<in> ds. footprint m2 d = footprint m1 d \<and> space m2 d = mapped (chunks m1) (space m1) rs d" by blast
  have "mapped (chunks m) (space m1) rs d = mapped (chunks m) (space m) (r # rs) d" if "d \<in> ds" for d
    unfolding r mapped.simps by (rule mapped_cong [OF _ that]) (simp add: m1(4))
  moreover have "m2 = m\<lparr>ptables := ptables m2\<rparr>"
    using m1(2) m2(2) by (metis pmem.surjective pmem.update_convs(1))
  ultimately show ?case using m1(1,4) m2 by (intro exI [of _ m2]) (simp add: r ch)
qed simp

text \<open>A new directory joins the address spaces that are there.\<close>

lemma footprint_dom: "dir_ok m d \<Longrightarrow> footprint m d \<subseteq> dom (ptables m)"
  by (fastforce simp: footprint_def in_set_conv_nth elim!: dir_okE)

lemma address_spaces_insert:
  assumes "address_spaces m ds" and "dir_ok m' d" and "footprint m' d \<inter> dom (ptables m) = {}"
    and "\<And>p. p \<in> dom (ptables m) \<Longrightarrow> ptables m' p = ptables m p"
  shows "address_spaces m' (insert d ds)" and "\<And>e. e \<in> ds \<Longrightarrow> space m' e = space m e"
proof -
  have old: "footprint m' e = footprint m e" "dir_ok m' e" "space m' e = space m e" "footprint m e \<subseteq> dom (ptables m)"
    if "e \<in> ds" for e
  proof -
    from assms(1) that have ok: "dir_ok m e" by (simp add: address_spaces_def)
    note footprint_dom [OF ok]
    with assms(4) have "ptables m' p = ptables m p" if "p \<in> footprint m e" for p using that by blast
    with space_frame [of m e m'] ok \<open>footprint m e \<subseteq> dom (ptables m)\<close>
    show "footprint m' e = footprint m e" "dir_ok m' e" "space m' e = space m e" "footprint m e \<subseteq> dom (ptables m)" by auto
  qed
  then show "space m' e = space m e" if "e \<in> ds" for e using that by simp
  have "footprint m' d \<inter> footprint m' e = {}" if "e \<in> ds" for e using old [OF that] assms(3) by blast
  then show "address_spaces m' (insert d ds)" using assms(1,2) old by (auto simp: address_spaces_def)
qed

section \<open>Property\<close>

text \<open>
  C2. Address spaces stay well-formed and apart: any sequence of legal \<open>paging_map_range\<close> calls, on any of the
  directories in any order, returns 0, every directory is still well-formed and shares no table with
  another one, and each address space is the map the requests for it describe, whatever was mapped in the
  others in between.
\<close>

theorem map_requests_refine:
  assumes "address_spaces m ds" and "list_all (legal_request (chunks m) ds) rs"
  shows "\<exists>m'. map_requests m rs = Done (0, m') \<and> m' = m\<lparr>ptables := ptables m'\<rparr> \<and> address_spaces m' ds \<and>
    (\<forall>d \<in> ds. space m' d = mapped (chunks m) (space m) rs d)"
  using map_requests_spaces [OF assms] by blast

text \<open>Two directories, the same page mapped in both of them to different frames.\<close>

theorem map_requests_refine_witness:
  "\<exists>c1 d1 c2 d2 m1 m2 m3. paging_new_4gb boot_pmem 1 = Done (c1, m1) \<and> paging_new_4gb m1 7 = Done (c2, m2) \<and>
    map_requests m2 [(c1, 0x400000, 0x1000000, 1, 7), (c2, 0x400000, 0x2000000, 1, 7)] = Done (0, m3) \<and>
    space m3 d1 1024 = Some 0x1000007 \<and> space m3 d2 1024 = Some 0x2000007 \<and> address_spaces m3 {d2, d1}"
proof -
  from boot_pmem_ok(2) have "paging_room boot_pmem 0 (1026 + 1026)"
    by (simp add: paging_room_def boot_pmem_def boot_heap_simps)
  from new_4gb_directory [OF boot_pmem_ok, of 1] obtain c1 d1 m1 where 1:
    "paging_new_4gb boot_pmem 1 = Done (c1, m1)" "pages_ok m1" "chunks m1 c1 = Some d1" "dir_ok m1 d1" by metis
  from paging_new_4gb_room [OF boot_pmem_ok(1) \<open>paging_room boot_pmem 0 (1026 + 1026)\<close> 1(1)]
  have room: "paging_room m1 1026 1026" by simp
  from new_4gb_directory [OF 1(2) room, of 7] obtain c2 d2 m2 where 2:
    "paging_new_4gb m1 7 = Done (c2, m2)" "chunks m2 c2 = Some d2" "dir_ok m2 d2"
    "footprint m2 d2 \<inter> dom (ptables m1) = {}"
    "\<And>p. p \<in> dom (ptables m1) \<Longrightarrow> ptables m2 p = ptables m1 p"
    "\<And>q. q \<in> dom (chunks m1) \<Longrightarrow> chunks m2 q = chunks m1 q" by metis
  have "address_spaces m1 {d1}" using 1(4) by (simp add: address_spaces_def)
  note as = address_spaces_insert(1) [OF this 2(3-5)]
  have c1: "chunks m2 c1 = Some d1" using 2(6) [of c1] 1(3) by auto
  have ne: "d1 \<noteq> d2" using 2(4) footprint_dom [OF 1(4)] by (auto simp: footprint_def)
  let ?rs = "[(c1, 0x400000, 0x1000000, 1, 7), (c2, 0x400000, 0x2000000, 1, 7)]"
  have "list_all (legal_request (chunks m2) {d2, d1}) ?rs"
    using c1 2(2) by (simp add: paging_is_aligned_def page_no_def conf)
  from map_requests_refine [OF as this] obtain m3 where "map_requests m2 ?rs = Done (0, m3)" "address_spaces m3 {d2, d1}"
    "\<forall>d \<in> {d2, d1}. space m3 d = mapped (chunks m2) (space m2) ?rs d" by blast
  then show ?thesis using 1(1) 2(1,2) c1 ne by (intro exI conjI) (auto simp: page_no_def)
qed

end
