(* ===== verification/Pparser.thy ===== *)
theory Pparser
  imports Paging Cstring
begin

text \<open>
  The path parser, \<^verbatim>\<open>src/fs/pparser.c\<close>: \<^verbatim>\<open>0:/a/b\<close> becomes a \<open>path_root\<close> with the drive number
  and a linked list of \<open>path_part\<close> objects, all allocated in the kernel heap, each part with a
  108 byte string of its own. The lemmas relate the list in the store to the components of the
  path (\<open>path_components\<close>) and account for every allocation.
\<close>

section \<open>The code\<close>

record path_root =
  drive_no :: int
  first :: addr

record path_part =
  part :: addr
  next_part :: addr

record fsmem = pmem +
  path_roots :: "addr \<Rightarrow> path_root option"
  path_parts :: "addr \<Rightarrow> path_part option"

text \<open>The characters \<^verbatim>\<open>/\<close> and \<^verbatim>\<open>:\<close>.\<close>

abbreviation slash :: u8 where "slash \<equiv> 0x2F"
abbreviation colon :: u8 where "colon \<equiv> 0x3A"

definition pathparser_path_valid_format :: "u8 list \<Rightarrow> bool run" where
  "pathparser_path_valid_format filename =
     andthen (strnlen filename (int PANDORA_MAX_PATH)) (\<lambda>len.
     if len \<ge> 3 then
       andthen (rd filename 0) (\<lambda>c.
       if isdigit c then
         andthen (memcmp (drop 1 filename) [colon, slash, 0] 2) (\<lambda>r. Done (r = 0))
       else Done False)
     else Done False)"

text \<open>The result and the advanced path pointer.\<close>

definition pathparser_get_drive_by_path :: "u8 list \<Rightarrow> (int \<times> u8 list) run" where
  "pathparser_get_drive_by_path path =
     andthen (pathparser_path_valid_format path) (\<lambda>valid.
     if \<not> valid then Done (- EBADPATH, path)
     else andthen (rd path 0) (\<lambda>c. Done (tonumericdigit c, drop 3 path)))"

definition pathparser_create_root :: "'a fsmem_scheme \<Rightarrow> int \<Rightarrow> (addr \<times> 'a fsmem_scheme) run" where
  "pathparser_create_root m drive_number =
     andthen (kzalloc m 8) (\<lambda>(path_r, m).
     if path_r = 0 then Done (0, m)
     else Done (path_r, m\<lparr>bufs := (bufs m)(path_r := None),
       path_roots := (path_roots m)(path_r \<mapsto> \<lparr>drive_no = drive_number, first = 0\<rparr>)\<rparr>))"

text \<open>The loop copies to the buffer \<open>dst\<close> from index \<open>i\<close> on.\<close>

fun pathparser_get_path_part_loop :: "u8 list \<Rightarrow> nat \<Rightarrow> u8 list \<Rightarrow> (u8 list \<times> nat \<times> u8 list) run" where
  "pathparser_get_path_part_loop dst i [] = Fault"
| "pathparser_get_path_part_loop dst i (c # path) =
     (if c \<noteq> slash \<and> c \<noteq> 0 then
        andthen (wr dst i c) (\<lambda>dst. pathparser_get_path_part_loop dst (Suc i) path)
      else Done (dst, i, c # path))"

definition pathparser_get_path_part ::
    "'a fsmem_scheme \<Rightarrow> u8 list \<Rightarrow> (addr \<times> u8 list \<times> 'a fsmem_scheme) run" where
  "pathparser_get_path_part m path =
     andthen (kzalloc m (of_nat PANDORA_MAX_PATH)) (\<lambda>(result_path_part, m).
     if result_path_part = 0 then Done (0, path, m)
     else andthen (deref (bufs m) result_path_part) (\<lambda>b.
       andthen (pathparser_get_path_part_loop b 0 path) (\<lambda>(b, i, path).
       andthen (rd path 0) (\<lambda>c.
       let m = m\<lparr>bufs := (bufs m)(result_path_part \<mapsto> b)\<rparr>;
           path = (if c = slash then drop 1 path else path)
       in if i = 0 then andthen (kfree m result_path_part) (\<lambda>m. Done (0, path, m))
          else Done (result_path_part, path, m)))))"

definition pathparser_parse_path_part ::
    "'a fsmem_scheme \<Rightarrow> addr \<Rightarrow> u8 list \<Rightarrow> (addr \<times> u8 list \<times> 'a fsmem_scheme) run" where
  "pathparser_parse_path_part m last_part path =
     andthen (pathparser_get_path_part m path) (\<lambda>(path_part_str, path, m).
     if path_part_str = 0 then Done (0, path, m)
     else andthen (kzalloc m 8) (\<lambda>(p, m).
       if p = 0 then andthen (kfree m path_part_str) (\<lambda>m. Done (0, path, m))
       else
         let m = m\<lparr>bufs := (bufs m)(p := None),
                   path_parts := (path_parts m)(p \<mapsto> \<lparr>part = path_part_str, next_part = 0\<rparr>)\<rparr>
         in if last_part = 0 then Done (p, path, m)
            else andthen (deref (path_parts m) last_part) (\<lambda>l.
              Done (p, path, m\<lparr>path_parts := (path_parts m)(last_part \<mapsto> l\<lparr>next_part := p\<rparr>)\<rparr>))))"

text \<open>
  The loop of \<open>pathparser_free\<close>. The list could be cyclic, so it runs on fuel; a null pointer
  ends it. \<open>free_fuel\<close> rounds are enough for every list the parser makes.
\<close>

fun pathparser_free_loop :: "nat \<Rightarrow> 'a fsmem_scheme \<Rightarrow> addr \<Rightarrow> 'a fsmem_scheme run" where
  "pathparser_free_loop n m p =
     (if p = 0 then Done m
      else case n of 0 \<Rightarrow> Fault
      | Suc n \<Rightarrow> andthen (deref (path_parts m) p) (\<lambda>pt.
          andthen (kfree m (part pt)) (\<lambda>m.
          andthen (kfree m p) (\<lambda>m.
          pathparser_free_loop n (m\<lparr>path_parts := (path_parts m)(p := None)\<rparr>) (next_part pt)))))"

declare pathparser_free_loop.simps [simp del]

definition free_fuel :: nat where
  "free_fuel = PANDORA_MAX_PATH"

definition pathparser_free :: "'a fsmem_scheme \<Rightarrow> addr \<Rightarrow> 'a fsmem_scheme run" where
  "pathparser_free m root =
     andthen (deref (path_roots m) root) (\<lambda>r.
     andthen (pathparser_free_loop free_fuel m (first r)) (\<lambda>m.
     andthen (kfree m root) (\<lambda>m. Done (m\<lparr>path_roots := (path_roots m)(root := None)\<rparr>))))"

text \<open>
  The loop of \<open>pathparser_parse\<close> ends because every part that is found shortens the path.
\<close>

lemma pathparser_get_path_part_loop_rest:
  "pathparser_get_path_part_loop dst i path = Done (dst', j, rest) \<Longrightarrow>
    length path = length rest + (j - i) \<and> i \<le> j"
proof (induction dst i path rule: pathparser_get_path_part_loop.induct)
  case (2 dst i c path)
  then show ?case by (cases "c \<noteq> slash \<and> c \<noteq> 0") (fastforce split: if_splits)+
qed simp

lemma pathparser_get_path_part_rest:
  assumes "pathparser_get_path_part m path = Done (p, rest, m')" and "p \<noteq> 0"
  shows "length rest < length path"
  using assms
  by (auto simp: pathparser_get_path_part_def Let_def split: if_splits
      dest!: pathparser_get_path_part_loop_rest)

lemma pathparser_parse_path_part_rest:
  assumes "pathparser_parse_path_part m l path = Done (p, rest, m')" and "p \<noteq> 0"
  shows "length rest < length path"
  using assms
  by (auto simp: pathparser_parse_path_part_def Let_def split: if_splits
      dest!: pathparser_get_path_part_rest)

function pathparser_parse_loop :: "'a fsmem_scheme \<Rightarrow> addr \<Rightarrow> u8 list \<Rightarrow> 'a fsmem_scheme run" where
  "pathparser_parse_loop m p path =
     (if p = 0 then Done m
      else andthen (pathparser_parse_path_part m p path) (\<lambda>(p, rest, m).
        pathparser_parse_loop m p rest))"
  by pat_completeness auto
termination
  by (relation "measure (\<lambda>(m, p, path). if p = 0 then 0 else Suc (length path))")
    (auto dest: pathparser_parse_path_part_rest)

declare pathparser_parse_loop.simps [simp del]

definition pathparser_parse ::
    "'a fsmem_scheme \<Rightarrow> u8 list \<Rightarrow> addr \<Rightarrow> (addr \<times> 'a fsmem_scheme) run" where
  "pathparser_parse m path current_directory_path =
     andthen (strlen path) (\<lambda>len.
     if len > int PANDORA_MAX_PATH then Done (0, m)
     else andthen (pathparser_get_drive_by_path path) (\<lambda>(res, tmp_path).
       if res < 0 then Done (0, m)
       else andthen (pathparser_create_root m res) (\<lambda>(path_root, m).
         if path_root = 0 then Done (0, m)
         else andthen (pathparser_parse_path_part m 0 tmp_path) (\<lambda>(first_part, tmp_path, m).
           if first_part = 0 then
             andthen (kfree m path_root) (\<lambda>m.
             Done (0, m\<lparr>path_roots := (path_roots m)(path_root := None)\<rparr>))
           else andthen (deref (path_roots m) path_root) (\<lambda>r.
             let m = m\<lparr>path_roots := (path_roots m)(path_root \<mapsto> r\<lparr>first := first_part\<rparr>)\<rparr>
             in andthen (pathparser_parse_path_part m first_part tmp_path) (\<lambda>(p, tmp_path, m).
                andthen (pathparser_parse_loop m p tmp_path) (\<lambda>m.
                Done (path_root, m))))))))"

section \<open>The components of a path\<close>

definition component_char :: "u8 \<Rightarrow> bool" where
  "component_char c \<longleftrightarrow> c \<noteq> slash \<and> c \<noteq> 0"

text \<open>The first component of a path and what is left after it and its slash.\<close>

definition path_head :: "u8 list \<Rightarrow> u8 list" where
  "path_head s = takeWhile component_char s"

definition path_rest :: "u8 list \<Rightarrow> u8 list" where
  "path_rest s = (case dropWhile component_char s of [] \<Rightarrow> []
     | c # r \<Rightarrow> if c = slash then r else c # r)"

text \<open>The parser stops at the first empty component: \<^verbatim>\<open>a//b\<close> is the path \<^verbatim>\<open>a\<close>.\<close>

function path_components :: "u8 list \<Rightarrow> u8 list list" where
  "path_components s =
     (if path_head s = [] then [] else path_head s # path_components (path_rest s))"
  by pat_completeness auto
termination
proof (relation "measure length")
  fix s
  assume "path_head s \<noteq> []"
  then obtain c r where s: "s = c # r" "component_char c"
    by (cases s) (auto simp: path_head_def split: if_splits)
  then have "length (dropWhile component_char s) \<le> length r"
    using length_dropWhile_le [of component_char r] by simp
  then show "(path_rest s, s) \<in> measure length"
    using s by (auto simp: path_rest_def split: list.splits)
qed simp

declare path_components.simps [simp del]

lemma path_rest_length: "length (path_rest s) \<le> length s"
  using length_dropWhile_le [of component_char s] by (auto simp: path_rest_def split: list.splits)

lemma path_rest_terminated:
  assumes "terminated s"
  shows "terminated (path_rest s)"
proof -
  have "0 \<in> set (takeWhile component_char s) \<union> set (dropWhile component_char s)"
    using assms by (metis set_append takeWhile_dropWhile_id terminated_def)
  then have "0 \<in> set (dropWhile component_char s)"
    by (auto simp: component_char_def dest: set_takeWhileD)
  then show ?thesis
    by (cases "dropWhile component_char s") (auto simp: path_rest_def terminated_def)
qed

lemma path_head_short:
  assumes "terminated s"
  shows "length (path_head s) \<le> length (cstring s)"
  using assms by (induction s) (auto simp: path_head_def component_char_def)

lemma path_rest_short:
  assumes "terminated s"
  shows "length (cstring (path_rest s)) \<le> length (cstring s)"
  using assms
proof (induction s)
  case (Cons c s)
  then show ?case
    by (cases "component_char c") (auto simp: path_rest_def component_char_def)
qed simp

lemma get_path_part_loop_eq:
  assumes "terminated path" and "i + length (path_head path) \<le> length dst"
  shows "pathparser_get_path_part_loop dst i path =
    Done (take i dst @ path_head path @ drop (i + length (path_head path)) dst,
      i + length (path_head path), dropWhile component_char path)"
  using assms
proof (induction dst i path rule: pathparser_get_path_part_loop.induct)
  case (2 dst i c path)
  show ?case
  proof (cases "component_char c")
    case True
    then have h: "path_head (c # path) = c # path_head path" by (simp add: path_head_def)
    then have "i < length dst" using 2(3) by simp
    moreover have "pathparser_get_path_part_loop (dst[i := c]) (Suc i) path =
        Done (take (Suc i) (dst[i := c]) @ path_head path @ drop (Suc i + length (path_head path)) (dst[i := c]),
          Suc i + length (path_head path), dropWhile component_char path)"
      using 2 True h by (intro "2.IH") (auto simp: component_char_def)
    ultimately show ?thesis
      using True True [unfolded component_char_def] h by (simp add: run_simps take_Suc_conv_app_nth)
  next
    case False
    then show ?thesis by (auto simp: path_head_def component_char_def)
  qed
qed simp

section \<open>What one step of the parser does\<close>

text \<open>The typed objects of the parser are live allocations; \<open>fs_room\<close> as for the page tables.\<close>

definition fs_ok :: "'a fsmem_scheme \<Rightarrow> bool" where
  "fs_ok m \<longleftrightarrow> kmem_ok m \<and>
     (\<forall>p \<in> dom (path_roots m) \<union> dom (path_parts m). unat p \<in> fst ` kmem_live m)"

definition fs_room :: "'a fsmem_scheme \<Rightarrow> nat \<Rightarrow> nat \<Rightarrow> bool" where
  "fs_room m b n \<longleftrightarrow> below m b \<and> b + n \<le> heap_blocks (kernel_heap m)"

text \<open>A small typed object: the result of \<open>kzalloc\<close> with the byte view removed.\<close>

definition fresh_in :: "'a fsmem_scheme \<Rightarrow> addr \<Rightarrow> bool" where
  "fresh_in m p \<longleftrightarrow> p \<noteq> 0 \<and> in_heap (kernel_heap m) p \<and> unat p \<notin> fst ` kmem_live m"

lemma fresh_in_None:
  assumes "fs_ok m" and "fresh_in m p"
  shows "bufs m p = None" and "path_roots m p = None" and "path_parts m p = None"
  using assms by (auto simp: fs_ok_def fresh_in_def kmem_ok_def)

text \<open>
  The heap \<open>hp\<close> is that of \<open>m\<close> with the new one-block objects \<open>A\<close>, all of it in the first \<open>b\<close> blocks.
\<close>

definition new_pages :: "'a fsmem_scheme \<Rightarrow> heap \<Rightarrow> addr list \<Rightarrow> nat \<Rightarrow> bool" where
  "new_pages m hp A b \<longleftrightarrow> distinct A \<and> (\<forall>p \<in> set A. fresh_in m p) \<and> heap_ok hp \<and> below (m\<lparr>kernel_heap := hp\<rparr>) b \<and>
     heap_live hp = kmem_live m \<union> (\<lambda>p. (unat p, 4096)) ` set A \<and>
     heap_blocks hp = heap_blocks (kernel_heap m) \<and> saddr hp = saddr (kernel_heap m)"

lemma new_pages_cong: "kernel_heap m' = kernel_heap m \<Longrightarrow> new_pages m' = new_pages m"
  by (simp add: new_pages_def fresh_in_def kmem_live_def below_def fun_eq_iff)

lemma new_pages_refl: "fs_ok m \<Longrightarrow> fs_room m b n \<Longrightarrow> new_pages m (kernel_heap m) [] b"
  by (simp add: new_pages_def fs_ok_def kmem_ok_def fs_room_def kmem_live_def)

lemma new_pages_nonzero: "new_pages m hp A b \<Longrightarrow> 0 \<notin> set A"
  by (auto simp: new_pages_def fresh_in_def)

lemma new_pages_None:
  assumes "fs_ok m" and "new_pages m hp A b" and "p \<in> set A"
  shows "bufs m p = None" and "path_roots m p = None" and "path_parts m p = None"
  using fresh_in_None [OF assms(1)] assms(2,3) by (simp_all add: new_pages_def)

lemma new_pages_disjoint: "new_pages m hp A b \<Longrightarrow> kmem_live m \<inter> (\<lambda>p. (unat p, 4096)) ` set A = {}"
  by (force simp: new_pages_def fresh_in_def)

lemma new_pages_append:
  assumes "new_pages m h1 A b" and "new_pages m1 h2 B c" and "kernel_heap m1 = h1"
  shows "new_pages m h2 (A @ B) c"
proof -
  have same: "in_heap h1 = in_heap (kernel_heap m)" using assms(1) by (intro in_heap_cong) (simp_all add: new_pages_def)
  have live: "kmem_live m1 = kmem_live m \<union> (\<lambda>p. (unat p, 4096)) ` set A"
    using assms(1,3) by (simp add: new_pages_def kmem_live_def)
  have "fresh_in m p \<and> p \<notin> set A" if "fresh_in m1 p" for p
    using that unfolding fresh_in_def live assms(3) same by (auto simp: image_Un image_image)
  then have "\<forall>p \<in> set B. fresh_in m p \<and> p \<notin> set A" using assms(2) by (simp add: new_pages_def)
  then show ?thesis using assms live by (auto simp: new_pages_def below_def)
qed

lemma new_pages_ok:
  assumes "fs_ok m" and "new_pages m hp A b" and "kernel_heap m' = hp" and "dom (bufs m') \<subseteq> dom (bufs m) \<union> set A"
    and "dom (path_roots m') \<union> dom (path_parts m') \<subseteq> dom (path_roots m) \<union> dom (path_parts m) \<union> set A"
  shows "fs_ok m'"
proof -
  have same: "in_heap hp = in_heap (kernel_heap m)" using assms(2) by (intro in_heap_cong) (simp_all add: new_pages_def)
  have live: "fst ` kmem_live m' = fst ` kmem_live m \<union> unat ` set A"
    using assms(2,3) by (simp add: new_pages_def kmem_live_def image_Un image_image)
  have "unat p \<in> fst ` kmem_live m'" if "p \<in> dom (bufs m')" "in_heap (kernel_heap m) p" for p
    using that assms(1,4) unfolding live fs_ok_def kmem_ok_def by blast
  moreover have "unat p \<in> fst ` kmem_live m'" if "p \<in> dom (path_roots m') \<union> dom (path_parts m')" for p
    using that assms(1,5) unfolding live fs_ok_def by blast
  moreover have "heap_ok hp" using assms(2) by (simp add: new_pages_def)
  ultimately show ?thesis unfolding fs_ok_def kmem_ok_def assms(3) same by blast
qed

lemma new_pages_room:
  "new_pages m hp A b \<Longrightarrow> fs_room m c n \<Longrightarrow> b + k \<le> c + n \<Longrightarrow> kernel_heap m' = hp \<Longrightarrow> fs_room m' b k"
  by (simp add: new_pages_def fs_room_def below_def)

lemma kzalloc_fs:
  assumes "fs_ok m" and "fs_room m b (Suc n)" and "0 < unat sz" and "unat sz \<le> 4096"
  shows "\<exists>p hp. kzalloc m sz = Done (p, m\<lparr>kernel_heap := hp, bufs := (bufs m)(p \<mapsto> replicate (unat sz) 0)\<rparr>) \<and>
    new_pages m hp [p] (Suc b) \<and>
    kfree (m\<lparr>kernel_heap := hp, bufs := (bufs m)(p \<mapsto> replicate (unat sz) 0)\<rparr>) p = Done m"
proof -
  have m: "kmem_ok m" "below m b" "b + 1 \<le> heap_blocks (kernel_heap m)"
    using assms by (simp_all add: fs_ok_def fs_room_def)
  from kzalloc_page [OF m(1,2) assms(3,4) m(3)] obtain p hp where z:
    "kzalloc m sz = Done (p, m\<lparr>kernel_heap := hp, bufs := (bufs m)(p \<mapsto> replicate (unat sz) 0)\<rparr>)"
    "p \<noteq> 0" "unat p \<notin> fst ` kmem_live m"
    "kmem_ok (m\<lparr>kernel_heap := hp, bufs := (bufs m)(p \<mapsto> replicate (unat sz) 0)\<rparr>)"
    "heap_live hp = insert (unat p, 4096) (kmem_live m)"
    "below (m\<lparr>kernel_heap := hp, bufs := (bufs m)(p \<mapsto> replicate (unat sz) 0)\<rparr>) (b + 1)"
    "heap_blocks hp = heap_blocks (kernel_heap m)" "saddr hp = saddr (kernel_heap m)"
    by blast
  moreover have "unat sz \<le> 0xFFFFF000" using assms(4) by simp
  from kernel.alloc_release [OF m(1) assms(3) this z(1,2)]
  have "kfree (m\<lparr>kernel_heap := hp, bufs := (bufs m)(p \<mapsto> replicate (unat sz) 0)\<rparr>) p = Done m" .
  moreover have "in_heap (kernel_heap m) p"
    using in_heap_cong [OF z(8,7)] heap_live_in_heap [of p 4096 hp] z(5) by simp
  ultimately show ?thesis
    by (intro exI [of _ p] exI [of _ hp]) (simp add: new_pages_def fresh_in_def kmem_ok_def below_def)
qed

text \<open>\<open>padded x\<close>: the zeroed 108 byte buffer with a component written to it.\<close>

definition padded :: "u8 list \<Rightarrow> u8 list" where
  "padded x = x @ replicate (PANDORA_MAX_PATH - length x) 0"

lemma path_rest_pathparser:
  assumes "terminated path"
  shows "\<exists>c. rd (dropWhile component_char path) 0 = Done c \<and>
    (if c = slash then drop 1 (dropWhile component_char path) else dropWhile component_char path) =
      path_rest path"
proof -
  have "dropWhile component_char path \<noteq> []"
    using assms by (induction path) (auto simp: component_char_def)
  then show ?thesis by (cases "dropWhile component_char path") (auto simp: path_rest_def)
qed

lemma pathparser_get_path_part_eq:
  assumes "fs_ok m" and "terminated path" and "length (cstring path) \<le> PANDORA_MAX_PATH"
    and "kzalloc m 108 = Done (p, m\<lparr>kernel_heap := hp, bufs := (bufs m)(p \<mapsto> replicate 108 0)\<rparr>)"
    and "p \<noteq> 0"
    and "kfree (m\<lparr>kernel_heap := hp, bufs := (bufs m)(p \<mapsto> replicate 108 0)\<rparr>) p = Done m"
  shows "pathparser_get_path_part m path =
    (if path_head path = [] then Done (0, path_rest path, m)
     else Done (p, path_rest path,
       m\<lparr>kernel_heap := hp, bufs := (bufs m)(p \<mapsto> padded (path_head path))\<rparr>))"
proof -
  have short: "length (path_head path) \<le> 108"
    using path_head_short [OF assms(2)] assms(3) by (simp add: conf)
  have loop: "pathparser_get_path_part_loop (replicate 108 0) 0 path =
      Done (padded (path_head path), length (path_head path), dropWhile component_char path)"
    using get_path_part_loop_eq [OF assms(2), of 0 "replicate 108 0"] short by (simp add: padded_def conf)
  obtain c where c: "rd (dropWhile component_char path) 0 = Done c"
    "(if c = slash then drop 1 (dropWhile component_char path) else dropWhile component_char path) =
      path_rest path"
    using path_rest_pathparser [OF assms(2)] by blast
  have "kfree (m\<lparr>kernel_heap := hp, bufs := (bufs m)(p \<mapsto> b)\<rparr>) p = Done m" for b
    using assms(6) by (simp add: kfree_def)
  then show ?thesis
    using assms(4,5) loop c
    by (simp add: pathparser_get_path_part_def conf run_simps Let_def del: rd_eq_Done andthen_eq_Done)
qed

text \<open>
  A step that finds a component: the string \<open>q\<close> and the part \<open>a\<close> are new allocations, and the
  last part, if there is one, gets a link to \<open>a\<close>.
\<close>

definition linked :: "(addr \<Rightarrow> path_part option) \<Rightarrow> addr \<Rightarrow> addr \<Rightarrow> (addr \<Rightarrow> path_part option)" where
  "linked parts l a = (if l = 0 then parts
     else parts(l := map_option (\<lambda>pt. pt\<lparr>next_part := a\<rparr>) (parts l)))"

definition with_part :: "'a fsmem_scheme \<Rightarrow> heap \<Rightarrow> addr \<Rightarrow> addr \<Rightarrow> addr \<Rightarrow> u8 list \<Rightarrow> 'a fsmem_scheme" where
  "with_part m hp l a q x = m\<lparr>kernel_heap := hp, bufs := (bufs m)(q \<mapsto> padded x),
     path_parts := linked ((path_parts m)(a \<mapsto> \<lparr>part = q, next_part = 0\<rparr>)) l a\<rparr>"

lemma parse_path_part_end:
  assumes "fs_ok m" and "fs_room m b (Suc n)" and "terminated path"
    and "length (cstring path) \<le> PANDORA_MAX_PATH" and "path_head path = []"
  shows "pathparser_parse_path_part m l path = Done (0, path_rest path, m)"
proof -
  from kzalloc_fs [OF assms(1,2), of 108] obtain p hp where
    "kzalloc m 108 = Done (p, m\<lparr>kernel_heap := hp, bufs := (bufs m)(p \<mapsto> replicate 108 0)\<rparr>)"
    "p \<noteq> 0" "kfree (m\<lparr>kernel_heap := hp, bufs := (bufs m)(p \<mapsto> replicate 108 0)\<rparr>) p = Done m"
    by (auto dest: new_pages_nonzero)
  from pathparser_get_path_part_eq [OF assms(1,3,4) this] assms(5)
  show ?thesis by (simp add: pathparser_parse_path_part_def)
qed

lemma dom_linked: "dom (linked parts l a) = dom parts"
  by (auto simp: linked_def split: if_splits)

lemma with_part_ok:
  assumes "fs_ok m" and "new_pages m hp [q, a] b"
  shows "fs_ok (with_part m hp l a q x)"
  by (rule new_pages_ok [OF assms]) (auto simp: with_part_def dom_linked simp del: dom_eq_empty_conv)

lemma parse_path_part_step:
  assumes "fs_ok m" and "fs_room m b (Suc (Suc n))" and "terminated path"
    and "length (cstring path) \<le> PANDORA_MAX_PATH" and "path_head path \<noteq> []"
    and "l = 0 \<or> l \<in> dom (path_parts m)"
  shows "\<exists>a q hp. pathparser_parse_path_part m l path =
      Done (a, path_rest path, with_part m hp l a q (path_head path)) \<and> new_pages m hp [q, a] (b + 2)"
proof -
  from kzalloc_fs [OF assms(1,2), of 108] obtain q h1 where z1:
    "kzalloc m 108 = Done (q, m\<lparr>kernel_heap := h1, bufs := (bufs m)(q \<mapsto> replicate 108 0)\<rparr>)"
    "kfree (m\<lparr>kernel_heap := h1, bufs := (bufs m)(q \<mapsto> replicate 108 0)\<rparr>) q = Done m"
    "new_pages m h1 [q] (Suc b)" by auto
  have q: "q \<noteq> 0" using new_pages_nonzero [OF z1(3)] by simp
  let ?x = "path_head path"
  let ?m1 = "m\<lparr>kernel_heap := h1, bufs := (bufs m)(q \<mapsto> padded ?x)\<rparr>"
  have g: "pathparser_get_path_part m path = Done (q, path_rest path, ?m1)"
    using pathparser_get_path_part_eq [OF assms(1,3,4) z1(1) q z1(2)] assms(5) by simp
  have ok1: "fs_ok ?m1" by (rule new_pages_ok [OF assms(1) z1(3)]) auto
  have room1: "fs_room ?m1 (Suc b) (Suc n)" by (rule new_pages_room [OF z1(3) assms(2)]) simp_all
  from kzalloc_fs [OF ok1 room1, of 8] obtain a h2 where z2:
    "kzalloc ?m1 8 = Done (a, ?m1\<lparr>kernel_heap := h2, bufs := (bufs ?m1)(a \<mapsto> replicate 8 0)\<rparr>)"
    "new_pages ?m1 h2 [a] (Suc (Suc b))" by auto
  have new: "new_pages m h2 [q, a] (b + 2)" using new_pages_append [OF z1(3) z2(2)] by simp
  have a: "a \<noteq> 0" "a \<noteq> q" using new_pages_nonzero [OF new] new by (auto simp: new_pages_def)
  have none: "bufs ?m1 a = None" using new_pages_None [OF ok1 z2(2)] by simp
  have "l \<noteq> a" using assms(6) a(1) new_pages_None(3) [OF assms(1) new, of a] by auto
  then have "pathparser_parse_path_part m l path = Done (a, path_rest path, with_part m h2 l a q ?x)"
    using g z2(1) q a(1) none assms(6)
    by (auto simp: pathparser_parse_path_part_def with_part_def linked_def run_simps Let_def
        fun_upd_idem fun_upd_twist simp del: andthen_eq_Done)
  with new show ?thesis by blast
qed

section \<open>The list of the parts\<close>

text \<open>
  A node is a part, its string and the component the string holds. \<open>head_addr\<close> is the address
  of the first node, \<open>chain\<close> the contents of the parts, \<open>objects\<close> all the allocations.
\<close>

type_synonym node = "addr \<times> addr \<times> u8 list"

fun head_addr :: "node list \<Rightarrow> addr" where
  "head_addr [] = 0"
| "head_addr ((a, q, x) # ns) = a"

fun chain :: "node list \<Rightarrow> (addr \<times> path_part) list" where
  "chain [] = []"
| "chain ((a, q, x) # ns) = (a, \<lparr>part = q, next_part = head_addr ns\<rparr>) # chain ns"

definition strings :: "node list \<Rightarrow> (addr \<times> u8 list) list" where
  "strings ns = map (\<lambda>(a, q, x). (q, padded x)) ns"

definition objects :: "node list \<Rightarrow> addr list" where
  "objects ns = concat (map (\<lambda>(a, q, x). [q, a]) ns)"

lemma dom_chain: "fst ` set (chain ns) = (\<lambda>(a, q, x). a) ` set ns"
  by (induction ns rule: chain.induct) auto

lemma dom_strings: "fst ` set (strings ns) = (\<lambda>(a, q, x). q) ` set ns"
  by (force simp: strings_def)

lemma objects_simps [simp]:
  "objects [] = []"
  "set (objects ((a, q, x) # ns)) = insert a (insert q (set (objects ns)))"
  "distinct (objects ((a, q, x) # ns)) \<longleftrightarrow> a \<noteq> q \<and> a \<notin> set (objects ns) \<and> q \<notin> set (objects ns) \<and>
     distinct (objects ns)"
  by (auto simp: objects_def)

lemma map_of_not_object:
  "p \<notin> set (objects ns) \<Longrightarrow> map_of (chain ns) p = None"
  "p \<notin> set (objects ns) \<Longrightarrow> map_of (strings ns) p = None"
  by (auto simp: map_of_eq_None_iff dom_chain dom_strings objects_def)

text \<open>The state after parsing: the nodes, linked to the part \<open>l\<close> before them.\<close>

definition with_nodes :: "'a fsmem_scheme \<Rightarrow> heap \<Rightarrow> addr \<Rightarrow> node list \<Rightarrow> 'a fsmem_scheme" where
  "with_nodes m hp l ns = m\<lparr>kernel_heap := hp, bufs := bufs m ++ map_of (strings ns),
     path_parts := linked (path_parts m) l (head_addr ns) ++ map_of (chain ns)\<rparr>"

text \<open>A new part in front of the nodes that are added behind it is one more node.\<close>

lemma strings_Cons:
  "q \<notin> set (objects ns) \<Longrightarrow> f(q \<mapsto> padded x) ++ map_of (strings ns) = f ++ map_of (strings ((a, q, x) # ns))"
  using map_of_not_object(2) [of q ns] by (auto simp: strings_def map_add_def fun_eq_iff split: option.splits)

lemma chain_Cons:
  assumes "a \<notin> set (objects ns)" and "a \<noteq> 0" and "l \<notin> set (objects ns)" and "l \<noteq> a"
  shows "linked (linked (parts(a \<mapsto> \<lparr>part = q, next_part = 0\<rparr>)) l a) a (head_addr ns) ++ map_of (chain ns) =
    linked parts l a ++ map_of (chain ((a, q, x) # ns))"
  using map_of_not_object(1) [OF assms(1)] map_of_not_object(1) [OF assms(3)] assms(2,4)
  by (auto simp: linked_def map_add_def fun_eq_iff split: option.splits)

lemma with_nodes_Cons:
  assumes "a \<notin> set (objects ns)" and "q \<notin> set (objects ns)" and "a \<noteq> 0" and "l \<notin> set (objects ns)" and "l \<noteq> a"
  shows "with_nodes (with_part m h1 l a q x) hp a ns = with_nodes m hp l ((a, q, x) # ns)"
  using strings_Cons [OF assms(2), of "bufs m" x a] chain_Cons [OF assms(1,3-5), of "path_parts m" q x]
  by (simp add: with_nodes_def with_part_def)

lemma parse_loop_nodes:
  assumes "fs_ok m" and "fs_room m b (2 * length (path_components path) + Suc n)" and "terminated path"
    and "length (cstring path) \<le> PANDORA_MAX_PATH"
    and "path_parts m l = Some pt" and "next_part pt = 0" and "l \<noteq> 0"
  shows "\<exists>ns hp. pathparser_parse_loop m l path = Done (with_nodes m hp l ns) \<and>
    map (\<lambda>(a, q, x). x) ns = path_components path \<and> new_pages m hp (objects ns) (b + 2 * length (path_components path))"
  using assms
proof (induction path arbitrary: m b l pt rule: path_components.induct)
  case (1 path)
  show ?case
  proof (cases "path_head path = []")
    case True
    then have cs: "path_components path = []" by (simp add: path_components.simps [of path])
    with "1.prems" parse_path_part_end [of m b n path l] True
    have "pathparser_parse_path_part m l path = Done (0, path_rest path, m)" by simp
    then have "pathparser_parse_loop m l path = Done m"
      using "1.prems"(7) by (simp add: pathparser_parse_loop.simps [of m l] pathparser_parse_loop.simps [of m 0])
    moreover have "pt\<lparr>next_part := 0\<rparr> = pt" using "1.prems"(6) by (cases pt) simp
    then have "with_nodes m (kernel_heap m) l [] = m"
      using "1.prems"(5) by (simp add: with_nodes_def strings_def linked_def fun_upd_idem)
    ultimately show ?thesis
      using cs new_pages_refl [OF "1.prems"(1,2)] by (intro exI [of _ "[]"] exI [of _ "kernel_heap m"]) simp
  next
    case False
    let ?x = "path_head path" and ?k = "2 * length (path_components (path_rest path))"
    have cs: "path_components path = ?x # path_components (path_rest path)"
      using False by (simp add: path_components.simps [of path])
    have room: "fs_room m b (Suc (Suc (?k + Suc n)))" using "1.prems"(2) by (simp add: cs)
    from parse_path_part_step [OF "1.prems"(1) room "1.prems"(3,4) False, of l] "1.prems"(5)
    obtain a q h1 where s: "pathparser_parse_path_part m l path = Done (a, path_rest path, with_part m h1 l a q ?x)"
      "new_pages m h1 [q, a] (b + 2)" by blast
    let ?m1 = "with_part m h1 l a q ?x"
    have a0: "a \<noteq> 0" using new_pages_nonzero [OF s(2)] by simp
    have la: "l \<noteq> a" using new_pages_None(3) [OF "1.prems"(1) s(2), of a] "1.prems"(5) by auto
    have pa: "path_parts ?m1 a = Some \<lparr>part = q, next_part = 0\<rparr>" using la by (simp add: with_part_def linked_def)
    have h1: "kernel_heap ?m1 = h1" by (simp add: with_part_def)
    have ok1: "fs_ok ?m1" by (rule with_part_ok [OF "1.prems"(1) s(2)])
    have room1: "fs_room ?m1 (b + 2) (?k + Suc n)" by (rule new_pages_room [OF s(2) room _ h1]) simp
    have short: "length (cstring (path_rest path)) \<le> PANDORA_MAX_PATH"
      using path_rest_short [OF "1.prems"(3)] "1.prems"(4) by simp
    from "1.IH" [OF False ok1 room1 path_rest_terminated [OF "1.prems"(3)] short pa _ a0]
    obtain ns hp where IH: "pathparser_parse_loop ?m1 a (path_rest path) = Done (with_nodes ?m1 hp a ns)"
      "map (\<lambda>(a, q, x). x) ns = path_components (path_rest path)" "new_pages ?m1 hp (objects ns) (b + 2 + ?k)" by auto
    let ?ns = "(a, q, ?x) # ns"
    have new: "new_pages m hp (objects ?ns) (b + 2 + ?k)" using new_pages_append [OF s(2) IH(3) h1] by (simp add: objects_def)
    then have na: "a \<notin> set (objects ns)" "q \<notin> set (objects ns)" by (auto simp: new_pages_def)
    have "l \<notin> set (objects ns)" using new_pages_None(3) [OF "1.prems"(1) new, of l] "1.prems"(5) by auto
    with with_nodes_Cons [OF na a0 this la] IH(1) s(1) "1.prems"(7)
    have run: "pathparser_parse_loop m l path = Done (with_nodes m hp l ?ns)"
      by (simp add: pathparser_parse_loop.simps [of m l])
    show ?thesis using run IH(2) new by (intro exI [of _ ?ns] exI [of _ hp]) (simp add: cs)
  qed
qed

section \<open>A whole path\<close>

definition parsed :: "'a fsmem_scheme \<Rightarrow> heap \<Rightarrow> addr \<Rightarrow> int \<Rightarrow> node list \<Rightarrow> 'a fsmem_scheme" where
  "parsed m hp root d ns = m\<lparr>kernel_heap := hp, bufs := bufs m ++ map_of (strings ns),
     path_roots := (path_roots m)(root \<mapsto> \<lparr>drive_no = d, first = head_addr ns\<rparr>),
     path_parts := path_parts m ++ map_of (chain ns)\<rparr>"

text \<open>A path the parser accepts: \<^verbatim>\<open>d:/\<close> and a rest, in at most 108 bytes.\<close>

definition drive_path :: "u8 list \<Rightarrow> u8 \<Rightarrow> u8 list \<Rightarrow> bool" where
  "drive_path path d rest \<longleftrightarrow> path = d # colon # slash # rest \<and> isdigit d \<and> terminated rest \<and>
     length (cstring path) \<le> PANDORA_MAX_PATH"

lemma isdigit_nonzero: "isdigit d \<Longrightarrow> d \<noteq> 0"
  by (auto simp: isdigit_def)

lemma drive_path_prefix:
  assumes "drive_path path d rest"
  shows "terminated path" and "pathparser_get_drive_by_path path = Done (tonumericdigit d, rest)"
    and "length (cstring rest) \<le> PANDORA_MAX_PATH" and "strlen path = Done (int (length (cstring path)))"
proof -
  have d: "d \<noteq> 0" "terminated rest" "path = d # colon # slash # rest" "isdigit d"
    "length (cstring path) \<le> PANDORA_MAX_PATH"
    using assms isdigit_nonzero by (auto simp: drive_path_def)
  then show t: "terminated path" by simp
  have "strnlen path (int PANDORA_MAX_PATH) = Done (int (length (cstring path)))"
    using t d(5) by (subst strnlen_eq) simp_all
  then show "pathparser_get_drive_by_path path = Done (tonumericdigit d, rest)"
    using d by (cases rest)
      (simp_all add: pathparser_get_drive_by_path_def pathparser_path_valid_format_def run_simps)
  show "length (cstring rest) \<le> PANDORA_MAX_PATH" using d by simp
  show "strlen path = Done (int (length (cstring path)))" using t by (simp add: cstr)
qed

text \<open>The root, before it has a part.\<close>

lemma create_root:
  assumes "fs_ok m" and "fs_room m b (Suc n)"
  obtains root hp where "pathparser_create_root m d =
      Done (root, m\<lparr>kernel_heap := hp, path_roots := (path_roots m)(root \<mapsto> \<lparr>drive_no = d, first = 0\<rparr>)\<rparr>)"
    and "new_pages m hp [root] (Suc b)" and "heap_free hp root = Done (kernel_heap m)"
proof -
  from kzalloc_fs [OF assms, of 8] obtain root hp where z:
    "kzalloc m 8 = Done (root, m\<lparr>kernel_heap := hp, bufs := (bufs m)(root \<mapsto> replicate 8 0)\<rparr>)"
    "new_pages m hp [root] (Suc b)"
    "kfree (m\<lparr>kernel_heap := hp, bufs := (bufs m)(root \<mapsto> replicate 8 0)\<rparr>) root = Done m" by auto
  have "heap_free hp root = Done (kernel_heap m)" using z(3) by (auto simp: kfree_def dest: arg_cong [of _ _ kernel_heap])
  moreover have "root \<noteq> 0" "bufs m root = None" using new_pages_nonzero [OF z(2)] new_pages_None(1) [OF assms(1) z(2)] by auto
  then have "pathparser_create_root m d =
      Done (root, m\<lparr>kernel_heap := hp, path_roots := (path_roots m)(root \<mapsto> \<lparr>drive_no = d, first = 0\<rparr>)\<rparr>)"
    using z(1) by (simp add: pathparser_create_root_def fun_upd_idem del: andthen_eq_Done)
  ultimately show thesis using that z(2) by blast
qed

lemma parsed_ok:
  assumes "fs_ok m" and "new_pages m hp (root # objects ns) b"
  shows "fs_ok (parsed m hp root d ns)"
proof (rule new_pages_ok [OF assms])
  show "dom (bufs (parsed m hp root d ns)) \<subseteq> dom (bufs m) \<union> set (root # objects ns)"
    using map_of_not_object(2) [of _ ns] by (auto simp: parsed_def)
  show "dom (path_roots (parsed m hp root d ns)) \<union> dom (path_parts (parsed m hp root d ns)) \<subseteq>
      dom (path_roots m) \<union> dom (path_parts m) \<union> set (root # objects ns)"
    using map_of_not_object(1) [of _ ns] by (auto simp: parsed_def)
qed (simp add: parsed_def)

text \<open>The parser up to its loop.\<close>

lemma parse_prefix:
  assumes "drive_path path d rest"
    and "pathparser_create_root m (tonumericdigit d) = Done (root, m1)" and "root \<noteq> 0"
    and "pathparser_parse_path_part m1 0 rest = Done (a, tmp, m2)"
  shows "pathparser_parse m path cd =
    (if a = 0 then andthen (kfree m2 root) (\<lambda>m. Done (0, m\<lparr>path_roots := (path_roots m)(root := None)\<rparr>))
     else andthen (deref (path_roots m2) root) (\<lambda>r.
       andthen (pathparser_parse_path_part (m2\<lparr>path_roots := (path_roots m2)(root \<mapsto> r\<lparr>first := a\<rparr>)\<rparr>) a tmp)
         (\<lambda>(p, tmp_path, m). andthen (pathparser_parse_loop m p tmp_path) (\<lambda>m. Done (root, m)))))"
proof -
  note pre = drive_path_prefix [OF assms(1)]
  have "isdigit d" "length (cstring path) \<le> PANDORA_MAX_PATH" using assms(1) unfolding drive_path_def by blast+
  then have "\<not> int (length (cstring path)) > int PANDORA_MAX_PATH" "\<not> tonumericdigit d < 0"
    using tonumericdigit_range [of d] by (simp_all only: of_nat_less_iff not_less)
  then show ?thesis
    using pre(2,4) assms(2-4) by (simp add: pathparser_parse_def Let_def del: andthen_eq_Done)
qed

lemma pathparser_parse_eq:
  assumes "fs_ok m" and "drive_path path d rest"
    and "fs_room m b (2 * length (path_components rest) + 2)" and "path_components rest \<noteq> []"
  shows "\<exists>root ns hp. pathparser_parse m path cd = Done (root, parsed m hp root (tonumericdigit d) ns) \<and>
    map (\<lambda>(a, q, x). x) ns = path_components rest \<and>
    new_pages m hp (root # objects ns) (b + 2 * length (path_components rest) + 1)"
proof -
  note pre = drive_path_prefix [OF assms(2)]
  have tr: "terminated rest" and digit: "isdigit d" using assms(2) by (simp_all add: drive_path_def)
  let ?d = "tonumericdigit d" and ?x = "path_head rest" and ?k = "2 * length (path_components (path_rest rest))"
  have ph: "?x \<noteq> []" and cs: "path_components rest = ?x # path_components (path_rest rest)"
    using assms(4) by (auto simp: path_components.simps [of rest] split: if_splits)
  have room: "fs_room m b (Suc (Suc (Suc (?k + Suc 0))))" using assms(3) by (simp add: cs)
  obtain root h1 where c: "pathparser_create_root m ?d =
      Done (root, m\<lparr>kernel_heap := h1, path_roots := (path_roots m)(root \<mapsto> \<lparr>drive_no = ?d, first = 0\<rparr>)\<rparr>)"
    "new_pages m h1 [root] (Suc b)" by (rule create_root [OF assms(1) room])
  define m1 where "m1 = m\<lparr>kernel_heap := h1, path_roots := (path_roots m)(root \<mapsto> \<lparr>drive_no = ?d, first = 0\<rparr>)\<rparr>"
  have ok1: "fs_ok m1" by (rule new_pages_ok [OF assms(1) c(2)]) (auto simp: m1_def)
  have room1: "fs_room m1 (Suc b) (Suc (Suc (?k + Suc 0)))" by (rule new_pages_room [OF c(2) room]) (simp_all add: m1_def)
  from parse_path_part_step [OF ok1 room1 tr pre(3) ph, of 0] obtain a q h2 where s:
    "pathparser_parse_path_part m1 0 rest = Done (a, path_rest rest, with_part m1 h2 0 a q ?x)"
    "new_pages m1 h2 [q, a] (Suc b + 2)" by auto
  have a0: "a \<noteq> 0" using new_pages_nonzero [OF s(2)] by simp
  define m2 where "m2 = m\<lparr>kernel_heap := h1, path_roots := (path_roots m)(root \<mapsto> \<lparr>drive_no = ?d, first = a\<rparr>)\<rparr>"
  have new2: "new_pages m2 h2 [q, a] (Suc b + 2)" using s(2) new_pages_cong [of m2 m1] by (simp add: m1_def m2_def)
  have ok2: "fs_ok m2" by (rule new_pages_ok [OF assms(1) c(2)]) (auto simp: m2_def)
  let ?m3 = "with_part m2 h2 0 a q ?x"
  have room3: "fs_room ?m3 (Suc b + 2) (?k + Suc 0)" by (rule new_pages_room [OF s(2) room1]) (simp_all add: with_part_def)
  have pa: "path_parts ?m3 a = Some \<lparr>part = q, next_part = 0\<rparr>" by (simp add: with_part_def linked_def)
  have short: "length (cstring (path_rest rest)) \<le> PANDORA_MAX_PATH" using path_rest_short [OF tr] pre(3) by simp
  from parse_loop_nodes [OF with_part_ok [OF ok2 new2] room3 path_rest_terminated [OF tr] short pa _ a0]
  obtain ns hp where L: "pathparser_parse_loop ?m3 a (path_rest rest) = Done (with_nodes ?m3 hp a ns)"
    "map (\<lambda>(a, q, x). x) ns = path_components (path_rest rest)" "new_pages ?m3 hp (objects ns) (Suc b + 2 + ?k)" by auto
  let ?ns = "(a, q, ?x) # ns"
  have "new_pages m2 hp (objects ?ns) (Suc b + 2 + ?k)"
    using new_pages_append [OF new2 L(3)] by (simp add: with_part_def objects_def)
  with new_pages_append [OF c(2), of m2 hp "objects ?ns"]
  have new: "new_pages m hp (root # objects ?ns) (b + 2 * length (path_components rest) + 1)" by (simp add: m2_def cs)
  then have "a \<notin> set (objects ns)" "q \<notin> set (objects ns)" "0 \<notin> set (objects ns)"
    using new_pages_nonzero [OF new] by (auto simp: new_pages_def)
  then have "with_nodes ?m3 hp a ns = with_nodes m2 hp 0 ?ns" using a0 by (intro with_nodes_Cons) simp_all
  moreover have "with_nodes m2 hp 0 ?ns = parsed m hp root ?d ?ns"
    by (simp add: with_nodes_def parsed_def linked_def m2_def)
  ultimately have w: "with_nodes ?m3 hp a ns = parsed m hp root ?d ?ns" by simp
  have "andthen (pathparser_parse_path_part ?m3 a (path_rest rest)) (\<lambda>(p, tmp_path, m).
      andthen (pathparser_parse_loop m p tmp_path) (\<lambda>m. Done (root, m))) = Done (root, parsed m hp root ?d ?ns)"
    using L(1) a0 w unfolding pathparser_parse_loop.simps [of ?m3 a]
    by (cases "pathparser_parse_path_part ?m3 a (path_rest rest)") auto
  moreover have "(with_part m1 h2 0 a q ?x)\<lparr>path_roots := (path_roots m)(root \<mapsto> \<lparr>drive_no = ?d, first = a\<rparr>)\<rparr> = ?m3"
    "path_roots (with_part m1 h2 0 a q ?x) = (path_roots m)(root \<mapsto> \<lparr>drive_no = ?d, first = 0\<rparr>)"
    by (simp_all add: with_part_def m1_def m2_def)
  ultimately have "pathparser_parse m path cd = Done (root, parsed m hp root ?d ?ns)"
    using parse_prefix [OF assms(2) c(1) [folded m1_def] _ s(1), of cd] new_pages_nonzero [OF c(2)] a0
    by (simp add: deref_Some del: andthen_eq_Done)
  then show ?thesis using L(2) new cs by (intro exI [of _ root] exI [of _ ?ns] exI [of _ hp]) simp
qed

section \<open>Paths that are refused\<close>

text \<open>A path without a component: the root is released again.\<close>

lemma parse_empty:
  assumes "fs_ok m" and "drive_path path d rest" and "fs_room m b 2" and "path_head rest = []"
  shows "pathparser_parse m path cd = Done (0, m)"
proof -
  have tr: "terminated rest" using assms(2) by (simp add: drive_path_def)
  have room: "fs_room m b (Suc (Suc 0))" using assms(3) by (simp add: numeral_2_eq_2)
  obtain root h1 where c: "pathparser_create_root m (tonumericdigit d) =
      Done (root, m\<lparr>kernel_heap := h1, path_roots := (path_roots m)(root \<mapsto> \<lparr>drive_no = tonumericdigit d, first = 0\<rparr>)\<rparr>)"
    "new_pages m h1 [root] (Suc b)" "heap_free h1 root = Done (kernel_heap m)" by (rule create_root [OF assms(1) room])
  let ?m1 = "m\<lparr>kernel_heap := h1, path_roots := (path_roots m)(root \<mapsto> \<lparr>drive_no = tonumericdigit d, first = 0\<rparr>)\<rparr>"
  have "fs_ok ?m1" by (rule new_pages_ok [OF assms(1) c(2)]) auto
  moreover have "fs_room ?m1 (Suc b) (Suc 0)" by (rule new_pages_room [OF c(2) room]) simp_all
  ultimately have "pathparser_parse_path_part ?m1 0 rest = Done (0, path_rest rest, ?m1)"
    by (rule parse_path_part_end) (use tr drive_path_prefix(3) [OF assms(2)] assms(4) in simp_all)
  from parse_prefix [OF assms(2) c(1) _ this] new_pages_nonzero [OF c(2)] new_pages_None [OF assms(1) c(2), of root] c(3)
  show ?thesis by (simp add: kfree_def fun_upd_idem)
qed

text \<open>A path that does not start with a drive.\<close>

lemma invalid_format:
  assumes "terminated path" and "length (cstring path) \<le> PANDORA_MAX_PATH" and "\<nexists>d rest. drive_path path d rest"
  shows "pathparser_path_valid_format path = Done False"
proof -
  have snl: "strnlen path (int PANDORA_MAX_PATH) = Done (int (length (cstring path)))"
    using assms(1,2) by (subst strnlen_eq) simp_all
  show ?thesis
  proof (cases "length (cstring path) < 3")
    case True
    with snl show ?thesis by (simp add: pathparser_path_valid_format_def run_simps)
  next
    case long: False
    then obtain a c e rest where p: "path = a # c # e # rest" "a \<noteq> 0" "c \<noteq> 0" "e \<noteq> 0"
      by (cases path; cases "tl path"; cases "tl (tl path)") (auto split: if_splits)
    then have "terminated rest" using assms(1) by simp
    with assms(2,3) p(1) have "\<not> (isdigit a \<and> c = colon \<and> e = slash)" unfolding drive_path_def by blast
    then have "isdigit a \<Longrightarrow> memcmp (c # e # rest) [colon, slash, 0] 2 = Done r \<Longrightarrow> r \<noteq> 0" for r
      using memcmp_eq_0 [of 2 "c # e # rest" "[colon, slash, 0]"] by auto
    moreover obtain r where "memcmp (c # e # rest) [colon, slash, 0] 2 = Done r"
      using memcmp_returns [of 2 "c # e # rest" "[colon, slash, 0]"] by auto
    ultimately show ?thesis using snl long p by (simp add: pathparser_path_valid_format_def run_simps)
  qed
qed

lemma parse_bad_prefix:
  assumes "terminated path" and "\<not> length (cstring path) > PANDORA_MAX_PATH" and "\<nexists>d rest. drive_path path d rest"
  shows "pathparser_parse m path cd = Done (0, m)"
  using invalid_format [OF assms(1) _ assms(3)] assms(1,2)
  by (simp add: pathparser_parse_def pathparser_get_drive_by_path_def cstr run_simps conf)

section \<open>Releasing a path\<close>

text \<open>The heap \<open>hp\<close> is that of \<open>m\<close> without the one-block objects \<open>A\<close>.\<close>

definition freed :: "'a kmem_scheme \<Rightarrow> heap \<Rightarrow> addr list \<Rightarrow> bool" where
  "freed m hp A \<longleftrightarrow> heap_ok hp \<and> heap_live hp = kmem_live m - (\<lambda>p. (unat p, 4096)) ` set A \<and>
     heap_blocks hp = heap_blocks (kernel_heap m) \<and> saddr hp = saddr (kernel_heap m)"

lemma freed_append: "freed m h1 A \<Longrightarrow> freed m1 h2 B \<Longrightarrow> kernel_heap m1 = h1 \<Longrightarrow> freed m h2 (A @ B)"
  by (auto simp: freed_def kmem_live_def)

lemma freed_ok:
  assumes "kmem_ok m" and "freed m hp A" and "kernel_heap m' = hp" and "dom (bufs m') \<subseteq> dom (bufs m) - set A"
    and "\<forall>p \<in> set A. (unat p, 4096) \<in> kmem_live m"
  shows "kmem_ok m'"
proof -
  have same: "in_heap hp = in_heap (kernel_heap m)" using assms(2) by (intro in_heap_cong) (simp_all add: freed_def)
  have "unat p \<in> fst ` heap_live hp" if p: "p \<in> dom (bufs m')" "in_heap (kernel_heap m) p" for p
  proof -
    from p assms(4) have "p \<in> dom (bufs m)" "p \<notin> set A" by auto
    with assms(1) p(2) obtain n where "(unat p, n) \<in> kmem_live m" by (auto simp: kmem_ok_def)
    with \<open>p \<notin> set A\<close> assms(2) have "(unat p, n) \<in> heap_live hp" by (auto simp: freed_def dest: word_unat_eq_iff [THEN iffD2])
    then show ?thesis by force
  qed
  moreover have "heap_ok hp" using assms(2) by (simp add: freed_def)
  ultimately show ?thesis by (simp add: kmem_ok_def kmem_live_def assms(3) same)
qed

lemma kfree_fs:
  assumes "kmem_ok m" and "(unat p, 4096) \<in> kmem_live m"
  obtains hp where "kfree m p = Done (m\<lparr>kernel_heap := hp, bufs := (bufs m)(p := None)\<rparr>)" and "freed m hp [p]"
proof -
  have ok: "heap_ok (kernel_heap m)" using assms(1) by (simp add: kmem_ok_def)
  obtain s k where sk: "(s, k) \<in> allocations (kernel_heap m)" "p = block_addr (kernel_heap m) s"
    using heap_live_allocation [OF ok] assms(2) unfolding kmem_live_def by metis
  from heap_free_allocation [OF ok sk(1)] sk(2) obtain hp where hp:
    "heap_free (kernel_heap m) p = Done hp" "heap_blocks hp = heap_blocks (kernel_heap m)"
    "saddr hp = saddr (kernel_heap m)" by blast
  then have kf: "kfree m p = Done (m\<lparr>kernel_heap := hp, bufs := (bufs m)(p := None)\<rparr>)"
    by (simp add: kfree_def)
  with kfree_live [OF assms] hp have "freed m hp [p]" by (auto simp: freed_def kmem_ok_def kmem_live_def)
  with that kf show thesis by blast
qed

lemma new_pages_freed:
  assumes "fs_ok m" and "new_pages m hp A b" and "kernel_heap m' = hp" and "freed m' hp' B" and "set B = set A"
  shows "hp' = kernel_heap m"
proof -
  note new_pages_disjoint [OF assms(2)]
  moreover have "heap_live hp' = kmem_live m \<union> (\<lambda>p. (unat p, 4096)) ` set A - (\<lambda>p. (unat p, 4096)) ` set A"
    using assms(2-5) by (simp add: new_pages_def freed_def kmem_live_def)
  ultimately have "heap_live hp' = heap_live (kernel_heap m)" by (auto simp: kmem_live_def)
  moreover have sizes: "saddr hp' = saddr (kernel_heap m)" "heap_blocks hp' = heap_blocks (kernel_heap m)"
    using assms(2-4) by (simp_all add: new_pages_def freed_def)
  ultimately have "allocations hp' = allocations (kernel_heap m)" using heap_live_inj [of hp' "kernel_heap m"] by simp
  with sizes show ?thesis using assms(1,4) by (intro heap_eqI) (simp_all add: fs_ok_def kmem_ok_def freed_def)
qed

text \<open>The state in which all the nodes are gone again.\<close>

definition without_nodes :: "'a fsmem_scheme \<Rightarrow> heap \<Rightarrow> node list \<Rightarrow> 'a fsmem_scheme" where
  "without_nodes m hp ns = m\<lparr>kernel_heap := hp, bufs := bufs m |` (- set (objects ns)),
     path_parts := path_parts m |` (- (\<lambda>(a, q, x). a) ` set ns)\<rparr>"

lemma without_nodes_Cons:
  "without_nodes (m\<lparr>kernel_heap := h, bufs := (bufs m)(q := None, a := None), path_parts := (path_parts m)(a := None)\<rparr>) hp ns =
    without_nodes m hp ((a, q, x) # ns)"
proof -
  have "((bufs m)(q := None, a := None)) |` (- set (objects ns)) = bufs m |` (- set (objects ((a, q, x) # ns)))"
    by (auto simp: restrict_map_def fun_eq_iff)
  moreover have "((path_parts m)(a := None)) |` (- (\<lambda>(a, q, x). a) ` set ns) =
      path_parts m |` (- (\<lambda>(a, q, x). a) ` set ((a, q, x) # ns))"
    by (auto simp: restrict_map_def fun_eq_iff)
  ultimately show ?thesis by (simp add: without_nodes_def)
qed

lemma pathparser_free_loop_nodes:
  assumes "kmem_ok m" and "length ns \<le> n" and "distinct (objects ns)" and "0 \<notin> set (objects ns)"
    and "\<forall>p \<in> set (objects ns). (unat p, 4096) \<in> kmem_live m"
    and "\<forall>(a, pt) \<in> set (chain ns). path_parts m a = Some pt"
  shows "\<exists>hp. pathparser_free_loop n m (head_addr ns) = Done (without_nodes m hp ns) \<and> freed m hp (objects ns)"
  using assms
proof (induction ns arbitrary: n m)
  case Nil
  then show ?case
    by (intro exI [of _ "kernel_heap m"])
      (simp add: pathparser_free_loop.simps without_nodes_def kmem_live_def kmem_ok_def freed_def restrict_map_def)
next
  case (Cons nd ns)
  obtain a q x where nd: "nd = (a, q, x)" by (cases nd)
  from Cons.prems(2) obtain k where k: "n = Suc k" "length ns \<le> k" by (cases n) auto
  have d: "a \<noteq> q" "a \<notin> set (objects ns)" "q \<notin> set (objects ns)" "distinct (objects ns)" "a \<noteq> 0"
    "0 \<notin> set (objects ns)" using Cons.prems(3,4) nd by auto
  have pt: "path_parts m a = Some \<lparr>part = q, next_part = head_addr ns\<rparr>" using Cons.prems(6) nd by simp
  have qa: "(unat q, 4096) \<in> kmem_live m" "(unat a, 4096) \<in> kmem_live m" using Cons.prems(5) nd by simp_all
  obtain h1 where h1: "kfree m q = Done (m\<lparr>kernel_heap := h1, bufs := (bufs m)(q := None)\<rparr>)" "freed m h1 [q]"
    by (rule kfree_fs [OF Cons.prems(1) qa(1)])
  let ?m1 = "m\<lparr>kernel_heap := h1, bufs := (bufs m)(q := None)\<rparr>"
  have ok1: "kmem_ok ?m1" by (rule freed_ok [OF Cons.prems(1) h1(2)]) (use qa in auto)
  have "(unat a, 4096) \<in> kmem_live ?m1" using qa(2) h1(2) d(1) by (auto simp: freed_def kmem_live_def word_unat_eq_iff)
  then obtain h2 where h2: "kfree ?m1 a = Done (?m1\<lparr>kernel_heap := h2, bufs := (bufs ?m1)(a := None)\<rparr>)" "freed ?m1 h2 [a]"
    by (rule kfree_fs [OF ok1])
  let ?m2 = "m\<lparr>kernel_heap := h2, bufs := (bufs m)(q := None, a := None), path_parts := (path_parts m)(a := None)\<rparr>"
  have step: "pathparser_free_loop n m (head_addr (nd # ns)) = pathparser_free_loop k ?m2 (head_addr ns)"
    using pt h1(1) h2(1) k(1) nd d(5) by (subst pathparser_free_loop.simps) (simp add: run_simps)
  have f: "freed m h2 [q, a]" using freed_append [OF h1(2) h2(2)] by simp
  have ok2: "kmem_ok ?m2" by (rule freed_ok [OF Cons.prems(1) f]) (use qa in auto)
  have l: "\<forall>p \<in> set (objects ns). (unat p, 4096) \<in> kmem_live ?m2"
    using Cons.prems(5) nd d f by (auto simp: freed_def kmem_live_def dest: word_unat_eq_iff [THEN iffD2])
  have "a \<notin> fst ` set (chain ns)" using d(2) map_of_not_object(1) [of a ns] by (simp add: map_of_eq_None_iff)
  moreover have "\<forall>(b, pt) \<in> set (chain ns). path_parts m b = Some pt" using Cons.prems(6) nd by simp
  ultimately have c: "\<forall>(b, pt) \<in> set (chain ns). path_parts ?m2 b = Some pt" by force
  from Cons.IH [OF ok2 k(2) d(4,6) l c] obtain hp where IH:
    "pathparser_free_loop k ?m2 (head_addr ns) = Done (without_nodes ?m2 hp ns)" "freed ?m2 hp (objects ns)" by blast
  have "freed m hp (objects (nd # ns))" using freed_append [OF f IH(2)] nd by (simp add: objects_def)
  with step IH(1) nd without_nodes_Cons [where m = m and h = h2 and q = q and a = a and hp = hp and ns = ns and x = x] show ?case by (intro exI [of _ hp]) simp
qed

lemma component_count:
  assumes "terminated s"
  shows "length (path_components s) \<le> length (cstring s)"
  using assms
proof (induction s rule: path_components.induct)
  case (1 s)
  show ?case
  proof (cases "path_head s = []")
    case True
    then show ?thesis by (simp add: path_components.simps [of s])
  next
    case False
    then obtain c r where s: "s = c # r" "component_char c"
      by (cases s) (auto simp: path_head_def split: if_splits)
    then have r: "terminated r" "path_rest s = path_rest r"
      using "1.prems" by (auto simp: component_char_def path_rest_def)
    have "length (path_components (path_rest s)) \<le> length (cstring r)"
      using "1.IH" [OF False path_rest_terminated [OF "1.prems"]] path_rest_short [OF r(1)] r(2) by simp
    moreover have "path_components s = path_head s # path_components (path_rest s)"
      using False by (simp add: path_components.simps [of s])
    ultimately show ?thesis using s by (simp add: component_char_def)
  qed
qed

lemma chain_parsed:
  assumes "distinct (objects ns)"
  shows "\<forall>(a, pt) \<in> set (chain ns). path_parts (parsed m hp root d ns) a = Some pt"
    and "\<forall>(q, s) \<in> set (strings ns). bufs (parsed m hp root d ns) q = Some s"
proof -
  have "distinct (map fst (chain ns))" "distinct (map fst (strings ns))"
    using assms by (induction ns rule: chain.induct) (auto simp: strings_def objects_def dom_chain)
  then show "\<forall>(a, pt) \<in> set (chain ns). path_parts (parsed m hp root d ns) a = Some pt"
    and "\<forall>(q, s) \<in> set (strings ns). bufs (parsed m hp root d ns) q = Some s"
    by (auto simp: parsed_def map_of_is_SomeI)
qed

text \<open>Taking the nodes and the root out of a parsed state leaves what was there before.\<close>

lemma without_parsed:
  assumes "fs_ok m" and "new_pages m hp (root # objects ns) b"
  shows "(without_nodes (parsed m hp root d ns) h1 ns)\<lparr>kernel_heap := kernel_heap m,
      bufs := (bufs (without_nodes (parsed m hp root d ns) h1 ns))(root := None),
      path_roots := (path_roots (without_nodes (parsed m hp root d ns) h1 ns))(root := None)\<rparr> = m"
proof -
  note none = new_pages_None [OF assms]
  have "(((bufs m ++ map_of (strings ns)) |` (- set (objects ns)))(root := None)) z = bufs m z" for z
    using none(1) [of z] map_of_not_object(2) [of z ns]
    by (cases "z \<in> set (root # objects ns)") (auto simp: map_add_def restrict_map_def)
  moreover have "((path_parts m ++ map_of (chain ns)) |` (- (\<lambda>(a, q, x). a) ` set ns)) z = path_parts m z" for z
  proof (cases "z \<in> (\<lambda>(a, q, x). a) ` set ns")
    case True
    then have "z \<in> set (objects ns)" by (auto simp: objects_def)
    with True none(3) [of z] show ?thesis by (simp add: restrict_map_def)
  next
    case False
    then have "map_of (chain ns) z = None" by (simp add: map_of_eq_None_iff dom_chain)
    with False show ?thesis by (simp add: map_add_def restrict_map_def)
  qed
  moreover have "(path_roots m)(root := None) = path_roots m" using none(2) [of root] by (simp add: fun_upd_idem)
  ultimately show ?thesis by (simp add: without_nodes_def parsed_def fun_eq_iff)
qed

lemma pathparser_free_parsed:
  assumes "fs_ok m" and "drive_path path d rest"
    and "fs_room m b (2 * length (path_components rest) + 2)" and "path_components rest \<noteq> []"
    and "pathparser_parse m path cd = Done (root, m')"
  shows "pathparser_free m' root = Done m"
proof -
  from pathparser_parse_eq [OF assms(1-4), of cd] assms(5) obtain ns hp where p:
    "m' = parsed m hp root (tonumericdigit d) ns" "map (\<lambda>(a, q, x). x) ns = path_components rest"
    "new_pages m hp (root # objects ns) (b + 2 * length (path_components rest) + 1)" by auto
  have ok: "kmem_ok m'" using parsed_ok [OF assms(1) p(3)] by (simp add: p(1) fs_ok_def)
  have hp: "kernel_heap m' = hp" by (simp add: p(1) parsed_def)
  have tr: "terminated rest" using assms(2) by (simp add: drive_path_def)
  have "length ns = length (path_components rest)" using p(2) by (metis length_map)
  then have fuel: "length ns \<le> free_fuel"
    using component_count [OF tr] drive_path_prefix(3) [OF assms(2)] by (simp add: free_fuel_def)
  have d: "distinct (objects ns)" "root \<notin> set (objects ns)" "0 \<notin> set (objects ns)"
    and live: "\<forall>p \<in> set (root # objects ns). (unat p, 4096) \<in> kmem_live m'"
    using p(3) new_pages_nonzero [OF p(3)] by (auto simp: new_pages_def kmem_live_def hp)
  from pathparser_free_loop_nodes [OF ok fuel d(1,3) _ chain_parsed(1) [OF d(1), of m hp root "tonumericdigit d", folded p(1)]] live
  obtain h1 where h1: "pathparser_free_loop free_fuel m' (head_addr ns) = Done (without_nodes m' h1 ns)" "freed m' h1 (objects ns)"
    by auto
  let ?w = "without_nodes m' h1 ns"
  have w: "kernel_heap ?w = h1" by (simp add: without_nodes_def)
  have okw: "kmem_ok ?w" by (rule freed_ok [OF ok h1(2) w]) (use live in \<open>auto simp: without_nodes_def\<close>)
  have "(unat root, 4096) \<in> kmem_live ?w"
    using live d(2) h1(2) by (auto simp: kmem_live_def w freed_def dest: word_unat_eq_iff [THEN iffD2])
  then obtain h2 where h2: "kfree ?w root = Done (?w\<lparr>kernel_heap := h2, bufs := (bufs ?w)(root := None)\<rparr>)" "freed ?w h2 [root]"
    by (rule kfree_fs [OF okw])
  have heap: "h2 = kernel_heap m" by (rule new_pages_freed [OF assms(1) p(3) hp freed_append [OF h1(2) h2(2) w]]) auto
  have root: "path_roots m' root = Some \<lparr>drive_no = tonumericdigit d, first = head_addr ns\<rparr>" by (simp add: p(1) parsed_def)
  have "pathparser_free m' root =
      Done (?w\<lparr>kernel_heap := kernel_heap m, bufs := (bufs ?w)(root := None), path_roots := (path_roots ?w)(root := None)\<rparr>)"
    using root h1(1) h2(1) heap by (simp add: pathparser_free_def run_simps)
  also have "?w\<lparr>kernel_heap := kernel_heap m, bufs := (bufs ?w)(root := None), path_roots := (path_roots ?w)(root := None)\<rparr> = m"
    unfolding p(1) by (rule without_parsed [OF assms(1) p(3)])
  finally show ?thesis .
qed

section \<open>The list as a client reads it\<close>

primrec parts_list :: "'a fsmem_scheme \<Rightarrow> addr \<Rightarrow> u8 list list \<Rightarrow> bool" where
  "parts_list m p [] = (p = 0)"
| "parts_list m p (x # xs) = (p \<noteq> 0 \<and> (\<exists>pt. path_parts m p = Some pt \<and>
     bufs m (part pt) = Some (padded x) \<and> parts_list m (next_part pt) xs))"

lemma parts_list_nodes:
  assumes "\<forall>(b, pt) \<in> set (chain ns). path_parts m b = Some pt"
    and "\<forall>(q, s) \<in> set (strings ns). bufs m q = Some s" and "0 \<notin> set (objects ns)"
  shows "parts_list m (head_addr ns) (map (\<lambda>(a, q, x). x) ns)"
  using assms by (induction ns rule: chain.induct) (auto simp: strings_def)

lemma parsed_parts_list:
  assumes "distinct (objects ns)" and "0 \<notin> set (objects ns)"
  shows "parts_list (parsed m hp root d ns) (head_addr ns) (map (\<lambda>(a, q, x). x) ns)"
  by (rule parts_list_nodes [OF chain_parsed [OF assms(1)] assms(2)])

definition boot_fsmem :: fsmem where
  "boot_fsmem = \<lparr>kernel_heap = boot_heap, bufs = Map.empty, ptables = Map.empty, chunks = Map.empty,
     current_directory = 0, cr3 = 0, path_roots = Map.empty, path_parts = Map.empty\<rparr>"

lemma boot_fsmem_ok: "fs_ok boot_fsmem" "n \<le> 25600 \<Longrightarrow> fs_room boot_fsmem 0 n"
  by (simp_all add: fs_ok_def kmem_ok_def boot_fsmem_def boot_heap_ok fs_room_def below_def
      boot_heap_simps)

text \<open>The path \<^verbatim>\<open>0:/ab/c\<close>.\<close>

definition sample_path :: "u8 list" where
  "sample_path = [0x30, colon, slash, 0x61, 0x62, slash, 0x63, 0]"

lemma sample_path:
  "drive_path sample_path 0x30 [0x61, 0x62, slash, 0x63, 0]"
  "path_components [0x61, 0x62, slash, 0x63, 0] = [[0x61, 0x62], [0x63]]"
  by (simp_all add: drive_path_def sample_path_def isdigit_def conf path_components.simps
      path_head_def path_rest_def component_char_def)

section \<open>Properties\<close>

text \<open>
  C11. \<open>pathparser_parse\<close> computes the components of the path: for a path \<^verbatim>\<open>d:/...\<close> of at most 108
  bytes with at least one component, and while the heap has room, it returns a root that holds the
  drive number and the linked list of exactly the components, in order, every one in a buffer that
  is large enough for it.
\<close>

theorem pathparser_parse_components:
  assumes "fs_ok m" and "drive_path path d rest"
    and "fs_room m b (2 * length (path_components rest) + 2)" and "path_components rest \<noteq> []"
  shows "\<exists>root r m'. pathparser_parse m path cd = Done (root, m') \<and> root \<noteq> 0 \<and>
    path_roots m' root = Some r \<and> drive_no r = tonumericdigit d \<and>
    parts_list m' (first r) (path_components rest) \<and> fs_ok m'"
proof -
  from pathparser_parse_eq [OF assms, of cd] obtain root ns hp where p:
    "pathparser_parse m path cd = Done (root, parsed m hp root (tonumericdigit d) ns)"
    "map (\<lambda>(a, q, x). x) ns = path_components rest"
    "new_pages m hp (root # objects ns) (b + 2 * length (path_components rest) + 1)" by blast
  have "distinct (objects ns)" "0 \<notin> set (objects ns)" "root \<noteq> 0"
    using p(3) new_pages_nonzero [OF p(3)] by (simp_all add: new_pages_def)
  with parsed_parts_list [of ns m hp root "tonumericdigit d"] parsed_ok [OF assms(1) p(3)] p(1,2) show ?thesis
    by (simp add: parsed_def)
qed

theorem pathparser_parse_components_witness:
  "\<exists>root r m'. pathparser_parse boot_fsmem sample_path 0 = Done (root, m') \<and> root \<noteq> 0 \<and>
    path_roots m' root = Some r \<and> drive_no r = 0 \<and> parts_list m' (first r) [[0x61, 0x62], [0x63]]"
  using pathparser_parse_components [OF boot_fsmem_ok(1) sample_path(1), of 0 0] boot_fsmem_ok(2) [of 6]
  by (auto simp: sample_path(2) tonumericdigit_def)

text \<open>
  C28. \<open>pathparser_free\<close> releases everything \<open>pathparser_parse\<close> allocated: parsing a path and
  releasing the result leaves heap, buffers and path objects exactly as they were.
\<close>

theorem pathparser_parse_free_roundtrip:
  assumes "fs_ok m" and "drive_path path d rest"
    and "fs_room m b (2 * length (path_components rest) + 2)" and "path_components rest \<noteq> []"
  shows "\<exists>root m'. pathparser_parse m path cd = Done (root, m') \<and> pathparser_free m' root = Done m"
  using pathparser_parse_eq [OF assms, of cd] pathparser_free_parsed [OF assms, of cd] by blast

theorem pathparser_parse_free_roundtrip_witness:
  "\<exists>root m'. pathparser_parse boot_fsmem sample_path 0 = Done (root, m') \<and>
    pathparser_free m' root = Done boot_fsmem"
  using pathparser_parse_free_roundtrip [OF boot_fsmem_ok(1) sample_path(1), of 0 0]
    boot_fsmem_ok(2) [of 6] by (simp add: sample_path(2))

text \<open>
  A path that is too long, that does not start with a digit and \<^verbatim>\<open>:/\<close>, or that has no
  component is refused: the result is the null pointer, and nothing stays allocated.
\<close>

theorem pathparser_parse_rejects:
  assumes "fs_ok m" and "terminated path" and "fs_room m b 2"
    and "length (cstring path) > PANDORA_MAX_PATH \<or> length (cstring path) < 3 \<or> \<not> isdigit (path ! 0) \<or>
      path ! 1 \<noteq> colon \<or> path ! 2 \<noteq> slash \<or> path_head (drop 3 path) = []"
  shows "pathparser_parse m path cd = Done (0, m)"
proof (cases "length (cstring path) > PANDORA_MAX_PATH")
  case True
  then show ?thesis using assms(2) by (simp add: pathparser_parse_def cstr run_simps)
next
  case False
  show ?thesis
  proof (cases "\<exists>d rest. drive_path path d rest")
    case True
    then obtain d rest where dp: "drive_path path d rest" by blast
    with assms(4) False have "path_head rest = []" by (auto simp: drive_path_def dest: isdigit_nonzero)
    from parse_empty [OF assms(1) dp assms(3) this] show ?thesis .
  next
    case bad: False
    show ?thesis by (rule parse_bad_prefix [OF assms(2) False]) (use bad in blast)
  qed
qed

theorem pathparser_parse_rejects_witness:
  "pathparser_parse boot_fsmem [0x41, colon, slash, 0x61, 0] 0 = Done (0, boot_fsmem)"
  by (rule pathparser_parse_rejects [OF boot_fsmem_ok(1) _ boot_fsmem_ok(2) [of 2]])
    (simp_all add: isdigit_def)

end
