(* ===== verification/Ports.thy ===== *)
theory Ports
  imports Prelude
begin

text \<open>
  Port input and output. \<^verbatim>\<open>src/io/io.asm\<close> wraps the processor's \<^verbatim>\<open>in\<close> and \<^verbatim>\<open>out\<close> instructions; what
  is behind a port is hardware. A \<open>ports\<close> value is the behaviour of the devices, whose common state
  has the type \<open>'io\<close>: it is a parameter of every driver.
\<close>

record 'io ports =
  outb :: "u16 \<Rightarrow> u8 \<Rightarrow> 'io \<Rightarrow> 'io"
  insb :: "u16 \<Rightarrow> 'io \<Rightarrow> u8 \<times> 'io"
  insw :: "u16 \<Rightarrow> 'io \<Rightarrow> u16 \<times> 'io"

end
