(* ===== verification/Disk.thy ===== *)
theory Disk
  imports Pparser Ports
begin

text \<open>
  The disk driver and the byte stream on top of it: \<^verbatim>\<open>src/disk/disk.c\<close>, \<^verbatim>\<open>src/disk/streamer.c\<close>.
  Port input and output (\<^verbatim>\<open>src/io/io.asm\<close>) goes to a device that is not part of the repository: the
  operations of a device with states of type \<open>'io\<close> are the parameter \<open>ports\<close>, and \<open>ata_drive\<close>
  states what the driver relies on, the PIO read protocol of an ATA drive that holds the sectors \<open>img\<close>.
  The result is that the stream reads the bytes of the disk in order, across sector boundaries.
\<close>

section \<open>The code\<close>

record disk =
  disk_type :: u32
  sector_size :: int
  disk_id :: int
  filesystem :: addr
  fs_private :: addr

record disk_stream =
  pos :: int
  stream_disk :: addr

text \<open>\<open>disk_at\<close> is the address of the global \<^verbatim>\<open>disk\<close>, \<open>the_disk\<close> its contents.\<close>

record 'io dmem = fsmem +
  disk_io :: 'io
  disk_at :: addr
  the_disk :: disk
  streams :: "addr \<Rightarrow> disk_stream option"

definition PANDORA_DISK_TYPE_REAL :: u32 where [conf]: "PANDORA_DISK_TYPE_REAL = 0"

text \<open>The wait for the buffer to be ready: a device that never is makes it wait for ever.\<close>

partial_function (option) disk_wait :: "'io ports \<Rightarrow> 'io \<Rightarrow> 'io option" where
  "disk_wait P io =
     (let (c, io) = insb P 0x1F7 io
      in if c AND 0x08 \<noteq> 0 then Some io else disk_wait P io)"

text \<open>The two loops that copy from the disk: words of a sector, and sectors.\<close>

function disk_read_words :: "'io ports \<Rightarrow> 'io \<Rightarrow> u8 list \<Rightarrow> nat \<Rightarrow> nat \<Rightarrow> (u8 list \<times> 'io) run" where
  "disk_read_words P io buffer ptr i =
     (if i < 256 then
        let (w, io) = insw P 0x1F0 io
        in andthen (wr buffer (2 * ptr) (ucast w)) (\<lambda>buffer.
           andthen (wr buffer (2 * ptr + 1) (ucast (drop_bit 8 w))) (\<lambda>buffer.
           disk_read_words P io buffer (Suc ptr) (Suc i)))
      else Done (buffer, io))"
  by pat_completeness auto
termination
  by (relation "measure (\<lambda>(P, io, buffer, ptr, i). 256 - i)") auto

declare disk_read_words.simps [simp del]

function disk_read_blocks :: "'io ports \<Rightarrow> 'io \<Rightarrow> u8 list \<Rightarrow> int \<Rightarrow> int \<Rightarrow> (u8 list \<times> 'io) run" where
  "disk_read_blocks P io buffer b tot =
     (if b < tot then
        case disk_wait P io of
          None \<Rightarrow> Panic
        | Some io \<Rightarrow> andthen (disk_read_words P io buffer (nat (b * 256)) 0) (\<lambda>(buffer, io).
            disk_read_blocks P io buffer (b + 1) tot)
      else Done (buffer, io))"
  by pat_completeness auto
termination
  by (relation "measure (\<lambda>(P, io, buffer, b, tot). nat (tot - b))") auto

declare disk_read_blocks.simps [simp del]

definition disk_read_sector ::
    "'io ports \<Rightarrow> 'io \<Rightarrow> int \<Rightarrow> int \<Rightarrow> u8 list \<Rightarrow> (int \<times> u8 list \<times> 'io) run" where
  "disk_read_sector P io lba tot buffer =
     (let io = outb P 0x1F6 (word_of_int (drop_bit 24 lba OR 0xE0)) io;
          io = outb P 0x1F2 (word_of_int tot) io;
          io = outb P 0x1F3 (word_of_int (lba AND 0xFF)) io;
          io = outb P 0x1F4 (word_of_int (drop_bit 8 lba)) io;
          io = outb P 0x1F5 (word_of_int (drop_bit 16 lba)) io;
          io = outb P 0x1F7 0x20 io
      in andthen (disk_read_blocks P io buffer 0 tot) (\<lambda>(buffer, io). Done (0, buffer, io)))"

definition disk_get :: "('io, 'a) dmem_scheme \<Rightarrow> int \<Rightarrow> addr" where
  "disk_get m index = (if index \<noteq> 0 then 0 else disk_at m)"

text \<open>The result, the buffer after the call, and the memory with the device state after it.\<close>

definition disk_read_block ::
    "'io ports \<Rightarrow> ('io, 'a) dmem_scheme \<Rightarrow> addr \<Rightarrow> u32 \<Rightarrow> int \<Rightarrow> u8 list \<Rightarrow>
      (int \<times> u8 list \<times> ('io, 'a) dmem_scheme) run" where
  "disk_read_block P m idisk lba tot buffer =
     (if idisk \<noteq> disk_at m then Done (- EIO, buffer, m)
      else andthen (disk_read_sector P (disk_io m) (int_of_u32 lba) tot buffer) (\<lambda>(res, buffer, io).
        Done (res, buffer, m\<lparr>disk_io := io\<rparr>)))"

definition diskstreamer_new :: "('io, 'a) dmem_scheme \<Rightarrow> int \<Rightarrow> (addr \<times> ('io, 'a) dmem_scheme) run" where
  "diskstreamer_new m index =
     (let d = disk_get m index
      in if d = 0 then Done (0, m)
         else andthen (kzalloc m 8) (\<lambda>(streamer, m).
           if streamer = 0 then Fault
           else Done (streamer, m\<lparr>bufs := (bufs m)(streamer := None),
             streams := (streams m)(streamer \<mapsto> \<lparr>pos = 0, stream_disk = d\<rparr>)\<rparr>)))"

text \<open>
  Positions are of type \<^verbatim>\<open>int\<close>. Arithmetic on them that leaves the type, whose result C does not define, is a
  \<open>Fault\<close>: in \<open>diskstreamer_read_at\<close> where it is done, and in \<open>diskstreamer_seek\<close> for the position that the
  caller has computed.
\<close>

definition diskstreamer_seek ::
    "('io, 'a) dmem_scheme \<Rightarrow> addr \<Rightarrow> int \<Rightarrow> (int \<times> ('io, 'a) dmem_scheme) run" where
  "diskstreamer_seek m stream p =
     (if \<not> in_int p then Fault
      else andthen (deref (streams m) stream) (\<lambda>s.
        Done (0, m\<lparr>streams := (streams m)(stream \<mapsto> s\<lparr>pos := p\<rparr>)\<rparr>)))"

text \<open>The copy from the sector buffer; \<open>k\<close> is how far the out pointer has been advanced.\<close>

function diskstreamer_copy :: "u8 list \<Rightarrow> nat \<Rightarrow> u8 list \<Rightarrow> int \<Rightarrow> int \<Rightarrow> int \<Rightarrow> u8 list run" where
  "diskstreamer_copy out k buf offset i total_to_read =
     (if i < total_to_read then
        if offset + i < 0 then Fault
        else andthen (rd buf (nat (offset + i))) (\<lambda>c.
             andthen (wr out k c) (\<lambda>out.
             diskstreamer_copy out (Suc k) buf offset (i + 1) total_to_read))
      else Done out)"
  by pat_completeness auto
termination
  by (relation "measure (\<lambda>(out, k, buf, offset, i, total_to_read). nat (total_to_read - i))") auto

declare diskstreamer_copy.simps [simp del]

text \<open>The contents of the uninitialised stack buffer \<^verbatim>\<open>buf\<close>.\<close>

definition stack_bytes :: "u8 list" where
  "stack_bytes = replicate (nat PANDORA_SECTOR_SIZE) 0xCC"

lemma remainder_below: "(p :: int) smod 512 < 512"
  using smod_int_range [of 512 p] by simp

function diskstreamer_read_at ::
    "'io ports \<Rightarrow> ('io, 'a) dmem_scheme \<Rightarrow> addr \<Rightarrow> u8 list \<Rightarrow> nat \<Rightarrow> int \<Rightarrow>
      (int \<times> u8 list \<times> ('io, 'a) dmem_scheme) run" where
  "diskstreamer_read_at P m stream out k tot =
     andthen (deref (streams m) stream) (\<lambda>s.
     let sector = pos s sdiv PANDORA_SECTOR_SIZE;
         offset = pos s smod PANDORA_SECTOR_SIZE;
         overflow = (offset + tot \<ge> PANDORA_SECTOR_SIZE);
         total_to_read = (if overflow then tot - ((offset + tot) - PANDORA_SECTOR_SIZE) else tot)
     in if \<not> in_int (offset + tot) then Fault
        else andthen (disk_read_block P m (stream_disk s) (u32_of_int sector) 1 stack_bytes) (\<lambda>(res, buf, m).
          if res < 0 then Done (res, out, m)
          else andthen (diskstreamer_copy out k buf offset 0 total_to_read) (\<lambda>out.
            if \<not> in_int (pos s + total_to_read) then Fault
            else
              let m = m\<lparr>streams := (streams m)(stream \<mapsto> s\<lparr>pos := pos s + total_to_read\<rparr>)\<rparr>
              in if overflow
                 then diskstreamer_read_at P m stream out (k + nat total_to_read) (tot - total_to_read)
                 else Done (res, out, m))))"
  by pat_completeness auto
termination
proof (relation "measure (\<lambda>(P, m, stream, out, k, tot). nat tot)", goal_cases)
  case (2 P m stream out k tot s sector offset)
  then show ?case
    using remainder_below [of "pos s"] by (auto simp: conf)
qed simp

declare diskstreamer_read_at.simps [simp del]

definition diskstreamer_read ::
    "'io ports \<Rightarrow> ('io, 'a) dmem_scheme \<Rightarrow> addr \<Rightarrow> u8 list \<Rightarrow> int \<Rightarrow>
      (int \<times> u8 list \<times> ('io, 'a) dmem_scheme) run" where
  "diskstreamer_read P m stream out tot = diskstreamer_read_at P m stream out 0 tot"

definition diskstreamer_close :: "('io, 'a) dmem_scheme \<Rightarrow> addr \<Rightarrow> ('io, 'a) dmem_scheme run" where
  "diskstreamer_close m stream =
     andthen (kfree m stream) (\<lambda>m. Done (m\<lparr>streams := (streams m)(stream := None)\<rparr>))"

section \<open>The protocol of the drive\<close>

text \<open>\<open>ready_after P io io'\<close>: polling the status port leads from \<open>io\<close> to a ready device \<open>io'\<close>.\<close>

inductive ready_after :: "'io ports \<Rightarrow> 'io \<Rightarrow> 'io \<Rightarrow> bool" for P where
  ready: "insb P 0x1F7 io = (c, io') \<Longrightarrow> c AND 0x08 \<noteq> 0 \<Longrightarrow> ready_after P io io'"
| busy: "insb P 0x1F7 io = (c, io1) \<Longrightarrow> c AND 0x08 = 0 \<Longrightarrow> ready_after P io1 io' \<Longrightarrow> ready_after P io io'"

lemma disk_wait_ready: "ready_after P io io' \<Longrightarrow> disk_wait P io = Some io'"
  by (induction rule: ready_after.induct) (simp_all add: disk_wait.simps)

text \<open>The block address the registers select, and the word \<open>w\<close> of a sector.\<close>

definition lba28 :: "u8 \<Rightarrow> u8 \<Rightarrow> u8 \<Rightarrow> u8 \<Rightarrow> int" where
  "lba28 b6 b5 b4 b3 = uint b3 + 256 * uint b4 + 65536 * uint b5 + 16777216 * (uint b6 mod 16)"

definition sector_word :: "u8 list \<Rightarrow> nat \<Rightarrow> u16" where
  "sector_word s w = ucast (s ! (2 * w)) OR push_bit 8 (ucast (s ! (2 * w + 1)))"

text \<open>
  The documented behaviour of an ATA drive in PIO mode: after the registers and the read command
  are written to an idle drive it serves that many sectors from the selected block on; for every
  sector it becomes ready after finitely many polls and then hands out the 256 words of the
  sector; after the last one it is idle again.
\<close>

definition ata_drive :: "'io ports \<Rightarrow> (int \<Rightarrow> u8 list) \<Rightarrow> ('io \<Rightarrow> bool) \<Rightarrow> bool" where
  "ata_drive P img idle \<longleftrightarrow> (\<forall>l. length (img l) = 512) \<and> (\<exists>serving data.
     (\<forall>io b2 b3 b4 b5 b6. idle io \<longrightarrow> b2 \<noteq> 0 \<longrightarrow> b6 AND 0xF0 = 0xE0 \<longrightarrow>
        serving (outb P 0x1F7 0x20 (outb P 0x1F5 b5 (outb P 0x1F4 b4 (outb P 0x1F3 b3
          (outb P 0x1F2 b2 (outb P 0x1F6 b6 io)))))) (lba28 b6 b5 b4 b3) (unat b2)) \<and>
     (\<forall>io l n. serving io l (Suc n) \<longrightarrow> (\<exists>io'. ready_after P io io' \<and> data io' l n 0)) \<and>
     (\<forall>io l n w. data io l n w \<longrightarrow> w < 256 \<longrightarrow> (\<exists>io'. insw P 0x1F0 io = (sector_word (img l) w, io') \<and>
        (if w < 255 then data io' l n (Suc w) else if n = 0 then idle io' else serving io' (l + 1) n))))"

text \<open>Byte \<open>j\<close> of the disk.\<close>

definition disk_byte :: "(int \<Rightarrow> u8 list) \<Rightarrow> nat \<Rightarrow> u8" where
  "disk_byte img j = img (int (j div 512)) ! (j mod 512)"

definition disk_bytes :: "(int \<Rightarrow> u8 list) \<Rightarrow> nat \<Rightarrow> nat \<Rightarrow> u8 list" where
  "disk_bytes img p n = map (disk_byte img) [p..<p + n]"

lemma length_disk_bytes [simp]: "length (disk_bytes img p n) = n"
  by (simp add: disk_bytes_def)

lemma disk_bytes_append: "disk_bytes img p n @ disk_bytes img (p + n) k = disk_bytes img p (n + k)"
proof -
  have "[p..<p + n] @ [p + n..<p + n + k] = [p..<p + (n + k)]"
    using upt_add_eq_append [of p "p + n" k] by (simp add: add.assoc)
  then show ?thesis by (simp add: disk_bytes_def flip: map_append)
qed

lemma sector_word_bytes:
  "ucast (sector_word s w) = s ! (2 * w)"
  "ucast (drop_bit 8 (sector_word s w)) = s ! (2 * w + 1)"
  by (rule bit_word_eqI; simp add: sector_word_def bit_simps; fastforce dest: bit_imp_le_length)+

section \<open>Reading sectors\<close>

lemma take_two_updated:
  "Suc p < length xs \<Longrightarrow> take (Suc (Suc p)) (xs[p := a, Suc p := b]) = take p xs @ [a, b]"
  by (simp add: take_Suc_conv_app_nth)

lemma disk_read_words_eq:
  assumes data: "\<And>io w. data io w \<Longrightarrow> w < 256 \<Longrightarrow> \<exists>io'. insw P 0x1F0 io = (sector_word s w, io') \<and>
      (if w < 255 then data io' (Suc w) else after io')"
    and len: "length s = 512"
  shows "\<lbrakk>data io i; i < 256; 2 * ptr + 2 * (256 - i) \<le> length buf\<rbrakk> \<Longrightarrow>
    \<exists>io'. disk_read_words P io buf ptr i =
      Done (take (2 * ptr) buf @ drop (2 * i) s @ drop (2 * ptr + 2 * (256 - i)) buf, io') \<and> after io'"
proof (induction "256 - i" arbitrary: i io ptr buf)
  case 0
  then show ?case by simp
next
  case (Suc k)
  from data [OF Suc.prems(1,2)] obtain io1 where io1: "insw P 0x1F0 io = (sector_word s i, io1)"
    "if i < 255 then data io1 (Suc i) else after io1" by blast
  let ?buf = "buf[2 * ptr := s ! (2 * i), 2 * ptr + 1 := s ! (2 * i + 1)]"
  have step: "disk_read_words P io buf ptr i = disk_read_words P io1 ?buf (Suc ptr) (Suc i)"
    using Suc.prems io1(1)
    by (subst disk_read_words.simps)
      (simp add: run_simps sector_word_bytes)
  have tk: "take (2 * Suc ptr) ?buf = take (2 * ptr) buf @ [s ! (2 * i), s ! (2 * i + 1)]"
    using take_two_updated [of "2 * ptr" buf] Suc.prems(2,3) by simp
  have dr: "drop (2 * i) s = s ! (2 * i) # s ! (2 * i + 1) # drop (2 * Suc i) s"
    using Suc.prems(2) len by (simp add: Cons_nth_drop_Suc)
  show ?case
  proof (cases "i < 255")
    case True
    have k: "k = 256 - Suc i" using Suc.hyps(2) by simp
    have eq: "2 * Suc ptr + 2 * (256 - Suc i) = 2 * ptr + 2 * (256 - i)" using Suc.prems(2) by simp
    then have "2 * Suc ptr + 2 * (256 - Suc i) \<le> length ?buf" using Suc.prems(3) by (metis length_list_update)
    from Suc.hyps(1) [OF k _ _ this, of io1] io1(2) True
    obtain io' where IH: "disk_read_words P io1 ?buf (Suc ptr) (Suc i) = Done (take (2 * Suc ptr) ?buf @
        drop (2 * Suc i) s @ drop (2 * Suc ptr + 2 * (256 - Suc i)) ?buf, io')" "after io'"
      by auto
    have "drop (2 * ptr + 2 * (256 - i)) ?buf = drop (2 * ptr + 2 * (256 - i)) buf"
      using Suc.prems(2) by simp
    then show ?thesis
      unfolding step IH(1) eq tk dr using IH(2) by simp
  next
    case False
    then have i: "i = 255" using Suc.prems(2) by simp
    then have "disk_read_words P io1 ?buf (Suc ptr) (Suc i) = Done (?buf, io1)"
      by (simp add: disk_read_words.simps [of P io1])
    moreover have "?buf = take (2 * Suc ptr) ?buf @ drop (2 * Suc ptr) ?buf"
      by (simp only: append_take_drop_id)
    moreover have "drop (2 * Suc ptr) ?buf = drop (2 * ptr + 2 * (256 - i)) buf"
      using i by simp
    moreover have "drop (2 * Suc i) s = []" using i len by simp
    ultimately show ?thesis
      unfolding step using io1(2) False tk dr by (metis append.assoc append_Cons append_Nil append_Nil2)
  qed
qed

lemma disk_read_blocks_eq:
  assumes serve: "\<And>io l n. serving io l (Suc n) \<Longrightarrow> \<exists>io'. ready_after P io io' \<and> data io' l n 0"
    and data: "\<And>io l n w. data io l n w \<Longrightarrow> w < 256 \<Longrightarrow> \<exists>io'. insw P 0x1F0 io = (sector_word (img l) w, io') \<and>
        (if w < 255 then data io' l n (Suc w) else if n = 0 then idle io' else serving io' (l + 1) n)"
    and len: "\<And>l. length (img l) = 512"
  shows "\<lbrakk>serving io l (Suc n); 512 * b + 512 * Suc n \<le> length buf\<rbrakk> \<Longrightarrow>
    \<exists>io'. disk_read_blocks P io buf (int b) (int b + int (Suc n)) =
      Done (take (512 * b) buf @ concat (map (\<lambda>j. img (l + int j)) [0..<Suc n]) @
        drop (512 * b + 512 * Suc n) buf, io') \<and> idle io'"
proof (induction n arbitrary: io l b buf)
  case (0 io l b buf)
  from serve [OF 0(1)] obtain io1 where r: "ready_after P io io1" "data io1 l 0 0" by blast
  have "2 * (256 * b) + 2 * (256 - 0) \<le> length buf" using 0(2) by simp
  from disk_read_words_eq [of "\<lambda>io w. data io l 0 w" P "img l" idle, OF _ len r(2) _ this] data
  obtain io' where w: "disk_read_words P io1 buf (256 * b) 0 =
      Done (take (512 * b) buf @ img l @ drop (512 * b + 512) buf, io')" "idle io'"
    by fastforce
  have "nat (int b * 256) = 256 * b" by (simp add: nat_mult_distrib)
  with disk_wait_ready [OF r(1)] w show ?case
    by (intro exI [of _ io'], subst disk_read_blocks.simps, subst disk_read_blocks.simps) simp
next
  case (Suc n io l b buf)
  from serve [OF Suc.prems(1)] obtain io1 where r: "ready_after P io io1" "data io1 l (Suc n) 0" by blast
  have "2 * (256 * b) + 2 * (256 - 0) \<le> length buf" using Suc.prems(2) by simp
  from disk_read_words_eq [of "\<lambda>io w. data io l (Suc n) w" P "img l" "\<lambda>io. serving io (l + 1) (Suc n)",
      OF _ len r(2) _ this] data
  obtain io2 where w: "disk_read_words P io1 buf (256 * b) 0 =
      Done (take (512 * b) buf @ img l @ drop (512 * b + 512) buf, io2)" "serving io2 (l + 1) (Suc n)"
    by fastforce
  let ?buf = "take (512 * b) buf @ img l @ drop (512 * b + 512) buf"
  have tk: "take (512 * Suc b) ?buf = take (512 * b) buf @ img l"
    using Suc.prems(2) len [of l] by simp
  have dr: "drop (512 * Suc b + 512 * Suc n) ?buf = drop (512 * b + 512 * Suc (Suc n)) buf"
    using Suc.prems(2) len [of l] by (simp add: algebra_simps)
  have "512 * Suc b + 512 * Suc n \<le> length ?buf"
    using Suc.prems(2) len [of l] by simp
  from Suc.IH [OF w(2) this] obtain io' where IH:
    "disk_read_blocks P io2 ?buf (int (Suc b)) (int (Suc b) + int (Suc n)) =
      Done (take (512 * Suc b) ?buf @ concat (map (\<lambda>j. img (l + 1 + int j)) [0..<Suc n]) @
        drop (512 * Suc b + 512 * Suc n) ?buf, io')" "idle io'" by blast
  have "nat (int b * 256) = 256 * b" by (simp add: nat_mult_distrib)
  then have step: "disk_read_blocks P io buf (int b) (int b + int (Suc (Suc n))) =
      disk_read_blocks P io2 ?buf (int (Suc b)) (int (Suc b) + int (Suc n))"
    using disk_wait_ready [OF r(1)] w(1)
    by (subst disk_read_blocks.simps) (simp add: algebra_simps)
  have "[0..<Suc (Suc n)] = 0 # map Suc [0..<Suc n]"
    by (simp add: map_Suc_upt upt_conv_Cons del: upt_Suc)
  then have "concat (map (\<lambda>j. img (l + int j)) [0..<Suc (Suc n)]) =
      img l @ concat (map (\<lambda>j. img (l + 1 + int j)) [0..<Suc n])"
    by (simp add: comp_def algebra_simps del: upt_Suc)
  with IH show ?case
    unfolding step tk dr by (intro exI [of _ io']) simp
qed

lemma lba28_registers:
  assumes "0 \<le> l" and "l < 2 ^ 28"
  shows "lba28 (word_of_int (drop_bit 24 l OR 0xE0)) (word_of_int (drop_bit 16 l))
      (word_of_int (drop_bit 8 l)) (word_of_int (l AND 0xFF)) = l"
    and "(word_of_int (drop_bit 24 l OR 0xE0) :: u8) AND 0xF0 = 0xE0"
proof -
  have d: "drop_bit 24 l = l div 16777216" "drop_bit 16 l = l div 65536" "drop_bit 8 l = l div 256"
    by (simp_all add: drop_bit_eq_div)
  have top: "0 \<le> l div 16777216" "l div 16777216 < 16"
    using assms by (auto simp: pos_imp_zdiv_nonneg_iff)
  have "y \<in> {0, 1, 2, 3, 4, 5, 6, 7, 8, 9, 10, 11, 12, 13, 14, 15}" if "0 \<le> y" "y < 16" for y :: int
    using that unfolding insert_iff empty_iff by presburger
  note x = this [OF top]
  show "(word_of_int (drop_bit 24 l OR 0xE0) :: u8) AND 0xF0 = 0xE0"
    using x unfolding d by (elim insertE) (simp_all)
  have b6: "uint (word_of_int (drop_bit 24 l OR 0xE0) :: u8) mod 16 = l div 16777216"
    using x unfolding d by (elim insertE) (simp_all)
  have b3: "uint (word_of_int (l AND 0xFF) :: u8) = l mod 256"
  proof -
    have "l AND 0xFF = take_bit 8 l" by (simp add: take_bit_eq_mask mask_eq_exp_minus_1)
    then show ?thesis by (simp add: take_bit_eq_mod unsigned_of_int)
  qed
  have "l mod 256 + 256 * (l div 256 mod 256) + 65536 * (l div 65536 mod 256) + 16777216 * (l div 16777216) = l"
  proof -
    have "l div 65536 = l div 256 div 256" "l div 16777216 = l div 65536 div 256"
      by (simp_all add: div_mult2_eq [symmetric])
    then show ?thesis
      using div_mult_mod_eq [of l 256] div_mult_mod_eq [of "l div 256" 256]
        div_mult_mod_eq [of "l div 65536" 256] by linarith
  qed
  then show "lba28 (word_of_int (drop_bit 24 l OR 0xE0)) (word_of_int (drop_bit 16 l))
      (word_of_int (drop_bit 8 l)) (word_of_int (l AND 0xFF)) = l"
    unfolding lba28_def b6 b3 unfolding d by (simp add: unsigned_of_int take_bit_eq_mod)
qed

lemma disk_read_sector_eq:
  assumes "ata_drive P img idle" and "idle io" and "0 \<le> l" and "l < 2 ^ 28" and "0 < n" and "n < 256"
    and "512 * n \<le> length buf"
  shows "\<exists>io'. disk_read_sector P io l (int n) buf =
      Done (0, concat (map (\<lambda>j. img (l + int j)) [0..<n]) @ drop (512 * n) buf, io') \<and> idle io'"
proof -
  from assms(1) [unfolded ata_drive_def] obtain serving data where
    len: "\<forall>l. length (img l) = 512" and
    start: "\<forall>io b2 b3 b4 b5 b6. idle io \<longrightarrow> b2 \<noteq> 0 \<longrightarrow> b6 AND 0xF0 = 0xE0 \<longrightarrow>
        serving (outb P 0x1F7 0x20 (outb P 0x1F5 b5 (outb P 0x1F4 b4 (outb P 0x1F3 b3
          (outb P 0x1F2 b2 (outb P 0x1F6 b6 io)))))) (lba28 b6 b5 b4 b3) (unat b2)" and
    serve: "\<forall>io l n. serving io l (Suc n) \<longrightarrow> (\<exists>io'. ready_after P io io' \<and> data io' l n 0)" and
    data: "\<forall>io l n w. data io l n w \<longrightarrow> w < 256 \<longrightarrow> (\<exists>io'. insw P 0x1F0 io = (sector_word (img l) w, io') \<and>
        (if w < 255 then data io' l n (Suc w) else if n = 0 then idle io' else serving io' (l + 1) n))"
    by (elim conjE exE)
  obtain k where k: "n = Suc k" using assms(5) by (cases n) auto
  have un: "unat (word_of_int (int n) :: u8) = n" using assms(6) by (simp add: unsigned_of_nat take_bit_nat_eq_self)
  then have "(word_of_int (int n) :: u8) \<noteq> 0" using assms(5) by (metis gr_implies_not_zero unat_0)
  from start [rule_format, OF assms(2) this lba28_registers(2) [OF assms(3,4)]]
  have "serving (outb P 0x1F7 0x20 (outb P 0x1F5 (word_of_int (drop_bit 16 l)) (outb P 0x1F4
      (word_of_int (drop_bit 8 l)) (outb P 0x1F3 (word_of_int (l AND 0xFF)) (outb P 0x1F2 (word_of_int (int n))
      (outb P 0x1F6 (word_of_int (drop_bit 24 l OR 0xE0)) io)))))) l (Suc k)"
    using lba28_registers(1) [OF assms(3,4)] un k by metis
  from disk_read_blocks_eq [of serving P data img idle, OF serve [rule_format] data [rule_format] len [rule_format] this, of 0 buf] assms(7) k
  show ?thesis
    by (fastforce simp: disk_read_sector_def Let_def)
qed

section \<open>Reading through a stream\<close>

text \<open>The stream \<open>stream\<close> is at byte \<open>p\<close> of the disk.\<close>

definition stream_at :: "('io, 'a) dmem_scheme \<Rightarrow> addr \<Rightarrow> nat \<Rightarrow> bool" where
  "stream_at m stream p \<longleftrightarrow> streams m stream = Some \<lparr>pos = int p, stream_disk = disk_at m\<rparr>"

text \<open>All that reading changes: the position of the stream, and the state of the device.\<close>

definition moved :: "('io, 'a) dmem_scheme \<Rightarrow> addr \<Rightarrow> nat \<Rightarrow> 'io \<Rightarrow> ('io, 'a) dmem_scheme" where
  "moved m stream p io = m\<lparr>disk_io := io,
     streams := (streams m)(stream \<mapsto> \<lparr>pos = int p, stream_disk = disk_at m\<rparr>)\<rparr>"

lemma diskstreamer_copy_eq:
  assumes "off + i + n \<le> length buf" and "k + n \<le> length out"
  shows "diskstreamer_copy out k buf (int off) (int i) (int (i + n)) =
    Done (take k out @ take n (drop (off + i) buf) @ drop (k + n) out)"
  using assms
proof (induction n arbitrary: out k i)
  case 0
  then show ?case by (simp add: diskstreamer_copy.simps [of out])
next
  case (Suc n)
  let ?out = "out[k := buf ! (off + i)]"
  have tk: "take (Suc n) (drop (off + i) buf) = buf ! (off + i) # take n (drop (off + Suc i) buf)"
    using Suc.prems(1) by (simp add: Cons_nth_drop_Suc [symmetric])
  have "nat (int off + int i) = off + i" by simp
  then have "diskstreamer_copy out k buf (int off) (int i) (int (i + Suc n)) =
      diskstreamer_copy ?out (Suc k) buf (int off) (int (Suc i)) (int (Suc i + n))"
    using Suc.prems by (subst diskstreamer_copy.simps) (simp add: run_simps algebra_simps)
  also have "\<dots> = Done (take (Suc k) ?out @ take n (drop (off + Suc i) buf) @ drop (Suc k + n) ?out)"
    using Suc.prems by (intro Suc.IH) auto
  finally show ?case
    using Suc.prems tk by (simp add: take_Suc_conv_app_nth)
qed

lemma drop_sector:
  assumes "\<forall>l. length (img l) = 512" and "off + n \<le> 512" and "p mod 512 = off"
  shows "take n (drop off (img (int (p div 512)))) = disk_bytes img p n"
proof (rule nth_equalityI)
  show "length (take n (drop off (img (int (p div 512))))) = length (disk_bytes img p n)"
    using assms(1,2) by simp
  fix i
  assume "i < length (take n (drop off (img (int (p div 512)))))"
  then have i: "i < n" by simp
  have p: "p = 512 * (p div 512) + off" using assms(3) by (metis mult_div_mod_eq)
  have oi: "off + i < 512" using i assms(2) by simp
  have "(p + i) div 512 = p div 512" and "(p + i) mod 512 = off + i"
    using oi by (subst p, simp add: add.assoc)+
  then show "take n (drop off (img (int (p div 512)))) ! i = disk_bytes img p n ! i"
    using i assms(1,2) by (simp add: disk_bytes_def disk_byte_def)
qed

lemma disk_read_block_sector:
  assumes "ata_drive P img idle" and "idle (disk_io m)" and "s < 2 ^ 28"
  shows "\<exists>io. disk_read_block P m (disk_at m) (u32_of_int (int s)) 1 stack_bytes =
    Done (0, img (int s), m\<lparr>disk_io := io\<rparr>) \<and> idle io"
proof -
  have l: "sint (word_of_nat s :: u32) = int s"
    using assms(3) by (simp add: sint_of_nat_u32)
  have "length (img (int s)) = 512" using assms(1) by (simp add: ata_drive_def)
  moreover from disk_read_sector_eq [OF assms(1,2), of "int s" 1 stack_bytes] assms(3) obtain io where
    "disk_read_sector P (disk_io m) (int s) 1 stack_bytes =
      Done (0, img (int s) @ drop 512 stack_bytes, io)" "idle io"
    by (auto simp: stack_bytes_def conf)
  ultimately show ?thesis
    by (intro exI [of _ io]) (simp add: disk_read_block_def l stack_bytes_def conf)
qed

lemma diskstreamer_read_at_eq:
  assumes "ata_drive P img idle" and "idle (disk_io m)" and "stream_at m stream p"
    and "p + n < 2 ^ 31" and "k + n \<le> length out"
  shows "\<exists>io. diskstreamer_read_at P m stream out k (int n) =
    Done (0, take k out @ disk_bytes img p n @ drop (k + n) out, moved m stream (p + n) io) \<and> idle io"
  using assms(2-5)
proof (induction n arbitrary: m p k out rule: less_induct)
  case (less n)
  let ?s = "p div 512" and ?off = "p mod 512"
  have st: "streams m stream = Some \<lparr>pos = int p, stream_disk = disk_at m\<rparr>"
    using less.prems(2) by (simp add: stream_at_def)
  have len: "\<forall>l. length (img l) = 512" using assms(1) by (simp add: ata_drive_def)
  have block: "?s < 2 ^ 28" using less.prems(3) by (intro less_mult_imp_div_less) simp
  have "?off \<le> p" by simp
  then have "?off + n < 2 ^ 31" using less.prems(3) by linarith
  then have fits: "in_int (int ?off + int n)" by (simp flip: of_nat_add)
  from disk_read_block_sector [OF assms(1) less.prems(1) block] obtain io1 where
    blk: "disk_read_block P m (disk_at m) (u32_of_int (int ?s)) 1 stack_bytes =
      Done (0, img (int ?s), m\<lparr>disk_io := io1\<rparr>)" "idle io1" by blast
  have sec: "int p sdiv 512 = int ?s" "int p smod 512 = int ?off"
    by (cases "p = 0"; simp add: signed_divide_int_def smod_mod_positive zdiv_int zmod_int)+
  show ?case
  proof (cases "?off + n < 512")
    case True
    then have nov: "\<not> int ?off + int n \<ge> 512" by linarith
    have cp: "diskstreamer_copy out k (img (int ?s)) (int ?off) 0 (int n) =
        Done (take k out @ disk_bytes img p n @ drop (k + n) out)"
      using diskstreamer_copy_eq [of ?off 0 n "img (int ?s)" k out] drop_sector [OF len _ refl, of p n]
        True len less.prems(4) by simp
    have fits_end: "in_int (int p + int n)" using less.prems(3) by (simp flip: of_nat_add)
    have "diskstreamer_read_at P m stream out k (int n) =
        Done (0, take k out @ disk_bytes img p n @ drop (k + n) out, moved m stream (p + n) io1)"
      using st blk(1) cp nov
      by (subst diskstreamer_read_at.simps) (simp add: run_simps conf sec moved_def Let_def fits fits_end)
    with blk(2) show ?thesis by blast
  next
    case False
    obtain off t where off: "p mod 512 = off" and t: "0 < t" "t \<le> n" "off + t = 512"
      using False that [of "p mod 512" "512 - p mod 512"] by fastforce
    have sec': "int p smod 512 = int off" using sec(2) off by simp
    have ov: "int off + int n \<ge> 512" using False off by simp
    let ?out = "take k out @ disk_bytes img p t @ drop (k + t) out"
    let ?m = "moved m stream (p + t) io1"
    have cp: "diskstreamer_copy out k (img (int ?s)) (int off) 0 (int t) = Done ?out"
      using diskstreamer_copy_eq [of off 0 t "img (int ?s)" k out] drop_sector [OF len _ off, of t]
        t len less.prems(4) by simp
    have e: "int n - (int off + int n - 512) = int t" "int n - int t = int (n - t)"
      "nat (int t) = t" "int p + int t = int (p + t)"
      using t by linarith+
    have fits': "in_int (int off + int n)" "in_int (int (p + t))"
      using fits off t(2) less.prems(3) by (simp_all add: in_int_def)
    have step: "diskstreamer_read_at P m stream out k (int n) =
        diskstreamer_read_at P ?m stream ?out (k + t) (int (n - t))"
      using st blk(1) cp ov
      by (subst diskstreamer_read_at.simps)
        (simp add: run_simps conf sec(1) sec' e moved_def Let_def fits' del: in_int_of_nat of_nat_add of_nat_diff)
    have 1: "stream_at ?m stream (p + t)" by (simp add: stream_at_def moved_def)
    have 2: "idle (disk_io ?m)" using blk(2) by (simp add: moved_def)
    have 3: "k + t + (n - t) \<le> length ?out" using less.prems(4) t(2) by simp
    have 4: "p + t + (n - t) < 2 ^ 31" using less.prems(3) t(2) by simp
    have "n - t < n" using t by simp
    from less.IH [OF this 2 1 4 3] obtain io2 where IH:
      "diskstreamer_read_at P ?m stream ?out (k + t) (int (n - t)) =
        Done (0, take (k + t) ?out @ disk_bytes img (p + t) (n - t) @ drop (k + t + (n - t)) ?out,
          moved ?m stream (p + t + (n - t)) io2)" "idle io2" by blast
    have "take (k + t) ?out = take k out @ disk_bytes img p t"
      using less.prems(4) t(2) by simp
    moreover have "drop (k + t + (n - t)) ?out = drop (k + n) out"
      using less.prems(4) t(2) by (simp add: add.commute)
    moreover have "disk_bytes img p t @ disk_bytes img (p + t) (n - t) = disk_bytes img p n"
      using disk_bytes_append [of img p t "n - t"] t(2) by simp
    moreover have "moved ?m stream (p + t + (n - t)) io2 = moved m stream (p + n) io2"
      using t(2) by (simp add: moved_def)
    ultimately have "diskstreamer_read_at P m stream out k (int n) =
        Done (0, take k out @ disk_bytes img p n @ drop (k + n) out, moved m stream (p + n) io2)"
      unfolding step IH(1) by (metis append.assoc)
    with IH(2) show ?thesis by blast
  qed
qed

section \<open>A simulated drive\<close>

text \<open>
  The parameter instantiated: registers, and while a command runs the block, the number of sectors
  that are left and the number of words read of the current one.
\<close>

type_synonym sim = "(u16 \<Rightarrow> u8) \<times> (int \<times> nat \<times> nat) option"

definition sim_outb :: "u16 \<Rightarrow> u8 \<Rightarrow> sim \<Rightarrow> sim" where
  "sim_outb port v io =
     (if port = 0x1F7 \<and> v = 0x20
      then (fst io, Some (lba28 (fst io 0x1F6) (fst io 0x1F5) (fst io 0x1F4) (fst io 0x1F3),
        unat (fst io 0x1F2), 0))
      else ((fst io)(port := v), snd io))"

definition sim_insb :: "u16 \<Rightarrow> sim \<Rightarrow> u8 \<times> sim" where
  "sim_insb port io = (0x08, io)"

definition sim_insw :: "(int \<Rightarrow> u8 list) \<Rightarrow> u16 \<Rightarrow> sim \<Rightarrow> u16 \<times> sim" where
  "sim_insw img port io =
     (case snd io of None \<Rightarrow> (0, io)
      | Some (l, n, w) \<Rightarrow> (sector_word (img l) w,
          (fst io, if w < 255 then Some (l, n, Suc w) else if n \<le> 1 then None else Some (l + 1, n - 1, 0))))"

definition sim_ports :: "(int \<Rightarrow> u8 list) \<Rightarrow> sim ports" where
  "sim_ports img = \<lparr>outb = sim_outb, insb = sim_insb, insw = sim_insw img\<rparr>"

lemma sim_drive:
  assumes "\<forall>l. length (img l) = 512"
  shows "ata_drive (sim_ports img) img (\<lambda>io. snd io = None)"
proof -
  let ?serving = "\<lambda>(io :: sim) l n. 0 < n \<and> snd io = Some (l, n, 0)"
  let ?data = "\<lambda>(io :: sim) l n w. snd io = Some (l, Suc n, w)"
  have "?serving (outb (sim_ports img) 0x1F7 0x20 (outb (sim_ports img) 0x1F5 b5
      (outb (sim_ports img) 0x1F4 b4 (outb (sim_ports img) 0x1F3 b3 (outb (sim_ports img) 0x1F2 b2
      (outb (sim_ports img) 0x1F6 b6 io)))))) (lba28 b6 b5 b4 b3) (unat b2)" if "b2 \<noteq> 0" for io b2 b3 b4 b5 b6
    using that by (simp add: sim_ports_def sim_outb_def unat_gt_0)
  moreover have "\<exists>io'. ready_after (sim_ports img) io io' \<and> ?data io' l n 0" if "?serving io l (Suc n)" for io l n
    using that by (intro exI [of _ io]) (auto intro!: ready_after.ready simp: sim_ports_def sim_insb_def)
  moreover have "\<exists>io'. insw (sim_ports img) 0x1F0 io = (sector_word (img l) w, io') \<and>
      (if w < 255 then ?data io' l n (Suc w) else if n = 0 then snd io' = None else ?serving io' (l + 1) n)"
    if "?data io l n w" for io l n w
    using that by (auto simp: sim_ports_def sim_insw_def)
  ultimately show ?thesis
    unfolding ata_drive_def using assms
    by (intro conjI exI [of _ ?serving] exI [of _ ?data]) blast+
qed

definition sim_image :: "int \<Rightarrow> u8 list" where
  "sim_image l = replicate 512 (word_of_int l)"

definition sim_dmem :: "sim dmem" where
  "sim_dmem = \<lparr>kernel_heap = boot_heap, bufs = Map.empty, ptables = Map.empty, chunks = Map.empty,
     current_directory = 0, cr3 = 0, path_roots = Map.empty, path_parts = Map.empty,
     disk_io = (\<lambda>_. 0, None), disk_at = 0x200000,
     the_disk = \<lparr>disk_type = 0, sector_size = 512, disk_id = 0, filesystem = 0, fs_private = 0\<rparr>,
     streams = [0x1000000 \<mapsto> \<lparr>pos = 511, stream_disk = 0x200000\<rparr>]\<rparr>"

lemma sim_dmem:
  "ata_drive (sim_ports sim_image) sim_image (\<lambda>io. snd io = None)" "snd (disk_io sim_dmem) = None"
  "stream_at sim_dmem 0x1000000 511"
  by (simp_all add: sim_drive sim_image_def sim_dmem_def stream_at_def)

section \<open>Properties\<close>

text \<open>
  C20. The driver reads what is on the disk: on an idle ATA drive \<open>disk_read_sector\<close> of \<open>n\<close> sectors
  (1 to 255) from block \<open>l\<close> on returns 0, fills the start of the buffer with exactly these sectors
  in order, writes nothing behind them, and leaves the drive idle.
\<close>

theorem disk_read_sector_reads:
  assumes "ata_drive P img idle" and "idle io" and "0 \<le> l" and "l < 2 ^ 28" and "0 < n" and "n < 256"
    and "512 * n \<le> length buf"
  shows "\<exists>io'. disk_read_sector P io l (int n) buf =
      Done (0, concat (map (\<lambda>j. img (l + int j)) [0..<n]) @ drop (512 * n) buf, io') \<and> idle io'"
  by (rule disk_read_sector_eq [OF assms])

theorem disk_read_sector_reads_witness:
  "\<exists>io'. disk_read_sector (sim_ports sim_image) (\<lambda>_. 0, None) 7 (int 2) (replicate 1024 0) =
      Done (0, replicate 512 7 @ replicate 512 8, io') \<and> snd io' = None"
  using disk_read_sector_reads [OF sim_dmem(1), of "(\<lambda>_. 0, None)" 7 2 "replicate 1024 0"]
  by (simp add: sim_image_def numeral_2_eq_2)

text \<open>
  C21. A stream reads the disk as one sequence of bytes: \<open>diskstreamer_read\<close> of \<open>n\<close> bytes at
  position \<open>p\<close> stores bytes \<open>p\<close> to \<open>p + n\<close> of the disk in the buffer, however many sector boundaries
  are in between, leaves the rest of the buffer alone, and advances the stream by \<open>n\<close>. The position and
  its end must be below \<open>2 ^ 31\<close>, the range of the \<^verbatim>\<open>int\<close> that holds them.
\<close>

theorem diskstreamer_read_linear:
  assumes "ata_drive P img idle" and "idle (disk_io m)" and "stream_at m stream p"
    and "p + n < 2 ^ 31" and "n \<le> length out"
  shows "\<exists>m'. diskstreamer_read P m stream out (int n) = Done (0, disk_bytes img p n @ drop n out, m') \<and>
    stream_at m' stream (p + n) \<and> idle (disk_io m')"
  using diskstreamer_read_at_eq [OF assms(1-4), of 0 out] assms(5)
  by (auto simp: diskstreamer_read_def moved_def stream_at_def)

theorem diskstreamer_read_linear_witness:
  "\<exists>m'. diskstreamer_read (sim_ports sim_image) sim_dmem 0x1000000 [9, 9, 9, 9] (int 3) =
    Done (0, [0, 1, 1, 9], m') \<and> stream_at m' 0x1000000 514"
  using diskstreamer_read_linear [OF sim_dmem, of 3 "[9, 9, 9, 9]"]
  by (auto simp: disk_bytes_def disk_byte_def sim_image_def upt_rec numeral_3_eq_3)

text \<open>
  Reading in two steps is reading at once: \<open>a\<close> bytes followed by \<open>b\<close> bytes through the same
  stream give together what one read of \<open>a + b\<close> bytes gives.
\<close>

theorem diskstreamer_read_splits:
  assumes "ata_drive P img idle" and "idle (disk_io m)" and "stream_at m stream p"
    and "p + (a + b) < 2 ^ 31"
  shows "\<exists>m1 m2 m3 x y.
    diskstreamer_read P m stream (replicate a 0) (int a) = Done (0, x, m1) \<and>
    diskstreamer_read P m1 stream (replicate b 0) (int b) = Done (0, y, m2) \<and>
    diskstreamer_read P m stream (replicate (a + b) 0) (int (a + b)) = Done (0, x @ y, m3) \<and>
    stream_at m2 stream (p + (a + b)) \<and> stream_at m3 stream (p + (a + b))"
proof -
  from diskstreamer_read_at_eq [OF assms(1-3), of a 0 "replicate a 0"] assms(4) obtain io1 where 1:
    "diskstreamer_read P m stream (replicate a 0) (int a) =
      Done (0, disk_bytes img p a, moved m stream (p + a) io1)" "idle io1"
    by (auto simp: diskstreamer_read_def)
  have "stream_at (moved m stream (p + a) io1) stream (p + a)" "idle (disk_io (moved m stream (p + a) io1))"
    using 1(2) by (simp_all add: moved_def stream_at_def)
  from diskstreamer_read_at_eq [OF assms(1) this(2,1), of b 0 "replicate b 0"] assms(4) obtain io2 where 2:
    "diskstreamer_read P (moved m stream (p + a) io1) stream (replicate b 0) (int b) =
      Done (0, disk_bytes img (p + a) b, moved (moved m stream (p + a) io1) stream (p + a + b) io2)"
    by (auto simp: diskstreamer_read_def)
  from diskstreamer_read_at_eq [OF assms, of 0 "replicate (a + b) 0"] obtain io3 where
    "diskstreamer_read P m stream (replicate (a + b) 0) (int (a + b)) =
      Done (0, disk_bytes img p a @ disk_bytes img (p + a) b, moved m stream (p + (a + b)) io3)"
    by (auto simp: diskstreamer_read_def disk_bytes_append)
  with 1(1) 2 show ?thesis
    by (auto simp: moved_def stream_at_def add.assoc)
qed

theorem diskstreamer_read_splits_witness:
  "\<exists>m1 m2 m3 x y.
    diskstreamer_read (sim_ports sim_image) sim_dmem 0x1000000 (replicate 1 0) (int 1) = Done (0, x, m1) \<and>
    diskstreamer_read (sim_ports sim_image) m1 0x1000000 (replicate 600 0) (int 600) = Done (0, y, m2) \<and>
    diskstreamer_read (sim_ports sim_image) sim_dmem 0x1000000 (replicate (1 + 600) 0) (int (1 + 600)) =
      Done (0, x @ y, m3) \<and> stream_at m2 0x1000000 (511 + (1 + 600)) \<and> stream_at m3 0x1000000 (511 + (1 + 600))"
  by (rule diskstreamer_read_splits [OF sim_dmem]) simp

end
