(* ===== verification/Fat16.thy ===== *)
theory Fat16
  imports Disk
begin

text \<open>
  The FAT16 driver, \<^verbatim>\<open>src/fs/fat/fat16.c\<close>. On-disk structures are records decoded from the bytes
  that are read; the structures the driver allocates (\<open>fat_private\<close>, \<open>fat_directory\<close>,
  \<open>fat_item\<close>, \<open>fat_file_descriptor\<close>) are objects in typed stores next to the byte buffers of the
  kernel heap, so that every leak and every use of a freed object is visible. All loops that
  follow data from the disk (\<^verbatim>\<open>while (1)\<close> over directory entries, the cluster chain) read the image
  behind the \<open>ports\<close>.
\<close>

section \<open>On-disk structures\<close>

definition PANDORA_FAT16_SIGNATURE :: u8 where [conf]: "PANDORA_FAT16_SIGNATURE = 0x29"
definition PANDORA_FAT16_FAT_ENTRY_SIZE :: int where [conf]: "PANDORA_FAT16_FAT_ENTRY_SIZE = 2"
definition PANDORA_FAT16_BAD_SECTOR :: int where [conf]: "PANDORA_FAT16_BAD_SECTOR = 0xFF7"
definition FAT_ITEM_TYPE_DIRECTORY :: u32 where [conf]: "FAT_ITEM_TYPE_DIRECTORY = 0"
definition FAT_ITEM_TYPE_FILE :: u32 where [conf]: "FAT_ITEM_TYPE_FILE = 1"
definition FAT_FILE_READ_ONLY :: u8 where [conf]: "FAT_FILE_READ_ONLY = 0x01"
definition FAT_FILE_SUBDIRECTORY :: u8 where [conf]: "FAT_FILE_SUBDIRECTORY = 0x10"

record fat_header_extended =
  drive_number :: u8
  win_nt_bit :: u8
  fat_signature :: u8
  volume_id :: u32
  volume_id_string :: "u8 list"
  system_id_string :: "u8 list"

record fat_header =
  short_jmp_ins :: "u8 list"
  oem_identifier :: "u8 list"
  bytes_per_sector :: u16
  sectors_per_cluster :: u8
  reserved_sectors :: u16
  fat_copies :: u8
  root_dir_entries :: u16
  number_of_sectors :: u16
  media_type :: u8
  sectors_per_fat :: u16
  sectors_per_track :: u16
  number_of_heads :: u16
  hidden_sectors :: u32
  sectors_big :: u32

record fat_h =
  primary_header :: fat_header
  extended_header :: fat_header_extended

text \<open>The packed layouts: 36 and 26 bytes.\<close>

definition decode_fat_header :: "u8 list \<Rightarrow> fat_header" where
  "decode_fat_header b = \<lparr>short_jmp_ins = take 3 b, oem_identifier = take 8 (drop 3 b),
     bytes_per_sector = le16 b 11, sectors_per_cluster = b ! 13, reserved_sectors = le16 b 14,
     fat_copies = b ! 16, root_dir_entries = le16 b 17, number_of_sectors = le16 b 19,
     media_type = b ! 21, sectors_per_fat = le16 b 22, sectors_per_track = le16 b 24,
     number_of_heads = le16 b 26, hidden_sectors = le32 b 28, sectors_big = le32 b 32\<rparr>"

definition decode_fat_header_extended :: "u8 list \<Rightarrow> fat_header_extended" where
  "decode_fat_header_extended b = \<lparr>drive_number = b ! 0, win_nt_bit = b ! 1, fat_signature = b ! 2,
     volume_id = le32 b 3, volume_id_string = take 11 (drop 7 b), system_id_string = take 8 (drop 18 b)\<rparr>"

definition decode_fat_h :: "u8 list \<Rightarrow> fat_h" where
  "decode_fat_h b = \<lparr>primary_header = decode_fat_header b,
     extended_header = decode_fat_header_extended (drop 36 b)\<rparr>"

record fat_directory_item =
  filename :: "u8 list"
  ext :: "u8 list"
  attribute :: u8
  reserved :: u8
  creation_time_tenths_of_a_sec :: u8
  creation_time :: u16
  creation_date :: u16
  last_access :: u16
  high_16_bits_first_cluster :: u16
  last_mod_time :: u16
  last_mod_date :: u16
  low_16_bits_first_cluser :: u16
  filesize :: u32

definition decode_item :: "u8 list \<Rightarrow> fat_directory_item" where
  "decode_item b = \<lparr>filename = take 8 b, ext = take 3 (drop 8 b), attribute = b ! 11,
     reserved = b ! 12, creation_time_tenths_of_a_sec = b ! 13, creation_time = le16 b 14,
     creation_date = le16 b 16, last_access = le16 b 18, high_16_bits_first_cluster = le16 b 20,
     last_mod_time = le16 b 22, last_mod_date = le16 b 24, low_16_bits_first_cluser = le16 b 26,
     filesize = le32 b 28\<rparr>"

section \<open>State\<close>

record fat_directory =
  dir_item :: addr
  dir_total :: int
  sector_pos :: int
  ending_sector_pos :: int

text \<open>\<open>item_ptr\<close> is the union of the item and the directory pointer.\<close>

record fat_item =
  item_ptr :: addr
  item_type :: u32

record fat_file_descriptor =
  desc_item :: addr
  desc_pos :: u32

record fat_private =
  header :: fat_h
  root_directory :: fat_directory
  cluster_read_stream :: addr
  fat_read_stream :: addr
  directory_stream :: addr

text \<open>\<open>fat16_fs_at\<close> is the address of the global \<^verbatim>\<open>fat16_fs\<close>, \<open>fat16_fs_name\<close> its name field.\<close>

record 'io fatmem = "'io dmem" +
  fat16_fs_at :: addr
  fat16_fs_name :: "u8 list"
  fat_privates :: "addr \<Rightarrow> fat_private option"
  fat_directories :: "addr \<Rightarrow> fat_directory option"
  fat_items :: "addr \<Rightarrow> fat_item option"
  fat_descriptors :: "addr \<Rightarrow> fat_file_descriptor option"

text \<open>The only disk of the system, by its address.\<close>

definition disk_object :: "('io, 'a) dmem_scheme \<Rightarrow> addr \<Rightarrow> disk run" where
  "disk_object m d = (if d = disk_at m then Done (the_disk m) else Fault)"

definition private_of :: "('io, 'a) fatmem_scheme \<Rightarrow> addr \<Rightarrow> fat_private run" where
  "private_of m d = andthen (disk_object m d) (\<lambda>dk. deref (fat_privates m) (fs_private dk))"

text \<open>\<^verbatim>\<open>fat16_init\<close> names the file system.\<close>

definition FAT16_name :: "u8 list" where "FAT16_name = [0x46, 0x41, 0x54, 0x31, 0x36, 0]"

definition fat16_init :: "('io, 'a) fatmem_scheme \<Rightarrow> (addr \<times> ('io, 'a) fatmem_scheme) run" where
  "fat16_init m =
     andthen (strcpy (fat16_fs_name m) FAT16_name) (\<lambda>s.
     Done (fat16_fs_at m, m\<lparr>fat16_fs_name := s\<rparr>))"

definition fat16_init_private ::
    "('io, 'a) fatmem_scheme \<Rightarrow> addr \<Rightarrow> addr \<Rightarrow> ('io, 'a) fatmem_scheme run" where
  "fat16_init_private m d private =
     (if private = 0 then Fault
      else andthen (disk_object m d) (\<lambda>dk.
        andthen (diskstreamer_new m (disk_id dk)) (\<lambda>(s1, m).
        andthen (diskstreamer_new m (disk_id dk)) (\<lambda>(s2, m).
        andthen (diskstreamer_new m (disk_id dk)) (\<lambda>(s3, m).
        Done (m\<lparr>bufs := (bufs m)(private := None), fat_privates := (fat_privates m)(private \<mapsto>
          \<lparr>header = decode_fat_h (replicate 62 0),
           root_directory = \<lparr>dir_item = 0, dir_total = 0, sector_pos = 0, ending_sector_pos = 0\<rparr>,
           cluster_read_stream = s1, fat_read_stream = s2, directory_stream = s3\<rparr>)\<rparr>))))))"

definition fat16_sector_to_absolute :: "disk \<Rightarrow> int \<Rightarrow> int" where
  "fat16_sector_to_absolute dk sector = sector * sector_size dk"

section \<open>Directories\<close>

text \<open>
  The \<^verbatim>\<open>while (1)\<close> loop over the entries of a directory: \<open>None\<close> if no entry ever ends it.
  The stack object \<^verbatim>\<open>item\<close> is overwritten in full by every read.
\<close>

partial_function (option) fat16_count_items ::
    "'io ports \<Rightarrow> ('io, 'a) fatmem_scheme \<Rightarrow> addr \<Rightarrow> int \<Rightarrow> (int \<times> ('io, 'a) fatmem_scheme) run option" where
  "fat16_count_items P m stream i =
     (case diskstreamer_read P m stream (replicate 32 0xCC) 32 of
        Panic \<Rightarrow> Some Panic
      | Fault \<Rightarrow> Some Fault
      | Done r \<Rightarrow>
          if fst r \<noteq> PANDORAOS_ALL_OK then Some (Done (- EIO, snd (snd r)))
          else
            let item = decode_item (fst (snd r))
            in if filename item ! 0 = 0 then Some (Done (i, snd (snd r)))
               else if filename item ! 0 = 0xE5 then fat16_count_items P (snd (snd r)) stream i
               else fat16_count_items P (snd (snd r)) stream (i + 1))"

definition fat16_get_total_items_for_directory ::
    "'io ports \<Rightarrow> ('io, 'a) fatmem_scheme \<Rightarrow> addr \<Rightarrow> u32 \<Rightarrow> (int \<times> ('io, 'a) fatmem_scheme) run" where
  "fat16_get_total_items_for_directory P m d directory_start_sector =
     andthen (disk_object m d) (\<lambda>dk.
     andthen (private_of m d) (\<lambda>fp.
     let directory_start_pos = int_of_u32 (directory_start_sector * u32_of_int (sector_size dk));
         stream = directory_stream fp
     in andthen (diskstreamer_seek m stream directory_start_pos) (\<lambda>(res, m).
        if res \<noteq> PANDORAOS_ALL_OK then Done (- EIO, m)
        else case fat16_count_items P m stream 0 of
            None \<Rightarrow> Panic
          | Some r \<Rightarrow> r)))"

text \<open>Reading from a stream to a heap object, from its start on.\<close>

definition read_to_object ::
    "'io ports \<Rightarrow> ('io, 'a) fatmem_scheme \<Rightarrow> addr \<Rightarrow> addr \<Rightarrow> int \<Rightarrow> (int \<times> ('io, 'a) fatmem_scheme) run" where
  "read_to_object P m stream a tot =
     andthen (deref (bufs m) a) (\<lambda>b.
     andthen (diskstreamer_read P m stream b tot) (\<lambda>(res, b, m).
     Done (res, m\<lparr>bufs := (bufs m)(a \<mapsto> b)\<rparr>)))"

text \<open>\<^verbatim>\<open>directory\<close> is the root directory inside the private data \<open>fp\<close>.\<close>

definition fat16_get_root_directory ::
    "'io ports \<Rightarrow> ('io, 'a) fatmem_scheme \<Rightarrow> addr \<Rightarrow> addr \<Rightarrow> (int \<times> ('io, 'a) fatmem_scheme) run" where
  "fat16_get_root_directory P m d fp =
     andthen (disk_object m d) (\<lambda>dk.
     andthen (deref (fat_privates m) fp) (\<lambda>f.
     let h = primary_header (header f);
         root_dir_sector_pos = uint (fat_copies h) * uint (sectors_per_fat h) + uint (reserved_sectors h);
         root_dir_size = uint (root_dir_entries h) * 32
     in if sector_size dk = 0 then Fault
        else
          let total_sectors = root_dir_size sdiv sector_size dk +
                (if root_dir_size smod sector_size dk \<noteq> 0 then 1 else 0)
          in andthen (fat16_get_total_items_for_directory P m d (u32_of_int root_dir_sector_pos)) (\<lambda>(total_items, m).
             andthen (kzalloc m (u32_of_int root_dir_size)) (\<lambda>(dir, m).
             if dir = 0 then Done (- ENOMEM, m)
             else andthen (diskstreamer_seek m (directory_stream f) (fat16_sector_to_absolute dk root_dir_sector_pos)) (\<lambda>(res, m).
               if res \<noteq> PANDORAOS_ALL_OK then andthen (kfree m dir) (\<lambda>m. Done (- EIO, m))
               else andthen (read_to_object P m (directory_stream f) dir root_dir_size) (\<lambda>(res, m).
                 if res \<noteq> PANDORAOS_ALL_OK then andthen (kfree m dir) (\<lambda>m. Done (- EIO, m))
                 else Done (0, m\<lparr>fat_privates := (fat_privates m)(fp \<mapsto> f\<lparr>root_directory :=
                   \<lparr>dir_item = dir, dir_total = total_items, sector_pos = root_dir_sector_pos,
                    ending_sector_pos = root_dir_sector_pos + total_sectors\<rparr>\<rparr>)\<rparr>)))))))"

definition set_disk :: "('io, 'a) fatmem_scheme \<Rightarrow> (disk \<Rightarrow> disk) \<Rightarrow> ('io, 'a) fatmem_scheme" where
  "set_disk m f = m\<lparr>the_disk := f (the_disk m)\<rparr>"

text \<open>The part of \<open>fat16_resolve\<close> between the creation of the stream and the label \<^verbatim>\<open>out\<close>.\<close>

definition fat16_resolve_header ::
    "'io ports \<Rightarrow> ('io, 'a) fatmem_scheme \<Rightarrow> addr \<Rightarrow> addr \<Rightarrow> addr \<Rightarrow> (int \<times> ('io, 'a) fatmem_scheme) run" where
  "fat16_resolve_header P m d fp stream =
     andthen (diskstreamer_read P m stream (replicate 62 0) 62) (\<lambda>(res, b, m).
     andthen (deref (fat_privates m) fp) (\<lambda>f.
     let m = m\<lparr>fat_privates := (fat_privates m)(fp \<mapsto> f\<lparr>header := decode_fat_h b\<rparr>)\<rparr>
     in if res \<noteq> PANDORAOS_ALL_OK then Done (- EIO, m)
        else if fat_signature (extended_header (decode_fat_h b)) \<noteq> PANDORA_FAT16_SIGNATURE then Done (- EFSNOTUS, m)
        else andthen (fat16_get_root_directory P m d fp) (\<lambda>(res, m).
          Done (if res \<noteq> PANDORAOS_ALL_OK then - EIO else 0, m))))"

definition fat16_resolve :: "'io ports \<Rightarrow> ('io, 'a) fatmem_scheme \<Rightarrow> addr \<Rightarrow> (int \<times> ('io, 'a) fatmem_scheme) run" where
  "fat16_resolve P m d =
     andthen (kzalloc m 92) (\<lambda>(fp, m).
     andthen (fat16_init_private m d fp) (\<lambda>m.
     andthen (disk_object m d) (\<lambda>dk.
     let m = set_disk m (\<lambda>dk. dk\<lparr>fs_private := fp, filesystem := fat16_fs_at m\<rparr>)
     in andthen (diskstreamer_new m (disk_id dk)) (\<lambda>(stream, m).
        andthen (if stream = 0 then Done (- ENOMEM, m) else fat16_resolve_header P m d fp stream) (\<lambda>(res, m).
        andthen (if stream = 0 then Done m else diskstreamer_close m stream) (\<lambda>m.
        if res < 0 then andthen (kfree m fp) (\<lambda>m.
          Done (res, set_disk (m\<lparr>fat_privates := (fat_privates m)(fp := None)\<rparr>) (\<lambda>dk. dk\<lparr>fs_private := 0\<rparr>)))
        else Done (res, m)))))))"

section \<open>Names\<close>

text \<open>
  \<open>fat16_to_proper_string\<close> copies from \<open>inp\<close> to \<open>out\<close> from index \<open>k\<close> on until a zero byte, a space
  or \<open>sz\<close> characters; the result is the buffer and the advanced out pointer.
\<close>

fun fat16_to_proper_string_loop :: "u8 list \<Rightarrow> nat \<Rightarrow> u8 list \<Rightarrow> u32 \<Rightarrow> u32 \<Rightarrow> (u8 list \<times> nat) run" where
  "fat16_to_proper_string_loop out k [] i sz = Fault"
| "fat16_to_proper_string_loop out k (c # inp) i sz =
     (if c \<noteq> 0x00 \<and> c \<noteq> 0x20 then
        andthen (wr out k c) (\<lambda>out.
        if i \<ge> sz - 1 then Done (out, Suc k)
        else fat16_to_proper_string_loop out (Suc k) inp (i + 1) sz)
      else Done (out, k))"

definition fat16_to_proper_string :: "u8 list \<Rightarrow> nat \<Rightarrow> u8 list \<Rightarrow> u32 \<Rightarrow> (u8 list \<times> nat) run" where
  "fat16_to_proper_string out k inp sz =
     andthen (fat16_to_proper_string_loop out k inp 0 sz) (\<lambda>(out, k).
     andthen (wr out k 0) (\<lambda>out. Done (out, k)))"

definition fat16_get_full_relative_filename :: "fat_directory_item \<Rightarrow> u8 list \<Rightarrow> int \<Rightarrow> u8 list run" where
  "fat16_get_full_relative_filename item out max_len =
     andthen (memset out 0 (u32_of_int max_len)) (\<lambda>out.
     andthen (fat16_to_proper_string out 0 (filename item) 8) (\<lambda>(out, out_tmp).
     andthen (rd (ext item) 0) (\<lambda>c.
     if c \<noteq> 0 \<and> c \<noteq> 0x20 then
       andthen (wr out out_tmp 0x2E) (\<lambda>out.
       andthen (fat16_to_proper_string out (Suc out_tmp) (ext item) 3) (\<lambda>(out, out_tmp). Done out))
     else Done out)))"

section \<open>Clusters\<close>

text \<open>\<open>item\<close> is the bytes from the item on.\<close>

definition fat16_clone_directory_item ::
    "('io, 'a) fatmem_scheme \<Rightarrow> u8 list \<Rightarrow> int \<Rightarrow> (addr \<times> ('io, 'a) fatmem_scheme) run" where
  "fat16_clone_directory_item m item sz =
     (if u32_of_int sz < (32 :: u32) then Done (0, m)
      else andthen (kzalloc m (u32_of_int sz)) (\<lambda>(item_copy, m).
        if item_copy = 0 then Done (0, m)
        else andthen (deref (bufs m) item_copy) (\<lambda>b.
          andthen (memcpy b item sz) (\<lambda>b.
          Done (item_copy, m\<lparr>bufs := (bufs m)(item_copy \<mapsto> b)\<rparr>)))))"

definition fat16_get_first_cluster :: "fat_directory_item \<Rightarrow> u32" where
  "fat16_get_first_cluster item =
     push_bit 16 (ucast (high_16_bits_first_cluster item)) OR ucast (low_16_bits_first_cluser item)"

definition fat16_cluster_to_sector :: "fat_private \<Rightarrow> int \<Rightarrow> int" where
  "fat16_cluster_to_sector private cluster =
     ending_sector_pos (root_directory private) +
       (cluster - 2) * uint (sectors_per_cluster (primary_header (header private)))"

definition fat16_get_first_fat_sector :: "fat_private \<Rightarrow> u32" where
  "fat16_get_first_fat_sector private = ucast (reserved_sectors (primary_header (header private)))"

definition fat16_get_fat_entry ::
    "'io ports \<Rightarrow> ('io, 'a) fatmem_scheme \<Rightarrow> addr \<Rightarrow> int \<Rightarrow> (int \<times> ('io, 'a) fatmem_scheme) run" where
  "fat16_get_fat_entry P m d cluster =
     andthen (disk_object m d) (\<lambda>dk.
     andthen (private_of m d) (\<lambda>private.
     let stream = fat_read_stream private
     in if stream = 0 then Done (- 1, m)
        else
          let fat_table_position = fat16_get_first_fat_sector private * u32_of_int (sector_size dk)
          in andthen (diskstreamer_seek m stream
               (int_of_u32 (fat_table_position + u32_of_int (cluster * PANDORA_FAT16_FAT_ENTRY_SIZE)))) (\<lambda>(res, m).
             if res < 0 then Done (res, m)
             else andthen (diskstreamer_read P m stream [0, 0] 2) (\<lambda>(res, b, m).
               if res < 0 then Done (res, m) else Done (uint (le16 b 0), m)))))"

text \<open>The loop follows the chain \<open>n\<close> times; the result is negative when the chain ends early.\<close>

fun fat16_follow_chain ::
    "'io ports \<Rightarrow> ('io, 'a) fatmem_scheme \<Rightarrow> addr \<Rightarrow> int \<Rightarrow> nat \<Rightarrow> (int \<times> ('io, 'a) fatmem_scheme) run" where
  "fat16_follow_chain P m d cluster_to_use 0 = Done (cluster_to_use, m)"
| "fat16_follow_chain P m d cluster_to_use (Suc n) =
     andthen (fat16_get_fat_entry P m d cluster_to_use) (\<lambda>(entry, m).
     if entry = 0xFFF8 \<or> entry = 0xFFFF then Done (- EIO, m)
     else if entry = PANDORA_FAT16_BAD_SECTOR then Done (- EIO, m)
     else if entry = 0xFF0 \<or> entry = 0xFF6 then Done (- EIO, m)
     else if entry = 0 then Done (- EIO, m)
     else fat16_follow_chain P m d entry n)"

definition fat16_get_cluster_for_offset ::
    "'io ports \<Rightarrow> ('io, 'a) fatmem_scheme \<Rightarrow> addr \<Rightarrow> int \<Rightarrow> int \<Rightarrow> (int \<times> ('io, 'a) fatmem_scheme) run" where
  "fat16_get_cluster_for_offset P m d starting_cluster offset =
     andthen (disk_object m d) (\<lambda>dk.
     andthen (private_of m d) (\<lambda>private.
     let size_of_cluster_bytes = uint (sectors_per_cluster (primary_header (header private))) * sector_size dk
     in if size_of_cluster_bytes = 0 then Fault
        else
          let clusters_ahead = offset sdiv size_of_cluster_bytes
          in fat16_follow_chain P m d starting_cluster (nat clusters_ahead)))"

text \<open>
  The out pointer is the buffer \<open>out\<close> and the index \<open>k\<close>. A recursion that makes no progress (a
  cluster size that is not positive) overflows the stack, a \<open>Fault\<close>.
\<close>

function fat16_read_internal_from_stream ::
    "'io ports \<Rightarrow> ('io, 'a) fatmem_scheme \<Rightarrow> addr \<Rightarrow> addr \<Rightarrow> int \<Rightarrow> int \<Rightarrow> int \<Rightarrow> u8 list \<Rightarrow> nat \<Rightarrow>
      (int \<times> u8 list \<times> ('io, 'a) fatmem_scheme) run" where
  "fat16_read_internal_from_stream P m d stream cluster offset tot out k =
     andthen (disk_object m d) (\<lambda>dk.
     andthen (private_of m d) (\<lambda>private.
     let size_of_cluster_bytes = uint (sectors_per_cluster (primary_header (header private))) * sector_size dk
     in andthen (fat16_get_cluster_for_offset P m d cluster offset) (\<lambda>(cluster_to_use, m).
        if cluster_to_use < 0 then Done (cluster_to_use, out, m)
        else
          let offset_from_cluster = offset smod size_of_cluster_bytes;
              starting_sector = fat16_cluster_to_sector private cluster_to_use;
              starting_pos = starting_sector * sector_size dk + offset_from_cluster;
              total_to_read = (if tot > size_of_cluster_bytes then size_of_cluster_bytes else tot)
          in andthen (diskstreamer_seek m stream starting_pos) (\<lambda>(res, m).
             if res \<noteq> PANDORAOS_ALL_OK then Done (res, out, m)
             else andthen (diskstreamer_read_at P m stream out k total_to_read) (\<lambda>(res, out, m).
               if res \<noteq> PANDORAOS_ALL_OK then Done (res, out, m)
               else if tot - total_to_read > 0 then
                 if total_to_read \<le> 0 then Fault
                 else fat16_read_internal_from_stream P m d stream cluster (offset + total_to_read)
                        (tot - total_to_read) out (k + nat total_to_read)
               else Done (res, out, m))))))"
  by pat_completeness auto
termination
  by (relation "measure (\<lambda>(P, m, d, stream, cluster, offset, tot, out, k). nat tot)") auto

declare fat16_read_internal_from_stream.simps [simp del]

definition fat16_read_internal ::
    "'io ports \<Rightarrow> ('io, 'a) fatmem_scheme \<Rightarrow> addr \<Rightarrow> int \<Rightarrow> int \<Rightarrow> int \<Rightarrow> u8 list \<Rightarrow> nat \<Rightarrow>
      (int \<times> u8 list \<times> ('io, 'a) fatmem_scheme) run" where
  "fat16_read_internal P m d starting_cluster offset tot out k =
     andthen (private_of m d) (\<lambda>private.
     fat16_read_internal_from_stream P m d (cluster_read_stream private) starting_cluster offset tot out k)"

section \<open>Items\<close>

definition fat16_free_directory :: "('io, 'a) fatmem_scheme \<Rightarrow> addr \<Rightarrow> ('io, 'a) fatmem_scheme run" where
  "fat16_free_directory m directory =
     (if directory = 0 then Done m
      else andthen (deref (fat_directories m) directory) (\<lambda>dir.
        andthen (if dir_item dir = 0 then Done m else kfree m (dir_item dir)) (\<lambda>m.
        andthen (kfree m directory) (\<lambda>m.
        Done (m\<lparr>fat_directories := (fat_directories m)(directory := None)\<rparr>)))))"

definition fat16_fat_item_free :: "('io, 'a) fatmem_scheme \<Rightarrow> addr \<Rightarrow> ('io, 'a) fatmem_scheme run" where
  "fat16_fat_item_free m item =
     andthen (deref (fat_items m) item) (\<lambda>it.
     andthen (if item_type it = FAT_ITEM_TYPE_DIRECTORY then fat16_free_directory m (item_ptr it)
              else if item_type it = FAT_ITEM_TYPE_FILE then kfree m (item_ptr it)
              else Panic) (\<lambda>m.
     andthen (kfree m item) (\<lambda>m. Done (m\<lparr>fat_items := (fat_items m)(item := None)\<rparr>))))"

text \<open>The out label: the directory is freed on an error, and its address returned all the same.\<close>

definition load_fat_directory_out ::
    "('io, 'a) fatmem_scheme \<Rightarrow> int \<Rightarrow> addr \<Rightarrow> (addr \<times> ('io, 'a) fatmem_scheme) run" where
  "load_fat_directory_out m res directory =
     andthen (if res \<noteq> PANDORAOS_ALL_OK then fat16_free_directory m directory else Done m) (\<lambda>m.
     Done (directory, m))"

definition fat16_load_fat_directory ::
    "'io ports \<Rightarrow> ('io, 'a) fatmem_scheme \<Rightarrow> addr \<Rightarrow> fat_directory_item \<Rightarrow> (addr \<times> ('io, 'a) fatmem_scheme) run" where
  "fat16_load_fat_directory P m d item =
     andthen (private_of m d) (\<lambda>fp.
     if attribute item AND FAT_FILE_SUBDIRECTORY = 0 then load_fat_directory_out m (- EINVARG) 0
     else andthen (kzalloc m 16) (\<lambda>(directory, m).
       if directory = 0 then load_fat_directory_out m (- ENOMEM) 0
       else
         let cluster = int_of_u32 (fat16_get_first_cluster item);
             cluster_sector = fat16_cluster_to_sector fp cluster
         in andthen (fat16_get_total_items_for_directory P m d (u32_of_int cluster_sector)) (\<lambda>(total_items, m).
            let directory_size = int_of_u32 (u32_of_int total_items * 32)
            in andthen (kzalloc m (u32_of_int directory_size)) (\<lambda>(a, m).
               let m = m\<lparr>bufs := (bufs m)(directory := None),
                         fat_directories := (fat_directories m)(directory \<mapsto>
                           \<lparr>dir_item = a, dir_total = total_items, sector_pos = 0, ending_sector_pos = 0\<rparr>)\<rparr>
               in if a = 0 then load_fat_directory_out m (- ENOMEM) directory
                  else andthen (deref (bufs m) a) (\<lambda>b.
                    andthen (fat16_read_internal P m d cluster 0 directory_size b 0) (\<lambda>(res, b, m).
                    load_fat_directory_out (m\<lparr>bufs := (bufs m)(a \<mapsto> b)\<rparr>) res directory))))))"

text \<open>\<open>item\<close> is the bytes from the item on.\<close>

definition fat16_new_fat_item_for_directory_item ::
    "'io ports \<Rightarrow> ('io, 'a) fatmem_scheme \<Rightarrow> addr \<Rightarrow> u8 list \<Rightarrow> (addr \<times> ('io, 'a) fatmem_scheme) run" where
  "fat16_new_fat_item_for_directory_item P m d item =
     andthen (kzalloc m 8) (\<lambda>(f_item, m).
     if f_item = 0 then Done (0, m)
     else
       let m = m\<lparr>bufs := (bufs m)(f_item := None)\<rparr>
       in if attribute (decode_item item) AND FAT_FILE_SUBDIRECTORY \<noteq> 0 then
            andthen (fat16_load_fat_directory P m d (decode_item item)) (\<lambda>(directory, m).
            Done (f_item, m\<lparr>fat_items := (fat_items m)(f_item \<mapsto>
              \<lparr>item_ptr = directory, item_type = FAT_ITEM_TYPE_DIRECTORY\<rparr>)\<rparr>))
          else
            andthen (fat16_clone_directory_item m item 32) (\<lambda>(a, m).
            Done (f_item, m\<lparr>fat_items := (fat_items m)(f_item \<mapsto>
              \<lparr>item_ptr = a, item_type = FAT_ITEM_TYPE_FILE\<rparr>)\<rparr>)))"

text \<open>
  The search loop at index \<open>i\<close>, with the result \<open>f_item\<close> so far. It goes on after a match.
\<close>

function fat16_find_item_loop ::
    "'io ports \<Rightarrow> ('io, 'a) fatmem_scheme \<Rightarrow> addr \<Rightarrow> fat_directory \<Rightarrow> u8 list \<Rightarrow> addr \<Rightarrow> nat \<Rightarrow>
      (addr \<times> ('io, 'a) fatmem_scheme) run" where
  "fat16_find_item_loop P m d directory name f_item i =
     (if int i < dir_total directory then
        andthen (deref (bufs m) (dir_item directory)) (\<lambda>b.
        andthen (sub_object b (32 * i) 32) (\<lambda>it.
        andthen (fat16_get_full_relative_filename (decode_item it) (replicate 108 0xCC) 108) (\<lambda>tmp_filename.
        andthen (istrncmp tmp_filename name 108) (\<lambda>r.
        andthen (if r = 0 then fat16_new_fat_item_for_directory_item P m d it else Done (f_item, m)) (\<lambda>(f_item, m).
        fat16_find_item_loop P m d directory name f_item (Suc i))))))
      else Done (f_item, m))"
  by pat_completeness auto
termination
  by (relation "measure (\<lambda>(P, m, d, directory, name, f_item, i). nat (dir_total directory - int i))") auto

declare fat16_find_item_loop.simps [simp del]

definition fat16_find_item_in_directory ::
    "'io ports \<Rightarrow> ('io, 'a) fatmem_scheme \<Rightarrow> addr \<Rightarrow> fat_directory \<Rightarrow> u8 list \<Rightarrow> (addr \<times> ('io, 'a) fatmem_scheme) run" where
  "fat16_find_item_in_directory P m d directory name = fat16_find_item_loop P m d directory name 0 0"

text \<open>
  The walk along the path. A path list is finite when the parser made it, so \<open>free_fuel\<close> rounds
  are enough (see theory Pparser); a cyclic list would make the loop run for ever.
\<close>

fun fat16_walk ::
    "nat \<Rightarrow> 'io ports \<Rightarrow> ('io, 'a) fatmem_scheme \<Rightarrow> addr \<Rightarrow> addr \<Rightarrow> addr \<Rightarrow> (addr \<times> ('io, 'a) fatmem_scheme) run" where
  "fat16_walk n P m d current_item next =
     (if next = 0 then Done (current_item, m)
      else case n of 0 \<Rightarrow> Panic
      | Suc n \<Rightarrow>
          andthen (deref (fat_items m) current_item) (\<lambda>it.
          if item_type it \<noteq> FAT_ITEM_TYPE_DIRECTORY then Done (0, m)
          else andthen (deref (path_parts m) next) (\<lambda>pt.
            andthen (deref (fat_directories m) (item_ptr it)) (\<lambda>dir.
            andthen (deref (bufs m) (part pt)) (\<lambda>name.
            andthen (fat16_find_item_in_directory P m d dir name) (\<lambda>(tmp_item, m).
            andthen (fat16_fat_item_free m current_item) (\<lambda>m.
            fat16_walk n P m d tmp_item (next_part pt))))))))"

declare fat16_walk.simps [simp del]

definition fat16_get_directory_entry ::
    "'io ports \<Rightarrow> ('io, 'a) fatmem_scheme \<Rightarrow> addr \<Rightarrow> addr \<Rightarrow> (addr \<times> ('io, 'a) fatmem_scheme) run" where
  "fat16_get_directory_entry P m d path =
     andthen (private_of m d) (\<lambda>fp.
     andthen (deref (path_parts m) path) (\<lambda>pt.
     andthen (deref (bufs m) (part pt)) (\<lambda>name.
     andthen (fat16_find_item_in_directory P m d (root_directory fp) name) (\<lambda>(root_item, m).
     if root_item = 0 then Done (0, m)
     else fat16_walk free_fuel P m d root_item (next_part pt)))))"

section \<open>The operations of the file system\<close>

definition FILE_MODE_READ :: u32 where [conf]: "FILE_MODE_READ = 0"
definition FILE_MODE_WRITE :: u32 where [conf]: "FILE_MODE_WRITE = 1"
definition FILE_MODE_APPEND :: u32 where [conf]: "FILE_MODE_APPEND = 2"
definition FILE_MODE_INVALID :: u32 where [conf]: "FILE_MODE_INVALID = 3"
definition SEEK_SET :: u32 where [conf]: "SEEK_SET = 0"
definition SEEK_CUR :: u32 where [conf]: "SEEK_CUR = 1"
definition SEEK_END :: u32 where [conf]: "SEEK_END = 2"
definition FILE_STAT_READ_ONLY :: u32 where [conf]: "FILE_STAT_READ_ONLY = 1"

record file_stat =
  stat_flags :: u32
  stat_filesize :: u32

text \<open>An error code as a pointer (the macro \<^verbatim>\<open>ERROR\<close>), and the test \<^verbatim>\<open>ISERR\<close>.\<close>

definition ERROR :: "int \<Rightarrow> addr" where "ERROR v = u32_of_int v"
definition ERROR_I :: "addr \<Rightarrow> int" where "ERROR_I v = int_of_u32 v"
definition ISERR :: "addr \<Rightarrow> bool" where "ISERR v = (int_of_u32 v < 0)"

definition fat16_open ::
    "'io ports \<Rightarrow> ('io, 'a) fatmem_scheme \<Rightarrow> addr \<Rightarrow> addr \<Rightarrow> u32 \<Rightarrow> (addr \<times> ('io, 'a) fatmem_scheme) run" where
  "fat16_open P m d path mode =
     (if mode \<noteq> FILE_MODE_READ then Done (ERROR (- ERDONLY), m)
      else andthen (kzalloc m 8) (\<lambda>(descriptor, m).
        if descriptor = 0 then Done (ERROR (- ENOMEM), m)
        else andthen (fat16_get_directory_entry P m d path) (\<lambda>(item, m).
          if item = 0 then andthen (kfree m descriptor) (\<lambda>m. Done (ERROR (- EIO), m))
          else Done (descriptor, m\<lparr>bufs := (bufs m)(descriptor := None),
            fat_descriptors := (fat_descriptors m)(descriptor \<mapsto> \<lparr>desc_item = item, desc_pos = 0\<rparr>)\<rparr>))))"

definition fat16_free_file_descriptor :: "('io, 'a) fatmem_scheme \<Rightarrow> addr \<Rightarrow> ('io, 'a) fatmem_scheme run" where
  "fat16_free_file_descriptor m desc =
     andthen (deref (fat_descriptors m) desc) (\<lambda>ds.
     andthen (fat16_fat_item_free m (desc_item ds)) (\<lambda>m.
     andthen (kfree m desc) (\<lambda>m. Done (m\<lparr>fat_descriptors := (fat_descriptors m)(desc := None)\<rparr>))))"

definition fat16_close :: "('io, 'a) fatmem_scheme \<Rightarrow> addr \<Rightarrow> (int \<times> ('io, 'a) fatmem_scheme) run" where
  "fat16_close m private = andthen (fat16_free_file_descriptor m private) (\<lambda>m. Done (0, m))"

text \<open>The item of a descriptor: the object the union points to, read as a directory item.\<close>

definition descriptor_item :: "('io, 'a) fatmem_scheme \<Rightarrow> fat_item \<Rightarrow> fat_directory_item run" where
  "descriptor_item m it =
     andthen (deref (bufs m) (item_ptr it)) (\<lambda>b. andthen (sub_object b 0 32) (\<lambda>b. Done (decode_item b)))"

text \<open>The stat buffer of the caller is only written on success.\<close>

definition fat16_stat :: "('io, 'a) fatmem_scheme \<Rightarrow> addr \<Rightarrow> addr \<Rightarrow> file_stat \<Rightarrow> (int \<times> file_stat) run" where
  "fat16_stat m d private stat =
     andthen (deref (fat_descriptors m) private) (\<lambda>descriptor.
     andthen (deref (fat_items m) (desc_item descriptor)) (\<lambda>it.
     if item_type it \<noteq> FAT_ITEM_TYPE_FILE then Done (- EINVARG, stat)
     else andthen (descriptor_item m it) (\<lambda>ritem.
       Done (0, \<lparr>stat_flags = (if attribute ritem AND FAT_FILE_READ_ONLY \<noteq> 0 then FILE_STAT_READ_ONLY else 0),
                stat_filesize = filesize ritem\<rparr>))))"

text \<open>The loop of \<open>fat16_read\<close>: \<open>n\<close> more reads of \<open>sz\<close> bytes to index \<open>k\<close> of \<open>out\<close>.\<close>

fun fat16_read_loop ::
    "'io ports \<Rightarrow> ('io, 'a) fatmem_scheme \<Rightarrow> addr \<Rightarrow> int \<Rightarrow> int \<Rightarrow> u32 \<Rightarrow> nat \<Rightarrow> u8 list \<Rightarrow> nat \<Rightarrow>
      (int \<times> int \<times> u8 list \<times> ('io, 'a) fatmem_scheme) run" where
  "fat16_read_loop P m d cluster offset sz 0 out k = Done (0, offset, out, m)"
| "fat16_read_loop P m d cluster offset sz (Suc n) out k =
     andthen (fat16_read_internal P m d cluster offset (int_of_u32 sz) out k) (\<lambda>(res, out, m).
     if res < 0 then Done (res, offset, out, m)
     else fat16_read_loop P m d cluster (int_of_u32 (u32_of_int offset + sz)) sz n out (k + unat sz))"

definition fat16_read ::
    "'io ports \<Rightarrow> ('io, 'a) fatmem_scheme \<Rightarrow> addr \<Rightarrow> addr \<Rightarrow> u32 \<Rightarrow> u32 \<Rightarrow> u8 list \<Rightarrow>
      (int \<times> u8 list \<times> ('io, 'a) fatmem_scheme) run" where
  "fat16_read P m d descriptor sz nmemb out_ptr =
     andthen (deref (fat_descriptors m) descriptor) (\<lambda>fat_desc.
     andthen (deref (fat_items m) (desc_item fat_desc)) (\<lambda>it.
     andthen (descriptor_item m it) (\<lambda>item.
     andthen (fat16_read_loop P m d (int_of_u32 (fat16_get_first_cluster item)) (int_of_u32 (desc_pos fat_desc))
       sz (unat nmemb) out_ptr 0) (\<lambda>(res, offset, out, m).
     if res < 0 then Done (res, out, m)
     else Done (int_of_u32 nmemb, out, m\<lparr>fat_descriptors :=
       (fat_descriptors m)(descriptor \<mapsto> fat_desc\<lparr>desc_pos := u32_of_int offset\<rparr>)\<rparr>)))))"

definition fat16_seek ::
    "('io, 'a) fatmem_scheme \<Rightarrow> addr \<Rightarrow> u32 \<Rightarrow> u32 \<Rightarrow> (int \<times> ('io, 'a) fatmem_scheme) run" where
  "fat16_seek m private offset seek_mode =
     andthen (deref (fat_descriptors m) private) (\<lambda>desc.
     andthen (deref (fat_items m) (desc_item desc)) (\<lambda>it.
     if item_type it \<noteq> FAT_ITEM_TYPE_FILE then Done (- EINVARG, m)
     else andthen (descriptor_item m it) (\<lambda>ritem.
       if offset \<ge> filesize ritem then Done (- EIO, m)
       else if seek_mode = SEEK_SET then
         Done (0, m\<lparr>fat_descriptors := (fat_descriptors m)(private \<mapsto> desc\<lparr>desc_pos := offset\<rparr>)\<rparr>)
       else if seek_mode = SEEK_END then Done (- EUNIMP, m)
       else if seek_mode = SEEK_CUR then
         Done (0, m\<lparr>fat_descriptors := (fat_descriptors m)(private \<mapsto> desc\<lparr>desc_pos := desc_pos desc + offset\<rparr>)\<rparr>)
       else Done (- EINVARG, m))))"

end
