(* ===== verification/Vfs.thy ===== *)
theory Vfs
  imports Fat16
begin

text \<open>
  The virtual file system, \<^verbatim>\<open>src/fs/file.c\<close>, and the disk initialisation that uses it
  (\<^verbatim>\<open>disk_search_and_init\<close> of \<^verbatim>\<open>src/disk/disk.c\<close>): the table of file systems, the table of file
  descriptors and the operations \<open>fopen\<close>, \<open>fread\<close>, \<open>fseek\<close>, \<open>fstat\<close>, \<open>fclose\<close>, which dispatch
  through the function pointers of the file system of the disk. FAT16 is the only one there is, so
  a call through a pointer that is not \<open>fat16_fs\<close> is a \<open>Fault\<close>.
\<close>

section \<open>State\<close>

definition PANDORA_MAX_FILESYSTEMS :: nat where [conf]: "PANDORA_MAX_FILESYSTEMS = 12"
definition PANDORA_MAX_FILE_DESCRIPTORS :: nat where [conf]: "PANDORA_MAX_FILE_DESCRIPTORS = 512"

record file_descriptor =
  fd_index :: int
  fd_filesystem :: addr
  fd_private :: addr
  fd_disk :: addr

record 'io filemem = "'io fatmem" +
  filesystems :: "addr list"
  file_descriptors :: "addr list"
  fdescs :: "addr \<Rightarrow> file_descriptor option"

text \<open>A call through the function pointers of the file system \<open>fs\<close>.\<close>

definition fs_call :: "('io, 'a) fatmem_scheme \<Rightarrow> addr \<Rightarrow> 'r run \<Rightarrow> 'r run" where
  "fs_call m fs call = (if fs \<noteq> 0 \<and> fs = fat16_fs_at m then call else Fault)"

section \<open>The table of file systems\<close>

text \<open>The first free slot from index \<open>i\<close> on, as an index.\<close>

function first_free :: "addr list \<Rightarrow> nat \<Rightarrow> nat \<Rightarrow> nat option run" where
  "first_free tbl i n =
     (if i < n then andthen (rd tbl i) (\<lambda>p. if p = 0 then Done (Some i) else first_free tbl (Suc i) n)
      else Done None)"
  by pat_completeness auto
termination
  by (relation "measure (\<lambda>(tbl, i, n). n - i)") auto

declare first_free.simps [simp del]

definition fs_get_free_filesystem :: "('io, 'a) filemem_scheme \<Rightarrow> nat option run" where
  "fs_get_free_filesystem m = first_free (filesystems m) 0 PANDORA_MAX_FILESYSTEMS"

definition fs_insert_filesystem :: "('io, 'a) filemem_scheme \<Rightarrow> addr \<Rightarrow> ('io, 'a) filemem_scheme run" where
  "fs_insert_filesystem m fs =
     andthen (fs_get_free_filesystem m) (\<lambda>slot.
     case slot of
       None \<Rightarrow> Panic
     | Some i \<Rightarrow> andthen (wr (filesystems m) i fs) (\<lambda>t. Done (m\<lparr>filesystems := t\<rparr>)))"

definition fs_static_load :: "('io, 'a) filemem_scheme \<Rightarrow> ('io, 'a) filemem_scheme run" where
  "fs_static_load m = andthen (fat16_init m) (\<lambda>(fs, m). fs_insert_filesystem m fs)"

definition fs_load :: "('io, 'a) filemem_scheme \<Rightarrow> ('io, 'a) filemem_scheme run" where
  "fs_load m = fs_static_load (m\<lparr>filesystems := replicate PANDORA_MAX_FILESYSTEMS 0\<rparr>)"

definition fs_init :: "('io, 'a) filemem_scheme \<Rightarrow> ('io, 'a) filemem_scheme run" where
  "fs_init m = fs_load (m\<lparr>file_descriptors := replicate PANDORA_MAX_FILE_DESCRIPTORS 0\<rparr>)"

text \<open>The search for a file system that accepts the disk, from slot \<open>i\<close> on.\<close>

function fs_resolve_loop ::
    "'io ports \<Rightarrow> ('io, 'a) filemem_scheme \<Rightarrow> addr \<Rightarrow> nat \<Rightarrow> (addr \<times> ('io, 'a) filemem_scheme) run" where
  "fs_resolve_loop P m d i =
     (if i < PANDORA_MAX_FILESYSTEMS then
        andthen (rd (filesystems m) i) (\<lambda>fs.
        if fs = 0 then fs_resolve_loop P m d (Suc i)
        else andthen (fs_call m fs (fat16_resolve P m d)) (\<lambda>(res, m).
          if res = 0 then andthen (rd (filesystems m) i) (\<lambda>fs. Done (fs, m))
          else fs_resolve_loop P m d (Suc i)))
      else Done (0, m))"
  by pat_completeness auto
termination
  by (relation "measure (\<lambda>(P, m, d, i). PANDORA_MAX_FILESYSTEMS - i)") auto

declare fs_resolve_loop.simps [simp del]

definition fs_resolve ::
    "'io ports \<Rightarrow> ('io, 'a) filemem_scheme \<Rightarrow> addr \<Rightarrow> (addr \<times> ('io, 'a) filemem_scheme) run" where
  "fs_resolve P m d = fs_resolve_loop P m d 0"

definition disk_search_and_init ::
    "'io ports \<Rightarrow> ('io, 'a) filemem_scheme \<Rightarrow> ('io, 'a) filemem_scheme run" where
  "disk_search_and_init P m =
     (let m = m\<lparr>the_disk := \<lparr>disk_type = PANDORA_DISK_TYPE_REAL, sector_size = PANDORA_SECTOR_SIZE,
            disk_id = 0, filesystem = 0, fs_private = 0\<rparr>\<rparr>
      in andthen (fs_resolve P m (disk_at m)) (\<lambda>(fs, m).
         Done (set_disk m (\<lambda>dk. dk\<lparr>filesystem := fs\<rparr>))))"

section \<open>File descriptors\<close>

definition file_free_descriptor :: "('io, 'a) filemem_scheme \<Rightarrow> addr \<Rightarrow> ('io, 'a) filemem_scheme run" where
  "file_free_descriptor m desc =
     andthen (deref (fdescs m) desc) (\<lambda>ds.
     if fd_index ds - 1 < 0 then Fault
     else andthen (wr (file_descriptors m) (nat (fd_index ds - 1)) 0) (\<lambda>t.
       andthen (kfree m desc) (\<lambda>m.
       Done (m\<lparr>file_descriptors := t, fdescs := (fdescs m)(desc := None)\<rparr>))))"

text \<open>The result, the new descriptor (0 if there is none) and the memory.\<close>

definition file_new_descriptor ::
    "('io, 'a) filemem_scheme \<Rightarrow> (int \<times> addr \<times> ('io, 'a) filemem_scheme) run" where
  "file_new_descriptor m =
     andthen (first_free (file_descriptors m) 0 PANDORA_MAX_FILE_DESCRIPTORS) (\<lambda>slot.
     case slot of
       None \<Rightarrow> Done (- ENOMEM, 0, m)
     | Some i \<Rightarrow>
         andthen (kzalloc m 16) (\<lambda>(desc, m).
         if desc = 0 then Fault
         else andthen (wr (file_descriptors m) i desc) (\<lambda>t.
           Done (0, desc, m\<lparr>bufs := (bufs m)(desc := None), file_descriptors := t,
             fdescs := (fdescs m)(desc \<mapsto> \<lparr>fd_index = int i + 1, fd_filesystem = 0, fd_private = 0, fd_disk = 0\<rparr>)\<rparr>))))"

definition file_get_descriptor :: "('io, 'a) filemem_scheme \<Rightarrow> int \<Rightarrow> addr run" where
  "file_get_descriptor m fd =
     (if fd \<le> 0 \<or> fd \<ge> int PANDORA_MAX_FILE_DESCRIPTORS then Done 0
      else rd (file_descriptors m) (nat (fd - 1)))"

text \<open>The strings \<^verbatim>\<open>"r"\<close>, \<^verbatim>\<open>"w"\<close>, \<^verbatim>\<open>"a"\<close>.\<close>

definition file_get_mode_by_string :: "u8 list \<Rightarrow> u32 run" where
  "file_get_mode_by_string str =
     andthen (strncmp str [0x72, 0] 1) (\<lambda>r.
     if r = 0 then Done FILE_MODE_READ
     else andthen (strncmp str [0x77, 0] 1) (\<lambda>r.
       if r = 0 then Done FILE_MODE_WRITE
       else andthen (strncmp str [0x61, 0] 1) (\<lambda>r.
         Done (if r = 0 then FILE_MODE_APPEND else FILE_MODE_INVALID))))"

section \<open>Operations\<close>

text \<open>The out label of \<open>fopen\<close>: what is released on an error, and the result, which is never negative.\<close>

definition fopen_out ::
    "('io, 'a) filemem_scheme \<Rightarrow> int \<Rightarrow> addr \<Rightarrow> addr \<Rightarrow> addr \<Rightarrow> addr \<Rightarrow> (int \<times> ('io, 'a) filemem_scheme) run" where
  "fopen_out m res root_path d descriptor_private_data desc =
     (if res < 0 then
        andthen (if root_path \<noteq> 0 then pathparser_free m root_path else Done m) (\<lambda>m.
        andthen (if d \<noteq> 0 \<and> descriptor_private_data \<noteq> 0 then
                   andthen (disk_object m d) (\<lambda>dk.
                   andthen (fs_call m (filesystem dk) (fat16_close m descriptor_private_data)) (\<lambda>(r, m). Done m))
                 else Done m) (\<lambda>m.
        andthen (if desc \<noteq> 0 then file_free_descriptor m desc else Done m) (\<lambda>m.
        Done (0, m))))
      else Done (res, m))"

definition fopen ::
    "'io ports \<Rightarrow> ('io, 'a) filemem_scheme \<Rightarrow> u8 list \<Rightarrow> u8 list \<Rightarrow> (int \<times> ('io, 'a) filemem_scheme) run" where
  "fopen P m fname mode_str =
     andthen (pathparser_parse m fname 0) (\<lambda>(root_path, m).
     if root_path = 0 then fopen_out m (- EINVARG) 0 0 0 0
     else andthen (deref (path_roots m) root_path) (\<lambda>r.
       if first r = 0 then fopen_out m (- EINVARG) root_path 0 0 0
       else
         let d = disk_get m (drive_no r)
         in if d = 0 then fopen_out m (- EIO) root_path 0 0 0
            else andthen (disk_object m d) (\<lambda>dk.
              if filesystem dk = 0 then fopen_out m (- EIO) root_path d 0 0
              else andthen (file_get_mode_by_string mode_str) (\<lambda>mode.
                if mode = FILE_MODE_INVALID then fopen_out m (- EINVARG) root_path d 0 0
                else andthen (fs_call m (filesystem dk) (fat16_open P m d (first r) mode)) (\<lambda>(priv, m).
                  if ISERR priv then fopen_out m (ERROR_I priv) root_path d priv 0
                  else andthen (file_new_descriptor m) (\<lambda>(res, desc, m).
                    if res < 0 then fopen_out m res root_path d priv desc
                    else andthen (disk_object m d) (\<lambda>dk.
                      andthen (deref (fdescs m) desc) (\<lambda>ds.
                      fopen_out (m\<lparr>fdescs := (fdescs m)(desc \<mapsto>
                          ds\<lparr>fd_filesystem := filesystem dk, fd_private := priv, fd_disk := d\<rparr>)\<rparr>)
                        (fd_index ds) root_path d priv desc))))))))"

definition fstat :: "('io, 'a) filemem_scheme \<Rightarrow> int \<Rightarrow> file_stat \<Rightarrow> (int \<times> file_stat) run" where
  "fstat m fd stat =
     andthen (file_get_descriptor m fd) (\<lambda>desc.
     if desc = 0 then Done (- EIO, stat)
     else andthen (deref (fdescs m) desc) (\<lambda>ds.
       fs_call m (fd_filesystem ds) (fat16_stat m (fd_disk ds) (fd_private ds) stat)))"

definition fclose :: "('io, 'a) filemem_scheme \<Rightarrow> int \<Rightarrow> (int \<times> ('io, 'a) filemem_scheme) run" where
  "fclose m fd =
     andthen (file_get_descriptor m fd) (\<lambda>desc.
     if desc = 0 then Done (- EIO, m)
     else andthen (deref (fdescs m) desc) (\<lambda>ds.
       andthen (fs_call m (fd_filesystem ds) (fat16_close m (fd_private ds))) (\<lambda>(res, m).
       if res = PANDORAOS_ALL_OK then andthen (file_free_descriptor m desc) (\<lambda>m. Done (res, m))
       else Done (res, m))))"

definition fseek ::
    "('io, 'a) filemem_scheme \<Rightarrow> int \<Rightarrow> int \<Rightarrow> u32 \<Rightarrow> (int \<times> ('io, 'a) filemem_scheme) run" where
  "fseek m fd offset whence =
     andthen (file_get_descriptor m fd) (\<lambda>desc.
     if desc = 0 then Done (- EIO, m)
     else andthen (deref (fdescs m) desc) (\<lambda>ds.
       fs_call m (fd_filesystem ds) (fat16_seek m (fd_private ds) (u32_of_int offset) whence)))"

text \<open>\<open>ptr\<close> is the buffer from the pointer on; the result, the buffer and the memory.\<close>

definition fread ::
    "'io ports \<Rightarrow> ('io, 'a) filemem_scheme \<Rightarrow> u8 list \<Rightarrow> u32 \<Rightarrow> u32 \<Rightarrow> int \<Rightarrow>
      (int \<times> u8 list \<times> ('io, 'a) filemem_scheme) run" where
  "fread P m ptr sz nmemb fd =
     (if sz = 0 \<or> nmemb = 0 \<or> fd < 1 then Done (- EINVARG, ptr, m)
      else andthen (file_get_descriptor m fd) (\<lambda>desc.
        if desc = 0 then Done (- EINVARG, ptr, m)
        else andthen (deref (fdescs m) desc) (\<lambda>ds.
          fs_call m (fd_filesystem ds) (fat16_read P m (fd_disk ds) (fd_private ds) sz nmemb ptr))))"

end
