(* ===== verification/Elf.thy ===== *)
theory Elf
  imports Vfs
begin

text \<open>
  The ELF loader: \<^verbatim>\<open>src/loader/formats/elf.c\<close>, \<^verbatim>\<open>elf.h\<close>, \<^verbatim>\<open>elf_loader.c\<close>. A file is read to a
  kernel buffer as a whole; its header and program headers are records decoded from that buffer,
  and a pointer into it is its address plus an offset, wrapping as in the code. An access outside
  the buffer is a \<open>Fault\<close>: the loader checks none of the offsets a file contains.
\<close>

section \<open>The format\<close>

definition PF_W :: u32 where [conf]: "PF_W = 0x02"
definition PT_LOAD :: u32 where [conf]: "PT_LOAD = 1"
definition ET_EXEC :: u16 where [conf]: "ET_EXEC = 2"
definition EI_CLASS :: nat where [conf]: "EI_CLASS = 4"
definition EI_DATA :: nat where [conf]: "EI_DATA = 5"
definition ELFCLASSNONE :: u8 where [conf]: "ELFCLASSNONE = 0"
definition ELFCLASS32 :: u8 where [conf]: "ELFCLASS32 = 1"
definition ELFDATANONE :: u8 where [conf]: "ELFDATANONE = 0"
definition ELFDATA2LSB :: u8 where [conf]: "ELFDATA2LSB = 1"
definition PANDORA_PROGRAM_VIRTUAL_ADDRESS :: addr where [conf]: "PANDORA_PROGRAM_VIRTUAL_ADDRESS = 0x400000"

record elf32_phdr =
  p_type :: u32
  p_offset :: u32
  p_vaddr :: addr
  p_paddr :: addr
  p_filesz :: u32
  p_memsz :: u32
  p_flags :: u32
  p_align :: u32

record elf32_shdr =
  sh_name :: u32
  sh_type :: u32
  sh_flags :: u32
  sh_addr :: addr
  sh_offset :: u32
  sh_size :: u32
  sh_link :: u32
  sh_info :: u32
  sh_addralign :: u32
  sh_entsize :: u32

record elf_header =
  e_ident :: "u8 list"
  e_type :: u16
  e_machine :: u16
  e_version :: u32
  e_entry :: addr
  e_phoff :: u32
  e_shoff :: u32
  e_flags :: u32
  e_ehsize :: u16
  e_phentsize :: u16
  e_phnum :: u16
  e_shentsize :: u16
  e_shnum :: u16
  e_shstrndx :: u16

text \<open>The packed layouts: 32, 40 and 52 bytes.\<close>

definition decode_phdr :: "u8 list \<Rightarrow> elf32_phdr" where
  "decode_phdr b = \<lparr>p_type = le32 b 0, p_offset = le32 b 4, p_vaddr = le32 b 8, p_paddr = le32 b 12,
     p_filesz = le32 b 16, p_memsz = le32 b 20, p_flags = le32 b 24, p_align = le32 b 28\<rparr>"

definition decode_shdr :: "u8 list \<Rightarrow> elf32_shdr" where
  "decode_shdr b = \<lparr>sh_name = le32 b 0, sh_type = le32 b 4, sh_flags = le32 b 8, sh_addr = le32 b 12,
     sh_offset = le32 b 16, sh_size = le32 b 20, sh_link = le32 b 24, sh_info = le32 b 28,
     sh_addralign = le32 b 32, sh_entsize = le32 b 36\<rparr>"

definition decode_elf_header :: "u8 list \<Rightarrow> elf_header" where
  "decode_elf_header b = \<lparr>e_ident = take 16 b, e_type = le16 b 16, e_machine = le16 b 18,
     e_version = le32 b 20, e_entry = le32 b 24, e_phoff = le32 b 28, e_shoff = le32 b 32,
     e_flags = le32 b 36, e_ehsize = le16 b 40, e_phentsize = le16 b 42, e_phnum = le16 b 44,
     e_shentsize = le16 b 46, e_shnum = le16 b 48, e_shstrndx = le16 b 50\<rparr>"

definition elf_get_entry_ptr :: "elf_header \<Rightarrow> addr" where "elf_get_entry_ptr h = e_entry h"
definition elf_get_entry :: "elf_header \<Rightarrow> u32" where "elf_get_entry h = e_entry h"

section \<open>State\<close>

record elf_file =
  elf_filename :: "u8 list"
  in_memory_size :: int
  elf_memory_field :: addr
  virtual_base_address :: addr
  virtual_end_address :: addr
  physical_base_address :: addr
  physical_end_address :: addr

record 'io elfmem = "'io filemem" +
  elf_files :: "addr \<Rightarrow> elf_file option"

text \<open>The \<open>n\<close> bytes at address \<open>a\<close> inside the buffer that starts at \<open>base\<close>.\<close>

definition read_in :: "('io, 'a) elfmem_scheme \<Rightarrow> addr \<Rightarrow> addr \<Rightarrow> nat \<Rightarrow> u8 list run" where
  "read_in m base a n = andthen (deref (bufs m) base) (\<lambda>b. sub_object b (unat (a - base)) n)"

section \<open>Header and program headers\<close>

definition elf_signature :: "u8 list" where "elf_signature = [0x7F, 0x45, 0x4C, 0x46]"

definition efl_valid_signature :: "u8 list \<Rightarrow> bool run" where
  "efl_valid_signature buf = andthen (memcmp buf elf_signature 4) (\<lambda>r. Done (r = 0))"

definition elf_valid_class :: "elf_header \<Rightarrow> bool" where
  "elf_valid_class h \<longleftrightarrow> e_ident h ! EI_CLASS = ELFCLASSNONE \<or> e_ident h ! EI_CLASS = ELFCLASS32"

definition elf_valid_encoding :: "elf_header \<Rightarrow> bool" where
  "elf_valid_encoding h \<longleftrightarrow> e_ident h ! EI_DATA = ELFDATANONE \<or> e_ident h ! EI_DATA = ELFDATA2LSB"

definition elf_is_executable :: "elf_header \<Rightarrow> bool" where
  "elf_is_executable h \<longleftrightarrow> e_type h = ET_EXEC \<and> e_entry h \<ge> PANDORA_PROGRAM_VIRTUAL_ADDRESS"

definition elf_has_program_header :: "elf_header \<Rightarrow> bool" where
  "elf_has_program_header h \<longleftrightarrow> e_phoff h \<noteq> 0"

definition elf_memory :: "elf_file \<Rightarrow> addr" where "elf_memory f = elf_memory_field f"

text \<open>The address of the header, and the header at an address.\<close>

definition elf_header_ptr :: "elf_file \<Rightarrow> addr" where "elf_header_ptr f = elf_memory_field f"

definition header_at :: "('io, 'a) elfmem_scheme \<Rightarrow> addr \<Rightarrow> elf_header run" where
  "header_at m p = andthen (read_in m p p 52) (\<lambda>b. Done (decode_elf_header b))"

text \<open>The functions that compute pointers take the address \<open>p\<close> of the header \<open>h\<close>.\<close>

definition elf_sheader :: "addr \<Rightarrow> elf_header \<Rightarrow> addr" where "elf_sheader p h = p + e_shoff h"

definition elf_pheader :: "addr \<Rightarrow> elf_header \<Rightarrow> addr" where
  "elf_pheader p h = (if e_phoff h = 0 then 0 else p + e_phoff h)"

definition elf_program_header :: "addr \<Rightarrow> elf_header \<Rightarrow> int \<Rightarrow> addr" where
  "elf_program_header p h index = elf_pheader p h + 32 * u32_of_int index"

definition elf_section :: "addr \<Rightarrow> elf_header \<Rightarrow> int \<Rightarrow> addr" where
  "elf_section p h index = elf_sheader p h + 40 * u32_of_int index"

definition elf_phdr_phys_address :: "elf_file \<Rightarrow> elf32_phdr \<Rightarrow> addr" where
  "elf_phdr_phys_address f ph = elf_memory f + p_offset ph"

definition elf_str_table :: "('io, 'a) elfmem_scheme \<Rightarrow> addr \<Rightarrow> elf_header \<Rightarrow> addr run" where
  "elf_str_table m p h =
     andthen (read_in m p (elf_section p h (uint (e_shstrndx h))) 40) (\<lambda>b.
     Done (p + sh_offset (decode_shdr b)))"

definition elf_virtual_base :: "elf_file \<Rightarrow> addr" where "elf_virtual_base f = virtual_base_address f"
definition elf_virtual_end :: "elf_file \<Rightarrow> addr" where "elf_virtual_end f = virtual_end_address f"
definition elf_phys_base :: "elf_file \<Rightarrow> addr" where "elf_phys_base f = physical_base_address f"
definition elf_phys_end :: "elf_file \<Rightarrow> addr" where "elf_phys_end f = physical_end_address f"

definition elf_validate_loaded :: "('io, 'a) elfmem_scheme \<Rightarrow> addr \<Rightarrow> int run" where
  "elf_validate_loaded m p =
     andthen (deref (bufs m) p) (\<lambda>b.
     andthen (efl_valid_signature b) (\<lambda>sig.
     if \<not> sig then Done (- EINFORMAT)
     else andthen (header_at m p) (\<lambda>h.
       Done (if elf_valid_class h \<and> elf_valid_encoding h \<and> elf_has_program_header h \<and> elf_is_executable h
             then PANDORAOS_ALL_OK else - EINFORMAT))))"

definition elf_process_phdr_pt_load :: "elf_file \<Rightarrow> elf32_phdr \<Rightarrow> int \<times> elf_file" where
  "elf_process_phdr_pt_load f ph =
     (let f = (if virtual_base_address f \<ge> p_vaddr ph \<or> virtual_base_address f = 0
               then f\<lparr>virtual_base_address := p_vaddr ph, physical_base_address := elf_memory f + p_offset ph\<rparr>
               else f);
          end_virtual_address = p_vaddr ph + p_filesz ph;
          f = (if virtual_end_address f \<le> end_virtual_address \<or> virtual_end_address f = 0
               then f\<lparr>virtual_end_address := end_virtual_address,
                      physical_end_address := elf_memory f + p_offset ph + p_filesz ph\<rparr>
               else f)
      in (0, f))"

definition elf_process_pheader :: "elf_file \<Rightarrow> elf32_phdr \<Rightarrow> int \<times> elf_file" where
  "elf_process_pheader f ph = (if p_type ph = PT_LOAD then elf_process_phdr_pt_load f ph else (0, f))"

text \<open>\<open>p\<close> and \<open>h\<close> are the header; \<open>file\<close> is the address of the \<open>elf_file\<close>.\<close>

function elf_process_pheaders_loop ::
    "('io, 'a) elfmem_scheme \<Rightarrow> addr \<Rightarrow> addr \<Rightarrow> elf_header \<Rightarrow> int \<Rightarrow> int \<Rightarrow> (int \<times> ('io, 'a) elfmem_scheme) run" where
  "elf_process_pheaders_loop m file p h i res =
     (if i < uint (e_phnum h) then
        andthen (read_in m p (elf_program_header p h i) 32) (\<lambda>b.
        andthen (deref (elf_files m) file) (\<lambda>f.
        let (res, f) = elf_process_pheader f (decode_phdr b);
            m = m\<lparr>elf_files := (elf_files m)(file \<mapsto> f)\<rparr>
        in if res < 0 then Done (res, m)
           else elf_process_pheaders_loop m file p h (i + 1) res))
      else Done (res, m))"
  by pat_completeness auto
termination
  by (relation "measure (\<lambda>(m, file, p, h, i, res). nat (uint (e_phnum h) - i))") auto

declare elf_process_pheaders_loop.simps [simp del]

definition elf_process_pheaders ::
    "('io, 'a) elfmem_scheme \<Rightarrow> addr \<Rightarrow> (int \<times> ('io, 'a) elfmem_scheme) run" where
  "elf_process_pheaders m file =
     andthen (deref (elf_files m) file) (\<lambda>f.
     andthen (header_at m (elf_header_ptr f)) (\<lambda>h.
     elf_process_pheaders_loop m file (elf_header_ptr f) h 0 0))"

definition elf_process_loaded ::
    "('io, 'a) elfmem_scheme \<Rightarrow> addr \<Rightarrow> (int \<times> ('io, 'a) elfmem_scheme) run" where
  "elf_process_loaded m file =
     andthen (deref (elf_files m) file) (\<lambda>f.
     andthen (elf_validate_loaded m (elf_header_ptr f)) (\<lambda>res.
     if res < 0 then Done (res, m) else elf_process_pheaders m file))"

section \<open>Loading\<close>

definition elf_file_free :: "('io, 'a) elfmem_scheme \<Rightarrow> addr \<Rightarrow> ('io, 'a) elfmem_scheme run" where
  "elf_file_free m file =
     andthen (deref (elf_files m) file) (\<lambda>f.
     andthen (if elf_memory_field f \<noteq> 0 then kfree m (elf_memory_field f) else Done m) (\<lambda>m.
     andthen (kfree m file) (\<lambda>m. Done (m\<lparr>elf_files := (elf_files m)(file := None)\<rparr>))))"

definition elf_file_new :: "('io, 'a) elfmem_scheme \<Rightarrow> (addr \<times> ('io, 'a) elfmem_scheme) run" where
  "elf_file_new m =
     andthen (kzalloc m 132) (\<lambda>(file, m).
     if file = 0 then Done (0, m)
     else Done (file, m\<lparr>bufs := (bufs m)(file := None), elf_files := (elf_files m)(file \<mapsto>
       \<lparr>elf_filename = replicate PANDORA_MAX_PATH 0, in_memory_size = 0, elf_memory_field = 0,
        virtual_base_address = 0, virtual_end_address = 0, physical_base_address = 0,
        physical_end_address = 0\<rparr>)\<rparr>))"

text \<open>The bytes at a pointer a file is read to; none at a null or unbacked pointer.\<close>

definition object_bytes :: "('io, 'a) elfmem_scheme \<Rightarrow> addr \<Rightarrow> u8 list" where
  "object_bytes m p = (case bufs m p of None \<Rightarrow> [] | Some b \<Rightarrow> b)"

definition store_object :: "('io, 'a) elfmem_scheme \<Rightarrow> addr \<Rightarrow> u8 list \<Rightarrow> ('io, 'a) elfmem_scheme" where
  "store_object m p b = (if bufs m p = None then m else m\<lparr>bufs := (bufs m)(p \<mapsto> b)\<rparr>)"

text \<open>The string \<^verbatim>\<open>"r"\<close>, and a stat structure with stale contents.\<close>

definition r_string :: "u8 list" where "r_string = [0x72, 0]"
definition stale_stat :: file_stat where "stale_stat = \<lparr>stat_flags = 0xCCCCCCCC, stat_filesize = 0xCCCCCCCC\<rparr>"

text \<open>From the successful \<open>fopen\<close> to the label \<^verbatim>\<open>out\<close>.\<close>

definition elf_load_open ::
    "'io ports \<Rightarrow> ('io, 'a) elfmem_scheme \<Rightarrow> addr \<Rightarrow> int \<Rightarrow> (int \<times> ('io, 'a) elfmem_scheme) run" where
  "elf_load_open P m file fd =
     andthen (fstat m fd stale_stat) (\<lambda>(res, stat).
     if res < 0 then Done (res, m)
     else andthen (kzalloc m (stat_filesize stat)) (\<lambda>(mem, m).
       andthen (deref (elf_files m) file) (\<lambda>f.
       let m = m\<lparr>elf_files := (elf_files m)(file \<mapsto> f\<lparr>elf_memory_field := mem\<rparr>)\<rparr>
       in andthen (fread P m (object_bytes m mem) (stat_filesize stat) 1 fd) (\<lambda>(res, b, m).
          let m = store_object m mem b
          in if res < 0 then Done (res, m) else elf_process_loaded m file))))"

text \<open>The result, the out parameter (0 if it is not written) and the memory.\<close>

definition elf_load ::
    "'io ports \<Rightarrow> ('io, 'a) elfmem_scheme \<Rightarrow> u8 list \<Rightarrow> (int \<times> addr \<times> ('io, 'a) elfmem_scheme) run" where
  "elf_load P m fname =
     andthen (elf_file_new m) (\<lambda>(file, m).
     andthen (fopen P m fname r_string) (\<lambda>(res, m).
     let fd = (if res \<le> 0 then 0 else res)
     in andthen (if res \<le> 0 then Done (- EIO, m) else elf_load_open P m file fd) (\<lambda>(res, m).
        andthen (if res < 0 then elf_file_free m file else Done m) (\<lambda>m.
        andthen (fclose m fd) (\<lambda>(r, m).
        Done (res, if res < 0 then 0 else file, m))))))"

definition elf_close :: "('io, 'a) elfmem_scheme \<Rightarrow> addr \<Rightarrow> ('io, 'a) elfmem_scheme run" where
  "elf_close m file =
     (if file = 0 then Done m
      else andthen (deref (elf_files m) file) (\<lambda>f.
        andthen (kfree m (elf_memory_field f)) (\<lambda>m.
        andthen (kfree m file) (\<lambda>m. Done (m\<lparr>elf_files := (elf_files m)(file := None)\<rparr>)))))"

end
