(* ===== verification/Keyboard.thy ===== *)
theory Keyboard
  imports Ports
begin

text \<open>
  The keyboard layer and the PS/2 driver: \<^verbatim>\<open>src/keyboard/keyboard.c\<close>, \<^verbatim>\<open>src/keyboard/pso2.c\<close>.
  Every process has a ring buffer of 1024 characters; the driver pushes to the one of the current
  process and a system call pops from it. The interface \<open>fifo\<close> states what a queue promises, and
  the ring buffer is shown to provide it until it is full.
\<close>

section \<open>keyboard.c\<close>

definition PANDORA_KEYBOARD_BUFFER_SIZE :: u32 where [conf]: "PANDORA_KEYBOARD_BUFFER_SIZE = 1024"
definition KEYBOARD_CAPS_LOCK_OFF :: int where [conf]: "KEYBOARD_CAPS_LOCK_OFF = 0"
definition KEYBOARD_CAPS_LOCK_ON :: int where [conf]: "KEYBOARD_CAPS_LOCK_ON = 1"

text \<open>
  \<open>head\<close> and \<open>tail\<close> count characters. In C they are of type \<^verbatim>\<open>int\<close> and wrap around after \<open>2 ^ 32\<close> of them; only
  their remainder by 1024 is used, and 1024 divides \<open>2 ^ 32\<close>, so that unbounded counters name the same slots.
\<close>

record keyboard_buffer =
  buffer :: "u8 list"
  head :: int
  tail :: int

text \<open>A keyboard object; \<open>kb_init\<close> is the address of its initialisation function.\<close>

record keyboard =
  kb_init :: addr
  capslock_state :: int
  kb_next :: addr

text \<open>
  \<open>current_keys\<close> is the buffer of the current process, if there is one; \<open>current_dangling\<close> says that the pointer
  to the current process is neither null nor the address of a process; \<open>pso2_at\<close> the address of
  the global \<^verbatim>\<open>pso2_keyboard\<close>; \<open>kernel_paged\<close> says whether the page directory of the kernel is
  active; \<open>key_io\<close> is the state of the devices.
\<close>

record 'io keys =
  keyboards :: "addr \<Rightarrow> keyboard option"
  keyboard_list_head :: addr
  keyboard_list_tail :: addr
  current_keys :: "keyboard_buffer option"
  current_dangling :: bool
  pso2_at :: addr
  kernel_paged :: bool
  key_io :: 'io

definition keyboard_get_tail_index :: "keyboard_buffer \<Rightarrow> int" where
  "keyboard_get_tail_index b = int_of_u32 (u32_of_int (tail b) mod PANDORA_KEYBOARD_BUFFER_SIZE)"

definition keyboard_backspace :: "keyboard_buffer \<Rightarrow> keyboard_buffer run" where
  "keyboard_backspace b =
     (let b = b\<lparr>tail := tail b - 1\<rparr>;
          real_index = keyboard_get_tail_index b
      in andthen (wr (buffer b) (nat real_index) 0) (\<lambda>xs. Done (b\<lparr>buffer := xs\<rparr>)))"

definition keyboard_set_capslock :: "('io, 'a) keys_scheme \<Rightarrow> addr \<Rightarrow> int \<Rightarrow> ('io, 'a) keys_scheme run" where
  "keyboard_set_capslock k kb state =
     andthen (deref (keyboards k) kb) (\<lambda>o1.
     Done (k\<lparr>keyboards := (keyboards k)(kb \<mapsto> o1\<lparr>capslock_state := state\<rparr>)\<rparr>))"

definition keyboard_get_capslock :: "('io, 'a) keys_scheme \<Rightarrow> addr \<Rightarrow> int run" where
  "keyboard_get_capslock k kb = andthen (deref (keyboards k) kb) (\<lambda>o1. Done (capslock_state o1))"

text \<open>Pushing to a buffer, and to the one of the current process.\<close>

definition keyboard_push_to :: "keyboard_buffer \<Rightarrow> u8 \<Rightarrow> keyboard_buffer run" where
  "keyboard_push_to b c =
     (let real_index = keyboard_get_tail_index b
      in andthen (wr (buffer b) (nat real_index) c) (\<lambda>xs.
         Done (b\<lparr>buffer := xs, tail := tail b + 1\<rparr>)))"

definition keyboard_push :: "('io, 'a) keys_scheme \<Rightarrow> u8 \<Rightarrow> ('io, 'a) keys_scheme run" where
  "keyboard_push k c =
     (case current_keys k of
        None \<Rightarrow> if current_dangling k \<and> c \<noteq> 0 then Fault else Done k
      | Some b \<Rightarrow> if c = 0 then Done k
          else andthen (keyboard_push_to b c) (\<lambda>b. Done (k\<lparr>current_keys := Some b\<rparr>)))"

definition keyboard_pop_from :: "keyboard_buffer \<Rightarrow> (u8 \<times> keyboard_buffer) run" where
  "keyboard_pop_from b =
     (let real_index = int_of_u32 (u32_of_int (head b) mod PANDORA_KEYBOARD_BUFFER_SIZE)
      in andthen (rd (buffer b) (nat real_index)) (\<lambda>c.
         if c = 0 then Done (0, b)
         else andthen (wr (buffer b) (nat real_index) 0) (\<lambda>xs.
           Done (c, b\<lparr>buffer := xs, head := head b + 1\<rparr>))))"

definition keyboard_pop :: "('io, 'a) keys_scheme \<Rightarrow> (u8 \<times> ('io, 'a) keys_scheme) run" where
  "keyboard_pop k =
     (case current_keys k of
        None \<Rightarrow> Done (0, k)
      | Some b \<Rightarrow> andthen (keyboard_pop_from b) (\<lambda>(c, b). Done (c, k\<lparr>current_keys := Some b\<rparr>)))"

section \<open>pso2.c\<close>

definition PS2_KEYBOARD_CAPSLOCK :: u8 where [conf]: "PS2_KEYBOARD_CAPSLOCK = 0x3A"
definition PS2_PORT :: u16 where [conf]: "PS2_PORT = 0x64"
definition PS2_CMD_ENABLE_FIRST_PORT :: u8 where [conf]: "PS2_CMD_ENABLE_FIRST_PORT = 0xAE"
definition PS2_KEY_RELEASED :: u8 where [conf]: "PS2_KEY_RELEASED = 0x80"
definition ISR_KEYBOARD_INTERRUPT :: int where [conf]: "ISR_KEYBOARD_INTERRUPT = 0x21"
definition KEYBOARD_INPUT_PORT :: u16 where [conf]: "KEYBOARD_INPUT_PORT = 0x60"

definition keyboard_scan_set_one :: "u8 list" where
  "keyboard_scan_set_one =
    [0x00, 0x1B, 0x31, 0x32, 0x33, 0x34, 0x35,
     0x36, 0x37, 0x38, 0x39, 0x30, 0x2D, 0x3D,
     0x08, 0x09, 0x51, 0x57, 0x45, 0x52, 0x54,
     0x59, 0x55, 0x49, 0x4F, 0x50, 0x5B, 0x5D,
     0x0D, 0x00, 0x41, 0x53, 0x44, 0x46, 0x47,
     0x48, 0x4A, 0x4B, 0x4C, 0x3B, 0x27, 0x60,
     0x00, 0x5C, 0x5A, 0x58, 0x43, 0x56, 0x42,
     0x4E, 0x4D, 0x2C, 0x2E, 0x2F, 0x00, 0x2A,
     0x00, 0x20, 0x00, 0x00, 0x00, 0x00,
     0x00, 0x00, 0x00, 0x00, 0x00, 0x00,
     0x00, 0x37, 0x38, 0x39, 0x2D, 0x34, 0x35,
     0x36, 0x2B, 0x31, 0x32, 0x33, 0x30, 0x2E]"

text \<open>\<open>register_cb\<close> is the registration of the interrupt handler, which changes another component.\<close>

definition pso2_keyboard_init ::
    "'io ports \<Rightarrow> (int \<Rightarrow> 'r \<Rightarrow> 'r) \<Rightarrow> ('io, 'a) keys_scheme \<Rightarrow> 'r \<Rightarrow> (int \<times> ('io, 'a) keys_scheme \<times> 'r) run" where
  "pso2_keyboard_init P register_cb k r =
     (let r = register_cb ISR_KEYBOARD_INTERRUPT r
      in andthen (keyboard_set_capslock k (pso2_at k) KEYBOARD_CAPS_LOCK_OFF) (\<lambda>k.
         Done (0, k\<lparr>key_io := outb P PS2_PORT PS2_CMD_ENABLE_FIRST_PORT (key_io k)\<rparr>, r)))"

definition pso2_keyboard_scancode_to_char :: "('io, 'a) keys_scheme \<Rightarrow> u8 \<Rightarrow> u8 run" where
  "pso2_keyboard_scancode_to_char k scancode =
     (let size_of_keyboard_set_one = length keyboard_scan_set_one
      in if unat scancode > size_of_keyboard_set_one then Done 0
         else andthen (rd keyboard_scan_set_one (unat scancode)) (\<lambda>c.
           andthen (keyboard_get_capslock k (pso2_at k)) (\<lambda>caps.
           if caps = KEYBOARD_CAPS_LOCK_OFF then
             if sint c \<ge> 0x41 \<and> sint c \<le> 0x5A then Done (c + 32) else Done c
           else Done c)))"

definition pso2_keyboard_handle_interrupt :: "'io ports \<Rightarrow> ('io, 'a) keys_scheme \<Rightarrow> ('io, 'a) keys_scheme run" where
  "pso2_keyboard_handle_interrupt P k =
     (let k = k\<lparr>kernel_paged := True\<rparr>;
          (scancode, io) = insb P KEYBOARD_INPUT_PORT (key_io k);
          (ignored, io) = insb P KEYBOARD_INPUT_PORT io;
          k = k\<lparr>key_io := io\<rparr>
      in if scancode AND PS2_KEY_RELEASED \<noteq> 0 then Done k
         else andthen (if scancode = PS2_KEYBOARD_CAPSLOCK then
             andthen (keyboard_get_capslock k (pso2_at k)) (\<lambda>old_state.
             keyboard_set_capslock k (pso2_at k)
               (if old_state = KEYBOARD_CAPS_LOCK_ON then KEYBOARD_CAPS_LOCK_OFF else KEYBOARD_CAPS_LOCK_ON))
           else Done k) (\<lambda>k.
         andthen (pso2_keyboard_scancode_to_char k scancode) (\<lambda>c.
         andthen (if c \<noteq> 0 then keyboard_push k c else Done k) (\<lambda>k.
         Done (k\<lparr>kernel_paged := False\<rparr>)))))"

definition pso2_init :: "('io, 'a) keys_scheme \<Rightarrow> addr" where
  "pso2_init k = pso2_at k"

text \<open>
  Registering a keyboard; \<open>call_init\<close> runs the initialisation function at an address.
\<close>

definition keyboard_insert ::
    "(addr \<Rightarrow> ('io, 'a) keys_scheme \<Rightarrow> (int \<times> ('io, 'a) keys_scheme) run) \<Rightarrow>
      ('io, 'a) keys_scheme \<Rightarrow> addr \<Rightarrow> (int \<times> ('io, 'a) keys_scheme) run" where
  "keyboard_insert call_init k kb =
     andthen (deref (keyboards k) kb) (\<lambda>o1.
     if kb_init o1 = 0 then Done (- EINVARG, k)
     else andthen (if keyboard_list_tail k \<noteq> 0 then
           andthen (deref (keyboards k) (keyboard_list_tail k)) (\<lambda>t.
           Done (k\<lparr>keyboards := (keyboards k)(keyboard_list_tail k \<mapsto> t\<lparr>kb_next := kb\<rparr>),
                   keyboard_list_tail := kb\<rparr>))
         else Done (k\<lparr>keyboard_list_head := kb, keyboard_list_tail := kb\<rparr>)) (\<lambda>k.
       call_init (kb_init o1) k))"

definition keyboard_init ::
    "(addr \<Rightarrow> ('io, 'a) keys_scheme \<Rightarrow> (int \<times> ('io, 'a) keys_scheme) run) \<Rightarrow>
      ('io, 'a) keys_scheme \<Rightarrow> ('io, 'a) keys_scheme run" where
  "keyboard_init call_init k =
     andthen (keyboard_insert call_init k (pso2_init k)) (\<lambda>(res, k). Done k)"

section \<open>The interface of a queue\<close>

locale fifo =
  fixes push :: "'q \<Rightarrow> 'c \<Rightarrow> 'q run"
    and pop :: "'q \<Rightarrow> ('c \<times> 'q) run"
    and contents :: "'q \<Rightarrow> 'c list"
    and invar :: "'q \<Rightarrow> bool"
    and item :: "'c \<Rightarrow> bool"
    and capacity :: nat
    and none :: 'c
  assumes push_contents: "\<lbrakk>invar q; item c; length (contents q) < capacity\<rbrakk>
      \<Longrightarrow> \<exists>q'. push q c = Done q' \<and> invar q' \<and> contents q' = contents q @ [c]"
    and pop_contents: "\<lbrakk>invar q; contents q = c # cs\<rbrakk>
      \<Longrightarrow> \<exists>q'. pop q = Done (c, q') \<and> invar q' \<and> contents q' = cs"
    and pop_empty: "\<lbrakk>invar q; contents q = []\<rbrakk> \<Longrightarrow> pop q = Done (none, q)"
begin

fun pushes :: "'q \<Rightarrow> 'c list \<Rightarrow> 'q run" where
  "pushes q [] = Done q"
| "pushes q (c # cs) = andthen (push q c) (\<lambda>q. pushes q cs)"

fun pops :: "'q \<Rightarrow> nat \<Rightarrow> ('c list \<times> 'q) run" where
  "pops q 0 = Done ([], q)"
| "pops q (Suc n) = andthen (pop q) (\<lambda>(c, q). andthen (pops q n) (\<lambda>(cs, q). Done (c # cs, q)))"

lemma pushes_contents:
  "\<lbrakk>invar q; \<forall>c \<in> set cs. item c; length (contents q) + length cs \<le> capacity\<rbrakk>
    \<Longrightarrow> \<exists>q'. pushes q cs = Done q' \<and> invar q' \<and> contents q' = contents q @ cs"
proof (induction cs arbitrary: q)
  case (Cons c cs)
  from push_contents [of q c] Cons.prems obtain q1 where
    1: "push q c = Done q1" "invar q1" "contents q1 = contents q @ [c]" by auto
  with Cons.IH [of q1] Cons.prems show ?case by auto
qed simp

lemma pops_contents:
  "\<lbrakk>invar q; contents q = cs @ ds\<rbrakk>
    \<Longrightarrow> \<exists>q'. pops q (length cs) = Done (cs, q') \<and> invar q' \<and> contents q' = ds"
proof (induction cs arbitrary: q)
  case (Cons c cs)
  from pop_contents [of q c "cs @ ds"] Cons.prems obtain q1 where
    1: "pop q = Done (c, q1)" "invar q1" "contents q1 = cs @ ds" by auto
  with Cons.IH [of q1] show ?case by auto
qed simp

text \<open>What goes in comes out, in order, and then the queue is empty.\<close>

lemma pushes_pops:
  assumes "invar q" and "contents q = []" and "\<forall>c \<in> set cs. item c" and "length cs \<le> capacity"
  shows "\<exists>q1 q2. pushes q cs = Done q1 \<and> pops q1 (length cs) = Done (cs, q2) \<and> invar q2 \<and>
    contents q2 = [] \<and> pop q2 = Done (none, q2)"
proof -
  from pushes_contents [of q cs] assms obtain q1 where 1: "pushes q cs = Done q1" "invar q1" "contents q1 = cs"
    by auto
  with pops_contents [of q1 cs "[]"] obtain q2 where "pops q1 (length cs) = Done (cs, q2)" "invar q2"
    "contents q2 = []" by auto
  with 1 pop_empty show ?thesis by blast
qed

end

section \<open>The ring buffer provides the interface\<close>

text \<open>The slot of position \<open>i\<close>, and the characters between head and tail.\<close>

definition slot :: "int \<Rightarrow> nat" where
  "slot i = nat (i mod 1024)"

definition keys_in :: "keyboard_buffer \<Rightarrow> u8 list" where
  "keys_in b = map (\<lambda>i. buffer b ! slot i) [head b..tail b - 1]"

definition keys_ok :: "keyboard_buffer \<Rightarrow> bool" where
  "keys_ok b \<longleftrightarrow> length (buffer b) = 1024 \<and> head b \<le> tail b \<and> tail b \<le> head b + 1024 \<and>
     (\<forall>i. head b \<le> i \<and> i < tail b \<longrightarrow> buffer b ! slot i \<noteq> 0) \<and>
     (\<forall>i. tail b \<le> i \<and> i < head b + 1024 \<longrightarrow> buffer b ! slot i = 0)"

lemma slot_less [simp]: "slot i < 1024"
  by (simp add: slot_def nat_less_iff)

lemma slot_eq:
  assumes "slot i = slot j" and "\<bar>i - j\<bar> < 1024"
  shows "i = j"
proof -
  have "i mod 1024 = j mod 1024"
    using assms(1) by (simp add: slot_def eq_nat_nat_iff)
  then have "1024 dvd i - j" by (simp add: mod_eq_dvd_iff)
  then obtain q where "i - j = 1024 * q" by (elim dvdE)
  with assms(2) have "1024 * \<bar>q\<bar> < 1024" by (simp add: abs_mult)
  then have "q = 0" by linarith
  with \<open>i - j = 1024 * q\<close> show ?thesis by simp
qed

lemma index_slot: "nat (int_of_u32 (u32_of_int t mod PANDORA_KEYBOARD_BUFFER_SIZE)) = slot t"
proof -
  have "unat (word_of_int t :: u32) = nat (t mod 4294967296)"
    by (simp add: unsigned_of_int take_bit_eq_mod)
  then have "unat (word_of_int t mod 1024 :: u32) = nat (t mod 4294967296) mod 1024"
    by (simp add: unat_mod)
  also have "\<dots> = nat (t mod 4294967296 mod 1024)" by (simp add: nat_mod_distrib)
  also have "t mod 4294967296 mod 1024 = t mod 1024" by (simp add: mod_mod_cancel)
  finally have u: "unat (word_of_int t mod 1024 :: u32) = slot t" by (simp add: slot_def)
  have "slot t < 2 ^ 31" by (rule less_trans [OF slot_less]) simp
  with u have "sint (word_of_int t mod 1024 :: u32) = int (slot t)"
    using sint_u32_small [of "word_of_int t mod 1024"] by (simp only:)
  then show ?thesis by (simp add: conf)
qed

lemma push_to_eq:
  "length (buffer b) = 1024 \<Longrightarrow>
    keyboard_push_to b c = Done (b\<lparr>buffer := (buffer b)[slot (tail b) := c], tail := tail b + 1\<rparr>)"
  by (simp add: keyboard_push_to_def keyboard_get_tail_index_def index_slot run_simps)

lemma pop_from_eq:
  "length (buffer b) = 1024 \<Longrightarrow> keyboard_pop_from b =
    (if buffer b ! slot (head b) = 0 then Done (0, b)
     else Done (buffer b ! slot (head b), b\<lparr>buffer := (buffer b)[slot (head b) := 0], head := head b + 1\<rparr>))"
  by (simp add: keyboard_pop_from_def index_slot run_simps)

lemma length_keys_in [simp]: "length (keys_in b) = nat (tail b - head b)"
  by (simp add: keys_in_def)

lemma push_to_keys:
  assumes "keys_ok b" and "c \<noteq> 0" and "length (keys_in b) < 1024"
  shows "\<exists>b'. keyboard_push_to b c = Done b' \<and> keys_ok b' \<and> keys_in b' = keys_in b @ [c]"
proof -
  from assms(1,3) have b: "length (buffer b) = 1024" "head b \<le> tail b" "tail b < head b + 1024"
    by (simp_all add: keys_ok_def)
  let ?b = "b\<lparr>buffer := (buffer b)[slot (tail b) := c], tail := tail b + 1\<rparr>"
  have keep: "buffer ?b ! slot i = buffer b ! slot i" if "head b \<le> i" "i < head b + 1024" "i \<noteq> tail b" for i
  proof -
    have "\<bar>i - tail b\<bar> < 1024" using that(1,2) b(2,3) by linarith
    then have "slot i \<noteq> slot (tail b)" using that(3) slot_eq by blast
    then show ?thesis by simp
  qed
  have set: "buffer ?b ! slot (tail b) = c" using b(1) by simp
  have "keys_ok ?b"
    unfolding keys_ok_def
  proof (intro conjI allI impI)
    fix i
    show "buffer ?b ! slot i \<noteq> 0" if "head ?b \<le> i \<and> i < tail ?b"
      using that assms(1,2) keep [of i] set b by (cases "i = tail b") (auto simp: keys_ok_def)
    show "buffer ?b ! slot i = 0" if "tail ?b \<le> i \<and> i < head ?b + 1024"
      using that assms(1) keep [of i] b by (auto simp: keys_ok_def)
  qed (use b in auto)
  moreover have "keys_in ?b = keys_in b @ [c]"
  proof -
    have "[head b..tail b] = [head b..tail b - 1] @ [tail b]"
      using b(2) by (rule upto_rec2)
    moreover have "map (\<lambda>i. buffer ?b ! slot i) [head b..tail b - 1] = keys_in b"
      unfolding keys_in_def using keep b(3) by (intro map_cong) auto
    ultimately show ?thesis using set by (simp add: keys_in_def)
  qed
  ultimately show ?thesis using push_to_eq [OF b(1), of c] by blast
qed

lemma pop_from_keys:
  assumes "keys_ok b" and "keys_in b = c # cs"
  shows "\<exists>b'. keyboard_pop_from b = Done (c, b') \<and> keys_ok b' \<and> keys_in b' = cs"
proof -
  have "nat (tail b - head b) = Suc (length cs)"
    using assms(2) length_keys_in [of b] by simp
  then have b: "length (buffer b) = 1024" "head b < tail b" "tail b \<le> head b + 1024"
    using assms(1) by (auto simp: keys_ok_def)
  then have up: "[head b..tail b - 1] = head b # [head b + 1..tail b - 1]"
    by (intro upto_rec1) simp
  then have c: "buffer b ! slot (head b) = c" and cs: "map (\<lambda>i. buffer b ! slot i) [head b + 1..tail b - 1] = cs"
    using assms(2) by (simp_all add: keys_in_def)
  have c0: "c \<noteq> 0" using assms(1) b(2) c by (auto simp: keys_ok_def)
  let ?b = "b\<lparr>buffer := (buffer b)[slot (head b) := 0], head := head b + 1\<rparr>"
  have keep: "buffer ?b ! slot i = buffer b ! slot i" if "head b < i" "i < head b + 1024" for i
  proof -
    have "\<bar>i - head b\<bar> < 1024" using that by linarith
    then have "slot i \<noteq> slot (head b)" using that(1) slot_eq by blast
    then show ?thesis by simp
  qed
  have wrap: "slot (head b + 1024) = slot (head b)" by (simp add: slot_def)
  have "keys_ok ?b"
    unfolding keys_ok_def
  proof (intro conjI allI impI)
    fix i
    show "buffer ?b ! slot i \<noteq> 0" if "head ?b \<le> i \<and> i < tail ?b"
      using that assms(1) keep [of i] b by (auto simp: keys_ok_def)
    show "buffer ?b ! slot i = 0" if "tail ?b \<le> i \<and> i < head ?b + 1024"
      using that assms(1) keep [of i] b wrap by (cases "i = head b + 1024") (auto simp: keys_ok_def)
  qed (use b in auto)
  moreover have "keys_in ?b = cs"
    unfolding cs [symmetric] keys_in_def using keep b(3) by (intro map_cong) auto
  ultimately show ?thesis using pop_from_eq [OF b(1)] c c0 by auto
qed

lemma pop_from_empty:
  assumes "keys_ok b" and "keys_in b = []"
  shows "keyboard_pop_from b = Done (0, b)"
proof -
  have "nat (tail b - head b) = 0" using assms(2) length_keys_in [of b] by simp
  then have "tail b = head b" using assms(1) by (simp add: keys_ok_def)
  then have "buffer b ! slot (head b) = 0" using assms(1) by (simp add: keys_ok_def)
  then show ?thesis using pop_from_eq [of b] assms(1) by (simp add: keys_ok_def)
qed

interpretation ring: fifo keyboard_push_to keyboard_pop_from keys_in keys_ok "\<lambda>c. c \<noteq> 0" 1024 0
  by unfold_locales (auto intro: push_to_keys pop_from_keys pop_from_empty)

definition empty_keys :: keyboard_buffer where
  "empty_keys = \<lparr>buffer = replicate 1024 0, head = 0, tail = 0\<rparr>"

lemma empty_keys: "keys_ok empty_keys" "keys_in empty_keys = []"
  by (simp_all add: keys_ok_def empty_keys_def keys_in_def)

section \<open>The driver\<close>

definition scan_char :: "int \<Rightarrow> u8 \<Rightarrow> u8" where
  "scan_char caps s =
     (let c = keyboard_scan_set_one ! unat s
      in if caps = 0 \<and> 0x41 \<le> c \<and> c \<le> 0x5A then c + 32 else c)"

lemma scan_table_chars: "c \<in> set keyboard_scan_set_one \<Longrightarrow> sint c = uint c"
  by (auto simp: keyboard_scan_set_one_def)

lemma length_scan_table: "length keyboard_scan_set_one = 82"
  by (simp add: keyboard_scan_set_one_def)

lemma scancode_to_char_eq:
  assumes "keyboards k (pso2_at k) = Some kb"
  shows "pso2_keyboard_scancode_to_char k s =
    (if unat s < 82 then Done (scan_char (capslock_state kb) s)
     else if unat s = 82 then Fault else Done 0)"
proof (cases "unat s < 82")
  case True
  let ?c = "keyboard_scan_set_one ! unat s"
  have "?c \<in> set keyboard_scan_set_one" using True by (simp add: length_scan_table)
  then have "sint ?c = uint ?c" by (rule scan_table_chars)
  then have "(sint ?c \<ge> 0x41 \<and> sint ?c \<le> 0x5A) = (0x41 \<le> ?c \<and> ?c \<le> 0x5A)"
    by (simp add: word_le_def)
  then show ?thesis
    using True assms
    by (simp add: pso2_keyboard_scancode_to_char_def run_simps length_scan_table keyboard_get_capslock_def
        scan_char_def Let_def conf)
next
  case False
  then show ?thesis
    by (simp add: pso2_keyboard_scancode_to_char_def run_simps length_scan_table)
qed

text \<open>The handler, once the scancode is known.\<close>

lemma handle_interrupt_eq:
  assumes "insb P KEYBOARD_INPUT_PORT (key_io k) = (s, io1)"
    and "insb P KEYBOARD_INPUT_PORT io1 = (x, io2)"
  shows "pso2_keyboard_handle_interrupt P k =
    (let k = k\<lparr>kernel_paged := True, key_io := io2\<rparr>
     in if s AND PS2_KEY_RELEASED \<noteq> 0 then Done k
        else andthen (if s = PS2_KEYBOARD_CAPSLOCK then
            andthen (keyboard_get_capslock k (pso2_at k)) (\<lambda>old_state.
            keyboard_set_capslock k (pso2_at k)
              (if old_state = KEYBOARD_CAPS_LOCK_ON then KEYBOARD_CAPS_LOCK_OFF else KEYBOARD_CAPS_LOCK_ON))
          else Done k) (\<lambda>k.
        andthen (pso2_keyboard_scancode_to_char k s) (\<lambda>c.
        andthen (if c \<noteq> 0 then keyboard_push k c else Done k) (\<lambda>k.
        Done (k\<lparr>kernel_paged := False\<rparr>)))))"
  using assms by (simp add: pso2_keyboard_handle_interrupt_def Let_def)

lemma not_released: "unat s < 128 \<Longrightarrow> s AND PS2_KEY_RELEASED = 0"
proof -
  assume "unat s < 128"
  then have "take_bit 7 s = s"
    by (simp add: word_unat_eq_iff unsigned_take_bit_eq take_bit_nat_eq_self)
  then have n: "\<not> bit s 7" by (metis bit_take_bit_iff less_irrefl)
  have r: "PS2_KEY_RELEASED = push_bit 7 1" by (simp add: conf)
  have "bit PS2_KEY_RELEASED k \<Longrightarrow> k = 7" for k
    unfolding r bit_push_bit_iff by (auto simp: bit_1_iff)
  then show ?thesis
    using n by (intro bit_word_eqI) (auto simp: bit_and_iff)
qed

section \<open>Properties\<close>

text \<open>
  C31. The keyboard buffer is a queue: up to 1024 characters pushed to an empty buffer are popped
  in the order in which they were pushed, and after that \<open>keyboard_pop\<close> reports that there is
  nothing, by the character 0.
\<close>

theorem keyboard_fifo:
  assumes "keys_ok b" and "keys_in b = []" and "\<forall>c \<in> set cs. c \<noteq> 0" and "length cs \<le> 1024"
  shows "\<exists>b1 b2. ring.pushes b cs = Done b1 \<and> ring.pops b1 (length cs) = Done (cs, b2) \<and>
    keys_ok b2 \<and> keys_in b2 = [] \<and> keyboard_pop_from b2 = Done (0, b2)"
  by (rule ring.pushes_pops [OF assms])

theorem keyboard_fifo_witness:
  "\<exists>b1 b2. ring.pushes empty_keys [0x68, 0x69] = Done b1 \<and> ring.pops b1 2 = Done ([0x68, 0x69], b2) \<and>
    keyboard_pop_from b2 = Done (0, b2)"
proof -
  have "\<forall>c \<in> set [0x68, 0x69]. c \<noteq> (0 :: u8)" "length [0x68, 0x69 :: u8] \<le> 1024" by simp_all
  moreover have "length [0x68, 0x69 :: u8] = 2" by simp
  ultimately show ?thesis using keyboard_fifo [OF empty_keys] by metis
qed

text \<open>
  There is no check for a full buffer: a character pushed when 1024 are waiting replaces the
  oldest one and is the first to be popped, before all the characters that were pushed earlier.
\<close>

theorem keyboard_overflow:
  assumes "keys_ok b" and "length (keys_in b) = 1024" and "c \<noteq> 0"
  shows "\<exists>b1 b2. keyboard_push_to b c = Done b1 \<and> keyboard_pop_from b1 = Done (c, b2) \<and>
    buffer b1 ! slot (head b) = c"
proof -
  from assms(1,2) have b: "length (buffer b) = 1024" "tail b = head b + 1024"
    by (auto simp: keys_ok_def)
  then have "slot (tail b) = slot (head b)" by (simp add: slot_def)
  with b(1) assms(3) show ?thesis
    by (simp add: push_to_eq pop_from_eq)
qed

definition full_keys :: keyboard_buffer where
  "full_keys = \<lparr>buffer = replicate 1024 0x61, head = 0, tail = 1024\<rparr>"

theorem keyboard_overflow_witness:
  "\<exists>b1 b2. keyboard_push_to full_keys 0x62 = Done b1 \<and> keyboard_pop_from b1 = Done (0x62, b2)"
proof -
  have "keys_ok full_keys" "length (keys_in full_keys) = 1024"
    by (simp_all add: keys_ok_def full_keys_def)
  from keyboard_overflow [OF this, of "0x62"] show ?thesis by auto
qed

text \<open>
  A key press reaches the current process: the interrupt handler for a scancode below 82
  other than the caps lock key appends the character of the scan table, in lower case unless caps
  lock is on, to the buffer of the process, and switches back from the kernel's pages.
\<close>

theorem key_press_queued:
  assumes "insb P KEYBOARD_INPUT_PORT (key_io k) = (s, io1)"
    and "insb P KEYBOARD_INPUT_PORT io1 = (x, io2)"
    and "unat s < 82" and "s \<noteq> PS2_KEYBOARD_CAPSLOCK"
    and "keyboards k (pso2_at k) = Some kb" and "scan_char (capslock_state kb) s \<noteq> 0"
    and "current_keys k = Some b" and "keys_ok b" and "length (keys_in b) < 1024"
  shows "\<exists>k' b'. pso2_keyboard_handle_interrupt P k = Done k' \<and> current_keys k' = Some b' \<and> keys_ok b' \<and>
    keys_in b' = keys_in b @ [scan_char (capslock_state kb) s] \<and> \<not> kernel_paged k' \<and>
    keyboards k' = keyboards k"
proof -
  let ?c = "scan_char (capslock_state kb) s"
  let ?k = "k\<lparr>kernel_paged := True, key_io := io2\<rparr>"
  from push_to_keys [OF assms(8,6,9)] obtain b' where b':
    "keyboard_push_to b ?c = Done b'" "keys_ok b'" "keys_in b' = keys_in b @ [?c]" by blast
  have "pso2_keyboard_scancode_to_char ?k s = Done ?c"
    using scancode_to_char_eq [of ?k kb s] assms(3,5) by simp
  moreover have "keyboard_push ?k ?c = Done (?k\<lparr>current_keys := Some b'\<rparr>)"
    using assms(6,7) b'(1) by (simp add: keyboard_push_def del: andthen_eq_Done)
  moreover have "s AND PS2_KEY_RELEASED = 0"
    using assms(3) by (intro not_released) simp
  ultimately have "pso2_keyboard_handle_interrupt P k = Done (?k\<lparr>current_keys := Some b', kernel_paged := False\<rparr>)"
    using assms(4,6) unfolding handle_interrupt_eq [OF assms(1,2)] by (simp add: Let_def)
  with b'(2,3) show ?thesis by simp
qed

text \<open>A device that delivers one scancode for ever.\<close>

definition one_key :: "u8 \<Rightarrow> unit ports" where
  "one_key s = \<lparr>outb = (\<lambda>_ _ io. io), insb = (\<lambda>_ io. (s, io)), insw = (\<lambda>_ io. (0, io))\<rparr>"

definition sample_keys :: "unit keys" where
  "sample_keys = \<lparr>keyboards = [0x200000 \<mapsto> \<lparr>kb_init = 0x100000, capslock_state = 0, kb_next = 0\<rparr>],
     keyboard_list_head = 0x200000, keyboard_list_tail = 0x200000, current_keys = Some empty_keys,
     current_dangling = False, pso2_at = 0x200000, kernel_paged = False, key_io = ()\<rparr>"

theorem key_press_queued_witness:
  "\<exists>k' b'. pso2_keyboard_handle_interrupt (one_key 0x1E) sample_keys = Done k' \<and>
    current_keys k' = Some b' \<and> keys_in b' = [0x61]"
  using key_press_queued [of "one_key 0x1E" sample_keys "0x1E" "()" "0x1E" "()"
      "\<lparr>kb_init = 0x100000, capslock_state = 0, kb_next = 0\<rparr>" empty_keys] empty_keys
  by (auto simp: one_key_def sample_keys_def scan_char_def keyboard_scan_set_one_def conf)

text \<open>
  The bound of the scan table is off by one: scancode 82 (the key 0 of the keypad, and Insert)
  passes the check and reads the byte behind the table, so that the handler faults on it.
\<close>

theorem scancode_82_overreads:
  assumes "insb P KEYBOARD_INPUT_PORT (key_io k) = (82, io1)"
    and "insb P KEYBOARD_INPUT_PORT io1 = (x, io2)"
    and "keyboards k (pso2_at k) = Some kb"
  shows "pso2_keyboard_handle_interrupt P k = Fault"
proof -
  have "pso2_keyboard_scancode_to_char (k\<lparr>kernel_paged := True, key_io := io2\<rparr>) 82 = Fault"
    using scancode_to_char_eq [of "k\<lparr>kernel_paged := True, key_io := io2\<rparr>" kb 82] assms(3) by simp
  then show ?thesis
    unfolding handle_interrupt_eq [OF assms(1,2)] using not_released [of 82]
    by (simp add: Let_def PS2_KEYBOARD_CAPSLOCK_def)
qed

theorem scancode_82_overreads_witness: "pso2_keyboard_handle_interrupt (one_key 82) sample_keys = Fault"
  using scancode_82_overreads [of "one_key 82" sample_keys "()" 82 "()"]
  by (simp add: one_key_def sample_keys_def)

end
