(* ===== verification/Task.thy ===== *)
theory Task
  imports Elf Keyboard
begin

text \<open>
  Tasks: \<^verbatim>\<open>src/task/task.c\<close>, with the data structures of \<^verbatim>\<open>task.h\<close> and \<^verbatim>\<open>process.h\<close> and the
  interrupt frame of \<^verbatim>\<open>idt.h\<close>. A task has an address space and saved registers and is a node of a
  doubly linked list, which the scheduler goes through in a round. The assembly routines are modelled
  by their effect: \<^verbatim>\<open>user_registers\<close> and \<^verbatim>\<open>kernel_registers\<close> set the segment registers
  (\<open>user_segments\<close>), \<^verbatim>\<open>task_return\<close> leaves the kernel with the registers it is given.
\<close>

section \<open>Data structures\<close>

definition PANDORA_PROGRAM_VIRTUAL_STACK_ADDRESS_START :: addr where
  [conf]: "PANDORA_PROGRAM_VIRTUAL_STACK_ADDRESS_START = 0x3FF000"
definition PANDORA_USER_PROGRAM_STACK_SIZE :: u32 where
  [conf]: "PANDORA_USER_PROGRAM_STACK_SIZE = 1024 * 16"
definition PANDORA_PROGRAM_VIRTUAL_STACK_ADDRESS_END :: addr where
  [conf]: "PANDORA_PROGRAM_VIRTUAL_STACK_ADDRESS_END =
    PANDORA_PROGRAM_VIRTUAL_STACK_ADDRESS_START - PANDORA_USER_PROGRAM_STACK_SIZE"
definition USER_DATA_SEGMENT :: u32 where [conf]: "USER_DATA_SEGMENT = 0x23"
definition USER_CODE_SEGMENT :: u32 where [conf]: "USER_CODE_SEGMENT = 0x1B"
definition PANDORA_MAX_PROGRAM_ALLOCATIONS :: nat where [conf]: "PANDORA_MAX_PROGRAM_ALLOCATIONS = 1024"
definition PANDORA_MAX_PROCESSES :: nat where [conf]: "PANDORA_MAX_PROCESSES = 12"
definition PROCESS_FILE_TYPE_ELF :: u8 where [conf]: "PROCESS_FILE_TYPE_ELF = 0"
definition PROCESS_FILE_TYPE_BINARY :: u8 where [conf]: "PROCESS_FILE_TYPE_BINARY = 1"

record interrupt_frame =
  f_edi :: u32
  f_esi :: u32
  f_ebp :: u32
  f_reserved :: u32
  f_ebx :: u32
  f_edx :: u32
  f_ecx :: u32
  f_eax :: u32
  f_ip :: u32
  f_cs :: u32
  f_flags :: u32
  f_esp :: u32
  f_ss :: u32

record registers =
  edi :: u32
  esi :: u32
  ebp :: u32
  ebx :: u32
  edx :: u32
  ecx :: u32
  eax :: u32
  ip :: u32
  cs_reg :: u32
  flags :: u32
  esp :: u32
  ss_reg :: u32

record task =
  page_directory :: addr
  task_registers :: registers
  task_process :: addr
  task_next_link :: addr
  task_prev_link :: addr

record process_allocation =
  alloc_ptr :: addr
  alloc_size :: u32

record process_arguments =
  argc :: int
  argv :: addr

text \<open>\<open>proc_ptr\<close> is the union of the pointer to the program and the one to the ELF file.\<close>

record process =
  proc_id :: u16
  proc_filename :: "u8 list"
  proc_task :: addr
  proc_allocations :: "process_allocation list"
  filetype :: u8
  proc_ptr :: addr
  proc_stack :: addr
  proc_size :: u32
  keyboard :: keyboard_buffer
  arguments :: process_arguments

record 'io taskmem = "'io elfmem" +
  tasks :: "addr \<Rightarrow> task option"
  current_task :: addr
  task_tail :: addr
  task_head :: addr
  kernel_chunk :: addr
  user_segments :: bool
  procs :: "addr \<Rightarrow> process option"
  current_process :: addr
  processes :: "addr list"

definition zero_registers :: registers where
  "zero_registers = \<lparr>edi = 0, esi = 0, ebp = 0, ebx = 0, edx = 0, ecx = 0, eax = 0, ip = 0, cs_reg = 0,
     flags = 0, esp = 0, ss_reg = 0\<rparr>"

definition zero_task :: task where
  "zero_task = \<lparr>page_directory = 0, task_registers = zero_registers, task_process = 0,
     task_next_link = 0, task_prev_link = 0\<rparr>"

definition update_task ::
    "('io, 'a) taskmem_scheme \<Rightarrow> addr \<Rightarrow> (task \<Rightarrow> task) \<Rightarrow> ('io, 'a) taskmem_scheme run" where
  "update_task m t f = andthen (deref (tasks m) t) (\<lambda>tk. Done (m\<lparr>tasks := (tasks m)(t \<mapsto> f tk)\<rparr>))"

section \<open>The memory a task sees\<close>

text \<open>
  Address translation by the processor through the active page directory; an entry without the
  present bit is a page fault.
\<close>

definition mmu :: "'a pmem_scheme \<Rightarrow> addr \<Rightarrow> addr run" where
  "mmu m a =
     andthen (tab_rd m (cr3 m) (unat (a div 0x400000))) (\<lambda>e1.
     if e1 AND 1 = 0 then Fault
     else andthen (tab_rd m (e1 AND 0xFFFFF000) (unat (a div 0x1000 mod 1024))) (\<lambda>e2.
       if e2 AND 1 = 0 then Fault else Done ((e2 AND 0xFFFFF000) + a mod 0x1000)))"

text \<open>The byte at a physical address: the kernel buffer that starts last before it; all are word aligned.\<close>

fun buffer_before :: "'a kmem_scheme \<Rightarrow> addr \<Rightarrow> nat \<Rightarrow> addr option" where
  "buffer_before m p 0 = None"
| "buffer_before m p (Suc n) = (if bufs m p \<noteq> None then Some p else buffer_before m (p - 4) n)"

definition buffer_of :: "'a kmem_scheme \<Rightarrow> addr \<Rightarrow> addr option" where
  "buffer_of m a = buffer_before m (a AND 0xFFFFFFFC) (nat PANDORAOS_HEAP_SIZE_BYTES div 4)"

definition pload :: "'a kmem_scheme \<Rightarrow> addr \<Rightarrow> u8 run" where
  "pload m a =
     (case buffer_of m a of
        None \<Rightarrow> Fault
      | Some p \<Rightarrow> andthen (deref (bufs m) p) (\<lambda>b. rd b (unat (a - p))))"

definition vload :: "'a pmem_scheme \<Rightarrow> addr \<Rightarrow> u8 run" where
  "vload m a = andthen (mmu m a) (pload m)"

definition vload32 :: "'a pmem_scheme \<Rightarrow> addr \<Rightarrow> u32 run" where
  "vload32 m a =
     andthen (vload m a) (\<lambda>b0. andthen (vload m (a + 1)) (\<lambda>b1.
     andthen (vload m (a + 2)) (\<lambda>b2. andthen (vload m (a + 3)) (\<lambda>b3. Done (le32 [b0, b1, b2, b3] 0)))))"

text \<open>The readable bytes from a virtual address on, \<open>n\<close> at most.\<close>

fun vbytes :: "'a pmem_scheme \<Rightarrow> addr \<Rightarrow> nat \<Rightarrow> u8 list" where
  "vbytes m a 0 = []"
| "vbytes m a (Suc n) = (case vload m a of Done c \<Rightarrow> c # vbytes m (a + 1) n | _ \<Rightarrow> [])"

section \<open>Switching\<close>

definition kernel_page :: "('io, 'a) taskmem_scheme \<Rightarrow> ('io, 'a) taskmem_scheme run" where
  "kernel_page m = paging_switch (m\<lparr>user_segments := False\<rparr>) (kernel_chunk m)"

definition user_registers :: "('io, 'a) taskmem_scheme \<Rightarrow> ('io, 'a) taskmem_scheme" where
  "user_registers m = m\<lparr>user_segments := True\<rparr>"

definition task_current :: "('io, 'a) taskmem_scheme \<Rightarrow> addr" where
  "task_current m = current_task m"

definition task_switch :: "('io, 'a) taskmem_scheme \<Rightarrow> addr \<Rightarrow> ('io, 'a) taskmem_scheme run" where
  "task_switch m t =
     andthen (deref (tasks m) t) (\<lambda>tk. paging_switch (m\<lparr>current_task := t\<rparr>) (page_directory tk))"

definition task_get_next :: "('io, 'a) taskmem_scheme \<Rightarrow> addr run" where
  "task_get_next m =
     andthen (deref (tasks m) (current_task m)) (\<lambda>tk.
     Done (if task_next_link tk = 0 then task_head m else task_next_link tk))"

definition task_list_remove :: "('io, 'a) taskmem_scheme \<Rightarrow> addr \<Rightarrow> ('io, 'a) taskmem_scheme run" where
  "task_list_remove m t =
     andthen (deref (tasks m) t) (\<lambda>tk.
     andthen (if task_prev_link tk \<noteq> 0
              then update_task m (task_prev_link tk) (\<lambda>p. p\<lparr>task_next_link := task_next_link tk\<rparr>)
              else Done m) (\<lambda>m.
     let m = (if t = task_head m then m\<lparr>task_head := task_next_link tk\<rparr> else m);
         m = (if t = task_tail m then m\<lparr>task_tail := task_prev_link tk\<rparr> else m)
     in if t = current_task m then andthen (task_get_next m) (\<lambda>n. Done (m\<lparr>current_task := n\<rparr>))
        else Done m))"

definition task_free :: "('io, 'a) taskmem_scheme \<Rightarrow> addr \<Rightarrow> (int \<times> ('io, 'a) taskmem_scheme) run" where
  "task_free m t =
     andthen (deref (tasks m) t) (\<lambda>tk.
     andthen (paging_free_4gb m (page_directory tk)) (\<lambda>m.
     andthen (task_list_remove m t) (\<lambda>m.
     andthen (kfree m t) (\<lambda>m.
     Done (0, m\<lparr>tasks := (tasks m)(t := None)\<rparr>)))))"

text \<open>The registers the processor continues with in user land, and the memory.\<close>

definition task_return :: "('io, 'a) taskmem_scheme \<Rightarrow> addr \<Rightarrow> (registers \<times> ('io, 'a) taskmem_scheme) run" where
  "task_return m t =
     andthen (deref (tasks m) t) (\<lambda>tk.
     let r = task_registers tk
     in Done (r\<lparr>flags := flags r OR 0x200\<rparr>, user_registers m))"

definition task_next :: "('io, 'a) taskmem_scheme \<Rightarrow> (registers \<times> ('io, 'a) taskmem_scheme) run" where
  "task_next m =
     andthen (task_get_next m) (\<lambda>next_task.
     if next_task = 0 then Panic
     else andthen (task_switch m next_task) (\<lambda>m. task_return m next_task))"

definition task_run_first_task :: "('io, 'a) taskmem_scheme \<Rightarrow> (registers \<times> ('io, 'a) taskmem_scheme) run" where
  "task_run_first_task m =
     (if current_task m = 0 then Panic
      else andthen (task_switch m (task_head m)) (\<lambda>m. task_return m (task_head m)))"

definition task_page :: "('io, 'a) taskmem_scheme \<Rightarrow> ('io, 'a) taskmem_scheme run" where
  "task_page m = task_switch (user_registers m) (current_task m)"

definition task_page_task :: "('io, 'a) taskmem_scheme \<Rightarrow> addr \<Rightarrow> ('io, 'a) taskmem_scheme run" where
  "task_page_task m t =
     andthen (deref (tasks m) t) (\<lambda>tk. paging_switch (user_registers m) (page_directory tk))"

section \<open>Saved registers\<close>

definition task_save_state ::
    "('io, 'a) taskmem_scheme \<Rightarrow> addr \<Rightarrow> interrupt_frame \<Rightarrow> ('io, 'a) taskmem_scheme run" where
  "task_save_state m t frame =
     update_task m t (\<lambda>tk. tk\<lparr>task_registers := (task_registers tk)\<lparr>ip := f_ip frame, cs_reg := f_cs frame,
       flags := f_flags frame, esp := f_esp frame, ss_reg := f_ss frame, eax := f_eax frame,
       ebp := f_ebp frame, ebx := f_ebx frame, ecx := f_ecx frame, edi := f_edi frame,
       edx := f_edx frame, esi := f_esi frame\<rparr>\<rparr>)"

definition task_current_save_state ::
    "('io, 'a) taskmem_scheme \<Rightarrow> interrupt_frame \<Rightarrow> ('io, 'a) taskmem_scheme run" where
  "task_current_save_state m frame =
     (if task_current m = 0 then Panic else task_save_state m (task_current m) frame)"

section \<open>Creation\<close>

definition task_init ::
    "('io, 'a) taskmem_scheme \<Rightarrow> addr \<Rightarrow> addr \<Rightarrow> (int \<times> ('io, 'a) taskmem_scheme) run" where
  "task_init m t process =
     andthen (deref (tasks m) t) (\<lambda>_.
     let m = m\<lparr>tasks := (tasks m)(t \<mapsto> zero_task)\<rparr>
     in andthen (paging_new_4gb m (ucast (PAGING_IS_PRESENT OR PAGING_ACCESS_FROM_ALL))) (\<lambda>(dir, m).
        let tk = zero_task\<lparr>page_directory := dir\<rparr>;
            m = m\<lparr>tasks := (tasks m)(t \<mapsto> tk)\<rparr>
        in if dir = 0 then Done (- EIO, m)
           else andthen (deref (procs m) process) (\<lambda>pr.
             andthen (if filetype pr = PROCESS_FILE_TYPE_ELF
                      then andthen (deref (elf_files m) (proc_ptr pr)) (\<lambda>f.
                        andthen (header_at m (elf_header_ptr f)) (\<lambda>h. Done (e_entry h)))
                      else Done PANDORA_PROGRAM_VIRTUAL_ADDRESS) (\<lambda>entry.
             Done (0, m\<lparr>tasks := (tasks m)(t \<mapsto> tk\<lparr>task_registers := zero_registers\<lparr>ip := entry,
               ss_reg := USER_DATA_SEGMENT, cs_reg := USER_CODE_SEGMENT,
               esp := PANDORA_PROGRAM_VIRTUAL_STACK_ADDRESS_START\<rparr>, task_process := process\<rparr>)\<rparr>)))))"

text \<open>The out label of \<open>task_new\<close>.\<close>

definition task_new_out ::
    "('io, 'a) taskmem_scheme \<Rightarrow> int \<Rightarrow> addr \<Rightarrow> (addr \<times> ('io, 'a) taskmem_scheme) run" where
  "task_new_out m res t =
     (if res < 0 then andthen (task_free m t) (\<lambda>(r, m). Done (ERROR res, m)) else Done (t, m))"

definition task_new :: "('io, 'a) taskmem_scheme \<Rightarrow> addr \<Rightarrow> (addr \<times> ('io, 'a) taskmem_scheme) run" where
  "task_new m process =
     andthen (kzalloc m 64) (\<lambda>(t, m).
     if t = 0 then task_new_out m (- ENOMEM) t
     else
       let m = m\<lparr>bufs := (bufs m)(t := None), tasks := (tasks m)(t \<mapsto> zero_task)\<rparr>
       in andthen (task_init m t process) (\<lambda>(res, m).
          if res \<noteq> PANDORAOS_ALL_OK then task_new_out m res t
          else if task_head m = 0 then
            task_new_out (m\<lparr>task_head := t, task_tail := t, current_task := t\<rparr>) res t
          else andthen (update_task m (task_tail m) (\<lambda>tk. tk\<lparr>task_next_link := t\<rparr>)) (\<lambda>m.
               andthen (update_task m t (\<lambda>tk. tk\<lparr>task_prev_link := task_tail m\<rparr>)) (\<lambda>m.
               task_new_out (m\<lparr>task_tail := t\<rparr>) res t))))"

section \<open>Reading the memory of a task\<close>

text \<open>
  The string is copied twice: with the page directory of the task to a page the directory maps,
  from there with the one of the kernel to the buffer \<open>phys\<close>.
\<close>

definition copy_string_from_task ::
    "('io, 'a) taskmem_scheme \<Rightarrow> addr \<Rightarrow> addr \<Rightarrow> u8 list \<Rightarrow> int \<Rightarrow> (int \<times> u8 list \<times> ('io, 'a) taskmem_scheme) run" where
  "copy_string_from_task m t virt phys mx =
     (if mx \<ge> int (unat PAGING_PAGE_SIZE) then Done (- EINVARG, phys, m)
      else andthen (kzalloc m (u32_of_int mx)) (\<lambda>(tmp, m).
        if tmp = 0 then Done (- ENOMEM, phys, m)
        else andthen (deref (tasks m) t) (\<lambda>tk.
          andthen (paging_4gb_chunk_get_directory m (page_directory tk)) (\<lambda>task_directory.
          andthen (paging_get m task_directory tmp) (\<lambda>old_entry.
          andthen (paging_map m (page_directory tk) tmp tmp
            (PAGING_IS_WRITEABLE OR PAGING_IS_PRESENT OR PAGING_ACCESS_FROM_ALL)) (\<lambda>(r, m).
          andthen (paging_switch m (page_directory tk)) (\<lambda>m.
          andthen (deref (bufs m) tmp) (\<lambda>b.
          andthen (strncpy b (vbytes m virt (nat mx)) mx) (\<lambda>b.
          let m = m\<lparr>bufs := (bufs m)(tmp \<mapsto> b)\<rparr>
          in andthen (kernel_page m) (\<lambda>m.
             andthen (paging_set m task_directory tmp old_entry) (\<lambda>(res, m).
             if res < 0 then andthen (kfree m tmp) (\<lambda>m. Done (- EIO, phys, m))
             else andthen (strncpy phys b mx) (\<lambda>phys.
               andthen (kfree m tmp) (\<lambda>m. Done (res, phys, m))))))))))))))"

definition task_get_stack_item ::
    "('io, 'a) taskmem_scheme \<Rightarrow> addr \<Rightarrow> int \<Rightarrow> (addr \<times> ('io, 'a) taskmem_scheme) run" where
  "task_get_stack_item m t index =
     andthen (deref (tasks m) t) (\<lambda>tk.
     andthen (task_page_task m t) (\<lambda>m.
     andthen (vload32 m (esp (task_registers tk) + 4 * u32_of_int index)) (\<lambda>result.
     andthen (kernel_page m) (\<lambda>m.
     Done (result, m)))))"

definition task_virtual_address_to_physical :: "('io, 'a) taskmem_scheme \<Rightarrow> addr \<Rightarrow> addr \<Rightarrow> addr run" where
  "task_virtual_address_to_physical m t virtual_address =
     andthen (deref (tasks m) t) (\<lambda>tk.
     andthen (paging_4gb_chunk_get_directory m (page_directory tk)) (\<lambda>dir.
     paging_get_phyiscal_address m dir virtual_address))"

end
