(* ===== verification/Process.thy ===== *)
theory Process
  imports Task
begin

text \<open>
  Processes: \<^verbatim>\<open>src/task/process.c\<close>. A process owns the memory it has allocated (a table of 1024
  allocations, each also mapped in its address space), the program it runs, a stack, a keyboard
  buffer and a task. The command line arguments a process is given are read from memory that
  another process may have written; their linked list can be cyclic, so the loops over it need not
  end (\<open>None\<close>, turned into \<open>Panic\<close> like every wait without an end).
\<close>

section \<open>Objects\<close>

definition zero_process :: process where
  "zero_process = \<lparr>proc_id = 0, proc_filename = replicate PANDORA_MAX_PATH 0, proc_task = 0,
     proc_allocations = replicate PANDORA_MAX_PROGRAM_ALLOCATIONS \<lparr>alloc_ptr = 0, alloc_size = 0\<rparr>,
     filetype = 0, proc_ptr = 0, proc_stack = 0, proc_size = 0,
     keyboard = \<lparr>buffer = replicate 1024 0, head = 0, tail = 0\<rparr>,
     arguments = \<lparr>argc = 0, argv = 0\<rparr>\<rparr>"

definition update_proc ::
    "('io, 'a) taskmem_scheme \<Rightarrow> addr \<Rightarrow> (process \<Rightarrow> process) \<Rightarrow> ('io, 'a) taskmem_scheme run" where
  "update_proc m p f = andthen (deref (procs m) p) (\<lambda>pr. Done (m\<lparr>procs := (procs m)(p \<mapsto> f pr)\<rparr>))"

definition process_init :: "('io, 'a) taskmem_scheme \<Rightarrow> addr \<Rightarrow> ('io, 'a) taskmem_scheme run" where
  "process_init m p = update_proc m p (\<lambda>_. zero_process)"

text \<open>The page directory of the task of a process.\<close>

definition process_directory :: "('io, 'a) taskmem_scheme \<Rightarrow> process \<Rightarrow> addr run" where
  "process_directory m pr = andthen (deref (tasks m) (proc_task pr)) (\<lambda>tk. Done (page_directory tk))"

definition process_get :: "('io, 'a) taskmem_scheme \<Rightarrow> int \<Rightarrow> addr run" where
  "process_get m process_id =
     (if process_id < 0 \<or> process_id \<ge> int PANDORA_MAX_PROCESSES then Done 0
      else rd (processes m) (nat process_id))"

definition process_current :: "('io, 'a) taskmem_scheme \<Rightarrow> addr" where
  "process_current m = current_process m"

definition process_switch :: "('io, 'a) taskmem_scheme \<Rightarrow> addr \<Rightarrow> ('io, 'a) taskmem_scheme" where
  "process_switch m p = m\<lparr>current_process := p\<rparr>"

section \<open>The allocations of a process\<close>

text \<open>The loop all searches of the table have in common: the first index from \<open>i\<close> on with pointer \<open>a\<close>.\<close>

function allocation_index :: "process_allocation list \<Rightarrow> addr \<Rightarrow> nat \<Rightarrow> nat option run" where
  "allocation_index al a i =
     (if i < PANDORA_MAX_PROGRAM_ALLOCATIONS then
        andthen (rd al i) (\<lambda>x. if alloc_ptr x = a then Done (Some i) else allocation_index al a (Suc i))
      else Done None)"
  by pat_completeness auto
termination
  by (relation "measure (\<lambda>(al, a, i). PANDORA_MAX_PROGRAM_ALLOCATIONS - i)") auto

declare allocation_index.simps [simp del]

definition process_find_free_allocation_index :: "process \<Rightarrow> int run" where
  "process_find_free_allocation_index pr =
     andthen (allocation_index (proc_allocations pr) 0 0) (\<lambda>r.
     Done (case r of None \<Rightarrow> - ENOMEM | Some i \<Rightarrow> int i))"

definition process_is_process_pointer :: "process \<Rightarrow> addr \<Rightarrow> bool run" where
  "process_is_process_pointer pr a = andthen (allocation_index (proc_allocations pr) a 0) (\<lambda>r. Done (r \<noteq> None))"

definition process_get_allocation_by_addr :: "process \<Rightarrow> addr \<Rightarrow> process_allocation option run" where
  "process_get_allocation_by_addr pr a =
     andthen (allocation_index (proc_allocations pr) a 0) (\<lambda>r.
     case r of None \<Rightarrow> Done None | Some i \<Rightarrow> andthen (rd (proc_allocations pr) i) (\<lambda>x. Done (Some x)))"

definition process_allocation_unjoin :: "process \<Rightarrow> addr \<Rightarrow> process" where
  "process_allocation_unjoin pr a = pr\<lparr>proc_allocations :=
     map (\<lambda>x. if alloc_ptr x = a then \<lparr>alloc_ptr = 0, alloc_size = 0\<rparr> else x) (proc_allocations pr)\<rparr>"

definition user_flags :: u32 where
  "user_flags = PAGING_IS_WRITEABLE OR PAGING_IS_PRESENT OR PAGING_ACCESS_FROM_ALL"

definition process_malloc ::
    "('io, 'a) taskmem_scheme \<Rightarrow> addr \<Rightarrow> u32 \<Rightarrow> (addr \<times> ('io, 'a) taskmem_scheme) run" where
  "process_malloc m p sz =
     andthen (kzalloc m sz) (\<lambda>(ptr, m).
     if ptr = 0 then Done (0, m)
     else andthen (deref (procs m) p) (\<lambda>pr.
       andthen (process_find_free_allocation_index pr) (\<lambda>index.
       if index < 0 then andthen (kfree m ptr) (\<lambda>m. Done (0, m))
       else andthen (process_directory m pr) (\<lambda>dir.
         andthen (paging_map_to m dir ptr ptr (paging_align_address (ptr + sz)) user_flags) (\<lambda>(res, m).
         if res < 0 then andthen (kfree m ptr) (\<lambda>m. Done (0, m))
         else andthen (wr (proc_allocations pr) (nat index) \<lparr>alloc_ptr = ptr, alloc_size = sz\<rparr>) (\<lambda>al.
           Done (ptr, m\<lparr>procs := (procs m)(p \<mapsto> pr\<lparr>proc_allocations := al\<rparr>)\<rparr>)))))))"

definition process_free :: "('io, 'a) taskmem_scheme \<Rightarrow> addr \<Rightarrow> addr \<Rightarrow> ('io, 'a) taskmem_scheme run" where
  "process_free m p ptr =
     andthen (deref (procs m) p) (\<lambda>pr.
     andthen (process_get_allocation_by_addr pr ptr) (\<lambda>allocation.
     case allocation of
       None \<Rightarrow> Done m
     | Some al \<Rightarrow>
         andthen (process_directory m pr) (\<lambda>dir.
         andthen (paging_map_to m dir (alloc_ptr al) (alloc_ptr al)
           (paging_align_address (alloc_ptr al + alloc_size al)) 0) (\<lambda>(res, m).
         if res < 0 then Done m
         else kfree (m\<lparr>procs := (procs m)(p \<mapsto> process_allocation_unjoin pr ptr)\<rparr>) ptr))))"

text \<open>The loop of \<open>process_terminate_allocations\<close> from index \<open>i\<close> on.\<close>

function process_terminate_allocations_from ::
    "('io, 'a) taskmem_scheme \<Rightarrow> addr \<Rightarrow> nat \<Rightarrow> ('io, 'a) taskmem_scheme run" where
  "process_terminate_allocations_from m p i =
     (if i < PANDORA_MAX_PROGRAM_ALLOCATIONS then
        andthen (deref (procs m) p) (\<lambda>pr.
        andthen (rd (proc_allocations pr) i) (\<lambda>al.
        andthen (if alloc_ptr al \<noteq> 0 then process_free m p (alloc_ptr al) else Done m) (\<lambda>m.
        process_terminate_allocations_from m p (Suc i))))
      else Done m)"
  by pat_completeness auto
termination
  by (relation "measure (\<lambda>(m, p, i). PANDORA_MAX_PROGRAM_ALLOCATIONS - i)") auto

declare process_terminate_allocations_from.simps [simp del]

definition process_terminate_allocations ::
    "('io, 'a) taskmem_scheme \<Rightarrow> addr \<Rightarrow> ('io, 'a) taskmem_scheme run" where
  "process_terminate_allocations m p = process_terminate_allocations_from m p 0"

section \<open>The end of a process\<close>

definition process_free_binary_data :: "('io, 'a) taskmem_scheme \<Rightarrow> process \<Rightarrow> ('io, 'a) taskmem_scheme run" where
  "process_free_binary_data m pr = (if proc_ptr pr \<noteq> 0 then kfree m (proc_ptr pr) else Done m)"

definition process_free_elf_data :: "('io, 'a) taskmem_scheme \<Rightarrow> process \<Rightarrow> ('io, 'a) taskmem_scheme run" where
  "process_free_elf_data m pr = (if proc_ptr pr \<noteq> 0 then elf_close m (proc_ptr pr) else Done m)"

definition process_free_program_data ::
    "('io, 'a) taskmem_scheme \<Rightarrow> addr \<Rightarrow> (int \<times> ('io, 'a) taskmem_scheme) run" where
  "process_free_program_data m p =
     andthen (deref (procs m) p) (\<lambda>pr.
     if filetype pr = PROCESS_FILE_TYPE_BINARY then andthen (process_free_binary_data m pr) (\<lambda>m. Done (0, m))
     else if filetype pr = PROCESS_FILE_TYPE_ELF then andthen (process_free_elf_data m pr) (\<lambda>m. Done (0, m))
     else Done (- EINVARG, m))"

text \<open>The search of \<open>process_switch_to_any\<close> and \<open>process_get_free_slot\<close>.\<close>

function process_switch_to_any_from :: "('io, 'a) taskmem_scheme \<Rightarrow> nat \<Rightarrow> ('io, 'a) taskmem_scheme run" where
  "process_switch_to_any_from m i =
     (if i < PANDORA_MAX_PROCESSES then
        andthen (rd (processes m) i) (\<lambda>p.
        if p \<noteq> 0 then Done (process_switch m p) else process_switch_to_any_from m (Suc i))
      else Panic)"
  by pat_completeness auto
termination
  by (relation "measure (\<lambda>(m, i). PANDORA_MAX_PROCESSES - i)") auto

declare process_switch_to_any_from.simps [simp del]

definition process_switch_to_any :: "('io, 'a) taskmem_scheme \<Rightarrow> ('io, 'a) taskmem_scheme run" where
  "process_switch_to_any m = process_switch_to_any_from m 0"

definition process_unlink :: "('io, 'a) taskmem_scheme \<Rightarrow> addr \<Rightarrow> ('io, 'a) taskmem_scheme run" where
  "process_unlink m p =
     andthen (deref (procs m) p) (\<lambda>pr.
     andthen (wr (processes m) (unat (proc_id pr)) 0) (\<lambda>ps.
     let m = m\<lparr>processes := ps\<rparr>
     in if current_process m = p then process_switch_to_any m else Done m))"

definition process_free_process :: "('io, 'a) taskmem_scheme \<Rightarrow> addr \<Rightarrow> (int \<times> ('io, 'a) taskmem_scheme) run" where
  "process_free_process m p =
     andthen (process_terminate_allocations m p) (\<lambda>m.
     andthen (process_free_program_data m p) (\<lambda>(r, m).
     andthen (deref (procs m) p) (\<lambda>pr.
     andthen (if proc_stack pr \<noteq> 0 then
                andthen (kfree m (proc_stack pr)) (\<lambda>m. update_proc m p (\<lambda>pr. pr\<lparr>proc_stack := 0\<rparr>))
              else Done m) (\<lambda>m.
     andthen (if proc_task pr \<noteq> 0 then
                andthen (task_free m (proc_task pr)) (\<lambda>(r, m). update_proc m p (\<lambda>pr. pr\<lparr>proc_task := 0\<rparr>))
              else Done m) (\<lambda>m.
     andthen (kfree m p) (\<lambda>m.
     Done (0, m\<lparr>procs := (procs m)(p := None)\<rparr>)))))))"

definition process_terminate :: "('io, 'a) taskmem_scheme \<Rightarrow> addr \<Rightarrow> (int \<times> ('io, 'a) taskmem_scheme) run" where
  "process_terminate m p =
     andthen (process_unlink m p) (\<lambda>m.
     andthen (process_free_process m p) (\<lambda>(res, m). Done (0, m)))"

section \<open>Arguments\<close>

text \<open>
  A \<^verbatim>\<open>struct command_argument\<close> at a physical address: 512 characters and the pointer to the next
  one. \<open>pbytes\<close> are the readable bytes from an address on, \<open>n\<close> at most.
\<close>

fun pbytes :: "'a kmem_scheme \<Rightarrow> addr \<Rightarrow> nat \<Rightarrow> u8 list" where
  "pbytes m a 0 = []"
| "pbytes m a (Suc n) = (case pload m a of Done c \<Rightarrow> c # pbytes m (a + 1) n | _ \<Rightarrow> [])"

definition argument_next :: "'a kmem_scheme \<Rightarrow> addr \<Rightarrow> addr run" where
  "argument_next m a =
     (let b = pbytes m (a + 512) 4 in if length b = 4 then Done (le32 b 0) else Fault)"

partial_function (option) process_count_arguments_from ::
    "'a kmem_scheme \<Rightarrow> addr \<Rightarrow> int \<Rightarrow> int run option" where
  "process_count_arguments_from m current i =
     (if current = 0 then Some (Done i)
      else case argument_next m current of
          Panic \<Rightarrow> Some Panic
        | Fault \<Rightarrow> Some Fault
        | Done next \<Rightarrow> process_count_arguments_from m next (i + 1))"

definition endless :: "'r run option \<Rightarrow> 'r run" where
  "endless r = (case r of None \<Rightarrow> Panic | Some r \<Rightarrow> r)"

definition process_count_command_arguments :: "'a kmem_scheme \<Rightarrow> addr \<Rightarrow> int run" where
  "process_count_command_arguments m root_argument = endless (process_count_arguments_from m root_argument 0)"

text \<open>Storing a pointer in an array of pointers.\<close>

definition st32 :: "u8 list \<Rightarrow> nat \<Rightarrow> u32 \<Rightarrow> u8 list run" where
  "st32 b k v =
     andthen (wr b k (ucast v)) (\<lambda>b. andthen (wr b (k + 1) (ucast (drop_bit 8 v))) (\<lambda>b.
     andthen (wr b (k + 2) (ucast (drop_bit 16 v))) (\<lambda>b. wr b (k + 3) (ucast (drop_bit 24 v)))))"

text \<open>One round of the loop of \<open>process_inject_arguments\<close>: a result other than 0 ends it.\<close>

definition inject_argument ::
    "('io, 'a) taskmem_scheme \<Rightarrow> addr \<Rightarrow> addr \<Rightarrow> nat \<Rightarrow> addr \<Rightarrow> (int \<times> addr \<times> ('io, 'a) taskmem_scheme) run" where
  "inject_argument m p current i argv_ptr =
     andthen (process_malloc m p 512) (\<lambda>(argument_str, m).
     if argument_str = 0 then Done (- ENOMEM, current, m)
     else andthen (deref (bufs m) argument_str) (\<lambda>b.
       andthen (strncpy b (pbytes m current 512) 512) (\<lambda>b.
       let m = m\<lparr>bufs := (bufs m)(argument_str \<mapsto> b)\<rparr>
       in andthen (deref (bufs m) argv_ptr) (\<lambda>a.
          andthen (st32 a (4 * i) argument_str) (\<lambda>a.
          let m = m\<lparr>bufs := (bufs m)(argv_ptr \<mapsto> a)\<rparr>
          in andthen (argument_next m current) (\<lambda>next. Done (0, next, m)))))))"

partial_function (option) inject_arguments_from ::
    "('io, 'a) taskmem_scheme \<Rightarrow> addr \<Rightarrow> addr \<Rightarrow> nat \<Rightarrow> addr \<Rightarrow> (int \<times> ('io, 'a) taskmem_scheme) run option" where
  "inject_arguments_from m p current i argv_ptr =
     (if current = 0 then Some (Done (0, m))
      else case inject_argument m p current i argv_ptr of
          Panic \<Rightarrow> Some Panic
        | Fault \<Rightarrow> Some Fault
        | Done r \<Rightarrow> if fst r \<noteq> 0 then Some (Done (fst r, snd (snd r)))
                    else inject_arguments_from (snd (snd r)) p (fst (snd r)) (Suc i) argv_ptr)"

definition process_inject_arguments ::
    "('io, 'a) taskmem_scheme \<Rightarrow> addr \<Rightarrow> addr \<Rightarrow> (int \<times> ('io, 'a) taskmem_scheme) run" where
  "process_inject_arguments m p root_argument =
     andthen (process_count_command_arguments m root_argument) (\<lambda>n.
     if n = 0 then Done (- EIO, m)
     else andthen (process_malloc m p (4 * u32_of_int n)) (\<lambda>(a, m).
       if a = 0 then Done (- ENOMEM, m)
       else andthen (endless (inject_arguments_from m p root_argument 0 a)) (\<lambda>(res, m).
         if res \<noteq> 0 then Done (res, m)
         else andthen (update_proc m p (\<lambda>pr. pr\<lparr>arguments := \<lparr>argc = n, argv = a\<rparr>\<rparr>)) (\<lambda>m. Done (0, m)))))"

definition process_get_arguments :: "('io, 'a) taskmem_scheme \<Rightarrow> addr \<Rightarrow> (int \<times> addr) run" where
  "process_get_arguments m p =
     andthen (deref (procs m) p) (\<lambda>pr. Done (argc (arguments pr), argv (arguments pr)))"

section \<open>Loading\<close>

text \<open>From the successful \<open>fopen\<close> of \<open>process_load_binary\<close> to the label \<^verbatim>\<open>out\<close>: the result and the buffer.\<close>

definition load_binary_open ::
    "'io ports \<Rightarrow> ('io, 'a) taskmem_scheme \<Rightarrow> addr \<Rightarrow> int \<Rightarrow> (int \<times> addr \<times> ('io, 'a) taskmem_scheme) run" where
  "load_binary_open P m p fd =
     andthen (fstat m fd stale_stat) (\<lambda>(res, stat).
     if res \<noteq> PANDORAOS_ALL_OK then Done (res, 0, m)
     else andthen (kzalloc m (stat_filesize stat)) (\<lambda>(data, m).
       if data = 0 then Done (- ENOMEM, 0, m)
       else andthen (fread P m (object_bytes m data) (stat_filesize stat) 1 fd) (\<lambda>(n, b, m).
         let m = store_object m data b
         in if n \<noteq> 1 then Done (- EIO, data, m)
            else andthen (update_proc m p (\<lambda>pr. pr\<lparr>filetype := PROCESS_FILE_TYPE_BINARY, proc_ptr := data,
                proc_size := stat_filesize stat\<rparr>)) (\<lambda>m. Done (0, data, m)))))"

definition process_load_binary ::
    "'io ports \<Rightarrow> ('io, 'a) taskmem_scheme \<Rightarrow> u8 list \<Rightarrow> addr \<Rightarrow> (int \<times> ('io, 'a) taskmem_scheme) run" where
  "process_load_binary P m fname p =
     andthen (fopen P m fname r_string) (\<lambda>(fd, m).
     andthen (if fd = 0 then Done (- EIO, 0, m) else load_binary_open P m p fd) (\<lambda>(res, data, m).
     andthen (if res < 0 \<and> data \<noteq> 0 then kfree m data else Done m) (\<lambda>m.
     andthen (fclose m fd) (\<lambda>(r, m). Done (res, m)))))"

definition process_load_elf ::
    "'io ports \<Rightarrow> ('io, 'a) taskmem_scheme \<Rightarrow> u8 list \<Rightarrow> addr \<Rightarrow> (int \<times> ('io, 'a) taskmem_scheme) run" where
  "process_load_elf P m fname p =
     andthen (elf_load P m fname) (\<lambda>(res, file, m).
     if res < 0 then Done (res, m)
     else andthen (update_proc m p (\<lambda>pr. pr\<lparr>filetype := PROCESS_FILE_TYPE_ELF, proc_ptr := file\<rparr>)) (\<lambda>m.
       Done (res, m)))"

definition process_load_data ::
    "'io ports \<Rightarrow> ('io, 'a) taskmem_scheme \<Rightarrow> u8 list \<Rightarrow> addr \<Rightarrow> (int \<times> ('io, 'a) taskmem_scheme) run" where
  "process_load_data P m fname p =
     andthen (process_load_elf P m fname p) (\<lambda>(res, m).
     if res = - EINFORMAT then process_load_binary P m fname p else Done (res, m))"

definition process_map_binary :: "('io, 'a) taskmem_scheme \<Rightarrow> addr \<Rightarrow> (int \<times> ('io, 'a) taskmem_scheme) run" where
  "process_map_binary m p =
     andthen (deref (procs m) p) (\<lambda>pr.
     andthen (process_directory m pr) (\<lambda>dir.
     andthen (paging_map_to m dir PANDORA_PROGRAM_VIRTUAL_ADDRESS (proc_ptr pr)
       (paging_align_address (proc_ptr pr + proc_size pr)) user_flags) (\<lambda>(r, m).
     Done (0, m))))"

text \<open>The loop over the program headers: \<open>f\<close> is the file, \<open>hp\<close> and \<open>h\<close> its header.\<close>

function process_map_elf_from ::
    "('io, 'a) taskmem_scheme \<Rightarrow> process \<Rightarrow> elf_file \<Rightarrow> addr \<Rightarrow> elf_header \<Rightarrow> int \<Rightarrow> int \<Rightarrow>
      (int \<times> ('io, 'a) taskmem_scheme) run" where
  "process_map_elf_from m pr f hp h i res =
     (if i < uint (e_phnum h) then
        andthen (read_in m hp (elf_pheader hp h + 32 * u32_of_int i) 32) (\<lambda>b.
        let ph = decode_phdr b;
            phys = elf_phdr_phys_address f ph;
            fl = (if p_flags ph AND PF_W \<noteq> 0 then user_flags else PAGING_IS_PRESENT OR PAGING_ACCESS_FROM_ALL)
        in andthen (process_directory m pr) (\<lambda>dir.
           andthen (paging_map_to m dir (paging_align_to_lower_page (p_vaddr ph)) (paging_align_to_lower_page phys)
             (paging_align_address (phys + p_memsz ph)) fl) (\<lambda>(res, m).
           if res < 0 then Done (res, m) else process_map_elf_from m pr f hp h (i + 1) res)))
      else Done (res, m))"
  by pat_completeness auto
termination
  by (relation "measure (\<lambda>(m, pr, f, hp, h, i, res). nat (uint (e_phnum h) - i))") auto

declare process_map_elf_from.simps [simp del]

definition process_map_elf :: "('io, 'a) taskmem_scheme \<Rightarrow> addr \<Rightarrow> (int \<times> ('io, 'a) taskmem_scheme) run" where
  "process_map_elf m p =
     andthen (deref (procs m) p) (\<lambda>pr.
     andthen (deref (elf_files m) (proc_ptr pr)) (\<lambda>f.
     andthen (header_at m (elf_header_ptr f)) (\<lambda>h.
     process_map_elf_from m pr f (elf_header_ptr f) h 0 0)))"

definition process_map_memory :: "('io, 'a) taskmem_scheme \<Rightarrow> addr \<Rightarrow> (int \<times> ('io, 'a) taskmem_scheme) run" where
  "process_map_memory m p =
     andthen (deref (procs m) p) (\<lambda>pr.
     andthen (if filetype pr = PROCESS_FILE_TYPE_ELF then process_map_elf m p
              else if filetype pr = PROCESS_FILE_TYPE_BINARY then process_map_binary m p
              else Panic) (\<lambda>(res, m).
     if res < 0 then Done (res, m)
     else andthen (process_directory m pr) (\<lambda>dir.
       andthen (paging_map_to m dir PANDORA_PROGRAM_VIRTUAL_STACK_ADDRESS_END (proc_stack pr)
         (paging_align_address (proc_stack pr + PANDORA_USER_PROGRAM_STACK_SIZE)) user_flags) (\<lambda>(r, m).
       Done (res, m)))))"

function process_get_free_slot_from :: "('io, 'a) taskmem_scheme \<Rightarrow> nat \<Rightarrow> int run" where
  "process_get_free_slot_from m i =
     (if i < PANDORA_MAX_PROCESSES then
        andthen (rd (processes m) i) (\<lambda>p. if p = 0 then Done (int i) else process_get_free_slot_from m (Suc i))
      else Done (- EISTKN))"
  by pat_completeness auto
termination
  by (relation "measure (\<lambda>(m, i). PANDORA_MAX_PROCESSES - i)") auto

declare process_get_free_slot_from.simps [simp del]

definition process_get_free_slot :: "('io, 'a) taskmem_scheme \<Rightarrow> int run" where
  "process_get_free_slot m = process_get_free_slot_from m 0"

text \<open>
  The out label of \<open>process_load_for_slot\<close>. \<open>out\<close> is the value of \<^verbatim>\<open>*process\<close>, \<open>p\<close> the local
  \<^verbatim>\<open>_process\<close>.
\<close>

definition load_for_slot_out ::
    "('io, 'a) taskmem_scheme \<Rightarrow> int \<Rightarrow> addr \<Rightarrow> addr \<Rightarrow> (int \<times> addr \<times> ('io, 'a) taskmem_scheme) run" where
  "load_for_slot_out m res p out =
     (if res < 0 \<and> p \<noteq> 0 then andthen (process_free_process m p) (\<lambda>(r, m). Done (res, 0, m))
      else Done (res, out, m))"

text \<open>When the slot is taken \<^verbatim>\<open>_process\<close> is read uninitialised.\<close>

definition process_load_for_slot ::
    "'io ports \<Rightarrow> ('io, 'a) taskmem_scheme \<Rightarrow> u8 list \<Rightarrow> addr \<Rightarrow> int \<Rightarrow> (int \<times> addr \<times> ('io, 'a) taskmem_scheme) run" where
  "process_load_for_slot P m fname out process_slot =
     andthen (process_get m process_slot) (\<lambda>taken.
     if taken \<noteq> 0 then Fault
     else andthen (kzalloc m 9364) (\<lambda>(p, m).
       if p = 0 then load_for_slot_out m (- ENOMEM) 0 out
       else
         let m = m\<lparr>bufs := (bufs m)(p := None), procs := (procs m)(p \<mapsto> zero_process)\<rparr>
         in andthen (process_init m p) (\<lambda>m.
            andthen (process_load_data P m fname p) (\<lambda>(res, m).
            if res < 0 then load_for_slot_out m res p out
            else andthen (kzalloc m PANDORA_USER_PROGRAM_STACK_SIZE) (\<lambda>(st, m).
              andthen (update_proc m p (\<lambda>pr. pr\<lparr>proc_stack := st\<rparr>)) (\<lambda>m.
              if st = 0 then load_for_slot_out m (- ENOMEM) p out
              else andthen (deref (procs m) p) (\<lambda>pr.
                andthen (strncpy (proc_filename pr) fname (int PANDORA_MAX_PATH)) (\<lambda>fn.
                andthen (update_proc m p (\<lambda>pr. pr\<lparr>proc_filename := fn, proc_id := word_of_int process_slot\<rparr>)) (\<lambda>m.
                andthen (task_new m p) (\<lambda>(tk, m).
                andthen (update_proc m p (\<lambda>pr. pr\<lparr>proc_task := tk\<rparr>)) (\<lambda>m.
                if ERROR_I tk = 0 then load_for_slot_out m (ERROR_I tk) p out
                else andthen (process_map_memory m p) (\<lambda>(res, m).
                  if res < 0 then load_for_slot_out m res p out
                  else if process_slot < 0 then Fault
                  else andthen (wr (processes m) (nat process_slot) p) (\<lambda>ps.
                    load_for_slot_out (m\<lparr>processes := ps\<rparr>) res p p)))))))))))))"

definition process_load ::
    "'io ports \<Rightarrow> ('io, 'a) taskmem_scheme \<Rightarrow> u8 list \<Rightarrow> addr \<Rightarrow> (int \<times> addr \<times> ('io, 'a) taskmem_scheme) run" where
  "process_load P m fname out =
     andthen (process_get_free_slot m) (\<lambda>process_slot.
     if process_slot < 0 then Done (- EISTKN, out, m)
     else process_load_for_slot P m fname out process_slot)"

definition process_load_switch ::
    "'io ports \<Rightarrow> ('io, 'a) taskmem_scheme \<Rightarrow> u8 list \<Rightarrow> addr \<Rightarrow> (int \<times> addr \<times> ('io, 'a) taskmem_scheme) run" where
  "process_load_switch P m fname out =
     andthen (process_load P m fname out) (\<lambda>(res, out, m).
     Done (res, out, if res = 0 then process_switch m out else m))"

end
