(* ===== verification/Terminal.thy ===== *)
theory Terminal
  imports Cstring
begin

text \<open>
  The text terminal of \<^verbatim>\<open>src/kernel.c\<close>. The video memory is the 32 KB window at \<^verbatim>\<open>0xB8000\<close>,
  16384 cells of 16 bits; a cell outside of it is a \<open>Fault\<close>. The code works with a row and a
  column, the lemmas with the linear position of the cursor: printing appends to the cells, and
  the two ways in which the cursor leaves the screen are made explicit.
\<close>

section \<open>The code\<close>

definition VGA_WIDTH :: int where [conf]: "VGA_WIDTH = 80"
definition VGA_HEIGHT :: int where [conf]: "VGA_HEIGHT = 20"

record term_state =
  video_mem :: "u16 list"
  terminal_row :: u16
  terminal_col :: u16

definition terminal_make_char :: "u8 \<Rightarrow> u8 \<Rightarrow> u16" where
  "terminal_make_char c color = word_of_int (push_bit 8 (sint color) OR sint c)"

definition terminal_putchar :: "term_state \<Rightarrow> int \<Rightarrow> int \<Rightarrow> u8 \<Rightarrow> u8 \<Rightarrow> term_state run" where
  "terminal_putchar t x y c color =
     (if y * VGA_WIDTH + x < 0 then Fault
      else andthen (wr (video_mem t) (nat (y * VGA_WIDTH + x)) (terminal_make_char c color)) (\<lambda>v.
        Done (t\<lparr>video_mem := v\<rparr>)))"

text \<open>The two functions call each other; \<open>terminal_backspace\<close> only to write a space.\<close>

function terminal_backspace :: "term_state \<Rightarrow> term_state run"
  and terminal_writechar :: "term_state \<Rightarrow> u8 \<Rightarrow> u8 \<Rightarrow> term_state run" where
  "terminal_backspace t =
     (if terminal_row t = 0 \<and> terminal_col t = 0 then Done t
      else
        let t = (if terminal_col t = 0
                 then t\<lparr>terminal_row := terminal_row t - 1, terminal_col := word_of_int VGA_WIDTH\<rparr>
                 else t);
            t = t\<lparr>terminal_col := terminal_col t - 1\<rparr>
        in andthen (terminal_writechar t 0x20 15) (\<lambda>t.
           Done (t\<lparr>terminal_col := terminal_col t - 1\<rparr>)))"
| "terminal_writechar t c color =
     (if c = 0x0A then Done (t\<lparr>terminal_row := terminal_row t + 1, terminal_col := 0\<rparr>)
      else if c = 0x08 then terminal_backspace t
      else andthen (terminal_putchar t (uint (terminal_col t)) (uint (terminal_row t)) c color) (\<lambda>t.
        let t = t\<lparr>terminal_col := terminal_col t + 1\<rparr>
        in if uint (terminal_col t) \<ge> VGA_WIDTH
           then Done (t\<lparr>terminal_col := 0, terminal_row := terminal_row t + 1\<rparr>)
           else Done t))"
  by pat_completeness auto
termination
  by (relation "measure (\<lambda>x. case x of Inl t \<Rightarrow> 1 | Inr (t, c, color) \<Rightarrow> if c = 0x08 then 2 else 0)") auto

declare terminal_backspace.simps [simp del] terminal_writechar.simps [simp del]

text \<open>The loops of \<open>terminal_initialize\<close>.\<close>

function terminal_clear_row :: "term_state \<Rightarrow> int \<Rightarrow> int \<Rightarrow> term_state run" where
  "terminal_clear_row t x y =
     (if x < VGA_WIDTH then
        andthen (terminal_putchar t x y 0x20 0) (\<lambda>t. terminal_clear_row t (x + 1) y)
      else Done t)"
  by pat_completeness auto
termination
  by (relation "measure (\<lambda>(t, x, y). nat (VGA_WIDTH - x))") auto

function terminal_clear_rows :: "term_state \<Rightarrow> int \<Rightarrow> term_state run" where
  "terminal_clear_rows t y =
     (if y < VGA_HEIGHT then
        andthen (terminal_clear_row t 0 y) (\<lambda>t. terminal_clear_rows t (y + 1))
      else Done t)"
  by pat_completeness auto
termination
  by (relation "measure (\<lambda>(t, y). nat (VGA_HEIGHT - y))") auto

declare terminal_clear_row.simps [simp del] terminal_clear_rows.simps [simp del]

text \<open>\<open>vga\<close> are the cells at the address that \<^verbatim>\<open>video_mem\<close> is set to.\<close>

definition terminal_initialize :: "u16 list \<Rightarrow> term_state run" where
  "terminal_initialize vga =
     terminal_clear_rows \<lparr>video_mem = vga, terminal_row = 0, terminal_col = 0\<rparr> 0"

function print_loop :: "term_state \<Rightarrow> u8 list \<Rightarrow> nat \<Rightarrow> int \<Rightarrow> term_state run" where
  "print_loop t str i len =
     (if int i < len then
        andthen (rd str i) (\<lambda>c.
        andthen (terminal_writechar t c 15) (\<lambda>t. print_loop t str (Suc i) len))
      else Done t)"
  by pat_completeness auto
termination
  by (relation "measure (\<lambda>(t, str, i, len). nat (len - int i))") auto

declare print_loop.simps [simp del]

definition print :: "term_state \<Rightarrow> u8 list \<Rightarrow> term_state run" where
  "print t str = andthen (strlen str) (\<lambda>len. print_loop t str 0 len)"

text \<open>The text \<^verbatim>\<open>Uh oh! The kernel has panicked and has halted!\<close> between line feeds.\<close>

definition panic_text :: "u8 list" where
  "panic_text = [0x0A, 0x0A, 0x55, 0x68, 0x20, 0x6F, 0x68, 0x21, 0x20, 0x54, 0x68, 0x65, 0x20,
     0x6B, 0x65, 0x72, 0x6E, 0x65, 0x6C, 0x20, 0x68, 0x61, 0x73, 0x20, 0x70, 0x61, 0x6E, 0x69,
     0x63, 0x6B, 0x65, 0x64, 0x20, 0x61, 0x6E, 0x64, 0x20, 0x68, 0x61, 0x73, 0x20, 0x68, 0x61,
     0x6C, 0x74, 0x65, 0x64, 0x21, 0x0A, 0]"

definition panic :: "term_state \<Rightarrow> u8 list \<Rightarrow> term_state run" where
  "panic t msg = andthen (print t panic_text) (\<lambda>t. andthen (print t msg) (\<lambda>t. Panic))"

section \<open>The cursor\<close>

text \<open>
  \<open>term_ok\<close>: the video memory is the 32 KB window, and the column is on the screen. \<open>cursor\<close> is the
  cell the next character goes to.
\<close>

definition term_ok :: "term_state \<Rightarrow> bool" where
  "term_ok t \<longleftrightarrow> length (video_mem t) = 16384 \<and> unat (terminal_col t) < 80"

definition cursor :: "term_state \<Rightarrow> nat" where
  "cursor t = 80 * unat (terminal_row t) + unat (terminal_col t)"

definition visible :: "u8 \<Rightarrow> bool" where
  "visible c \<longleftrightarrow> c \<noteq> 0x0A \<and> c \<noteq> 0x08"

lemma terminal_putchar_eq:
  "terminal_putchar t (uint (terminal_col t)) (uint (terminal_row t)) c color =
     (if cursor t < length (video_mem t)
      then Done (t\<lparr>video_mem := (video_mem t)[cursor t := terminal_make_char c color]\<rparr>) else Fault)"
proof -
  have "uint (terminal_row t) * 80 + uint (terminal_col t) = int (cursor t)"
    by (simp add: cursor_def)
  then show ?thesis by (simp add: terminal_putchar_def conf wr_def)
qed

lemma writechar_visible:
  assumes "term_ok t" and "visible c"
  shows "terminal_writechar t c color =
    (if cursor t < 16384 then Done (t\<lparr>video_mem := (video_mem t)[cursor t := terminal_make_char c color],
       terminal_row := (if unat (terminal_col t) = 79 then terminal_row t + 1 else terminal_row t),
       terminal_col := (if unat (terminal_col t) = 79 then 0 else terminal_col t + 1)\<rparr>)
     else Fault)"
proof -
  have u: "unat (terminal_col t + 1) = unat (terminal_col t) + 1"
    using assms(1) by (subst unat_add_lem [THEN iffD1]) (simp_all add: term_ok_def)
  have e: "uint (terminal_col t + 1) = int (unat (terminal_col t + 1))" by simp
  have "80 \<le> uint (terminal_col t + 1) \<longleftrightarrow> 80 \<le> unat (terminal_col t) + 1"
    unfolding e u by linarith
  also have "\<dots> \<longleftrightarrow> unat (terminal_col t) = 79"
    using assms(1) unfolding term_ok_def by linarith
  finally have w: "80 \<le> uint (terminal_col t + 1) \<longleftrightarrow> unat (terminal_col t) = 79" .
  show ?thesis
    using assms by (subst terminal_writechar.simps)
      (auto simp: visible_def terminal_putchar_eq w conf Let_def term_ok_def)
qed

lemma writechar_outside:
  "visible c \<Longrightarrow> length (video_mem t) \<le> cursor t \<Longrightarrow> terminal_writechar t c color = Fault"
  by (subst terminal_writechar.simps) (simp add: visible_def terminal_putchar_eq)

text \<open>Writing a visible character moves the cursor by one cell, over the end of the line as well.\<close>

lemma writechar_cursor:
  assumes "term_ok t" and "visible c" and "cursor t < 16384"
  shows "\<exists>t'. terminal_writechar t c color = Done t' \<and> term_ok t' \<and> cursor t' = cursor t + 1 \<and>
    video_mem t' = (video_mem t)[cursor t := terminal_make_char c color]"
proof -
  have row: "unat (terminal_row t) < 205"
    using assms(3) by (simp add: cursor_def)
  have r: "unat (terminal_row t + 1) = unat (terminal_row t) + 1"
    using row by (subst unat_add_lem [THEN iffD1]) simp_all
  have c: "unat (terminal_col t + 1) = unat (terminal_col t) + 1"
    using assms(1) by (subst unat_add_lem [THEN iffD1]) (simp_all add: term_ok_def)
  show ?thesis
    unfolding writechar_visible [OF assms(1,2)]
    using assms(1,3) r c by (auto simp: term_ok_def cursor_def)
qed

lemma print_loop_visible:
  assumes "term_ok t" and "\<forall>c \<in> set (drop i str). visible c" and "i \<le> length str"
    and "cursor t + (length str - i) \<le> 16384"
  shows "\<exists>t'. print_loop t (str @ rest) i (int (length str)) = Done t' \<and> term_ok t' \<and>
    cursor t' = cursor t + (length str - i) \<and>
    video_mem t' = take (cursor t) (video_mem t) @ map (\<lambda>c. terminal_make_char c 15) (drop i str) @
      drop (cursor t + (length str - i)) (video_mem t)"
  using assms
proof (induction "length str - i" arbitrary: i t)
  case 0
  then show ?case by (simp add: print_loop.simps [of t])
next
  case (Suc k)
  then have i: "i < length str" and k: "k = length str - Suc i" by simp_all
  have dr: "drop i str = str ! i # drop (Suc i) str" using i by (simp add: Cons_nth_drop_Suc)
  then have v: "visible (str ! i)" "\<forall>c \<in> set (drop (Suc i) str). visible c"
    using Suc.prems(2) by simp_all
  have "cursor t < 16384" using Suc.prems(4) i by simp
  from writechar_cursor [OF Suc.prems(1) v(1) this, of 15] obtain t1 where t1:
    "terminal_writechar t (str ! i) 15 = Done t1" "term_ok t1" "cursor t1 = cursor t + 1"
    "video_mem t1 = (video_mem t)[cursor t := terminal_make_char (str ! i) 15]" by blast
  have step: "print_loop t (str @ rest) i (int (length str)) =
      print_loop t1 (str @ rest) (Suc i) (int (length str))"
    using i t1(1) by (subst print_loop.simps) (simp add: run_simps nth_append)
  have "cursor t1 + (length str - Suc i) \<le> 16384" using Suc.prems(4) t1(3) i by simp
  with Suc.hyps(1) [OF k t1(2) v(2)] i obtain t' where IH:
    "print_loop t1 (str @ rest) (Suc i) (int (length str)) = Done t'" "term_ok t'"
    "cursor t' = cursor t1 + (length str - Suc i)"
    "video_mem t' = take (cursor t1) (video_mem t1) @ map (\<lambda>c. terminal_make_char c 15) (drop (Suc i) str) @
      drop (cursor t1 + (length str - Suc i)) (video_mem t1)" by auto
  have sum: "cursor t1 + (length str - Suc i) = cursor t + (length str - i)" using i t1(3) by simp
  have "length (video_mem t) = 16384" using Suc.prems(1) by (simp add: term_ok_def)
  then have tk: "take (cursor t + 1) (video_mem t1) = take (cursor t) (video_mem t) @ [terminal_make_char (str ! i) 15]"
    using \<open>cursor t < 16384\<close> by (simp add: t1(4) take_Suc_conv_app_nth)
  have "drop (cursor t + (length str - i)) (video_mem t1) = drop (cursor t + (length str - i)) (video_mem t)"
    using i by (simp add: t1(4))
  with IH(2) IH(3,4) [unfolded sum] show ?case
    unfolding step IH(1) using tk dr by (simp add: t1(3))
qed

lemma backspace_at:
  assumes "term_ok t" and "0 < unat (terminal_col t)" and "cursor t \<le> 16384"
  shows "\<exists>t'. terminal_backspace t = Done t' \<and> term_ok t' \<and> cursor t' = cursor t - 1 \<and>
    video_mem t' = (video_mem t)[cursor t - 1 := terminal_make_char 0x20 15]"
proof -
  let ?t = "t\<lparr>terminal_col := terminal_col t - 1\<rparr>"
  have nz: "terminal_col t \<noteq> 0" using assms(2) by auto
  then have u: "unat (terminal_col t - 1) = unat (terminal_col t) - 1"
    by (simp add: unat_sub word_le_nat_alt Suc_le_eq assms(2) unat_gt_0)
  have ok: "term_ok ?t" and cur: "cursor ?t = cursor t - 1"
    using assms(1,2) u by (auto simp: term_ok_def cursor_def)
  have small: "unat (terminal_col t) - 1 \<noteq> 79" using assms(1,2) unfolding term_ok_def by linarith
  have "cursor ?t < 16384" using cur assms(2,3) by (simp add: cursor_def)
  then have "terminal_writechar ?t 0x20 15 = Done (t\<lparr>video_mem := (video_mem t)[cursor t - 1 := terminal_make_char 0x20 15]\<rparr>)"
    using writechar_visible [OF ok, of "0x20" 15] small u cur by (simp add: visible_def)
  then have "terminal_backspace t = Done (t\<lparr>video_mem := (video_mem t)[cursor t - 1 := terminal_make_char 0x20 15],
      terminal_col := terminal_col t - 1\<rparr>)"
    using nz by (subst terminal_backspace.simps) simp
  then show ?thesis
    using ok cur by (intro exI) (auto simp: term_ok_def cursor_def)
qed

section \<open>Clearing\<close>

text \<open>The cell that \<open>terminal_initialize\<close> stores everywhere on the screen.\<close>

definition cleared :: u16 where "cleared = terminal_make_char 0x20 0"

lemma clear_row_eq:
  assumes "x + n = 80" and "80 * (y + 1) \<le> length (video_mem t)"
  shows "terminal_clear_row t (int x) (int y) = Done (t\<lparr>video_mem :=
    take (80 * y + x) (video_mem t) @ replicate n cleared @ drop (80 * y + 80) (video_mem t)\<rparr>)"
  using assms
proof (induction n arbitrary: x t)
  case 0
  then have "take (80 * y + x) (video_mem t) @ drop (80 * y + 80) (video_mem t) = video_mem t" by simp
  then show ?case using 0 by (subst terminal_clear_row.simps) (simp add: conf)
next
  case (Suc n)
  let ?t = "t\<lparr>video_mem := (video_mem t)[80 * y + x := cleared]\<rparr>"
  have i: "80 * y + x < length (video_mem t)" using Suc.prems by simp
  have "nat (int y * 80 + int x) = 80 * y + x" by simp
  then have "terminal_putchar t (int x) (int y) 0x20 0 = Done ?t"
    using i by (simp add: terminal_putchar_def conf run_simps cleared_def)
  then have "terminal_clear_row t (int x) (int y) = terminal_clear_row ?t (int (Suc x)) (int y)"
    using Suc.prems(1) by (subst terminal_clear_row.simps) (simp add: conf add.commute)
  also have "\<dots> = Done (?t\<lparr>video_mem := take (80 * y + Suc x) (video_mem ?t) @ replicate n cleared @
      drop (80 * y + 80) (video_mem ?t)\<rparr>)"
    using Suc.prems by (intro Suc.IH) auto
  finally show ?case
    using Suc.prems(1) i by (simp add: take_Suc_conv_app_nth)
qed

lemma clear_rows_eq:
  assumes "y + n = 20" and "1600 \<le> length (video_mem t)"
  shows "terminal_clear_rows t (int y) = Done (t\<lparr>video_mem :=
    take (80 * y) (video_mem t) @ replicate (80 * n) cleared @ drop 1600 (video_mem t)\<rparr>)"
  using assms
proof (induction n arbitrary: y t)
  case 0
  then have "take (80 * y) (video_mem t) @ drop 1600 (video_mem t) = video_mem t" by simp
  then show ?case using 0 by (subst terminal_clear_rows.simps) (simp add: conf)
next
  case (Suc n)
  let ?t = "t\<lparr>video_mem := take (80 * y) (video_mem t) @ replicate 80 cleared @ drop (80 * y + 80) (video_mem t)\<rparr>"
  have row: "terminal_clear_row t 0 (int y) = Done ?t"
    using clear_row_eq [of 0 80 y t] Suc.prems by simp
  then have "terminal_clear_rows t (int y) = terminal_clear_rows ?t (int (Suc y))"
    using Suc.prems(1) by (subst terminal_clear_rows.simps) (simp add: conf add.commute)
  also have "\<dots> = Done (?t\<lparr>video_mem := take (80 * Suc y) (video_mem ?t) @ replicate (80 * n) cleared @
      drop 1600 (video_mem ?t)\<rparr>)"
    using Suc.prems by (intro Suc.IH) auto
  finally have "terminal_clear_rows t (int y) = \<dots>" .
  moreover have "take (80 * Suc y) (video_mem ?t) = take (80 * y) (video_mem t) @ replicate 80 cleared"
    using Suc.prems by simp
  moreover have "drop 1600 (video_mem ?t) = drop 1600 (video_mem t)"
  proof -
    have "80 * y + 80 \<le> 1600" using Suc.prems(1) by simp
    then show ?thesis using Suc.prems(2) by simp
  qed
  moreover have "replicate 80 cleared @ replicate (80 * n) cleared = replicate (80 * Suc n) cleared"
    by (simp flip: replicate_add)
  ultimately show ?case by (metis append.assoc term_state.update_convs(1) term_state.surjective)
qed

section \<open>Properties\<close>

text \<open>
  \<open>print\<close> appends a text to the screen: a terminated string of visible characters that ends
  before the end of the video memory is stored in consecutive cells from the cursor on, over line
  ends, nothing else is written, and the cursor moves by the length of the text.
\<close>

theorem print_writes_cells:
  assumes "term_ok t" and "\<forall>c \<in> set str. visible c \<and> c \<noteq> 0"
    and "cursor t + length str \<le> 16384"
  shows "\<exists>t'. print t (str @ [0]) = Done t' \<and> term_ok t' \<and> cursor t' = cursor t + length str \<and>
    video_mem t' = take (cursor t) (video_mem t) @ map (\<lambda>c. terminal_make_char c 15) str @
      drop (cursor t + length str) (video_mem t)"
proof -
  have "0 \<notin> set str" using assms(2) by auto
  then have "strlen (str @ [0]) = Done (int (length str))"
    using cstring_append [of str "[]"] by (simp add: cstr)
  moreover have "\<forall>c \<in> set (drop 0 str). visible c" using assms(2) by simp
  from print_loop_visible [OF assms(1) this, of "[0]"] assms(3) obtain t' where
    "print_loop t (str @ [0]) 0 (int (length str)) = Done t'" "term_ok t'"
    "cursor t' = cursor t + length str"
    "video_mem t' = take (cursor t) (video_mem t) @ map (\<lambda>c. terminal_make_char c 15) str @
      drop (cursor t + length str) (video_mem t)" by auto
  ultimately show ?thesis by (simp add: print_def)
qed

definition sample_term :: term_state where
  "sample_term = \<lparr>video_mem = replicate 16384 0, terminal_row = 1, terminal_col = 79\<rparr>"

theorem print_writes_cells_witness:
  "\<exists>t'. print sample_term ([0x41, 0x42] @ [0]) = Done t' \<and> term_ok t' \<and> cursor t' = 161"
  using print_writes_cells [of sample_term "[0x41, 0x42]"]
  by (auto simp: sample_term_def term_ok_def cursor_def visible_def)

text \<open>
  \<open>terminal_initialize\<close> clears the 20 by 80 cells of the screen, leaves the rest of the video
  memory alone, and puts the cursor into the first cell.
\<close>

theorem terminal_initialize_clears:
  assumes "length vga = 16384"
  shows "\<exists>t. terminal_initialize vga = Done t \<and> term_ok t \<and> cursor t = 0 \<and>
    video_mem t = replicate 1600 (terminal_make_char 0x20 0) @ drop 1600 vga"
  using clear_rows_eq [of 0 20 "\<lparr>video_mem = vga, terminal_row = 0, terminal_col = 0\<rparr>"] assms
  by (auto simp: terminal_initialize_def term_ok_def cursor_def cleared_def)

theorem terminal_initialize_clears_witness:
  "\<exists>t. terminal_initialize (replicate 16384 0xFFFF) = Done t \<and> term_ok t \<and> cursor t = 0 \<and>
    video_mem t = replicate 1600 (terminal_make_char 0x20 0) @ drop 1600 (replicate 16384 0xFFFF)"
  by (rule terminal_initialize_clears) simp

text \<open>
  Inside a line a backspace undoes a character: writing a visible character anywhere but in the
  last column and then the character 8 puts the cursor back and leaves a blank in the cell.
\<close>

theorem writechar_backspace:
  assumes "term_ok t" and "visible c" and "unat (terminal_col t) < 79" and "cursor t < 16384"
  shows "\<exists>t1 t2. terminal_writechar t c color = Done t1 \<and> terminal_writechar t1 0x08 color = Done t2 \<and>
    term_ok t2 \<and> cursor t2 = cursor t \<and>
    video_mem t2 = (video_mem t)[cursor t := terminal_make_char 0x20 15]"
proof -
  let ?t1 = "t\<lparr>video_mem := (video_mem t)[cursor t := terminal_make_char c color],
    terminal_col := terminal_col t + 1\<rparr>"
  have 1: "terminal_writechar t c color = Done ?t1"
    using writechar_visible [OF assms(1,2)] assms(3,4) by simp
  have u: "unat (terminal_col t + 1) = unat (terminal_col t) + 1"
    using assms(3) by (subst unat_add_lem [THEN iffD1]) simp_all
  then have t1: "term_ok ?t1" "cursor ?t1 = cursor t + 1" "0 < unat (terminal_col ?t1)"
    using assms(1,3) by (simp_all add: term_ok_def cursor_def)
  from backspace_at [OF t1(1,3)] t1(2) assms(4) obtain t2 where
    "terminal_backspace ?t1 = Done t2" "term_ok t2" "cursor t2 = cursor t"
    "video_mem t2 = (video_mem ?t1)[cursor t := terminal_make_char 0x20 15]" by auto
  moreover have "terminal_writechar ?t1 0x08 color = terminal_backspace ?t1"
    by (subst terminal_writechar.simps) simp
  ultimately show ?thesis using 1 by simp
qed

theorem writechar_backspace_witness:
  "\<exists>t1 t2. terminal_writechar (sample_term\<lparr>terminal_col := 5\<rparr>) 0x41 15 = Done t1 \<and>
    terminal_writechar t1 0x08 15 = Done t2 \<and> cursor t2 = 85"
proof -
  have "term_ok (sample_term\<lparr>terminal_col := 5\<rparr>)" "cursor (sample_term\<lparr>terminal_col := 5\<rparr>) = 85"
    by (simp_all add: sample_term_def term_ok_def cursor_def)
  from writechar_backspace [OF this(1), of "0x41" 15] this(2) show ?thesis
    by (auto simp: visible_def sample_term_def)
qed

text \<open>
  In the first column a backspace loses the cursor: the space that is written over the last
  cell of the line before moves the cursor to the next line again, the column then wraps around to
  65535, and the next visible character is stored far outside the video memory.
\<close>

theorem backspace_first_column:
  assumes "length (video_mem t) = 16384" and "terminal_col t = 0" and "0 < unat (terminal_row t)"
    and "unat (terminal_row t) \<le> 204"
  shows "\<exists>t'. terminal_backspace t = Done t' \<and> terminal_row t' = terminal_row t \<and>
    terminal_col t' = 65535 \<and> (\<forall>c color. visible c \<longrightarrow> terminal_writechar t' c color = Fault)"
proof -
  let ?t = "t\<lparr>terminal_row := terminal_row t - 1, terminal_col := 79\<rparr>"
  have "terminal_row t \<noteq> 0" using assms(3) by auto
  have row: "unat (terminal_row t - 1) = unat (terminal_row t) - 1"
    using assms(3) by (simp add: unat_sub word_le_nat_alt)
  have ok: "term_ok ?t" and cur: "cursor ?t < 16384"
    using assms(1,4) row by (auto simp: term_ok_def cursor_def)
  let ?t' = "t\<lparr>video_mem := (video_mem t)[cursor ?t := terminal_make_char 0x20 15], terminal_col := 65535\<rparr>"
  have "terminal_writechar ?t 0x20 15 = Done (?t'\<lparr>terminal_col := 0\<rparr>)"
    using writechar_visible [OF ok, of "0x20" 15] cur by (simp add: visible_def)
  then have "terminal_backspace t = Done ?t'"
    using assms(2) \<open>terminal_row t \<noteq> 0\<close>
    by (subst terminal_backspace.simps) (simp add: conf Let_def)
  moreover have "terminal_writechar ?t' c color = Fault" if "visible c" for c color
  proof -
    have "16384 \<le> cursor ?t'" by (simp add: cursor_def)
    then show ?thesis
      using that assms(1) by (intro writechar_outside) simp_all
  qed
  ultimately show ?thesis by (intro exI [of _ ?t']) simp
qed

theorem backspace_first_column_witness:
  "\<exists>t'. terminal_backspace (sample_term\<lparr>terminal_col := 0\<rparr>) = Done t' \<and> terminal_col t' = 65535 \<and>
    terminal_writechar t' 0x41 15 = Fault"
  using backspace_first_column [of "sample_term\<lparr>terminal_col := 0\<rparr>"]
  by (auto simp: sample_term_def visible_def)

end
