(* ===== verification/Gdt.thy ===== *)
theory Gdt
  imports Prelude
begin

text \<open>
  The segment descriptors, \<^verbatim>\<open>src/gdt/gdt.c\<close>. \<open>encodeGDTEntry\<close> spreads base, limit and type over
  the eight bytes of a descriptor; \<open>decode_gdt\<close> is how the processor reads them, so that the round
  trip states that the processor sees the segment the kernel asked for.
\<close>

section \<open>The code\<close>

record gdt_structured =
  gdt_base :: u32
  gdt_limit :: u32
  gdt_type :: u8

text \<open>The eight bytes of the entry at offset \<open>o\<close> of the table.\<close>

definition encodeGDTEntry :: "u8 list \<Rightarrow> nat \<Rightarrow> gdt_structured \<Rightarrow> u8 list run" where
  "encodeGDTEntry target p source =
     (if gdt_limit source > 65536 \<and> gdt_limit source AND 0xFFF \<noteq> 0xFFF then Panic
      else
        andthen (wr target (p + 6) 0x40) (\<lambda>target.
        andthen (if gdt_limit source > 65536
                 then andthen (wr target (p + 6) 0xC0) (\<lambda>target. Done (target, drop_bit 12 (gdt_limit source)))
                 else Done (target, gdt_limit source)) (\<lambda>(target, limit).
        andthen (wr target p (ucast (limit AND 0xFF))) (\<lambda>target.
        andthen (wr target (p + 1) (ucast (drop_bit 8 limit))) (\<lambda>target.
        andthen (rd target (p + 6)) (\<lambda>flags.
        andthen (wr target (p + 6) (flags OR ucast (drop_bit 16 limit AND 0x0F))) (\<lambda>target.
        andthen (wr target (p + 2) (ucast (gdt_base source AND 0xFF))) (\<lambda>target.
        andthen (wr target (p + 3) (ucast (drop_bit 8 (gdt_base source) AND 0xFF))) (\<lambda>target.
        andthen (wr target (p + 4) (ucast (drop_bit 16 (gdt_base source) AND 0xFF))) (\<lambda>target.
        andthen (wr target (p + 7) (ucast (drop_bit 24 (gdt_base source) AND 0xFF))) (\<lambda>target.
        wr target (p + 5) (gdt_type source))))))))))))"

text \<open>The loop from entry \<open>i\<close> on; the table of descriptors is its bytes.\<close>

function gdt_structured_to_gdt_loop :: "u8 list \<Rightarrow> gdt_structured list \<Rightarrow> nat \<Rightarrow> int \<Rightarrow> u8 list run" where
  "gdt_structured_to_gdt_loop gdt structured i total_entries =
     (if int i < total_entries then
        andthen (rd structured i) (\<lambda>s.
        andthen (encodeGDTEntry gdt (8 * i) s) (\<lambda>gdt.
        gdt_structured_to_gdt_loop gdt structured (Suc i) total_entries))
      else Done gdt)"
  by pat_completeness auto
termination
  by (relation "measure (\<lambda>(gdt, structured, i, total_entries). nat (total_entries - int i))") auto

declare gdt_structured_to_gdt_loop.simps [simp del]

definition gdt_structured_to_gdt :: "u8 list \<Rightarrow> gdt_structured list \<Rightarrow> int \<Rightarrow> u8 list run" where
  "gdt_structured_to_gdt gdt structured total_entries =
     gdt_structured_to_gdt_loop gdt structured 0 total_entries"

section \<open>How the processor reads a descriptor\<close>

definition word_of_bytes :: "u8 \<Rightarrow> u8 \<Rightarrow> u8 \<Rightarrow> u8 \<Rightarrow> u32" where
  "word_of_bytes a b c d = ucast a OR push_bit 8 (ucast b) OR push_bit 16 (ucast c) OR push_bit 24 (ucast d)"

text \<open>
  With the granularity bit (bit 7 of byte 6) the 20 bit limit counts pages, the low 12 bits of the
  limit in bytes being ones.
\<close>

definition decode_gdt :: "u8 list \<Rightarrow> nat \<Rightarrow> gdt_structured" where
  "decode_gdt g p =
     \<lparr>gdt_base = word_of_bytes (g ! (p + 2)) (g ! (p + 3)) (g ! (p + 4)) (g ! (p + 7)),
      gdt_limit = (let l = word_of_bytes (g ! p) (g ! (p + 1)) (g ! (p + 6) AND 0x0F) 0
                   in if bit (g ! (p + 6)) 7 then push_bit 12 l OR 0xFFF else l),
      gdt_type = g ! (p + 5)\<rparr>"

lemma mask_8_u32: "(0xFF :: u32) = mask 8" "(0xFFF :: u32) = mask 12" "(0x0F :: u32) = mask 4"
  by (simp_all add: mask_eq_exp_minus_1)

lemma mask_4_u8: "(0x0F :: u8) = mask 4"
  by (simp add: mask_eq_exp_minus_1)

lemma word_of_bytes_split:
  "word_of_bytes (ucast w) (ucast (drop_bit 8 w)) (ucast (drop_bit 16 w)) (ucast (drop_bit 24 w)) = w"
proof (rule bit_word_eqI)
  fix n
  assume "n < LENGTH(32)"
  then have "n < 32" by simp
  then consider "n < 8" | "8 \<le> n \<and> n < 16" | "16 \<le> n \<and> n < 24" | "24 \<le> n \<and> n < 32" by linarith
  then show "bit (word_of_bytes (ucast w) (ucast (drop_bit 8 w)) (ucast (drop_bit 16 w)) (ucast (drop_bit 24 w))) n = bit w n"
    by cases (auto simp: word_of_bytes_def bit_simps)
qed

lemma ucast_masked: "(ucast (w AND mask 8 :: u32) :: u8) = ucast w"
  by (rule bit_word_eqI) (simp add: bit_simps)

lemma limit_bytes:
  assumes "unat l < 2 ^ 20" and "f AND mask 4 = (0 :: u8)"
  shows "word_of_bytes (ucast (l AND mask 8)) (ucast (drop_bit 8 l))
      ((f OR ucast (drop_bit 16 l AND mask 4)) AND mask 4) 0 = l"
proof (rule bit_word_eqI)
  fix n
  assume "n < LENGTH(32)"
  then have "n < 32" by simp
  have "take_bit 20 l = l"
    using assms(1) by (simp add: word_unat_eq_iff unsigned_take_bit_eq take_bit_nat_eq_self)
  then have high: "\<not> bit l n" if "20 \<le> n" using that by (metis bit_take_bit_iff not_le)
  have f: "\<not> bit f k" if "k < 4" for k
    using that arg_cong [OF assms(2), of "\<lambda>w. bit w k"] by (simp add: bit_simps)
  from \<open>n < 32\<close> consider "n < 8" | "8 \<le> n \<and> n < 16" | "16 \<le> n \<and> n < 20" | "20 \<le> n" by linarith
  then show "bit (word_of_bytes (ucast (l AND mask 8)) (ucast (drop_bit 8 l))
      ((f OR ucast (drop_bit 16 l AND mask 4)) AND mask 4) 0) n = bit l n"
  proof cases
    case 3
    then have "n - 16 < 4" by linarith
    with 3 f [of "n - 16"] show ?thesis by (auto simp: word_of_bytes_def bit_simps)
  qed (use high in \<open>auto simp: word_of_bytes_def bit_simps dest: bit_imp_le_length\<close>)
qed

section \<open>The round trip\<close>

definition encodable :: "gdt_structured \<Rightarrow> bool" where
  "encodable s \<longleftrightarrow> unat (gdt_limit s) \<le> 65536 \<or> gdt_limit s AND 0xFFF = 0xFFF"

text \<open>The bytes a descriptor is encoded to.\<close>

definition gdt_bytes :: "gdt_structured \<Rightarrow> u8 list" where
  "gdt_bytes s =
     (let big = gdt_limit s > 65536;
          l = (if big then drop_bit 12 (gdt_limit s) else gdt_limit s)
      in [ucast (l AND 0xFF), ucast (drop_bit 8 l), ucast (gdt_base s AND 0xFF),
          ucast (drop_bit 8 (gdt_base s) AND 0xFF), ucast (drop_bit 16 (gdt_base s) AND 0xFF), gdt_type s,
          (if big then 0xC0 else 0x40) OR ucast (drop_bit 16 l AND 0x0F),
          ucast (drop_bit 24 (gdt_base s) AND 0xFF)])"

lemma length_gdt_bytes [simp]: "length (gdt_bytes s) = 8"
  by (simp add: gdt_bytes_def Let_def)

lemma big_limit: "gdt_limit s > 65536 \<longleftrightarrow> \<not> unat (gdt_limit s) \<le> 65536"
  by (simp add: word_less_nat_alt not_le)

lemma eight_bytes:
  assumes "p + 8 \<le> length xs"
  shows "xs[p + 6 := a, p := b, p + 1 := c, p + 6 := d, p + 2 := e, p + 3 := f, p + 4 := g, p + 7 := h, p + 5 := i] =
    take p xs @ [b, c, e, f, g, i, d, h] @ drop (p + 8) xs"
proof (rule nth_equalityI)
  show "length (xs[p + 6 := a, p := b, p + 1 := c, p + 6 := d, p + 2 := e, p + 3 := f, p + 4 := g, p + 7 := h, p + 5 := i]) =
      length (take p xs @ [b, c, e, f, g, i, d, h] @ drop (p + 8) xs)"
    using assms by simp
  fix j
  assume "j < length (xs[p + 6 := a, p := b, p + 1 := c, p + 6 := d, p + 2 := e, p + 3 := f, p + 4 := g, p + 7 := h, p + 5 := i])"
  then have j: "j < length xs" by simp
  consider "j < p" | "j = p \<or> j = p + 1 \<or> j = p + 2 \<or> j = p + 3 \<or> j = p + 4 \<or> j = p + 5 \<or> j = p + 6 \<or> j = p + 7"
    | k where "j = p + 8 + k"
  proof (cases "j < p + 8")
    case True
    then have "j < p \<or> j = p \<or> j = p + 1 \<or> j = p + 2 \<or> j = p + 3 \<or> j = p + 4 \<or> j = p + 5 \<or> j = p + 6 \<or> j = p + 7"
      by presburger
    with that show ?thesis by blast
  next
    case False
    with that(3) [of "j - (p + 8)"] show ?thesis by simp
  qed
  then show "xs[p + 6 := a, p := b, p + 1 := c, p + 6 := d, p + 2 := e, p + 3 := f, p + 4 := g, p + 7 := h, p + 5 := i] ! j =
      (take p xs @ [b, c, e, f, g, i, d, h] @ drop (p + 8) xs) ! j"
    using assms j by cases (auto simp: nth_append nth_list_update)
qed

lemma encodeGDTEntry_eq:
  assumes "encodable s" and "p + 8 \<le> length xs"
  shows "encodeGDTEntry xs p s = Done (take p xs @ gdt_bytes s @ drop (p + 8) xs)"
proof (cases "gdt_limit s > 65536")
  case True
  then have "gdt_limit s AND 0xFFF = 0xFFF" using assms(1) by (simp add: encodable_def big_limit)
  then show ?thesis
    using assms(2) True eight_bytes [OF assms(2)]
    by (simp add: encodeGDTEntry_def run_simps gdt_bytes_def Let_def)
next
  case False
  then show ?thesis
    using assms(2) eight_bytes [OF assms(2)]
    by (simp add: encodeGDTEntry_def run_simps gdt_bytes_def Let_def)
qed

lemma small_limit:
  assumes "unat l \<le> 65536"
  shows "unat l < 2 ^ 20"
  using assms by simp

lemma drop_bit_limit: "unat (drop_bit 12 l :: u32) < 2 ^ 20"
proof -
  have "unat (drop_bit 12 l) = unat l div 4096"
    by (simp add: drop_bit_eq_div unat_div)
  then show ?thesis using unat_u32_less [of l] by (simp add: less_mult_imp_div_less)
qed

lemma refill_limit: "l AND mask 12 = mask 12 \<Longrightarrow> push_bit 12 (drop_bit 12 l) OR mask 12 = (l :: u32)"
proof -
  assume a: "l AND mask 12 = mask 12"
  have "bit l n" if "n < 12" for n
    using that arg_cong [OF a, of "\<lambda>w. bit w n"] by (simp add: bit_simps)
  then show "push_bit 12 (drop_bit 12 l) OR mask 12 = l"
    by (intro bit_word_eqI) (auto simp: bit_simps not_less)
qed

lemma flag_bits:
  "(0xC0 :: u8) AND mask 4 = 0" "(0x40 :: u8) AND mask 4 = 0"
  "bit (0xC0 OR ucast (x AND mask 4 :: u32) :: u8) 7" "\<not> bit (0x40 OR ucast (x AND mask 4 :: u32) :: u8) 7"
  by (simp_all add: mask_eq_exp_minus_1 bit_simps)

lemma decode_gdt_bytes:
  assumes "encodable s" and "length xs = p"
  shows "decode_gdt (xs @ gdt_bytes s @ ys) p = s"
proof -
  let ?b = "gdt_bytes s"
  have nth: "(xs @ ?b @ ys) ! (p + k) = ?b ! k" if "k < 8" for k
    using that assms(2) by (simp add: nth_append)
  have nth0: "(xs @ ?b @ ys) ! p = ?b ! 0" using nth [of 0] by simp
  have base: "word_of_bytes (?b ! 2) (?b ! 3) (?b ! 4) (?b ! 7) = gdt_base s"
    using word_of_bytes_split [of "gdt_base s"]
    by (simp add: gdt_bytes_def Let_def mask_8_u32 ucast_masked)
  have type: "?b ! 5 = gdt_type s" by (simp add: gdt_bytes_def Let_def)
  have limit: "(let l = word_of_bytes (?b ! 0) (?b ! 1) (?b ! 6 AND 0x0F) 0
                   in if bit (?b ! 6) 7 then push_bit 12 l OR 0xFFF else l) = gdt_limit s"
  proof (cases "gdt_limit s > 65536")
    case True
    then have "gdt_limit s AND mask 12 = mask 12"
      using assms(1) by (simp add: encodable_def big_limit mask_8_u32)
    with True show ?thesis
      using limit_bytes [OF drop_bit_limit flag_bits(1)] refill_limit flag_bits(3)
      by (simp add: gdt_bytes_def Let_def mask_8_u32 mask_4_u8)
  next
    case False
    then have "unat (gdt_limit s) < 2 ^ 20"
      using small_limit by (simp add: big_limit)
    with False show ?thesis
      using limit_bytes [OF _ flag_bits(2)] flag_bits(4)
      by (simp add: gdt_bytes_def Let_def mask_8_u32 mask_4_u8)
  qed
  have nths: "(xs @ ?b @ ys) ! (p + 1) = ?b ! 1" "(xs @ ?b @ ys) ! (p + 2) = ?b ! 2"
    "(xs @ ?b @ ys) ! (p + 3) = ?b ! 3" "(xs @ ?b @ ys) ! (p + 4) = ?b ! 4"
    "(xs @ ?b @ ys) ! (p + 5) = ?b ! 5" "(xs @ ?b @ ys) ! (p + 6) = ?b ! 6"
    "(xs @ ?b @ ys) ! (p + 7) = ?b ! 7"
    by (rule nth, simp)+
  show ?thesis
    unfolding decode_gdt_def nth0 nths base type limit by simp
qed

lemma gdt_loop_eq:
  assumes "\<forall>s \<in> set structured. encodable s" and "8 * length structured \<le> length gdt"
    and "i + n = length structured"
  shows "gdt_structured_to_gdt_loop gdt structured i (int (length structured)) =
    Done (take (8 * i) gdt @ concat (map gdt_bytes (drop i structured)) @ drop (8 * length structured) gdt)"
  using assms
proof (induction n arbitrary: i gdt)
  case 0
  then show ?case by (simp add: gdt_structured_to_gdt_loop.simps [of gdt])
next
  case (Suc n)
  then have i: "i < length structured" by simp
  then have dr: "drop i structured = structured ! i # drop (Suc i) structured" by (simp add: Cons_nth_drop_Suc)
  let ?g = "take (8 * i) gdt @ gdt_bytes (structured ! i) @ drop (8 * i + 8) gdt"
  have "encodable (structured ! i)" using Suc.prems(1) i by simp
  then have "encodeGDTEntry gdt (8 * i) (structured ! i) = Done ?g"
    using Suc.prems(2) i by (intro encodeGDTEntry_eq) simp_all
  then have "gdt_structured_to_gdt_loop gdt structured i (int (length structured)) =
      gdt_structured_to_gdt_loop ?g structured (Suc i) (int (length structured))"
    using i by (simp add: gdt_structured_to_gdt_loop.simps [of gdt] run_simps)
  also have "\<dots> = Done (take (8 * Suc i) ?g @ concat (map gdt_bytes (drop (Suc i) structured)) @
      drop (8 * length structured) ?g)"
    using Suc.prems i by (intro Suc.IH) auto
  also have "take (8 * Suc i) ?g = take (8 * i) gdt @ gdt_bytes (structured ! i)"
    using Suc.prems(2) i by simp
  also have "drop (8 * length structured) ?g = drop (8 * length structured) gdt"
    using Suc.prems(2) i by simp
  finally show ?case by (simp add: dr)
qed

lemma decode_gdt_table:
  assumes "\<forall>s \<in> set structured. encodable s" and "i < length structured"
  shows "decode_gdt (concat (map gdt_bytes structured) @ ys) (8 * i) = structured ! i"
proof -
  have "structured = take i structured @ structured ! i # drop (Suc i) structured"
    using assms(2) by (simp add: id_take_nth_drop)
  then have "concat (map gdt_bytes structured) @ ys = concat (map gdt_bytes (take i structured)) @
      gdt_bytes (structured ! i) @ concat (map gdt_bytes (drop (Suc i) structured)) @ ys"
    by (metis append.assoc concat.simps(2) concat_append list.simps(9) map_append)
  moreover have "length (concat (map gdt_bytes (take i structured))) = 8 * i"
    using assms(2) by (simp add: length_concat comp_def sum_list_triv)
  ultimately show ?thesis
    using decode_gdt_bytes [of "structured ! i"] assms by simp
qed

section \<open>Properties\<close>

text \<open>
  C32. The processor sees the segments the kernel asked for: \<open>gdt_structured_to_gdt\<close> of \<open>n\<close>
  descriptors, each with a limit up to 65536 or one whose low 12 bits are ones, fills \<open>8 n\<close> bytes
  of the table, and decoding entry \<open>i\<close> of the table gives back base, limit and type of descriptor
  \<open>i\<close>; the rest of the table is not written.
\<close>

theorem gdt_roundtrip:
  assumes "\<forall>s \<in> set structured. encodable s" and "8 * length structured \<le> length gdt"
  shows "\<exists>gdt'. gdt_structured_to_gdt gdt structured (int (length structured)) = Done gdt' \<and>
    length gdt' = length gdt \<and> drop (8 * length structured) gdt' = drop (8 * length structured) gdt \<and>
    (\<forall>i < length structured. decode_gdt gdt' (8 * i) = structured ! i)"
proof -
  have len: "length (concat (map gdt_bytes structured)) = 8 * length structured"
    by (simp add: length_concat comp_def sum_list_triv)
  show ?thesis
    using gdt_loop_eq [OF assms, of 0] decode_gdt_table [OF assms(1)] assms(2) len
    by (simp add: gdt_structured_to_gdt_def)
qed

text \<open>The segments of \<^verbatim>\<open>kernel.c\<close>, with \<open>tss\<close> the address of the task state segment.\<close>

definition gdt_structured_table :: "addr \<Rightarrow> gdt_structured list" where
  "gdt_structured_table tss =
     [\<lparr>gdt_base = 0, gdt_limit = 0, gdt_type = 0\<rparr>,
      \<lparr>gdt_base = 0, gdt_limit = 0xFFFFFFFF, gdt_type = 0x9A\<rparr>,
      \<lparr>gdt_base = 0, gdt_limit = 0xFFFFFFFF, gdt_type = 0x92\<rparr>,
      \<lparr>gdt_base = 0, gdt_limit = 0xFFFFFFFF, gdt_type = 0xF8\<rparr>,
      \<lparr>gdt_base = 0, gdt_limit = 0xFFFFFFFF, gdt_type = 0xF2\<rparr>,
      \<lparr>gdt_base = tss, gdt_limit = 108, gdt_type = 0xE9\<rparr>]"

theorem gdt_roundtrip_witness:
  "\<exists>gdt'. gdt_structured_to_gdt (replicate 48 0) (gdt_structured_table 0x105000) 6 = Done gdt' \<and>
    decode_gdt gdt' 8 = \<lparr>gdt_base = 0, gdt_limit = 0xFFFFFFFF, gdt_type = 0x9A\<rparr> \<and>
    decode_gdt gdt' 40 = \<lparr>gdt_base = 0x105000, gdt_limit = 108, gdt_type = 0xE9\<rparr>"
proof -
  have "\<forall>s \<in> set (gdt_structured_table 0x105000). encodable s" "length (gdt_structured_table 0x105000) = 6"
    by (simp_all add: gdt_structured_table_def encodable_def)
  from gdt_roundtrip [OF this(1), of "replicate 48 0"] this(2) obtain gdt' where
    1: "gdt_structured_to_gdt (replicate 48 0) (gdt_structured_table 0x105000) 6 = Done gdt'"
    "\<forall>i < 6. decode_gdt gdt' (8 * i) = gdt_structured_table 0x105000 ! i" by auto
  from 1(2) [rule_format, of 1] 1(2) [rule_format, of 5] 1(1) show ?thesis
    by (simp add: gdt_structured_table_def)
qed

text \<open>
  A limit that a descriptor cannot represent is not rounded: \<open>encodeGDTEntry\<close> panics on it
  before it writes anything.
\<close>

theorem encodeGDTEntry_panics:
  assumes "\<not> encodable s"
  shows "encodeGDTEntry target p s = Panic"
  using assms by (simp add: encodeGDTEntry_def encodable_def big_limit)

theorem encodeGDTEntry_panics_witness:
  "encodeGDTEntry [] 0 \<lparr>gdt_base = 0, gdt_limit = 0x12345, gdt_type = 0\<rparr> = Panic"
  by (rule encodeGDTEntry_panics) (simp add: encodable_def)

end
