(* ===== verification/Idt.thy ===== *)
theory Idt
  imports Prelude
begin

text \<open>
  The interrupt descriptor table and the two registries of \<^verbatim>\<open>src/idt/idt.c\<close>: the callbacks of the
  interrupts and the commands of the system call \<^verbatim>\<open>int 0x80\<close>. A function pointer in a registry is
  the name of the function, \<open>None\<close> for null, so the registries are polymorphic in the functions
  that can be registered; theory Kernel supplies them and runs the handlers. The addresses the
  descriptors hold are addresses of assembly entry points, parameters here.
\<close>

section \<open>State\<close>

definition KERNEL_CODE_SELECTOR :: u16 where [conf]: "KERNEL_CODE_SELECTOR = 0x08"
definition PANDORAOS_TOTAL_INTERRUPTS :: nat where [conf]: "PANDORAOS_TOTAL_INTERRUPTS = 512"
definition PANDORA_MAX_ISR80H_COMMANDS :: nat where [conf]: "PANDORA_MAX_ISR80H_COMMANDS = 1024"

record idt_desc =
  offset_1 :: u16
  selector :: u16
  desc_zero :: u8
  type_attr :: u8
  offset2 :: u16

record idtr_desc =
  idtr_limit :: u16
  idtr_base :: addr

text \<open>\<open>idt_at\<close> is the address of the table, \<open>loaded_idtr\<close> what the processor has been given.\<close>

record ('cb, 'cmd) idt_state =
  interrupt_callbacks :: "'cb option list"
  isr80h_commands :: "'cmd option list"
  idt_descriptors :: "idt_desc list"
  idt_at :: addr
  idtr_descriptor :: idtr_desc
  loaded_idtr :: "idtr_desc option"

text \<open>The entry points: \<^verbatim>\<open>interrupt_pointer_table\<close>, \<^verbatim>\<open>idt_zero\<close> and \<^verbatim>\<open>isr80h_wrapper\<close>.\<close>

record entry_points =
  interrupt_pointer_table :: "addr list"
  idt_zero_at :: addr
  isr80h_wrapper_at :: addr

section \<open>Descriptors\<close>

definition idt_set :: "('cb, 'cmd, 'a) idt_state_scheme \<Rightarrow> int \<Rightarrow> addr \<Rightarrow> ('cb, 'cmd, 'a) idt_state_scheme run" where
  "idt_set s interrupt_no address =
     (if interrupt_no < 0 then Fault
      else andthen (wr (idt_descriptors s) (nat interrupt_no)
        \<lparr>offset_1 = ucast (address AND 0x0000FFFF), selector = KERNEL_CODE_SELECTOR, desc_zero = 0,
         type_attr = 0xEE, offset2 = ucast (drop_bit 16 address)\<rparr>) (\<lambda>ds.
        Done (s\<lparr>idt_descriptors := ds\<rparr>)))"

text \<open>The loop of \<open>idt_init\<close> over all vectors, from \<open>i\<close> on.\<close>

function idt_set_all ::
    "('cb, 'cmd, 'a) idt_state_scheme \<Rightarrow> addr list \<Rightarrow> nat \<Rightarrow> ('cb, 'cmd, 'a) idt_state_scheme run" where
  "idt_set_all s entries i =
     (if i < PANDORAOS_TOTAL_INTERRUPTS then
        andthen (rd entries i) (\<lambda>a. andthen (idt_set s (int i) a) (\<lambda>s. idt_set_all s entries (Suc i)))
      else Done s)"
  by pat_completeness auto
termination
  by (relation "measure (\<lambda>(s, entries, i). PANDORAOS_TOTAL_INTERRUPTS - i)") auto

declare idt_set_all.simps [simp del]

section \<open>Registries\<close>

definition idt_register_interrupt_cb ::
    "('cb, 'cmd, 'a) idt_state_scheme \<Rightarrow> int \<Rightarrow> 'cb option \<Rightarrow> (int \<times> ('cb, 'cmd, 'a) idt_state_scheme) run" where
  "idt_register_interrupt_cb s interrupt callback =
     (if interrupt < 0 \<or> interrupt \<ge> int PANDORAOS_TOTAL_INTERRUPTS then Done (- EINVARG, s)
      else andthen (wr (interrupt_callbacks s) (nat interrupt) callback) (\<lambda>cs.
        Done (0, s\<lparr>interrupt_callbacks := cs\<rparr>)))"

text \<open>The loop of \<open>idt_init\<close> that registers the exception handler for vectors \<open>i\<close> to 31.\<close>

function register_exceptions ::
    "('cb, 'cmd, 'a) idt_state_scheme \<Rightarrow> 'cb option \<Rightarrow> nat \<Rightarrow> ('cb, 'cmd, 'a) idt_state_scheme run" where
  "register_exceptions s callback i =
     (if i < 0x20 then
        andthen (idt_register_interrupt_cb s (int i) callback) (\<lambda>(r, s).
        register_exceptions s callback (Suc i))
      else Done s)"
  by pat_completeness auto
termination
  by (relation "measure (\<lambda>(s, callback, i). 0x20 - i)") auto

declare register_exceptions.simps [simp del]

definition zero_desc :: idt_desc where
  "zero_desc = \<lparr>offset_1 = 0, selector = 0, desc_zero = 0, type_attr = 0, offset2 = 0\<rparr>"

text \<open>\<open>exception\<close> and \<open>clock\<close> are the functions \<^verbatim>\<open>idt_handle_exception\<close> and \<^verbatim>\<open>idt_clock\<close>.\<close>

definition idt_init ::
    "entry_points \<Rightarrow> 'cb \<Rightarrow> 'cb \<Rightarrow> ('cb, 'cmd, 'a) idt_state_scheme \<Rightarrow> ('cb, 'cmd, 'a) idt_state_scheme run" where
  "idt_init E exception clock s =
     (let s = s\<lparr>idt_descriptors := replicate PANDORAOS_TOTAL_INTERRUPTS zero_desc,
            idtr_descriptor := \<lparr>idtr_limit = of_nat (8 * PANDORAOS_TOTAL_INTERRUPTS - 1), idtr_base = idt_at s\<rparr>\<rparr>
      in andthen (idt_set_all s (interrupt_pointer_table E) 0) (\<lambda>s.
         andthen (idt_set s 0 (idt_zero_at E)) (\<lambda>s.
         andthen (idt_set s 0x80 (isr80h_wrapper_at E)) (\<lambda>s.
         andthen (register_exceptions s (Some exception) 0) (\<lambda>s.
         andthen (idt_register_interrupt_cb s 0x20 (Some clock)) (\<lambda>(r, s).
         Done (s\<lparr>loaded_idtr := Some (idtr_descriptor s)\<rparr>)))))))"

definition isr80h_register_command ::
    "('cb, 'cmd, 'a) idt_state_scheme \<Rightarrow> int \<Rightarrow> 'cmd option \<Rightarrow> ('cb, 'cmd, 'a) idt_state_scheme run" where
  "isr80h_register_command s command_id command =
     (if command_id < 0 \<or> command_id \<ge> int PANDORA_MAX_ISR80H_COMMANDS then Panic
      else andthen (rd (isr80h_commands s) (nat command_id)) (\<lambda>old.
        if old \<noteq> None then Panic
        else andthen (wr (isr80h_commands s) (nat command_id) command) (\<lambda>cs.
          Done (s\<lparr>isr80h_commands := cs\<rparr>))))"

text \<open>The command a number selects, if any.\<close>

definition isr80h_lookup :: "('cb, 'cmd, 'a) idt_state_scheme \<Rightarrow> int \<Rightarrow> 'cmd option run" where
  "isr80h_lookup s command =
     (if command < 0 \<or> command \<ge> int PANDORA_MAX_ISR80H_COMMANDS then Done None
      else rd (isr80h_commands s) (nat command))"

end
