(* ===== verification/Kernel.thy ===== *)
theory Kernel
  imports Process Terminal Gdt Idt
begin

text \<open>
  The kernel as a whole: the interrupt handlers of \<^verbatim>\<open>src/idt/idt.c\<close>, the system calls of
  \<^verbatim>\<open>src/isr80h\<close> and the boot sequence \<^verbatim>\<open>kernel_main\<close> of \<^verbatim>\<open>src/kernel.c\<close>, over one state that holds
  the memory of theory Process, the screen of theory Terminal, the keyboards of theory Keyboard,
  the registries of theory Idt and the segment descriptors of theory Gdt.
\<close>

section \<open>State\<close>

datatype interrupt_cb = idt_handle_exception_cb | idt_clock_cb | pso2_keyboard_handle_interrupt_cb

datatype isr80h_cmd = command0_sum | command1_print | command2_getkey | command3_putchar |
  command4_malloc | command5_free | command6_process_load_start | command7_invoke_system_command |
  command8_get_program_arguments | command9_exit

text \<open>
  \<open>local_argument\<close> is the address of the local variable \<^verbatim>\<open>argument\<close> of \<^verbatim>\<open>kernel_main\<close>, \<open>tss_at\<close> the
  one of the task state segment, of which \<open>esp0\<close> and \<open>ss0\<close> are set.
\<close>

record 'io kernel = "'io taskmem" +
  idt :: "(interrupt_cb, isr80h_cmd) idt_state"
  screen :: term_state
  kb_objects :: "addr \<Rightarrow> keyboard option"
  kb_list_head :: addr
  kb_list_tail :: addr
  kb_pso2_at :: addr
  gdt_real :: "u8 list"
  gdt_loaded :: bool
  tss_at :: addr
  tss_esp0 :: u32
  tss_ss0 :: u32
  tss_selector :: u16
  paging_enabled :: bool
  local_argument :: addr

text \<open>
  How the kernel is left: by returning to the interrupted program with a result in \<^verbatim>\<open>eax\<close>, or by
  entering user land with other registers.
\<close>

datatype 'm exit = Return addr 'm | Iret registers 'm

section \<open>The keyboard on the state of the kernel\<close>

text \<open>What theory Keyboard works on, with the buffer of the process at \<open>p\<close>, and storing it back.\<close>

definition keys_of :: "('io, 'a) kernel_scheme \<Rightarrow> addr \<Rightarrow> 'io keys" where
  "keys_of m p = \<lparr>keyboards = kb_objects m, keyboard_list_head = kb_list_head m,
     keyboard_list_tail = kb_list_tail m,
     current_keys = map_option keyboard (procs m p), current_dangling = (p \<noteq> 0 \<and> procs m p = None), pso2_at = kb_pso2_at m, kernel_paged = True,
     key_io = disk_io m\<rparr>"

definition put_keys :: "('io, 'a) kernel_scheme \<Rightarrow> addr \<Rightarrow> 'io keys \<Rightarrow> ('io, 'a) kernel_scheme" where
  "put_keys m p k = m\<lparr>kb_objects := keyboards k, kb_list_head := keyboard_list_head k,
     kb_list_tail := keyboard_list_tail k, disk_io := key_io k,
     procs := (case current_keys k of None \<Rightarrow> procs m
       | Some b \<Rightarrow> (case procs m p of None \<Rightarrow> procs m | Some pr \<Rightarrow> (procs m)(p \<mapsto> pr\<lparr>keyboard := b\<rparr>)))\<rparr>"

text \<open>The keyboard interrupt works on the buffer of the current process.\<close>

definition keyboard_interrupt :: "'io ports \<Rightarrow> ('io, 'a) kernel_scheme \<Rightarrow> ('io, 'a) kernel_scheme run" where
  "keyboard_interrupt P m =
     andthen (kernel_page m) (\<lambda>m.
     andthen (pso2_keyboard_handle_interrupt P (keys_of m (process_current m))) (\<lambda>k.
     let m = put_keys m (process_current m) k
     in if kernel_paged k then Done m else task_page m))"

section \<open>Interrupts\<close>

definition no_interrupt_handler :: "'io ports \<Rightarrow> ('io, 'a) kernel_scheme \<Rightarrow> ('io, 'a) kernel_scheme" where
  "no_interrupt_handler P m = m\<lparr>disk_io := outb P 0x20 0x20 (disk_io m)\<rparr>"

text \<open>The text \<^verbatim>\<open>Divide by zero error\<close> and a line feed.\<close>

definition idt_zero_text :: "u8 list" where
  "idt_zero_text = [0x44, 0x69, 0x76, 0x69, 0x64, 0x65, 0x20, 0x62, 0x79, 0x20, 0x7A, 0x65, 0x72,
     0x6F, 0x20, 0x65, 0x72, 0x72, 0x6F, 0x72, 0x0A, 0]"

definition idt_zero :: "('io, 'a) kernel_scheme \<Rightarrow> ('io, 'a) kernel_scheme run" where
  "idt_zero m = andthen (print (screen m) idt_zero_text) (\<lambda>t. Done (m\<lparr>screen := t\<rparr>))"

text \<open>The process of the current task.\<close>

definition task_current_process :: "('io, 'a) taskmem_scheme \<Rightarrow> addr run" where
  "task_current_process m = andthen (deref (tasks m) (task_current m)) (\<lambda>tk. Done (task_process tk))"

definition idt_handle_exception :: "('io, 'a) kernel_scheme \<Rightarrow> (registers \<times> ('io, 'a) kernel_scheme) run" where
  "idt_handle_exception m =
     andthen (task_current_process m) (\<lambda>p.
     andthen (process_terminate m p) (\<lambda>(r, m). task_next m))"

definition idt_clock :: "'io ports \<Rightarrow> ('io, 'a) kernel_scheme \<Rightarrow> (registers \<times> ('io, 'a) kernel_scheme) run" where
  "idt_clock P m = task_next (m\<lparr>disk_io := outb P 0x20 0x20 (disk_io m)\<rparr>)"

text \<open>Calling a callback: the two that end in \<^verbatim>\<open>task_return\<close> do not come back.\<close>

definition call_callback ::
    "'io ports \<Rightarrow> interrupt_cb \<Rightarrow> ('io, 'a) kernel_scheme \<Rightarrow> ('io, 'a) kernel_scheme exit run" where
  "call_callback P cb m =
     (case cb of
        idt_handle_exception_cb \<Rightarrow> andthen (idt_handle_exception m) (\<lambda>(r, m). Done (Iret r m))
      | idt_clock_cb \<Rightarrow> andthen (idt_clock P m) (\<lambda>(r, m). Done (Iret r m))
      | pso2_keyboard_handle_interrupt_cb \<Rightarrow> andthen (keyboard_interrupt P m) (\<lambda>m. Done (Return 0 m)))"

definition interrupt_handler ::
    "'io ports \<Rightarrow> ('io, 'a) kernel_scheme \<Rightarrow> int \<Rightarrow> interrupt_frame \<Rightarrow> ('io, 'a) kernel_scheme exit run" where
  "interrupt_handler P m interrupt frame =
     andthen (kernel_page m) (\<lambda>m.
     if interrupt < 0 then Fault
     else andthen (rd (interrupt_callbacks (idt m)) (nat interrupt)) (\<lambda>cb.
       andthen (case cb of
           None \<Rightarrow> Done (Return 0 m)
         | Some f \<Rightarrow> andthen (task_current_save_state m frame) (\<lambda>m. call_callback P f m)) (\<lambda>e.
       case e of
         Iret r m \<Rightarrow> Done (Iret r m)
       | Return v m \<Rightarrow> andthen (task_page m) (\<lambda>m.
           Done (Return 0 (m\<lparr>disk_io := outb P 0x20 0x20 (disk_io m)\<rparr>))))))"

section \<open>System calls\<close>

text \<open>
  A stack item of the current task, and the same for a command that continues with the value and
  the memory.
\<close>

definition stack_item ::
    "('io, 'a) kernel_scheme \<Rightarrow> int \<Rightarrow> (addr \<times> ('io, 'a) kernel_scheme) run" where
  "stack_item m index = task_get_stack_item m (task_current m) index"

definition isr80h_command0_sum :: "('io, 'a) kernel_scheme \<Rightarrow> ('io, 'a) kernel_scheme exit run" where
  "isr80h_command0_sum m =
     andthen (stack_item m 1) (\<lambda>(v2, m). andthen (stack_item m 0) (\<lambda>(v1, m). Done (Return (v1 + v2) m)))"

definition isr80h_command1_print :: "('io, 'a) kernel_scheme \<Rightarrow> ('io, 'a) kernel_scheme exit run" where
  "isr80h_command1_print m =
     andthen (stack_item m 0) (\<lambda>(msg, m).
     andthen (copy_string_from_task m (task_current m) msg (replicate 1024 0xCC) 1024) (\<lambda>(res, buf, m).
     andthen (print (screen m) buf) (\<lambda>t. Done (Return 0 (m\<lparr>screen := t\<rparr>)))))"

text \<open>\<open>keyboard_pop\<close> takes from the buffer of the process of the current task.\<close>

definition isr80h_command2_getkey :: "('io, 'a) kernel_scheme \<Rightarrow> ('io, 'a) kernel_scheme exit run" where
  "isr80h_command2_getkey m =
     (if task_current m = 0 then Done (Return 0 m)
      else andthen (task_current_process m) (\<lambda>p.
        andthen (deref (procs m) p) (\<lambda>pr.
        andthen (keyboard_pop (keys_of m p)) (\<lambda>(c, k).
        Done (Return (u32_of_int (sint c)) (put_keys m p k))))))"

definition isr80h_command3_putchar :: "('io, 'a) kernel_scheme \<Rightarrow> ('io, 'a) kernel_scheme exit run" where
  "isr80h_command3_putchar m =
     andthen (stack_item m 0) (\<lambda>(c, m).
     andthen (terminal_writechar (screen m) (ucast c) 15) (\<lambda>t. Done (Return 0 (m\<lparr>screen := t\<rparr>))))"

definition isr80h_command4_malloc :: "('io, 'a) kernel_scheme \<Rightarrow> ('io, 'a) kernel_scheme exit run" where
  "isr80h_command4_malloc m =
     andthen (stack_item m 0) (\<lambda>(sz, m).
     andthen (task_current_process m) (\<lambda>p.
     andthen (process_malloc m p sz) (\<lambda>(a, m). Done (Return a m))))"

definition isr80h_command5_free :: "('io, 'a) kernel_scheme \<Rightarrow> ('io, 'a) kernel_scheme exit run" where
  "isr80h_command5_free m =
     andthen (stack_item m 0) (\<lambda>(a, m).
     andthen (task_current_process m) (\<lambda>p.
     andthen (process_free m p a) (\<lambda>m. Done (Return 0 m))))"

text \<open>Switching to the task of a process and entering it.\<close>

definition enter_process ::
    "('io, 'a) kernel_scheme \<Rightarrow> addr \<Rightarrow> ('io, 'a) kernel_scheme exit run" where
  "enter_process m p =
     andthen (deref (procs m) p) (\<lambda>pr.
     andthen (task_switch m (proc_task pr)) (\<lambda>m.
     andthen (task_return m (proc_task pr)) (\<lambda>(r, m). Done (Iret r m))))"

text \<open>The string \<^verbatim>\<open>"0:/"\<close>, and uninitialised path buffers of 108 bytes.\<close>

definition drive_prefix :: "u8 list" where "drive_prefix = [0x30, 0x3A, 0x2F, 0]"
definition stale_path :: "u8 list" where "stale_path = replicate PANDORA_MAX_PATH 0xCC"

definition isr80h_command6_process_load_start ::
    "'io ports \<Rightarrow> ('io, 'a) kernel_scheme \<Rightarrow> ('io, 'a) kernel_scheme exit run" where
  "isr80h_command6_process_load_start P m =
     andthen (stack_item m 0) (\<lambda>(ptr, m).
     andthen (copy_string_from_task m (task_current m) ptr stale_path (int PANDORA_MAX_PATH)) (\<lambda>(res, fname, m).
     if res < 0 then Done (Return 0 m)
     else andthen (strcpy stale_path drive_prefix) (\<lambda>path.
       andthen (strcpy (drop 3 path) fname) (\<lambda>rest.
       andthen (process_load_switch P m (take 3 path @ rest) 0) (\<lambda>(res, p, m).
       if res < 0 then Done (Return 0 m) else enter_process m p)))))"

definition isr80h_command7_invoke_system_command ::
    "'io ports \<Rightarrow> ('io, 'a) kernel_scheme \<Rightarrow> ('io, 'a) kernel_scheme exit run" where
  "isr80h_command7_invoke_system_command P m =
     andthen (stack_item m 0) (\<lambda>(v, m).
     andthen (task_virtual_address_to_physical m (task_current m) v) (\<lambda>arguments.
     if arguments = 0 then Done (Return (ERROR (- EINVARG)) m)
     else andthen (strlen (pbytes m arguments 512)) (\<lambda>len.
       if len = 0 then Done (Return (ERROR (- EINVARG)) m)
       else andthen (strcpy stale_path drive_prefix) (\<lambda>path.
         andthen (strncpy (drop 3 path) (pbytes m arguments 512) (int PANDORA_MAX_PATH)) (\<lambda>rest.
         andthen (process_load_switch P m (take 3 path @ rest) 0) (\<lambda>(res, p, m).
         if res < 0 then Done (Return (ERROR res) m)
         else andthen (process_inject_arguments m p arguments) (\<lambda>(res, m).
           if res < 0 then Done (Return (ERROR res) m) else enter_process m p)))))))"

text \<open>Storing a word at a physical address inside a kernel buffer.\<close>

definition pstore32 :: "('io, 'a) kernel_scheme \<Rightarrow> addr \<Rightarrow> u32 \<Rightarrow> ('io, 'a) kernel_scheme run" where
  "pstore32 m a v =
     (case buffer_of m a of
        None \<Rightarrow> Fault
      | Some p \<Rightarrow> andthen (deref (bufs m) p) (\<lambda>b. andthen (st32 b (unat (a - p)) v) (\<lambda>b.
          Done (m\<lparr>bufs := (bufs m)(p \<mapsto> b)\<rparr>))))"

definition isr80h_command8_get_program_arguments ::
    "('io, 'a) kernel_scheme \<Rightarrow> ('io, 'a) kernel_scheme exit run" where
  "isr80h_command8_get_program_arguments m =
     andthen (task_current_process m) (\<lambda>p.
     andthen (stack_item m 0) (\<lambda>(v, m).
     andthen (task_virtual_address_to_physical m (task_current m) v) (\<lambda>a.
     andthen (process_get_arguments m p) (\<lambda>(n, av).
     andthen (pstore32 m a (u32_of_int n)) (\<lambda>m.
     andthen (pstore32 m (a + 4) av) (\<lambda>m. Done (Return 0 m)))))))"

definition isr80h_command9_exit :: "('io, 'a) kernel_scheme \<Rightarrow> ('io, 'a) kernel_scheme exit run" where
  "isr80h_command9_exit m =
     andthen (task_current_process m) (\<lambda>p.
     andthen (process_terminate m p) (\<lambda>(r, m).
     andthen (task_next m) (\<lambda>(r, m). Done (Iret r m))))"

definition call_command ::
    "'io ports \<Rightarrow> isr80h_cmd \<Rightarrow> ('io, 'a) kernel_scheme \<Rightarrow> ('io, 'a) kernel_scheme exit run" where
  "call_command P c m =
     (case c of
        command0_sum \<Rightarrow> isr80h_command0_sum m
      | command1_print \<Rightarrow> isr80h_command1_print m
      | command2_getkey \<Rightarrow> isr80h_command2_getkey m
      | command3_putchar \<Rightarrow> isr80h_command3_putchar m
      | command4_malloc \<Rightarrow> isr80h_command4_malloc m
      | command5_free \<Rightarrow> isr80h_command5_free m
      | command6_process_load_start \<Rightarrow> isr80h_command6_process_load_start P m
      | command7_invoke_system_command \<Rightarrow> isr80h_command7_invoke_system_command P m
      | command8_get_program_arguments \<Rightarrow> isr80h_command8_get_program_arguments m
      | command9_exit \<Rightarrow> isr80h_command9_exit m)"

definition isr80h_handle_command ::
    "'io ports \<Rightarrow> ('io, 'a) kernel_scheme \<Rightarrow> int \<Rightarrow> ('io, 'a) kernel_scheme exit run" where
  "isr80h_handle_command P m command =
     andthen (isr80h_lookup (idt m) command) (\<lambda>f.
     case f of None \<Rightarrow> Done (Return 0 m) | Some c \<Rightarrow> call_command P c m)"

definition isr80h_handler ::
    "'io ports \<Rightarrow> ('io, 'a) kernel_scheme \<Rightarrow> int \<Rightarrow> interrupt_frame \<Rightarrow> ('io, 'a) kernel_scheme exit run" where
  "isr80h_handler P m command frame =
     andthen (kernel_page m) (\<lambda>m.
     andthen (task_current_save_state m frame) (\<lambda>m.
     andthen (isr80h_handle_command P m command) (\<lambda>e.
     case e of
       Iret r m \<Rightarrow> Done (Iret r m)
     | Return v m \<Rightarrow> andthen (task_page m) (\<lambda>m. Done (Return v m)))))"

section \<open>Boot\<close>

text \<open>The numbers of the commands, in the order of the enumeration.\<close>

definition command_table :: "isr80h_cmd list" where
  "command_table = [command0_sum, command1_print, command2_getkey, command3_putchar, command4_malloc,
     command5_free, command6_process_load_start, command7_invoke_system_command,
     command8_get_program_arguments, command9_exit]"

fun register_commands ::
    "(interrupt_cb, isr80h_cmd) idt_state \<Rightarrow> isr80h_cmd list \<Rightarrow> int \<Rightarrow> (interrupt_cb, isr80h_cmd) idt_state run" where
  "register_commands s [] i = Done s"
| "register_commands s (c # cs) i =
     andthen (isr80h_register_command s i (Some c)) (\<lambda>s. register_commands s cs (i + 1))"

definition isr80h_register_commands :: "('io, 'a) kernel_scheme \<Rightarrow> ('io, 'a) kernel_scheme run" where
  "isr80h_register_commands m =
     andthen (register_commands (idt m) command_table 0) (\<lambda>s. Done (m\<lparr>idt := s\<rparr>))"

text \<open>The initialisation of the keyboards; \<^verbatim>\<open>pso2_keyboard_init\<close> is the only function of its kind.\<close>

definition call_keyboard_init ::
    "'io ports \<Rightarrow> ('io, (interrupt_cb, isr80h_cmd) idt_state) keys_scheme \<Rightarrow>
      (int \<times> ('io, (interrupt_cb, isr80h_cmd) idt_state) keys_scheme) run" where
  "call_keyboard_init P k =
     andthen (pso2_keyboard_init P
       (\<lambda>i s. case idt_register_interrupt_cb s i (Some pso2_keyboard_handle_interrupt_cb) of
          Done r \<Rightarrow> snd r | Panic \<Rightarrow> s | Fault \<Rightarrow> s) k (keys.more k)) (\<lambda>(res, k, s).
     Done (res, keys.more_update (\<lambda>_. s) k))"

definition kernel_keyboard_init :: "'io ports \<Rightarrow> ('io, 'a) kernel_scheme \<Rightarrow> ('io, 'a) kernel_scheme run" where
  "kernel_keyboard_init P m =
     andthen (keyboard_init (\<lambda>a. call_keyboard_init P)
       (keys.extend (keys_of m (process_current m)) (idt m))) (\<lambda>k.
     Done ((put_keys m (process_current m) (keys.truncate k))\<lparr>idt := keys.more k\<rparr>))"

text \<open>The messages of the boot sequence, the path of the program and its two arguments.\<close>

definition terminal_text :: "u8 list" where
  "terminal_text = [0x74, 0x65, 0x72, 0x6D, 0x69, 0x6E, 0x61, 0x6C, 0x20, 0x69, 0x6E, 0x69, 0x74, 0x69,
     0x61, 0x6C, 0x69, 0x7A, 0x65, 0x64, 0x2E, 0x2E, 0x2E, 0x0A, 0]"

definition gdt_text :: "u8 list" where
  "gdt_text = [0x47, 0x44, 0x54, 0x20, 0x6C, 0x6F, 0x61, 0x64, 0x65, 0x64, 0x2E, 0x2E, 0x2E, 0x0A, 0]"

definition heap_text :: "u8 list" where
  "heap_text = [0x68, 0x65, 0x61, 0x70, 0x20, 0x69, 0x6E, 0x69, 0x74, 0x69, 0x61, 0x6C, 0x69, 0x7A,
     0x65, 0x64, 0x2E, 0x2E, 0x2E, 0x0A, 0]"

definition fs_text :: "u8 list" where
  "fs_text = [0x66, 0x69, 0x6C, 0x65, 0x73, 0x79, 0x74, 0x65, 0x6D, 0x73, 0x20, 0x69, 0x6E, 0x69,
     0x74, 0x69, 0x61, 0x6C, 0x69, 0x7A, 0x65, 0x64, 0x2E, 0x2E, 0x2E, 0x0A, 0]"

definition disk_text :: "u8 list" where
  "disk_text = [0x64, 0x69, 0x73, 0x6B, 0x73, 0x20, 0x66, 0x6F, 0x75, 0x6E, 0x64, 0x20, 0x61, 0x6E,
     0x64, 0x20, 0x69, 0x6E, 0x69, 0x74, 0x69, 0x61, 0x6C, 0x69, 0x7A, 0x65, 0x64, 0x2E,
     0x2E, 0x2E, 0x0A, 0]"

definition idt_text :: "u8 list" where
  "idt_text = [0x49, 0x44, 0x54, 0x20, 0x69, 0x6E, 0x69, 0x74, 0x69, 0x61, 0x6C, 0x69, 0x7A, 0x65,
     0x64, 0x2E, 0x2E, 0x2E, 0x0A, 0]"

definition tss_text :: "u8 list" where
  "tss_text = [0x54, 0x53, 0x53, 0x20, 0x69, 0x6E, 0x69, 0x74, 0x69, 0x61, 0x6C, 0x69, 0x7A, 0x65,
     0x64, 0x20, 0x61, 0x6E, 0x64, 0x20, 0x6C, 0x6F, 0x61, 0x64, 0x65, 0x64, 0x2E, 0x2E,
     0x2E, 0x0A, 0]"

definition paging_text :: "u8 list" where
  "paging_text = [0x70, 0x61, 0x67, 0x69, 0x6E, 0x67, 0x20, 0x65, 0x6E, 0x61, 0x62, 0x6C, 0x65, 0x64,
     0x2E, 0x2E, 0x2E, 0x0A, 0]"

definition commands_text :: "u8 list" where
  "commands_text = [0x6B, 0x65, 0x72, 0x6E, 0x65, 0x6C, 0x20, 0x63, 0x6F, 0x6D, 0x6D, 0x61, 0x6E, 0x64,
     0x73, 0x20, 0x72, 0x65, 0x67, 0x69, 0x73, 0x74, 0x65, 0x72, 0x65, 0x64, 0x2E, 0x2E,
     0x2E, 0x0A, 0]"

definition keyboard_text :: "u8 list" where
  "keyboard_text = [0x6B, 0x65, 0x79, 0x62, 0x6F, 0x61, 0x72, 0x64, 0x20, 0x69, 0x6E, 0x69, 0x74, 0x69,
     0x61, 0x6C, 0x69, 0x7A, 0x65, 0x64, 0x2E, 0x2E, 0x2E, 0x0A, 0x0A, 0]"

definition program_path :: "u8 list" where
  "program_path = [0x30, 0x3A, 0x2F, 0x62, 0x6C, 0x61, 0x6E, 0x6B, 0x2E, 0x65, 0x6C, 0x66, 0]"

definition argument1 :: "u8 list" where
  "argument1 = [0x54, 0x65, 0x73, 0x74, 0x69, 0x6E, 0x67, 0x21, 0]"

definition argument2 :: "u8 list" where
  "argument2 = [0x41, 0x62, 0x63, 0x21, 0]"

definition kprint :: "('io, 'a) kernel_scheme \<Rightarrow> u8 list \<Rightarrow> ('io, 'a) kernel_scheme run" where
  "kprint m s = andthen (print (screen m) s) (\<lambda>t. Done (m\<lparr>screen := t\<rparr>))"

definition PANDORA_TOTAL_GDT_SEGMENTS :: nat where [conf]: "PANDORA_TOTAL_GDT_SEGMENTS = 6"
definition KERNEL_DATA_SELECTOR :: u32 where [conf]: "KERNEL_DATA_SELECTOR = 0x10"

text \<open>
  The boot sequence up to the initialisation of the keyboards; \<open>vga\<close> is the video memory,
  \<open>table_mem\<close> the memory the table of the heap is put in.
\<close>

definition boot_segments :: "u16 list \<Rightarrow> ('io, 'a) kernel_scheme \<Rightarrow> ('io, 'a) kernel_scheme run" where
  "boot_segments vga m =
     andthen (terminal_initialize vga) (\<lambda>t.
     andthen (kprint (m\<lparr>screen := t\<rparr>) terminal_text) (\<lambda>m.
     andthen (memset (gdt_real m) 0 (8 * of_nat PANDORA_TOTAL_GDT_SEGMENTS)) (\<lambda>g.
     andthen (gdt_structured_to_gdt g (gdt_structured_table (tss_at m)) (int PANDORA_TOTAL_GDT_SEGMENTS)) (\<lambda>g.
     kprint (m\<lparr>gdt_real := g, gdt_loaded := True\<rparr>) gdt_text))))"

definition boot_files :: "'io ports \<Rightarrow> u8 list \<Rightarrow> ('io, 'a) kernel_scheme \<Rightarrow> ('io, 'a) kernel_scheme run" where
  "boot_files P table_mem m =
     andthen (kheap_init (kernel_heap m) table_mem) (\<lambda>hp.
     andthen (kprint (m\<lparr>kernel_heap := hp\<rparr>) heap_text) (\<lambda>m.
     andthen (fs_init m) (\<lambda>m.
     andthen (kprint m fs_text) (\<lambda>m.
     andthen (disk_search_and_init P m) (\<lambda>m.
     kprint m disk_text)))))"

definition boot_interrupts ::
    "'io ports \<Rightarrow> entry_points \<Rightarrow> ('io, 'a) kernel_scheme \<Rightarrow> ('io, 'a) kernel_scheme run" where
  "boot_interrupts P E m =
     andthen (idt_init E idt_handle_exception_cb idt_clock_cb (idt m)) (\<lambda>s.
     andthen (kprint (m\<lparr>idt := s\<rparr>) idt_text) (\<lambda>m.
     andthen (kprint (m\<lparr>tss_esp0 := 0x600000, tss_ss0 := KERNEL_DATA_SELECTOR, tss_selector := 0x28\<rparr>) tss_text) (\<lambda>m.
     andthen (paging_new_4gb m (ucast user_flags)) (\<lambda>(chunk, m).
     andthen (paging_switch (m\<lparr>kernel_chunk := chunk\<rparr>) chunk) (\<lambda>m.
     andthen (kprint (m\<lparr>paging_enabled := True\<rparr>) paging_text) (\<lambda>m.
     andthen (isr80h_register_commands m) (\<lambda>m.
     andthen (kprint m commands_text) (\<lambda>m.
     andthen (kernel_keyboard_init P m) (\<lambda>m.
     kprint m keyboard_text)))))))))"

text \<open>Loading the program and giving it an argument, which is a local variable of \<^verbatim>\<open>kernel_main\<close>.\<close>

definition boot_program ::
    "'io ports \<Rightarrow> ('io, 'a) kernel_scheme \<Rightarrow> addr \<Rightarrow> u8 list \<Rightarrow> (addr \<times> ('io, 'a) kernel_scheme) run" where
  "boot_program P m process arg =
     andthen (process_load_switch P m program_path process) (\<lambda>(res, process, m).
     if res \<noteq> PANDORAOS_ALL_OK then Panic
     else andthen (deref (bufs m) (local_argument m)) (\<lambda>b.
       andthen (strcpy b arg) (\<lambda>b.
       andthen (st32 b 512 0) (\<lambda>b.
       andthen (process_inject_arguments (m\<lparr>bufs := (bufs m)(local_argument m \<mapsto> b)\<rparr>) process (local_argument m)) (\<lambda>(r, m).
       Done (process, m))))))"

definition kernel_main ::
    "'io ports \<Rightarrow> entry_points \<Rightarrow> u16 list \<Rightarrow> u8 list \<Rightarrow> ('io, 'a) kernel_scheme \<Rightarrow> (registers \<times> ('io, 'a) kernel_scheme) run" where
  "kernel_main P E vga table_mem m =
     andthen (boot_segments vga m) (\<lambda>m.
     andthen (boot_files P table_mem m) (\<lambda>m.
     andthen (boot_interrupts P E m) (\<lambda>m.
     andthen (boot_program P m 0 argument1) (\<lambda>(process, m).
     andthen (boot_program P m process argument2) (\<lambda>(process, m).
     task_run_first_task m)))))"

end
