(* ===== verification/Scheduler.thy ===== *)
theory Scheduler
  imports Kernel
begin

text \<open>
  The tasks as a ring: the invariant of the doubly linked list of \<^verbatim>\<open>src/task/task.c\<close>
  (\<open>task_ring\<close>), what a sequence of clock interrupts does to it, each through the whole path
  \<open>interrupt_handler\<close>, \<open>task_current_save_state\<close>, \<open>idt_clock\<close>, \<open>task_next\<close>, \<open>task_return\<close>,
  and what the removal of a task leaves behind.
\<close>

section \<open>The ring of tasks\<close>

definition task_ring :: "('io, 'a) taskmem_scheme \<Rightarrow> addr list \<Rightarrow> bool" where
  "task_ring m ts \<longleftrightarrow> ts \<noteq> [] \<and> distinct ts \<and> 0 \<notin> set ts \<and> task_head m = hd ts \<and> task_tail m = last ts \<and>
     (\<forall>i < length ts. \<exists>tk. tasks m (ts ! i) = Some tk \<and>
        task_next_link tk = (if Suc i < length ts then ts ! Suc i else 0) \<and>
        task_prev_link tk = (if i = 0 then 0 else ts ! (i - 1)))"

text \<open>Every task of the ring has an address space.\<close>

definition spaces_ok :: "('io, 'a) taskmem_scheme \<Rightarrow> addr list \<Rightarrow> bool" where
  "spaces_ok m ts \<longleftrightarrow> (\<forall>t \<in> set ts. \<forall>tk. tasks m t = Some tk \<longrightarrow> chunks m (page_directory tk) \<noteq> None)"

lemma task_ringE:
  assumes "task_ring m ts" and "i < length ts"
  obtains tk where "tasks m (ts ! i) = Some tk" and "ts ! i \<noteq> 0"
    and "task_next_link tk = (if Suc i < length ts then ts ! Suc i else 0)"
    and "task_prev_link tk = (if i = 0 then 0 else ts ! (i - 1))"
  using assms unfolding task_ring_def by (metis nth_mem)

lemma task_ring_nonzero: "task_ring m ts \<Longrightarrow> i < length ts \<Longrightarrow> ts ! i \<noteq> 0"
  using nth_mem unfolding task_ring_def by fastforce

text \<open>The scheduler goes to the next task of the list, from the last one to the first.\<close>

lemma task_get_next_ring:
  assumes "task_ring m ts" and "i < length ts" and "current_task m = ts ! i"
  shows "task_get_next m = Done (ts ! (Suc i mod length ts))"
proof -
  from assms(1,2) obtain tk where tk: "tasks m (ts ! i) = Some tk"
    "task_next_link tk = (if Suc i < length ts then ts ! Suc i else 0)" by (rule task_ringE)
  show ?thesis
  proof (cases "Suc i < length ts")
    case True
    then show ?thesis using tk task_ring_nonzero [OF assms(1) True] assms(3)
      by (simp add: task_get_next_def deref_Some del: andthen_eq_Done)
  next
    case False
    then have "Suc i = length ts" using assms(2) by simp
    moreover have "ts ! 0 = task_head m" using assms(1) by (simp add: task_ring_def hd_conv_nth)
    ultimately show ?thesis using tk assms(3)
      by (simp add: task_get_next_def deref_Some del: andthen_eq_Done)
  qed
qed

section \<open>Saved registers\<close>

text \<open>The registers an interrupt frame holds, and the registers a task is resumed with.\<close>

definition frame_registers :: "interrupt_frame \<Rightarrow> registers" where
  "frame_registers f = \<lparr>edi = f_edi f, esi = f_esi f, ebp = f_ebp f, ebx = f_ebx f, edx = f_edx f,
     ecx = f_ecx f, eax = f_eax f, ip = f_ip f, cs_reg = f_cs f, flags = f_flags f, esp = f_esp f, ss_reg = f_ss f\<rparr>"

definition resumed :: "registers \<Rightarrow> registers" where
  "resumed r = r\<lparr>flags := flags r OR 0x200\<rparr>"

definition saved :: "('io, 'a) taskmem_scheme \<Rightarrow> addr \<Rightarrow> registers" where
  "saved m t = task_registers (the (tasks m t))"

text \<open>The task \<open>t\<close> with the registers \<open>r\<close>.\<close>

definition with_registers :: "('io, 'a) taskmem_scheme \<Rightarrow> addr \<Rightarrow> registers \<Rightarrow> ('io, 'a) taskmem_scheme" where
  "with_registers m t r = m\<lparr>tasks := (tasks m)(t \<mapsto> (the (tasks m t))\<lparr>task_registers := r\<rparr>)\<rparr>"

lemma task_current_save_state_eq:
  assumes "tasks m (current_task m) = Some tk" and "current_task m \<noteq> 0"
  shows "task_current_save_state m f = Done (with_registers m (current_task m) (frame_registers f))"
  using assms by (cases "task_registers tk") (simp add: task_current_save_state_def task_current_def task_save_state_def
      update_task_def deref_Some with_registers_def frame_registers_def del: andthen_eq_Done)

lemma with_registers_ring:
  assumes "task_ring m ts" and "t \<in> set ts"
  shows "task_ring (with_registers m t r) ts"
proof -
  have "\<exists>tk. tasks (with_registers m t r) (ts ! i) = Some tk \<and>
      task_next_link tk = (if Suc i < length ts then ts ! Suc i else 0) \<and>
      task_prev_link tk = (if i = 0 then 0 else ts ! (i - 1))" if i: "i < length ts" for i
    by (rule task_ringE [OF assms(1) i]) (auto simp: with_registers_def)
  then show ?thesis using assms(1) unfolding task_ring_def by (auto simp: with_registers_def)
qed

lemma with_registers_spaces:
  assumes "spaces_ok m ts" and "tasks m t = Some tk" and "t \<in> set ts"
  shows "spaces_ok (with_registers m t r) ts"
  using assms unfolding spaces_ok_def with_registers_def by auto

lemma saved_with_registers: "saved (with_registers m t r) u = (if u = t then r else saved m u)"
  by (simp add: saved_def with_registers_def)

section \<open>Clock interrupts\<close>

text \<open>
  The state in which the clock can interrupt a task: the ring, an address space for the kernel and for
  every task, and the clock handler in its place.
\<close>

definition clock_ready :: "('io, 'a) kernel_scheme \<Rightarrow> addr list \<Rightarrow> bool" where
  "clock_ready m ts \<longleftrightarrow> task_ring m ts \<and> spaces_ok m ts \<and> chunks m (kernel_chunk m) \<noteq> None \<and>
     0x20 < length (interrupt_callbacks (idt m)) \<and> interrupt_callbacks (idt m) ! 0x20 = Some idt_clock_cb"

lemma kernel_page_eq:
  "chunks m (kernel_chunk m) = Some d \<Longrightarrow>
    kernel_page m = Done (m\<lparr>user_segments := False, cr3 := d, current_directory := d\<rparr>)"
  by (simp add: kernel_page_def paging_switch_def deref_Some del: andthen_eq_Done)

lemma task_next_ring:
  assumes "task_ring m ts" and "spaces_ok m ts" and "i < length ts" and "current_task m = ts ! i"
  shows "\<exists>d. task_next m = Done (resumed (saved m (ts ! (Suc i mod length ts))),
      m\<lparr>current_task := ts ! (Suc i mod length ts), cr3 := d, current_directory := d, user_segments := True\<rparr>)"
proof -
  let ?j = "Suc i mod length ts"
  have j: "?j < length ts" using assms(3) by (intro mod_less_divisor) linarith
  from assms(1) j obtain tk where tk: "tasks m (ts ! ?j) = Some tk" "ts ! ?j \<noteq> 0" by (rule task_ringE)
  obtain d where d: "chunks m (page_directory tk) = Some d"
    using assms(2) tk(1) nth_mem [OF j] unfolding spaces_ok_def by blast
  have "task_next m = Done (resumed (saved m (ts ! ?j)),
      m\<lparr>current_task := ts ! ?j, cr3 := d, current_directory := d, user_segments := True\<rparr>)"
    using task_get_next_ring [OF assms(1,3,4)] tk d
    by (simp add: task_next_def task_switch_def paging_switch_def task_return_def user_registers_def deref_Some
        resumed_def saved_def Let_def del: andthen_eq_Done)
  then show ?thesis by blast
qed

lemma clock_step:
  assumes "clock_ready m ts" and "i < length ts" and "current_task m = ts ! i"
  shows "\<exists>m'. interrupt_handler P m 0x20 f =
      Done (Iret (resumed (if length ts = 1 then frame_registers f else saved m (ts ! (Suc i mod length ts)))) m') \<and>
    clock_ready m' ts \<and> current_task m' = ts ! (Suc i mod length ts) \<and>
    (\<forall>t. saved m' t = (if t = ts ! i then frame_registers f else saved m t))"
proof -
  let ?j = "Suc i mod length ts"
  obtain d where d: "chunks m (kernel_chunk m) = Some d" using assms(1) by (auto simp: clock_ready_def)
  define m1 where "m1 = m\<lparr>user_segments := False, cr3 := d, current_directory := d\<rparr>"
  have ring: "task_ring m ts" and sp: "spaces_ok m ts" using assms(1) by (simp_all add: clock_ready_def)
  then have r1: "task_ring m1 ts" "spaces_ok m1 ts" by (simp_all add: task_ring_def spaces_ok_def m1_def)
  from r1(1) assms(2) obtain tk where tk: "tasks m1 (ts ! i) = Some tk" "ts ! i \<noteq> 0" by (rule task_ringE)
  have c1: "current_task m1 = ts ! i" using assms(3) by (simp add: m1_def)
  define m2 where "m2 = with_registers m1 (ts ! i) (frame_registers f)"
  have save: "task_current_save_state m1 f = Done m2"
    using task_current_save_state_eq [of m1 tk f] tk by (simp add: c1 m2_def)
  define m3 where "m3 = m2\<lparr>disk_io := outb P 0x20 0x20 (disk_io m2)\<rparr>"
  have mem: "ts ! i \<in> set ts" using assms(2) by simp
  have r3: "task_ring m3 ts" "spaces_ok m3 ts"
    using with_registers_ring [OF r1(1) mem] with_registers_spaces [OF r1(2) tk(1) mem]
    by (simp_all add: task_ring_def spaces_ok_def m3_def m2_def)
  have c3: "current_task m3 = ts ! i" using c1 by (simp add: m3_def m2_def with_registers_def)
  have s3: "saved m3 t = (if t = ts ! i then frame_registers f else saved m t)" for t
    using saved_with_registers [of m1 "ts ! i" "frame_registers f" t] by (simp add: m3_def m2_def saved_def m1_def)
  from task_next_ring [OF r3 assms(2) c3] obtain e where
    nx: "task_next m3 = Done (resumed (saved m3 (ts ! ?j)),
      m3\<lparr>current_task := ts ! ?j, cr3 := e, current_directory := e, user_segments := True\<rparr>)" by blast
  have "ts ! ?j = ts ! i \<longleftrightarrow> length ts = 1"
  proof -
    have "?j = i \<longleftrightarrow> length ts = 1" using assms(2) by (cases "Suc i = length ts") auto
    moreover have "distinct ts" "?j < length ts" using ring assms(2) by (auto simp: task_ring_def)
    ultimately show ?thesis using assms(2) by (simp add: nth_eq_iff_index_eq)
  qed
  then have regs: "saved m3 (ts ! ?j) = (if length ts = 1 then frame_registers f else saved m (ts ! ?j))"
    using s3 by simp
  have cb: "rd (interrupt_callbacks (idt m1)) 0x20 = Done (Some idt_clock_cb)"
    using assms(1) by (simp add: clock_ready_def m1_def)
  have "interrupt_handler P m 0x20 f = Done (Iret (resumed (saved m3 (ts ! ?j)))
      (m3\<lparr>current_task := ts ! ?j, cr3 := e, current_directory := e, user_segments := True\<rparr>))"
    using cb save nx kernel_page_eq [OF d]
    by (simp add: interrupt_handler_def call_callback_def idt_clock_def m1_def [symmetric] m3_def [symmetric]
        del: andthen_eq_Done rd_eq_Done)
  moreover have "clock_ready (m3\<lparr>current_task := ts ! ?j, cr3 := e, current_directory := e, user_segments := True\<rparr>) ts"
    using r3 assms(1) by (simp add: clock_ready_def task_ring_def spaces_ok_def m3_def m2_def m1_def with_registers_def)
  ultimately show ?thesis using s3 unfolding regs by (auto simp: saved_def)
qed

text \<open>A sequence of clock interrupts that find the user program with the frames \<open>fs\<close>.\<close>

fun clocks :: "'io ports \<Rightarrow> ('io, 'a) kernel_scheme \<Rightarrow> interrupt_frame list \<Rightarrow>
    (registers list \<times> ('io, 'a) kernel_scheme) run" where
  "clocks P m [] = Done ([], m)"
| "clocks P m (f # fs) =
     andthen (interrupt_handler P m 0x20 f) (\<lambda>e.
     case e of
       Return v m \<Rightarrow> Fault
     | Iret r m \<Rightarrow> andthen (clocks P m fs) (\<lambda>(rs, m). Done (r # rs, m)))"

lemma clocks_round:
  assumes "clock_ready m ts" and "i < length ts" and "current_task m = ts ! i"
  shows "\<exists>rs m'. clocks P m fs = Done (rs, m') \<and> clock_ready m' ts \<and> current_task m' = ts ! ((i + length fs) mod length ts) \<and>
    length rs = length fs \<and>
    (\<forall>k < length fs. rs ! k = resumed (if Suc k < length ts then saved m (ts ! ((i + Suc k) mod length ts))
       else frame_registers (fs ! (Suc k - length ts))))"
  using assms
proof (induction fs arbitrary: m i)
  case Nil
  then show ?case by simp
next
  case (Cons f fs)
  let ?n = "length ts" and ?j = "Suc i mod length ts"
  have n: "0 < ?n" using Cons.prems(2) by linarith
  then have j: "?j < ?n" by simp
  from clock_step [OF Cons.prems, of P f] obtain m1 where
    1: "interrupt_handler P m 0x20 f = Done (Iret (resumed (if ?n = 1 then frame_registers f else saved m (ts ! ?j))) m1)"
      "clock_ready m1 ts" "current_task m1 = ts ! ?j"
    and s1: "\<forall>t. saved m1 t = (if t = ts ! i then frame_registers f else saved m t)" by blast
  from Cons.IH [OF 1(2) j 1(3)] obtain rs m2 where
    2: "clocks P m1 fs = Done (rs, m2)" "clock_ready m2 ts" "current_task m2 = ts ! ((?j + length fs) mod ?n)"
      "length rs = length fs"
    and r2: "\<forall>k < length fs. rs ! k = resumed (if Suc k < ?n then saved m1 (ts ! ((?j + Suc k) mod ?n))
       else frame_registers (fs ! (Suc k - ?n)))" by blast
  have shift: "(?j + k) mod ?n = (i + Suc k) mod ?n" for k by (simp add: mod_add_left_eq)
  let ?r = "resumed (if ?n = 1 then frame_registers f else saved m (ts ! ?j))"
  have nth: "(?r # rs) ! k = resumed (if Suc k < ?n then saved m (ts ! ((i + Suc k) mod ?n))
       else frame_registers ((f # fs) ! (Suc k - ?n)))" if k: "k < length (f # fs)" for k
  proof (cases k)
    case 0
    have "?n = 1 \<or> Suc 0 < ?n" using n by linarith
    then show ?thesis using 0 by auto
  next
    case (Suc l)
    have l: "rs ! l = resumed (if Suc l < ?n then saved m1 (ts ! ((i + Suc k) mod ?n))
       else frame_registers (fs ! (Suc l - ?n)))"
      using r2 k Suc shift [of "Suc l"] by simp
    have cyc: "ts ! ((i + Suc k) mod ?n) = ts ! i \<longleftrightarrow> Suc k = ?n" if "Suc l < ?n"
    proof -
      have "distinct ts" using Cons.prems(1) by (simp add: clock_ready_def task_ring_def)
      moreover have "(i + Suc k) mod ?n = i \<longleftrightarrow> Suc k = ?n"
        using that Suc Cons.prems(2) by (cases "i + Suc k < ?n") (auto simp: mod_if)
      moreover have "(i + Suc k) mod ?n < ?n" using n by simp
      ultimately show ?thesis using Cons.prems(2) by (simp only: nth_eq_iff_index_eq)
    qed
    show ?thesis
    proof (cases "Suc l < ?n")
      case True
      then show ?thesis using l cyc [OF True] s1 Suc by auto
    next
      case False
      then have "Suc k - ?n = Suc (Suc l - ?n)" using Suc by simp
      then show ?thesis using l False Suc by simp
    qed
  qed
  have "clocks P m (f # fs) = Done (?r # rs, m2)" using 1(1) 2(1) by simp
  then show ?case using 2 nth shift [of "length fs"] by (intro exI [of _ "?r # rs"] exI [of _ m2]) simp
qed

section \<open>Removal of a task\<close>

lemma task_list_remove_first:
  assumes "tasks m t = Some tk" and "task_prev_link tk = 0"
  shows "\<exists>m'. task_list_remove m t = Done m' \<and> tasks m' = tasks m \<and>
    (t = task_head m \<longrightarrow> task_head m' = task_next_link tk)"
  using assms by (auto simp: task_list_remove_def deref_Some task_get_next_def Let_def simp del: andthen_eq_Done)

lemma task_list_remove_later:
  assumes "tasks m t = Some tk" and "task_prev_link tk = p" and "p \<noteq> 0" and "p \<noteq> t" and "tasks m p = Some pk"
  shows "\<exists>m'. task_list_remove m t = Done m' \<and> tasks m' = (tasks m)(p \<mapsto> pk\<lparr>task_next_link := task_next_link tk\<rparr>)"
  using assms by (auto simp: task_list_remove_def deref_Some update_task_def task_get_next_def Let_def
      simp del: andthen_eq_Done)

lemma task_list_remove_gone:
  assumes "tasks m u = Some uk" and "task_prev_link uk = t" and "t \<noteq> 0" and "tasks m t = None"
  shows "task_list_remove m u = Fault"
  using assms by (simp add: task_list_remove_def deref_Some deref_None update_task_def del: andthen_eq_Done)

section \<open>A kernel with two tasks\<close>

definition sim_idt :: "(interrupt_cb, isr80h_cmd) idt_state" where
  "sim_idt = \<lparr>interrupt_callbacks = (replicate 512 None)[0x20 := Some idt_clock_cb], isr80h_commands = replicate 1024 None,
     idt_descriptors = replicate 512 zero_desc, idt_at = 0x120000, idtr_descriptor = \<lparr>idtr_limit = 0, idtr_base = 0\<rparr>,
     loaded_idtr = None\<rparr>"

text \<open>The tasks are at 0x1400000 and 0x1401000; chunks at 0x1402000 on describe the address spaces.\<close>

definition sim_task :: "addr \<Rightarrow> addr \<Rightarrow> addr \<Rightarrow> task" where
  "sim_task entry nxt prv = \<lparr>page_directory = 0x1403000, task_registers = zero_registers\<lparr>ip := entry\<rparr>,
     task_process = 0x1404000, task_next_link = nxt, task_prev_link = prv\<rparr>"

definition sim_kernel :: "sim kernel" where
  "sim_kernel = \<lparr>kernel_heap = boot_heap, bufs = Map.empty, ptables = Map.empty,
     chunks = [0x1402000 \<mapsto> 0x1405000, 0x1403000 \<mapsto> 0x1406000], current_directory = 0, cr3 = 0,
     path_roots = Map.empty, path_parts = Map.empty, disk_io = (\<lambda>_. 0, None), disk_at = 0x200000,
     the_disk = \<lparr>disk_type = 0, sector_size = 512, disk_id = 0, filesystem = 0, fs_private = 0\<rparr>,
     streams = Map.empty, fat16_fs_at = 0x210000, fat16_fs_name = replicate 20 0, fat_privates = Map.empty,
     fat_directories = Map.empty, fat_items = Map.empty, fat_descriptors = Map.empty,
     filesystems = replicate 12 0, file_descriptors = replicate 512 0, fdescs = Map.empty, elf_files = Map.empty,
     tasks = [0x1400000 \<mapsto> sim_task 0x400000 0x1401000 0, 0x1401000 \<mapsto> sim_task 0x400010 0 0x1400000],
     current_task = 0x1400000, task_tail = 0x1401000, task_head = 0x1400000, kernel_chunk = 0x1402000,
     user_segments = True, procs = Map.empty, current_process = 0, processes = replicate 12 0,
     idt = sim_idt, screen = \<lparr>video_mem = [], terminal_row = 0, terminal_col = 0\<rparr>, kb_objects = Map.empty,
     kb_list_head = 0, kb_list_tail = 0, kb_pso2_at = 0x220000, gdt_real = replicate 48 0, gdt_loaded = True,
     tss_at = 0x230000, tss_esp0 = 0x600000, tss_ss0 = 0x10, tss_selector = 0x28, paging_enabled = True,
     local_argument = 0x5FF000\<rparr>"

lemma sim_ring: "task_ring sim_kernel [0x1400000, 0x1401000]"
  unfolding task_ring_def by (auto simp: sim_kernel_def sim_task_def less_2_cases_iff)

lemma sim_clock_ready: "clock_ready sim_kernel [0x1400000, 0x1401000]"
  using sim_ring by (auto simp: clock_ready_def spaces_ok_def sim_kernel_def sim_idt_def sim_task_def)

section \<open>Properties\<close>

text \<open>
  C5. The scheduler is fair and transparent: from a ring of \<open>n\<close> tasks of which number \<open>i\<close> runs, any
  sequence of clock interrupts is handled, the \<open>k\<close>-th of them (from 0) resumes task \<open>i + k + 1\<close> modulo
  \<open>n\<close>, and it resumes it with the registers it had when it was last interrupted: with the ones saved before
  if it has not run since, and otherwise with exactly those of the frame of the interrupt that stopped it,
  \<open>n - 1\<close> interrupts earlier; only the interrupt flag is set. So every task runs again after at
  most \<open>n\<close> interrupts.
\<close>

theorem clock_round_robin:
  assumes "clock_ready m ts" and "i < length ts" and "current_task m = ts ! i"
  shows "\<exists>rs m'. clocks P m fs = Done (rs, m') \<and> current_task m' = ts ! ((i + length fs) mod length ts) \<and>
    length rs = length fs \<and>
    (\<forall>k < length fs. rs ! k = resumed (if Suc k < length ts then saved m (ts ! ((i + Suc k) mod length ts))
       else frame_registers (fs ! (Suc k - length ts))))"
  using clocks_round [OF assms, of P fs] by blast

theorem clock_round_robin_witness:
  "\<forall>f g. \<exists>r1 r2 m'. clocks (sim_ports sim_image) sim_kernel [f, g] = Done ([r1, r2], m') \<and>
    ip r1 = 0x400010 \<and> r2 = resumed (frame_registers f) \<and> current_task m' = 0x1400000"
proof (intro allI)
  fix f g
  from clock_round_robin [OF sim_clock_ready, of 0 "sim_ports sim_image" "[f, g]"] obtain rs m' where
    1: "clocks (sim_ports sim_image) sim_kernel [f, g] = Done (rs, m')" "current_task m' = 0x1400000" "length rs = 2"
    and 2: "\<forall>k < 2. rs ! k = resumed (if Suc k < 2 then saved sim_kernel ([0x1400000, 0x1401000] ! ((0 + Suc k) mod 2))
       else frame_registers ([f, g] ! (Suc k - 2)))"
    by (auto simp: sim_kernel_def)
  from 1(3) obtain r1 r2 where rs: "rs = [r1, r2]" by (auto simp: numeral_2_eq_2 length_Suc_conv)
  have "ip r1 = 0x400010" "r2 = resumed (frame_registers f)"
    using 2 [rule_format, of 0] 2 [rule_format, of 1]
    by (simp_all add: rs saved_def sim_kernel_def sim_task_def resumed_def zero_registers_def)
  then show "\<exists>r1 r2 m'. clocks (sim_ports sim_image) sim_kernel [f, g] = Done ([r1, r2], m') \<and>
    ip r1 = 0x400010 \<and> r2 = resumed (frame_registers f) \<and> current_task m' = 0x1400000" using 1 rs by blast
qed

text \<open>
  C39. Removing a task that has a successor keeps the list intact forwards only: the predecessor (or the
  head of the list) leads to the successor, but the successor still points back to the task that has been
  removed. Once that task is freed, the removal of the successor writes through the dangling pointer: the
  kernel corrupts memory when a task ends and later the task behind it.
\<close>

theorem task_list_remove_dangles:
  assumes "task_ring m ts" and "Suc i < length ts"
  shows "\<exists>m'. task_list_remove m (ts ! i) = Done m' \<and>
    (if i = 0 then task_head m' = ts ! 1
     else \<exists>tk. tasks m' (ts ! (i - 1)) = Some tk \<and> task_next_link tk = ts ! Suc i) \<and>
    task_list_remove (m'\<lparr>tasks := (tasks m')(ts ! i := None)\<rparr>) (ts ! Suc i) = Fault"
proof -
  have i: "i < length ts" using assms(2) by simp
  from assms(1) i obtain tk where t: "tasks m (ts ! i) = Some tk" "ts ! i \<noteq> 0"
    "task_next_link tk = ts ! Suc i" "task_prev_link tk = (if i = 0 then 0 else ts ! (i - 1))"
    by (rule task_ringE) (use assms(2) in simp)
  from assms obtain uk where u: "tasks m (ts ! Suc i) = Some uk" "task_prev_link uk = ts ! i"
    by (rule task_ringE) simp
  have d: "distinct ts" using assms(1) by (simp add: task_ring_def)
  then have ut: "ts ! Suc i \<noteq> ts ! i" using assms(2) i by (simp add: nth_eq_iff_index_eq)
  show ?thesis
  proof (cases "i = 0")
    case True
    then have "ts ! i = task_head m" using assms(1) by (simp add: task_ring_def hd_conv_nth)
    with task_list_remove_first [OF t(1)] t True obtain m' where
      1: "task_list_remove m (ts ! i) = Done m'" "tasks m' = tasks m" "task_head m' = ts ! 1" by auto
    have "task_list_remove (m'\<lparr>tasks := (tasks m')(ts ! i := None)\<rparr>) (ts ! Suc i) = Fault"
      by (rule task_list_remove_gone [of _ _ uk "ts ! i"]) (use u ut t(2) 1(2) in simp_all)
    then show ?thesis using 1 True by auto
  next
    case False
    then have p: "i - 1 < length ts" using i by simp
    from assms(1) p obtain pk where pk: "tasks m (ts ! (i - 1)) = Some pk" "ts ! (i - 1) \<noteq> 0" by (rule task_ringE)
    have ne: "ts ! (i - 1) \<noteq> ts ! i" "ts ! (i - 1) \<noteq> ts ! Suc i"
      using d p i assms(2) False by (simp_all add: nth_eq_iff_index_eq)
    from task_list_remove_later [OF t(1) _ pk(2) ne(1) pk(1)] t(4) False obtain m' where
      1: "task_list_remove m (ts ! i) = Done m'" "tasks m' = (tasks m)(ts ! (i - 1) \<mapsto> pk\<lparr>task_next_link := ts ! Suc i\<rparr>)"
      by (auto simp: t(3))
    have "task_list_remove (m'\<lparr>tasks := (tasks m')(ts ! i := None)\<rparr>) (ts ! Suc i) = Fault"
      by (rule task_list_remove_gone [of _ _ uk "ts ! i"]) (use u ut ne t(2) 1(2) in simp_all)
    then show ?thesis using 1 False by auto
  qed
qed

theorem task_list_remove_dangles_witness:
  "\<exists>m'. task_list_remove sim_kernel 0x1400000 = Done m' \<and> task_head m' = 0x1401000 \<and>
    task_list_remove (m'\<lparr>tasks := (tasks m')(0x1400000 := None)\<rparr>) 0x1401000 = Fault"
  using task_list_remove_dangles [OF sim_ring, of 0] by simp

end
