(* ===== verification/Traps.thy ===== *)
theory Traps
  imports Scheduler
begin

text \<open>
  How interrupts and system calls find their handlers: the descriptors \<open>idt_init\<close> writes and the callbacks
  it registers, the commands \<open>isr80h_register_commands\<close> makes available, and what happens to the number of a
  system call for which there is none.
\<close>

section \<open>Descriptors\<close>

text \<open>The address the processor jumps to through a descriptor.\<close>

definition handler_address :: "idt_desc \<Rightarrow> addr" where
  "handler_address d = push_bit 16 (ucast (offset2 d)) OR ucast (offset_1 d)"

definition gate :: "addr \<Rightarrow> idt_desc" where
  "gate a = \<lparr>offset_1 = ucast (a AND 0x0000FFFF), selector = KERNEL_CODE_SELECTOR, desc_zero = 0,
     type_attr = 0xEE, offset2 = ucast (drop_bit 16 a)\<rparr>"

lemma handler_address_gate: "handler_address (gate a) = a"
proof (rule bit_word_eqI)
  fix n
  assume n: "n < LENGTH(32)"
  have m: "(0xFFFF :: u32) = mask 16" by (simp add: mask_eq_decr_exp)
  show "bit (handler_address (gate a)) n = bit a n"
    using n by (auto simp: handler_address_def gate_def m bit_simps)
qed

lemma idt_set_eq:
  "i < length (idt_descriptors s) \<Longrightarrow>
    idt_set s (int i) a = Done (s\<lparr>idt_descriptors := (idt_descriptors s)[i := gate a]\<rparr>)"
  by (simp add: idt_set_def gate_def wr_in del: andthen_eq_Done wr_eq_Done)

lemma idt_set_all_eq:
  "\<lbrakk>length vecs = 512; length (idt_descriptors s) = 512; i \<le> 512\<rbrakk> \<Longrightarrow>
    idt_set_all s vecs i = Done (s\<lparr>idt_descriptors := take i (idt_descriptors s) @ map gate (drop i vecs)\<rparr>)"
proof (induction "512 - i" arbitrary: i s)
  case 0
  then show ?case by (simp add: idt_set_all.simps [of s vecs 512] PANDORAOS_TOTAL_INTERRUPTS_def)
next
  case (Suc n)
  then have i: "i < 512" by simp
  let ?s = "s\<lparr>idt_descriptors := (idt_descriptors s)[i := gate (vecs ! i)]\<rparr>"
  have "idt_set_all s vecs i = idt_set_all ?s vecs (Suc i)"
    using i Suc.prems by (simp add: idt_set_all.simps [of s vecs i] PANDORAOS_TOTAL_INTERRUPTS_def rd_in idt_set_eq
      del: andthen_eq_Done rd_eq_Done)
  also have "\<dots> = Done (?s\<lparr>idt_descriptors := take (Suc i) (idt_descriptors ?s) @ map gate (drop (Suc i) vecs)\<rparr>)"
    using Suc.hyps(2) Suc.prems i by (intro Suc.hyps(1)) auto
  also have "take (Suc i) (idt_descriptors ?s) = take i (idt_descriptors s) @ [gate (vecs ! i)]"
    using i Suc.prems by (simp add: take_Suc_conv_app_nth)
  finally show ?case using i Suc.prems by (simp add: Cons_nth_drop_Suc [symmetric])
qed

lemma idt_register_interrupt_cb_eq:
  "i < 512 \<Longrightarrow> length (interrupt_callbacks s) = 512 \<Longrightarrow>
    idt_register_interrupt_cb s (int i) cb = Done (0, s\<lparr>interrupt_callbacks := (interrupt_callbacks s)[i := cb]\<rparr>)"
  by (simp add: idt_register_interrupt_cb_def PANDORAOS_TOTAL_INTERRUPTS_def wr_in del: andthen_eq_Done wr_eq_Done)

lemma register_exceptions_eq:
  "\<lbrakk>length (interrupt_callbacks s) = 512; i \<le> 32\<rbrakk> \<Longrightarrow>
    register_exceptions s cb i = Done (s\<lparr>interrupt_callbacks :=
      take i (interrupt_callbacks s) @ replicate (32 - i) cb @ drop 32 (interrupt_callbacks s)\<rparr>)"
proof (induction "32 - i" arbitrary: i s)
  case 0
  then show ?case by (simp add: register_exceptions.simps [of s cb 32])
next
  case (Suc n)
  then have i: "i < 32" by simp
  let ?s = "s\<lparr>interrupt_callbacks := (interrupt_callbacks s)[i := cb]\<rparr>"
  have "register_exceptions s cb i = register_exceptions ?s cb (Suc i)"
    using i Suc.prems by (simp add: register_exceptions.simps [of s cb i] idt_register_interrupt_cb_eq del: andthen_eq_Done)
  also have "\<dots> = Done (?s\<lparr>interrupt_callbacks := take (Suc i) (interrupt_callbacks ?s) @ replicate (32 - Suc i) cb @
      drop 32 (interrupt_callbacks ?s)\<rparr>)"
    using Suc.hyps(2) Suc.prems i by (intro Suc.hyps(1)) auto
  also have "take (Suc i) (interrupt_callbacks ?s) = take i (interrupt_callbacks s) @ [cb]"
    using i Suc.prems by (simp add: take_Suc_conv_app_nth)
  finally have "register_exceptions s cb i = Done (s\<lparr>interrupt_callbacks := take i (interrupt_callbacks s) @
      (cb # replicate (32 - Suc i) cb) @ drop 32 (interrupt_callbacks s)\<rparr>)" using i Suc.prems by simp
  moreover have "cb # replicate (32 - Suc i) cb = replicate (32 - i) cb" using i by (metis Suc_diff_Suc replicate_Suc)
  ultimately show ?case by simp
qed

section \<open>Commands\<close>

lemma isr80h_register_command_eq:
  "\<lbrakk>i < 1024; length (isr80h_commands s) = 1024; isr80h_commands s ! i = None\<rbrakk> \<Longrightarrow>
    isr80h_register_command s (int i) c = Done (s\<lparr>isr80h_commands := (isr80h_commands s)[i := c]\<rparr>)"
  by (simp add: isr80h_register_command_def PANDORA_MAX_ISR80H_COMMANDS_def rd_in wr_in
      del: andthen_eq_Done rd_eq_Done wr_eq_Done)

lemma register_commands_eq:
  "\<lbrakk>length (isr80h_commands s) = 1024; i + length cs \<le> 1024; \<forall>j < length cs. isr80h_commands s ! (i + j) = None\<rbrakk> \<Longrightarrow>
    register_commands s cs (int i) = Done (s\<lparr>isr80h_commands :=
      take i (isr80h_commands s) @ map Some cs @ drop (i + length cs) (isr80h_commands s)\<rparr>)"
proof (induction cs arbitrary: s i)
  case Nil
  then show ?case by simp
next
  case (Cons c cs)
  let ?s = "s\<lparr>isr80h_commands := (isr80h_commands s)[i := Some c]\<rparr>"
  have i: "i < 1024" "isr80h_commands s ! i = None" using Cons.prems(2,3) by force+
  have "register_commands s (c # cs) (int i) = register_commands ?s cs (int (Suc i))"
    using isr80h_register_command_eq [OF i(1) Cons.prems(1) i(2), of "Some c"] by (simp add: add.commute)
  also have "\<dots> = Done (?s\<lparr>isr80h_commands :=
      take (Suc i) (isr80h_commands ?s) @ map Some cs @ drop (Suc i + length cs) (isr80h_commands ?s)\<rparr>)"
    using Cons.prems by (intro Cons.IH) (auto simp: nth_list_update)
  also have "take (Suc i) (isr80h_commands ?s) = take i (isr80h_commands s) @ [Some c]"
    using i Cons.prems(1) by (simp add: take_Suc_conv_app_nth)
  finally show ?case by simp
qed

text \<open>The state in which a system call finds its task.\<close>

definition call_ready :: "('io, 'a) kernel_scheme \<Rightarrow> task \<Rightarrow> bool" where
  "call_ready m tk \<longleftrightarrow> chunks m (kernel_chunk m) \<noteq> None \<and> current_task m \<noteq> 0 \<and>
     tasks m (current_task m) = Some tk \<and> chunks m (page_directory tk) \<noteq> None"

section \<open>Properties\<close>

text \<open>
  C25. After \<open>idt_init\<close> every vector of the loaded table leads to its handler: decoded the way the
  processor does it, descriptor \<open>i\<close> is the \<open>i\<close>-th entry of the table of assembly stubs, but vector 0 leads to
  \<open>idt_zero\<close> and 0x80 to the system call wrapper; all are interrupt gates a user program may call. The callback of the
  exceptions 0 to 31 is \<open>idt_handle_exception\<close>, the one of vector 32 \<open>idt_clock\<close>, and no other is touched.
\<close>

theorem idt_init_vectors:
  assumes "length (interrupt_pointer_table E) = 512" and "length (interrupt_callbacks s) = 512"
  shows "\<exists>s'. idt_init E ex ck s = Done s' \<and> loaded_idtr s' = Some \<lparr>idtr_limit = 4095, idtr_base = idt_at s\<rparr> \<and>
    length (idt_descriptors s') = 512 \<and>
    (\<forall>i < 512. handler_address (idt_descriptors s' ! i) =
        (if i = 0 then idt_zero_at E else if i = 0x80 then isr80h_wrapper_at E else interrupt_pointer_table E ! i) \<and>
      type_attr (idt_descriptors s' ! i) = 0xEE \<and> selector (idt_descriptors s' ! i) = KERNEL_CODE_SELECTOR) \<and>
    (\<forall>i < 512. interrupt_callbacks s' ! i = (if i < 32 then Some ex else if i = 32 then Some ck else interrupt_callbacks s ! i))"
proof -
  let ?s0 = "s\<lparr>idt_descriptors := replicate 512 zero_desc, idtr_descriptor := \<lparr>idtr_limit = 4095, idtr_base = idt_at s\<rparr>\<rparr>"
  let ?ds = "(map gate (interrupt_pointer_table E))[0 := gate (idt_zero_at E), 0x80 := gate (isr80h_wrapper_at E)]"
  let ?cs = "(replicate 32 (Some ex) @ drop 32 (interrupt_callbacks s))[0x20 := Some ck]"
  let ?s' = "?s0\<lparr>idt_descriptors := ?ds, interrupt_callbacks := ?cs, loaded_idtr := Some \<lparr>idtr_limit = 4095, idtr_base = idt_at s\<rparr>\<rparr>"
  have a: "idt_set_all ?s0 (interrupt_pointer_table E) 0 = Done (?s0\<lparr>idt_descriptors := map gate (interrupt_pointer_table E)\<rparr>)"
    using idt_set_all_eq [of "interrupt_pointer_table E" ?s0 0] assms(1) by simp
  have ne: "interrupt_pointer_table E \<noteq> []" using assms(1) by force
  have "idt_init E ex ck s = Done ?s'"
    unfolding idt_init_def
    using a assms ne
    by (simp add: PANDORAOS_TOTAL_INTERRUPTS_def Let_def idt_set_eq [of 0, simplified] idt_set_eq [of "0x80", simplified]
        register_exceptions_eq idt_register_interrupt_cb_eq [of "0x20", simplified] del: andthen_eq_Done)
  moreover have "?ds ! i = gate (if i = 0 then idt_zero_at E else if i = 0x80 then isr80h_wrapper_at E
      else interrupt_pointer_table E ! i)" if "i < 512" for i
    using that assms(1) by (simp add: nth_list_update)
  moreover have "?cs ! i = (if i < 32 then Some ex else if i = 32 then Some ck else interrupt_callbacks s ! i)" if "i < 512" for i
    using that assms(2) by (simp add: nth_list_update nth_append)
  ultimately show ?thesis using assms(1)
    by (intro exI [of _ ?s']) (simp add: handler_address_gate, simp add: gate_def)
qed

definition sim_entries :: entry_points where
  "sim_entries = \<lparr>interrupt_pointer_table = map (\<lambda>i. 0x101000 + 0x10 * of_nat i) [0..<512], idt_zero_at = 0x104000,
     isr80h_wrapper_at = 0x105000\<rparr>"

theorem idt_init_vectors_witness:
  "\<exists>s'. idt_init sim_entries idt_handle_exception_cb idt_clock_cb sim_idt = Done s' \<and>
    handler_address (idt_descriptors s' ! 0x80) = 0x105000 \<and> handler_address (idt_descriptors s' ! 33) = 0x101210 \<and>
    interrupt_callbacks s' ! 32 = Some idt_clock_cb"
proof -
  from idt_init_vectors [of sim_entries sim_idt idt_handle_exception_cb idt_clock_cb] obtain s' where
    1: "idt_init sim_entries idt_handle_exception_cb idt_clock_cb sim_idt = Done s'"
    and 2: "\<forall>i < 512. handler_address (idt_descriptors s' ! i) = (if i = 0 then idt_zero_at sim_entries
      else if i = 0x80 then isr80h_wrapper_at sim_entries else interrupt_pointer_table sim_entries ! i)"
    and 3: "\<forall>i < 512. interrupt_callbacks s' ! i = (if i < 32 then Some idt_handle_exception_cb
      else if i = 32 then Some idt_clock_cb else interrupt_callbacks sim_idt ! i)"
    by (auto simp: sim_entries_def sim_idt_def)
  show ?thesis using 1 2 [rule_format, of "0x80"] 2 [rule_format, of 33] 3 [rule_format, of 32]
    by (simp add: sim_entries_def)
qed

text \<open>
  C26. The registration at boot makes exactly the ten commands of the kernel available: afterwards a system
  call with the number \<open>c\<close> runs the \<open>c\<close>-th command of the enumeration, and any other number, negative and
  huge ones included, runs none and returns 0. A second registration panics.
\<close>

theorem register_commands_dispatch:
  assumes "isr80h_commands (idt m) = replicate 1024 None"
  shows "\<exists>m'. isr80h_register_commands m = Done m' \<and> m' = m\<lparr>idt := idt m'\<rparr> \<and>
    (\<forall>c. isr80h_handle_command P m' c =
      (if 0 \<le> c \<and> c < 10 then call_command P (command_table ! nat c) m' else Done (Return 0 m'))) \<and>
    isr80h_register_commands m' = Panic"
proof -
  let ?cs = "map Some command_table @ replicate 1014 None"
  let ?m = "m\<lparr>idt := (idt m)\<lparr>isr80h_commands := ?cs\<rparr>\<rparr>"
  have len: "length command_table = 10" by (simp add: command_table_def)
  have "register_commands (idt m) command_table (int 0) = Done ((idt m)\<lparr>isr80h_commands :=
      take 0 (isr80h_commands (idt m)) @ map Some command_table @ drop (0 + length command_table) (isr80h_commands (idt m))\<rparr>)"
    by (rule register_commands_eq) (simp_all add: assms len)
  then have reg: "isr80h_register_commands m = Done ?m"
    by (simp add: isr80h_register_commands_def assms len del: andthen_eq_Done)
  have look: "isr80h_lookup (idt ?m) c = Done (if 0 \<le> c \<and> c < 10 then Some (command_table ! nat c) else None)" for c
  proof (cases "0 \<le> c \<and> c < 1024")
    case True
    then have "nat c < 1024" by (simp add: nat_less_iff)
    then have "?cs ! nat c = (if c < 10 then Some (command_table ! nat c) else None)"
      using True by (auto simp: nth_append len nat_less_iff)
    then show ?thesis using True \<open>nat c < 1024\<close> by (simp add: isr80h_lookup_def PANDORA_MAX_ISR80H_COMMANDS_def rd_def len)
  qed (auto simp: isr80h_lookup_def PANDORA_MAX_ISR80H_COMMANDS_def)
  have "isr80h_register_commands ?m = Panic"
    by (simp add: isr80h_register_commands_def command_table_def isr80h_register_command_def
        PANDORA_MAX_ISR80H_COMMANDS_def rd_def)
  moreover have "isr80h_handle_command P ?m c =
      (if 0 \<le> c \<and> c < 10 then call_command P (command_table ! nat c) ?m else Done (Return 0 ?m))" for c
    unfolding isr80h_handle_command_def look by simp
  ultimately show ?thesis using reg by (intro exI [of _ ?m]) simp
qed

theorem register_commands_dispatch_witness:
  "\<exists>m'. isr80h_register_commands sim_kernel = Done m' \<and>
    isr80h_handle_command (sim_ports sim_image) m' 10 = Done (Return 0 m') \<and>
    isr80h_handle_command (sim_ports sim_image) m' 0 = isr80h_command0_sum m'"
  using register_commands_dispatch [of sim_kernel "sim_ports sim_image"]
  by (auto simp: sim_kernel_def sim_idt_def call_command_def command_table_def)

text \<open>
  A system call that no command answers is harmless and silent: the whole path of \<open>isr80h_handler\<close>
  saves the registers of the caller, returns 0 to it in its own address space with the user segments
  restored, and changes nothing else in the kernel.
\<close>

theorem unknown_system_call:
  assumes "call_ready m tk" and "isr80h_lookup (idt m) c = Done None"
  shows "\<exists>d. chunks m (page_directory tk) = Some d \<and>
    isr80h_handler P m c f = Done (Return 0 ((with_registers m (current_task m) (frame_registers f))
      \<lparr>user_segments := True, cr3 := d, current_directory := d\<rparr>))"
proof -
  from assms(1) obtain k d where kd: "chunks m (kernel_chunk m) = Some k" "chunks m (page_directory tk) = Some d"
    "current_task m \<noteq> 0" "tasks m (current_task m) = Some tk" by (auto simp: call_ready_def)
  let ?m1 = "m\<lparr>user_segments := False, cr3 := k, current_directory := k\<rparr>"
  have save: "task_current_save_state ?m1 f = Done (with_registers ?m1 (current_task m) (frame_registers f))"
    using task_current_save_state_eq [of ?m1 tk f] kd(3,4) by simp
  have "isr80h_handler P m c f = Done (Return 0 ((with_registers m (current_task m) (frame_registers f))
      \<lparr>user_segments := True, cr3 := d, current_directory := d\<rparr>))"
    unfolding isr80h_handler_def kernel_page_eq [OF kd(1)] andthen.simps save isr80h_handle_command_def
    using assms(2) kd(2,4)
    by (simp add: with_registers_def task_page_def task_switch_def user_registers_def paging_switch_def deref_Some
        del: andthen_eq_Done)
  with kd(2) show ?thesis by blast
qed

theorem unknown_system_call_witness:
  "\<forall>f. \<exists>m'. isr80h_handler (sim_ports sim_image) sim_kernel (- 5) f = Done (Return 0 m') \<and>
    saved m' 0x1400000 = frame_registers f \<and> current_task m' = 0x1400000"
proof
  fix f
  have "call_ready sim_kernel (sim_task 0x400000 0x1401000 0)" by (simp add: call_ready_def sim_kernel_def sim_task_def)
  moreover have "isr80h_lookup (idt sim_kernel) (- 5) = Done None" by (simp add: isr80h_lookup_def)
  ultimately have "\<exists>d. chunks sim_kernel (page_directory (sim_task 0x400000 0x1401000 0)) = Some d \<and>
    isr80h_handler (sim_ports sim_image) sim_kernel (- 5) f = Done (Return 0 ((with_registers sim_kernel (current_task sim_kernel)
      (frame_registers f))\<lparr>user_segments := True, cr3 := d, current_directory := d\<rparr>))"
    by (rule unknown_system_call)
  then show "\<exists>m'. isr80h_handler (sim_ports sim_image) sim_kernel (- 5) f = Done (Return 0 m') \<and>
    saved m' 0x1400000 = frame_registers f \<and> current_task m' = 0x1400000"
    by (auto simp: saved_def with_registers_def sim_kernel_def)
qed

end
