(* ===== verification/Input.thy ===== *)
theory Input
  imports Traps
begin

text \<open>
  From the keyboard to the program: the interrupt of the PS/2 driver (\<^verbatim>\<open>src/keyboard/pso2.c\<close>), which appends
  the character to the queue of the current process, and the system call \<open>isr80h_command2_getkey\<close>
  (\<^verbatim>\<open>src/isr80h/io.c\<close>), with which the program takes it out, each through its whole path in the kernel.
\<close>

section \<open>The state\<close>

text \<open>
  The program that runs belongs to the current process, the driver and the command are registered, and
  the queue of the process is well-formed.
\<close>

definition input_ready :: "('io, 'a) kernel_scheme \<Rightarrow> process \<Rightarrow> keyboard \<Rightarrow> bool" where
  "input_ready m pr kb \<longleftrightarrow> (\<exists>tk. call_ready m tk \<and> task_process tk = current_process m) \<and>
     procs m (current_process m) = Some pr \<and> keys_ok (keyboard pr) \<and> kb_objects m (kb_pso2_at m) = Some kb \<and>
     rd (interrupt_callbacks (idt m)) 0x21 = Done (Some pso2_keyboard_handle_interrupt_cb) \<and>
     isr80h_lookup (idt m) 2 = Done (Some command2_getkey)"

lemma input_readyE:
  assumes "input_ready m pr kb"
  obtains tk k d where "current_task m \<noteq> 0" "tasks m (current_task m) = Some tk" "task_process tk = current_process m"
    "chunks m (kernel_chunk m) = Some k" "chunks m (page_directory tk) = Some d"
  using assms unfolding input_ready_def call_ready_def by blast

text \<open>The kernel after a call that changes the queue: the registers are saved, the task continues.\<close>

definition after_input ::
    "('io, 'a) kernel_scheme \<Rightarrow> interrupt_frame \<Rightarrow> keyboard_buffer \<Rightarrow> ('io, 'a) kernel_scheme \<Rightarrow> bool" where
  "after_input m f b m' \<longleftrightarrow> tasks m' = (tasks m)(current_task m \<mapsto>
       (the (tasks m (current_task m)))\<lparr>task_registers := frame_registers f\<rparr>) \<and>
     current_task m' = current_task m \<and> current_process m' = current_process m \<and> chunks m' = chunks m \<and>
     kernel_chunk m' = kernel_chunk m \<and> idt m' = idt m \<and> kb_objects m' = kb_objects m \<and> kb_pso2_at m' = kb_pso2_at m \<and>
     procs m' = (procs m)(current_process m \<mapsto> (the (procs m (current_process m)))\<lparr>keyboard := b\<rparr>)"

lemma after_input_ready:
  assumes "input_ready m pr kb" and "after_input m f b m'" and "keys_ok b"
  shows "input_ready m' (pr\<lparr>keyboard := b\<rparr>) kb"
proof -
  from assms(1) obtain tk k d where "current_task m \<noteq> 0" "tasks m (current_task m) = Some tk"
    "task_process tk = current_process m" "chunks m (kernel_chunk m) = Some k" "chunks m (page_directory tk) = Some d"
    by (rule input_readyE)
  then have "call_ready m' (tk\<lparr>task_registers := frame_registers f\<rparr>)"
    using assms(2) by (simp add: call_ready_def after_input_def)
  with \<open>task_process tk = _\<close> assms show ?thesis by (auto simp: input_ready_def after_input_def)
qed

section \<open>A key press\<close>

text \<open>The handler up to and including the one of the driver, on the state with saved registers.\<close>

lemma key_interrupt:
  assumes "input_ready m pr kb" and "length (keys_in (keyboard pr)) < 1024"
    and "\<And>io. \<exists>io'. insb P KEYBOARD_INPUT_PORT io = (s, io')"
    and "unat s < 82" and "s \<noteq> PS2_KEYBOARD_CAPSLOCK" and "scan_char (capslock_state kb) s \<noteq> 0"
  shows "\<exists>m' b. interrupt_handler P m 0x21 f = Done (Return 0 m') \<and> after_input m f b m' \<and> keys_ok b \<and>
    keys_in b = keys_in (keyboard pr) @ [scan_char (capslock_state kb) s]"
proof -
  from assms(1) obtain tk k d where t: "current_task m \<noteq> 0" "tasks m (current_task m) = Some tk"
    "task_process tk = current_process m" "chunks m (kernel_chunk m) = Some k" "chunks m (page_directory tk) = Some d"
    by (rule input_readyE)
  have p: "procs m (current_process m) = Some pr" "keys_ok (keyboard pr)" "kb_objects m (kb_pso2_at m) = Some kb"
    and cb0: "rd (interrupt_callbacks (idt m)) 0x21 = Done (Some pso2_keyboard_handle_interrupt_cb)"
    using assms(1) by (simp_all add: input_ready_def)
  define m1 where "m1 = m\<lparr>user_segments := False, cr3 := k, current_directory := k\<rparr>"
  have cb: "rd (interrupt_callbacks (idt m1)) 0x21 = Done (Some pso2_keyboard_handle_interrupt_cb)"
    using cb0 by (simp add: m1_def del: rd_eq_Done)
  define m2 where "m2 = with_registers m1 (current_task m) (frame_registers f)"
  have save: "task_current_save_state m1 f = Done m2"
    using task_current_save_state_eq [of m1 tk f] t by (simp add: m1_def m2_def)
  have k2: "kernel_page m2 = Done m2"
    using kernel_page_eq [of m2 k] t(4) by (simp add: m2_def m1_def with_registers_def)
  obtain io1 x io2 where io: "insb P KEYBOARD_INPUT_PORT (disk_io m2) = (s, io1)" "insb P KEYBOARD_INPUT_PORT io1 = (x, io2)"
    using assms(3) by (metis surj_pair)
  let ?p = "current_process m" and ?k = "keys_of m2 (current_process m)"
  have pc: "process_current m2 = ?p" by (simp add: process_current_def m2_def m1_def with_registers_def)
  from key_press_queued [of P ?k s io1 x io2 kb "keyboard pr"] io assms(2,4-6) p obtain k' b where
    b: "pso2_keyboard_handle_interrupt P ?k = Done k'" "current_keys k' = Some b" "keys_ok b"
      "keys_in b = keys_in (keyboard pr) @ [scan_char (capslock_state kb) s]" "\<not> kernel_paged k'" "keyboards k' = kb_objects m"
    by (auto simp: keys_of_def m2_def m1_def with_registers_def)
  define m3 where "m3 = put_keys m2 ?p k'"
  have m3: "current_task m3 = current_task m" "chunks m3 = chunks m"
    "tasks m3 = (tasks m)(current_task m \<mapsto> tk\<lparr>task_registers := frame_registers f\<rparr>)"
    using t by (simp_all add: m3_def put_keys_def m2_def m1_def with_registers_def)
  have page: "task_page m3 = Done (m3\<lparr>user_segments := True, cr3 := d, current_directory := d\<rparr>)"
    using m3 t(5) by (simp add: task_page_def task_switch_def user_registers_def paging_switch_def deref_Some
        del: andthen_eq_Done)
  have ki: "keyboard_interrupt P m2 = Done (m3\<lparr>user_segments := True, cr3 := d, current_directory := d\<rparr>)"
    using b(1,5) page by (simp add: keyboard_interrupt_def k2 pc m3_def del: andthen_eq_Done)
  let ?m4 = "m3\<lparr>user_segments := True, cr3 := d, current_directory := d\<rparr>"
  have page4: "task_page ?m4 = Done ?m4"
    using m3 t(5) by (simp add: task_page_def task_switch_def user_registers_def paging_switch_def deref_Some
        del: andthen_eq_Done)
  let ?m5 = "?m4\<lparr>disk_io := outb P 0x20 0x20 (disk_io ?m4)\<rparr>"
  have "interrupt_handler P m 0x21 f = Done (Return 0 ?m5)"
    using kernel_page_eq [OF t(4)] save cb ki page4
    by (simp add: interrupt_handler_def call_callback_def m1_def [symmetric] del: andthen_eq_Done rd_eq_Done)
  moreover have "after_input m f b ?m5"
    using t p b(2,6) by (simp add: after_input_def m3_def put_keys_def m2_def m1_def with_registers_def keys_of_def)
  ultimately show ?thesis using b(3,4) by blast
qed

section \<open>The system call\<close>

lemma getkey_call:
  assumes "input_ready m pr kb" and "keyboard_pop_from (keyboard pr) = Done (c, b)"
  shows "\<exists>m'. isr80h_handler P m 2 f = Done (Return (u32_of_int (sint c)) m') \<and> after_input m f b m'"
proof -
  from assms(1) obtain tk k d where t: "current_task m \<noteq> 0" "tasks m (current_task m) = Some tk"
    "task_process tk = current_process m" "chunks m (kernel_chunk m) = Some k" "chunks m (page_directory tk) = Some d"
    by (rule input_readyE)
  have p: "procs m (current_process m) = Some pr" and look: "isr80h_lookup (idt m) 2 = Done (Some command2_getkey)"
    using assms(1) by (simp_all add: input_ready_def)
  define m1 where "m1 = m\<lparr>user_segments := False, cr3 := k, current_directory := k\<rparr>"
  define m2 where "m2 = with_registers m1 (current_task m) (frame_registers f)"
  have save: "task_current_save_state m1 f = Done m2"
    using task_current_save_state_eq [of m1 tk f] t by (simp add: m1_def m2_def)
  let ?k = "(keys_of m2 (current_process m))\<lparr>current_keys := Some b\<rparr>"
  define m3 where "m3 = put_keys m2 (current_process m) ?k"
  have m2: "current_task m2 = current_task m" "procs m2 = procs m" "idt m2 = idt m"
    "tasks m2 (current_task m) = Some (tk\<lparr>task_registers := frame_registers f\<rparr>)"
    using t by (simp_all add: m2_def m1_def with_registers_def)
  have pop: "keyboard_pop (keys_of m2 (current_process m)) = Done (c, ?k)"
    using assms(2) p m2(2) by (simp add: keyboard_pop_def keys_of_def del: andthen_eq_Done)
  have tp: "task_current_process m2 = Done (current_process m)"
    using m2 t(3) by (simp add: task_current_process_def task_current_def deref_Some del: andthen_eq_Done)
  have cmd: "isr80h_handle_command P m2 2 = Done (Return (u32_of_int (sint c)) m3)"
    using look m2 t(1) p tp pop
    by (simp add: isr80h_handle_command_def call_command_def isr80h_command2_getkey_def task_current_def deref_Some m3_def
        del: andthen_eq_Done)
  have m3: "current_task m3 = current_task m" "chunks m3 = chunks m"
    "tasks m3 (current_task m) = Some (tk\<lparr>task_registers := frame_registers f\<rparr>)"
    using t by (simp_all add: m3_def put_keys_def m2_def m1_def with_registers_def)
  have page: "task_page m3 = Done (m3\<lparr>user_segments := True, cr3 := d, current_directory := d\<rparr>)"
    using m3 t(5) by (simp add: task_page_def task_switch_def user_registers_def paging_switch_def deref_Some
        del: andthen_eq_Done)
  have "isr80h_handler P m 2 f = Done (Return (u32_of_int (sint c)) (m3\<lparr>user_segments := True, cr3 := d, current_directory := d\<rparr>))"
    using kernel_page_eq [OF t(4)] save cmd page by (simp add: isr80h_handler_def m1_def [symmetric] del: andthen_eq_Done)
  moreover have "after_input m f b (m3\<lparr>user_segments := True, cr3 := d, current_directory := d\<rparr>)"
    using t p by (simp add: after_input_def m3_def put_keys_def m2_def m1_def with_registers_def keys_of_def)
  ultimately show ?thesis by blast
qed

section \<open>Typing and reading\<close>

text \<open>
  Keyboard interrupts that find the scancodes at the port, and system calls of the program; \<open>Q s\<close> are the
  ports of a machine whose keyboard has the scancode \<open>s\<close> to deliver.
\<close>

fun type_keys :: "(u8 \<Rightarrow> 'io ports) \<Rightarrow> ('io, 'a) kernel_scheme \<Rightarrow> (u8 \<times> interrupt_frame) list \<Rightarrow> ('io, 'a) kernel_scheme run" where
  "type_keys Q m [] = Done m"
| "type_keys Q m ((s, f) # es) =
     andthen (interrupt_handler (Q s) m 0x21 f) (\<lambda>e. case e of Iret r m \<Rightarrow> Fault | Return v m \<Rightarrow> type_keys Q m es)"

fun read_keys :: "'io ports \<Rightarrow> ('io, 'a) kernel_scheme \<Rightarrow> interrupt_frame list \<Rightarrow> (u32 list \<times> ('io, 'a) kernel_scheme) run" where
  "read_keys P m [] = Done ([], m)"
| "read_keys P m (f # fs) =
     andthen (isr80h_handler P m 2 f) (\<lambda>e. case e of Iret r m \<Rightarrow> Fault
       | Return v m \<Rightarrow> andthen (read_keys P m fs) (\<lambda>(vs, m). Done (v # vs, m)))"

lemma type_keys_queue:
  assumes "input_ready m pr kb" and "\<And>s io. \<exists>io'. insb (Q s) KEYBOARD_INPUT_PORT io = (s, io')"
    and "\<forall>s \<in> set (map fst es). unat s < 82 \<and> s \<noteq> PS2_KEYBOARD_CAPSLOCK \<and> scan_char (capslock_state kb) s \<noteq> 0"
    and "length (keys_in (keyboard pr)) + length es \<le> 1024"
  shows "\<exists>m' pr'. type_keys Q m es = Done m' \<and> input_ready m' pr' kb \<and> current_task m' = current_task m \<and>
    keys_in (keyboard pr') = keys_in (keyboard pr) @ map (\<lambda>(s, f). scan_char (capslock_state kb) s) es"
  using assms(1,3,4)
proof (induction es arbitrary: m pr)
  case Nil
  then show ?case by auto
next
  case (Cons e es)
  obtain s f where e: "e = (s, f)" by (cases e)
  let ?c = "scan_char (capslock_state kb) s"
  have s: "unat s < 82" "s \<noteq> PS2_KEYBOARD_CAPSLOCK" "?c \<noteq> 0" using Cons.prems(2) e by simp_all
  have room: "length (keys_in (keyboard pr)) < 1024" using Cons.prems(3) by simp
  from key_interrupt [OF Cons.prems(1) room assms(2) s, of f] obtain m1 b where
    1: "interrupt_handler (Q s) m 0x21 f = Done (Return 0 m1)" "after_input m f b m1" "keys_ok b"
      "keys_in b = keys_in (keyboard pr) @ [?c]" by blast
  have r1: "input_ready m1 (pr\<lparr>keyboard := b\<rparr>) kb" by (rule after_input_ready [OF Cons.prems(1) 1(2,3)])
  have "length (keys_in b) + length es \<le> 1024" using Cons.prems(3) unfolding 1(4) by simp
  then obtain m2 pr2 where
    2: "type_keys Q m1 es = Done m2" "input_ready m2 pr2 kb" "current_task m2 = current_task m1"
      "keys_in (keyboard pr2) = keys_in b @ map (\<lambda>(s, f). scan_char (capslock_state kb) s) es"
    using Cons.IH [OF r1] Cons.prems(2) by auto
  moreover have "current_task m1 = current_task m" using 1(2) by (simp add: after_input_def)
  ultimately show ?case using 1(1,4) e by auto
qed

lemma read_keys_queue:
  assumes "input_ready m pr kb" and "keys_in (keyboard pr) = cs" and "length fs = length cs"
  shows "\<exists>m' pr'. read_keys P m fs = Done (map (\<lambda>c. u32_of_int (sint c)) cs, m') \<and> input_ready m' pr' kb \<and>
    keys_in (keyboard pr') = []"
  using assms
proof (induction cs arbitrary: m pr fs)
  case Nil
  then show ?case by auto
next
  case (Cons c cs)
  then obtain f fs' where f: "fs = f # fs'" "length fs' = length cs" by (cases fs) auto
  from Cons.prems(1) have "keys_ok (keyboard pr)" by (simp add: input_ready_def)
  with ring.pop_contents Cons.prems(2) obtain b where
    b: "keyboard_pop_from (keyboard pr) = Done (c, b)" "keys_ok b" "keys_in b = cs" by blast
  from getkey_call [OF Cons.prems(1) b(1), of P f] obtain m1 where
    1: "isr80h_handler P m 2 f = Done (Return (u32_of_int (sint c)) m1)" "after_input m f b m1" by blast
  have "input_ready m1 (pr\<lparr>keyboard := b\<rparr>) kb" by (rule after_input_ready [OF Cons.prems(1) 1(2) b(2)])
  from Cons.IH [OF this _ f(2)] b(3) obtain m2 pr2 where
    "read_keys P m1 fs' = Done (map (\<lambda>c. u32_of_int (sint c)) cs, m2)" "input_ready m2 pr2 kb" "keys_in (keyboard pr2) = []"
    by auto
  with 1(1) f(1) show ?case by auto
qed

text \<open>
  C12. What is typed reaches the program: up to 1024 key presses, each handled by the interrupt handler, are
  delivered by as many \<open>getkey\<close> system calls, in order and as the characters of the scan table in the case that
  the caps lock selects; a further call returns 0.
\<close>

theorem typing_reaches_program:
  assumes "input_ready m pr kb" and "keys_in (keyboard pr) = []"
    and "\<And>s io. \<exists>io'. insb (Q s) KEYBOARD_INPUT_PORT io = (s, io')"
    and "\<forall>s \<in> set (map fst es). unat s < 82 \<and> s \<noteq> PS2_KEYBOARD_CAPSLOCK \<and> scan_char (capslock_state kb) s \<noteq> 0"
    and "length es \<le> 1024" and "length fs = length es"
  shows "\<exists>m1 m2 m3. type_keys Q m es = Done m1 \<and>
    read_keys P m1 fs = Done (map (\<lambda>(s, f). u32_of_int (sint (scan_char (capslock_state kb) s))) es, m2) \<and>
    isr80h_handler P m2 2 g = Done (Return 0 m3)"
proof -
  let ?cs = "map (\<lambda>(s, f). scan_char (capslock_state kb) s) es"
  from type_keys_queue [OF assms(1,3,4)] assms(2,5) obtain m1 pr1 where
    1: "type_keys Q m es = Done m1" "input_ready m1 pr1 kb" "keys_in (keyboard pr1) = ?cs" by auto
  from read_keys_queue [OF 1(2,3), of fs P] assms(6) obtain m2 pr2 where
    2: "read_keys P m1 fs = Done (map (\<lambda>c. u32_of_int (sint c)) ?cs, m2)" "input_ready m2 pr2 kb" "keys_in (keyboard pr2) = []"
    by auto
  have "keyboard_pop_from (keyboard pr2) = Done (0, keyboard pr2)"
    using ring.pop_empty 2(2,3) by (simp add: input_ready_def)
  from getkey_call [OF 2(2) this, of P g] obtain m3 where "isr80h_handler P m2 2 g = Done (Return 0 m3)" by auto
  with 1(1) 2(1) show ?thesis by (auto simp: case_prod_unfold comp_def)
qed

text \<open>The keys A and Enter on a kernel with a current process.\<close>

definition sim_typing :: "sim kernel" where
  "sim_typing = sim_kernel\<lparr>procs := [0x1404000 \<mapsto> zero_process\<lparr>proc_task := 0x1400000, keyboard := empty_keys\<rparr>],
     current_process := 0x1404000, kb_objects := [0x220000 \<mapsto> \<lparr>kb_init = 0x100000, capslock_state = 0, kb_next = 0\<rparr>],
     idt := sim_idt\<lparr>interrupt_callbacks := (replicate 512 None)[0x21 := Some pso2_keyboard_handle_interrupt_cb],
       isr80h_commands := (replicate 1024 None)[2 := Some command2_getkey]\<rparr>\<rparr>"

definition typing_ports :: "u8 \<Rightarrow> sim ports" where
  "typing_ports s = (sim_ports sim_image)\<lparr>insb := (\<lambda>_ io. (s, io))\<rparr>"

lemma sim_typing_ready:
  "input_ready sim_typing (zero_process\<lparr>proc_task := 0x1400000, keyboard := empty_keys\<rparr>)
    \<lparr>kb_init = 0x100000, capslock_state = 0, kb_next = 0\<rparr>"
  using empty_keys by (auto simp: input_ready_def call_ready_def sim_typing_def sim_kernel_def sim_task_def sim_idt_def
      isr80h_lookup_def rd_def PANDORA_MAX_ISR80H_COMMANDS_def)

theorem typing_reaches_program_witness:
  "\<forall>f. \<exists>m1 m2. type_keys typing_ports sim_typing [(0x1E, f), (0x1C, f)] = Done m1 \<and>
    read_keys (sim_ports sim_image) m1 [f, f] = Done ([0x61, 0x0D], m2)"
proof
  fix f :: interrupt_frame
  let ?es = "[(0x1E :: u8, f :: interrupt_frame), (0x1C, f)]"
  have q: "\<exists>io'. insb (typing_ports s) KEYBOARD_INPUT_PORT io = (s, io')" for s io by (simp add: typing_ports_def)
  have c: "scan_char 0 0x1E = 0x61" "scan_char 0 0x1C = 0x0D"
    by (simp_all add: scan_char_def keyboard_scan_set_one_def)
  have e: "keys_in (keyboard (zero_process\<lparr>proc_task := 0x1400000, keyboard := empty_keys\<rparr>)) = []"
    using empty_keys(2) by simp
  from typing_reaches_program [OF sim_typing_ready e q, of ?es "[f, f]" "sim_ports sim_image" f]
  show "\<exists>m1 m2. type_keys typing_ports sim_typing [(0x1E, f), (0x1C, f)] = Done m1 \<and>
    read_keys (sim_ports sim_image) m1 [f, f] = Done ([0x61, 0x0D], m2)"
    by (auto simp: c PS2_KEYBOARD_CAPSLOCK_def)
qed

end
