(* ===== verification/Process_Memory.thy ===== *)
theory Process_Memory
  imports Scheduler
begin

text \<open>
  The memory a process allocates: the invariant that ties its table of allocations to the kernel heap,
  what \<open>process_malloc\<close> and \<open>process_free\<close> do to the table, the heap and the address space, that the end
  of a process releases all of it, and when the arguments of a process can be counted.
\<close>

section \<open>The table of allocations\<close>

text \<open>Every entry in use is a live allocation of the kernel heap that is large enough, and entries differ.\<close>

definition entry_ok :: "'a kmem_scheme \<Rightarrow> process_allocation \<Rightarrow> bool" where
  "entry_ok m x \<longleftrightarrow> (if alloc_ptr x = 0 then alloc_size x = 0
     else 0 < unat (alloc_size x) \<and> (\<exists>k \<ge> unat (alloc_size x). (unat (alloc_ptr x), k) \<in> kmem_live m))"

definition owned :: "'a kmem_scheme \<Rightarrow> process_allocation list \<Rightarrow> bool" where
  "owned m al \<longleftrightarrow> length al = 1024 \<and> (\<forall>i < 1024. entry_ok m (al ! i)) \<and>
     (\<forall>i < 1024. \<forall>j < 1024. alloc_ptr (al ! i) = alloc_ptr (al ! j) \<and> alloc_ptr (al ! i) \<noteq> 0 \<longrightarrow> i = j)"

lemma ownedD:
  assumes "owned m al" and "i < 1024" and "alloc_ptr (al ! i) \<noteq> 0"
  obtains k where "0 < unat (alloc_size (al ! i))" and "unat (alloc_size (al ! i)) \<le> k"
    and "(unat (alloc_ptr (al ! i)), k) \<in> kmem_live m"
  using assms unfolding owned_def entry_ok_def by metis

lemma entry_ok_mono: "entry_ok m x \<Longrightarrow> kmem_live m \<subseteq> kmem_live m' \<Longrightarrow> entry_ok m' x"
  by (auto simp: entry_ok_def split: if_splits)

text \<open>A process at \<open>p\<close> whose task has the page directory \<open>dir\<close>, in a kernel whose heap ends below 4 GB.\<close>

definition process_at :: "('io, 'a) taskmem_scheme \<Rightarrow> addr \<Rightarrow> process \<Rightarrow> addr \<Rightarrow> addr \<Rightarrow> bool" where
  "process_at m p pr c dir \<longleftrightarrow> kmem_ok m \<and> procs m p = Some pr \<and> owned m (proc_allocations pr) \<and>
     unat (saddr (kernel_heap m)) + 4096 * heap_blocks (kernel_heap m) < 2 ^ 32 \<and>
     (\<exists>tk. tasks m (proc_task pr) = Some tk \<and> page_directory tk = c) \<and> chunks m c = Some dir \<and> dir_ok m dir"

lemma process_directory_eq: "process_at m p pr c dir \<Longrightarrow> process_directory m pr = Done c"
  by (auto simp: process_at_def process_directory_def deref_Some simp del: andthen_eq_Done)

lemma allocation_index_found:
  "\<lbrakk>i \<le> j; j < 1024; length al = 1024; alloc_ptr (al ! j) = a; \<forall>l. i \<le> l \<and> l < j \<longrightarrow> alloc_ptr (al ! l) \<noteq> a\<rbrakk>
    \<Longrightarrow> allocation_index al a i = Done (Some j)"
proof (induction "j - i" arbitrary: i)
  case 0
  then show ?case by (simp add: allocation_index.simps [of al a i] rd_in PANDORA_MAX_PROGRAM_ALLOCATIONS_def
      del: rd_eq_Done andthen_eq_Done)
next
  case (Suc n)
  then have "allocation_index al a (Suc i) = Done (Some j)" by (intro Suc.hyps(1)) auto
  moreover have "i < 1024" "alloc_ptr (al ! i) \<noteq> a" using Suc.hyps(2) Suc.prems by auto
  ultimately show ?case using Suc.prems(3)
    by (simp add: allocation_index.simps [of al a i] rd_in PANDORA_MAX_PROGRAM_ALLOCATIONS_def
      del: rd_eq_Done andthen_eq_Done)
qed

lemma allocation_index_owned:
  "owned m al \<Longrightarrow> j < 1024 \<Longrightarrow> alloc_ptr (al ! j) \<noteq> 0 \<Longrightarrow> allocation_index al (alloc_ptr (al ! j)) 0 = Done (Some j)"
  by (rule allocation_index_found) (simp_all add: owned_def, metis less_irrefl less_trans)

lemma allocation_index_cases:
  "length al = 1024 \<Longrightarrow> i \<le> 1024 \<Longrightarrow> (\<exists>j. i \<le> j \<and> j < 1024 \<and> alloc_ptr (al ! j) = a \<and> allocation_index al a i = Done (Some j)) \<or>
    (\<forall>j. i \<le> j \<and> j < 1024 \<longrightarrow> alloc_ptr (al ! j) \<noteq> a) \<and> allocation_index al a i = Done None"
proof (induction "1024 - i" arbitrary: i)
  case 0
  then have "i = 1024" by simp
  then show ?case using allocation_index.simps [of al a 1024] by (auto simp: PANDORA_MAX_PROGRAM_ALLOCATIONS_def)
next
  case (Suc n)
  then have i: "i < 1024" by simp
  note step = allocation_index.simps [of al a i]
  show ?case
  proof (cases "alloc_ptr (al ! i) = a")
    case True
    then have "allocation_index al a i = Done (Some i)" using i Suc.prems(1)
      by (simp add: step rd_in PANDORA_MAX_PROGRAM_ALLOCATIONS_def del: rd_eq_Done andthen_eq_Done)
    then show ?thesis using True i by blast
  next
    case False
    then have "allocation_index al a i = allocation_index al a (Suc i)" using i Suc.prems(1)
      by (simp add: step rd_in PANDORA_MAX_PROGRAM_ALLOCATIONS_def del: rd_eq_Done andthen_eq_Done)
    moreover have "(\<exists>j. Suc i \<le> j \<and> j < 1024 \<and> alloc_ptr (al ! j) = a \<and> allocation_index al a (Suc i) = Done (Some j)) \<or>
        (\<forall>j. Suc i \<le> j \<and> j < 1024 \<longrightarrow> alloc_ptr (al ! j) \<noteq> a) \<and> allocation_index al a (Suc i) = Done None"
      using Suc.hyps(2) i Suc.prems by (intro Suc.hyps(1)) auto
    ultimately show ?thesis using False by (metis Suc_leD le_antisym not_less_eq_eq)
  qed
qed

section \<open>Mapping an allocation\<close>

lemma kmem_live_bound:
  assumes "kmem_ok m" and "(a, k) \<in> kmem_live m"
  shows "a + k \<le> unat (saddr (kernel_heap m)) + 4096 * heap_blocks (kernel_heap m)"
proof -
  from assms(2) obtain s n where "(s, n) \<in> allocations (kernel_heap m)"
    "a = unat (saddr (kernel_heap m)) + 4096 * s" "k = 4096 * n"
    by (auto simp: kmem_live_def heap_live_def)
  then show ?thesis using allocations_bounds [of s n "kernel_heap m"] by (simp add: heap_blocks_def)
qed

text \<open>The end of an object of \<open>sz\<close> bytes at \<open>a\<close>, rounded up to a page.\<close>

lemma align_up:
  assumes "4096 dvd unat (a :: addr)" and "unat a + 4096 * blocks_needed (unat sz) < 2 ^ 32"
  shows "unat (paging_align_address (a + sz)) = unat a + 4096 * blocks_needed (unat sz)"
    and "paging_is_aligned (paging_align_address (a + sz))"
proof -
  have le: "unat sz \<le> 4096 * blocks_needed (unat sz)" using blocks_needed_enough by simp
  then have u: "unat (a + sz) = unat a + unat sz" using assms(2) by (intro unat_add_u32) simp
  have m: "unat ((a + sz) mod 4096) = unat sz mod 4096"
    using assms(1) by (simp add: unat_mod u mod_add_left_eq [symmetric] dvd_imp_mod_0)
  have b: "4096 * blocks_needed n = (if n mod 4096 = 0 then n else n + 4096 - n mod 4096)" for n
  proof -
    obtain q r where n: "n = 4096 * q + r" "r < 4096"
      using mult_div_mod_eq [of 4096 n] mod_less_divisor [of 4096 n] by (metis zero_less_numeral)
    then have "blocks_needed n = (if r = 0 then q else q + 1)"
      unfolding blocks_needed_def by (cases "r = 0") (auto intro!: div_nat_eqI)
    moreover have "n mod 4096 = r" using n by simp
    ultimately show ?thesis using n by simp
  qed
  have *: "unat (paging_align_address (a + sz)) = unat a + 4096 * blocks_needed (unat sz)"
  proof (cases "(a + sz) mod 4096 = 0")
    case True
    then have "unat sz mod 4096 = 0" using m by simp
    then show ?thesis using True u b [of "unat sz"] by (simp add: paging_align_address_def conf)
  next
    case False
    then have nz: "unat sz mod 4096 \<noteq> 0" using m by (metis unat_eq_0)
    let ?r = "unat sz mod 4096"
    have "(a + sz) mod 4096 \<le> a + sz" unfolding word_le_nat_alt m u by (rule trans_le_add2) simp
    then have low: "unat (a + sz - (a + sz) mod 4096) = unat a + unat sz - ?r" by (simp add: unat_sub u m)
    have "?r \<le> unat sz" by simp
    then have "unat a + unat sz - ?r + 4096 < 2 ^ 32" using assms(2) b [of "unat sz"] nz by simp
    then have "unat (a + sz - (a + sz) mod 4096 + 4096) = unat a + unat sz - ?r + 4096"
      using low by (subst unat_add_u32) simp_all
    moreover have "a + sz - (a + sz) mod 4096 + 4096 = a + sz + 4096 - (a + sz) mod 4096" by (simp add: algebra_simps)
    ultimately have "unat (a + sz + 4096 - (a + sz) mod 4096) = unat a + unat sz + 4096 - ?r"
      using \<open>?r \<le> unat sz\<close> by simp
    then show ?thesis using False nz b [of "unat sz"] by (simp add: paging_align_address_def conf)
  qed
  then show "unat (paging_align_address (a + sz)) = unat a + 4096 * blocks_needed (unat sz)" .
  show "paging_is_aligned (paging_align_address (a + sz))"
    unfolding paging_is_aligned_iff * using assms(1) by simp
qed

lemma aligned_frame:
  assumes "4096 dvd unat a" and "page_no a \<le> j"
  shows "a + of_nat (j - page_no a) * PAGING_PAGE_SIZE = of_nat j * PAGING_PAGE_SIZE"
proof -
  have "unat a = page_no a * 4096" using assms(1) by (simp add: page_no_def)
  then have "(of_nat (unat a) :: addr) = of_nat (page_no a * 4096)" by (rule arg_cong)
  moreover have "of_nat (unat a) = a" by simp
  ultimately have "of_nat (page_no a * 4096) = a" by metis
  then have e: "of_nat (page_no a) * PAGING_PAGE_SIZE = a" by (simp add: PAGING_PAGE_SIZE_def)
  obtain i where j: "j = page_no a + i" using le_Suc_ex [OF assms(2)] by blast
  have "of_nat j * PAGING_PAGE_SIZE = of_nat (page_no a) * PAGING_PAGE_SIZE + of_nat i * PAGING_PAGE_SIZE"
    unfolding j by (simp add: distrib_right)
  then show ?thesis unfolding e by (simp add: j)
qed

lemma space_ptables: "ptables m = ptables m' \<Longrightarrow> space m dir n = space m' dir n"
proof -
  assume e: "ptables m = ptables m'"
  show "space m dir n = space m' dir n" unfolding space_def e ..
qed

lemma dir_ok_ptables: "dir_ok m dir \<Longrightarrow> ptables m = ptables m' \<Longrightarrow> dir_ok m' dir"
proof -
  assume "dir_ok m dir" and e: "ptables m = ptables m'"
  then show "dir_ok m' dir" unfolding dir_ok_def e by blast
qed

lemma map_allocation:
  assumes "kmem_ok m" and "unat (saddr (kernel_heap m)) + 4096 * heap_blocks (kernel_heap m) < 2 ^ 32"
    and "chunks m c = Some dir" and "dir_ok m dir" and "(unat a, k) \<in> kmem_live m" and "unat sz \<le> k"
  shows "\<exists>m'. paging_map_to m c a a (paging_align_address (a + sz)) fl = Done (0, m') \<and> m' = m\<lparr>ptables := ptables m'\<rparr> \<and>
    dir_ok m' dir \<and> (\<forall>n. space m' dir n = (if page_no a \<le> n \<and> n < page_no a + blocks_needed (unat sz)
      then Some ((of_nat n * PAGING_PAGE_SIZE) OR fl) else space m dir n))"
proof -
  have al: "4096 dvd unat a" "4096 dvd k" using kernel.live_aligned [OF assms(1,5)] by simp_all
  then have "4096 * blocks_needed (unat sz) \<le> k" using assms(6)
  proof -
    obtain q where q: "k = 4096 * q" using al(2) by blast
    then have "blocks_needed (unat sz) \<le> (4096 * q + 4095) div 4096"
      unfolding blocks_needed_def using assms(6) by (intro div_le_mono) simp
    then show ?thesis using q by simp
  qed
  then have b: "unat a + 4096 * blocks_needed (unat sz) < 2 ^ 32"
    using kmem_live_bound [OF assms(1,5)] assms(2) by linarith
  note e = align_up [OF al(1) b]
  have pa: "paging_is_aligned a" using al(1) by (simp add: paging_is_aligned_iff)
  have le: "a \<le> paging_align_address (a + sz)" unfolding word_le_nat_alt e(1) by simp
  have n: "(unat (paging_align_address (a + sz)) - unat a) div 4096 = blocks_needed (unat sz)" by (simp add: e(1))
  have "unat a + (unat (paging_align_address (a + sz)) - unat a) \<le> 2 ^ 32" using b by (simp add: e(1))
  from paging_map_to_space [OF assms(3,4) pa pa e(2) le this, of fl] obtain m' where
    1: "paging_map_to m c a a (paging_align_address (a + sz)) fl = Done (0, m')" "m' = m\<lparr>ptables := ptables m'\<rparr>"
      "dir_ok m' dir"
    and 2: "\<forall>k. space m' dir k = (if page_no a \<le> k \<and> k < page_no a + blocks_needed (unat sz)
       then Some ((a + of_nat (k - page_no a) * PAGING_PAGE_SIZE) OR fl) else space m dir k)"
    unfolding n by blast
  have "a + of_nat (j - page_no a) * PAGING_PAGE_SIZE = of_nat j * PAGING_PAGE_SIZE" if "page_no a \<le> j" for j
    by (rule aligned_frame [OF al(1) that])
  with 2 have "\<forall>n. space m' dir n = (if page_no a \<le> n \<and> n < page_no a + blocks_needed (unat sz)
      then Some ((of_nat n * PAGING_PAGE_SIZE) OR fl) else space m dir n)" by simp
  with 1 show ?thesis by blast
qed

section \<open>Allocation\<close>

lemma owned_update:
  assumes "owned m al" and "kmem_live m \<subseteq> kmem_live m'" and "i < 1024" and "0 < unat sz" and "unat sz \<le> k"
    and "(unat a, k) \<in> kmem_live m'" and "\<forall>l. (unat a, l) \<notin> kmem_live m" and "a \<noteq> 0"
  shows "owned m' (al[i := \<lparr>alloc_ptr = a, alloc_size = sz\<rparr>])"
proof -
  have fresh: "alloc_ptr (al ! j) \<noteq> a" if "j < 1024" for j
    using assms(1,7,8) that unfolding owned_def entry_ok_def by metis
  have len: "length al = 1024" using assms(1) by (simp add: owned_def)
  have "entry_ok m' \<lparr>alloc_ptr = a, alloc_size = sz\<rparr>" using assms(4-6,8) by (auto simp: entry_ok_def)
  moreover have "entry_ok m' (al ! j)" if "j < 1024" for j
    using assms(1,2) that entry_ok_mono unfolding owned_def by blast
  moreover have inj: "j = l" if "j < 1024" "l < 1024" "alloc_ptr (al ! j) = alloc_ptr (al ! l)" "alloc_ptr (al ! j) \<noteq> 0" for j l
    using assms(1) that unfolding owned_def by blast
  ultimately show ?thesis unfolding owned_def using fresh len assms(3)
    by (simp add: nth_list_update) metis
qed

lemma process_malloc_eq:
  assumes "process_at m p pr c dir" and "0 < unat sz" and "unat sz \<le> 0xFFFFF000"
    and "kzalloc m sz = Done (a, m1)" and "a \<noteq> 0"
    and "i < 1024" and "alloc_ptr (proc_allocations pr ! i) = 0" and "\<forall>j < i. alloc_ptr (proc_allocations pr ! j) \<noteq> 0"
  shows "\<exists>m' k. process_malloc m p sz = Done (a, m') \<and> unat sz \<le> k \<and> kmem_live m' = insert (unat a, k) (kmem_live m) \<and>
    m' = m\<lparr>kernel_heap := kernel_heap m1, bufs := (bufs m)(a \<mapsto> replicate (unat sz) 0), ptables := ptables m',
      procs := (procs m)(p \<mapsto> pr\<lparr>proc_allocations := (proc_allocations pr)[i := \<lparr>alloc_ptr = a, alloc_size = sz\<rparr>]\<rparr>)\<rparr> \<and>
    process_at m' p (pr\<lparr>proc_allocations := (proc_allocations pr)[i := \<lparr>alloc_ptr = a, alloc_size = sz\<rparr>]\<rparr>) c dir \<and>
    (\<forall>n. space m' dir n = (if page_no a \<le> n \<and> n < page_no a + blocks_needed (unat sz)
      then Some ((of_nat n * PAGING_PAGE_SIZE) OR user_flags) else space m dir n))"
proof -
  let ?al = "proc_allocations pr"
  let ?pr = "pr\<lparr>proc_allocations := ?al[i := \<lparr>alloc_ptr = a, alloc_size = sz\<rparr>]\<rparr>"
  have at: "kmem_ok m" "procs m p = Some pr" "owned m ?al" "chunks m c = Some dir" "dir_ok m dir"
    using assms(1) by (simp_all add: process_at_def)
  from kzalloc_alloc [OF at(1) assms(2-4)] assms(5) obtain hp k where
    z: "m1 = m\<lparr>kernel_heap := hp, bufs := (bufs m)(a \<mapsto> replicate (unat sz) 0)\<rparr>" "kmem_ok m1" "unat sz \<le> k"
      "kmem_live m1 = insert (unat a, k) (kmem_live m)" "(unat a, k) \<notin> kmem_live m" by blast
  have nolive: "\<forall>l. (unat a, l) \<notin> kmem_live m"
    using kernel.live_size_unique [OF z(2), of "unat a" k] z(4,5) by (metis insertCI)
  have ok: "heap_ok (kernel_heap m)" using at(1) by (simp add: kmem_ok_def)
  have "heap_malloc (kernel_heap m) sz = Done (a, hp)"
    using assms(4,5) z(1) by (auto simp: kzalloc_eq [OF assms(3)] split: if_splits dest: arg_cong [of _ _ kernel_heap])
  from heap_malloc_cases [OF ok assms(2,3) this] assms(5)
  have hb: "unat (saddr hp) + 4096 * heap_blocks hp < 2 ^ 32"
    using assms(1) by (auto simp: process_at_def)
  have len: "length ?al = 1024" using at(3) by (simp add: owned_def)
  have idx: "allocation_index ?al 0 0 = Done (Some i)"
    using allocation_index_found [of 0 i ?al 0] assms(6-8) len by simp
  from map_allocation [OF z(2), of c dir a k sz user_flags] obtain m2 where
    2: "paging_map_to m1 c a a (paging_align_address (a + sz)) user_flags = Done (0, m2)" "m2 = m1\<lparr>ptables := ptables m2\<rparr>"
      "dir_ok m2 dir"
    and sp: "\<forall>n. space m2 dir n = (if page_no a \<le> n \<and> n < page_no a + blocks_needed (unat sz)
      then Some ((of_nat n * PAGING_PAGE_SIZE) OR user_flags) else space m1 dir n)"
    using hb at(4,5) z(1,3,4) by (auto simp: dir_ok_def)
  have pr1: "procs m1 p = Some pr" "process_directory m1 pr = Done c" "kernel_heap m1 = hp"
    using at(2) process_directory_eq [OF assms(1)] z(1) by (simp_all add: process_directory_def)
  define T where "T = ptables m2"
  have m2: "m2 = m\<lparr>kernel_heap := hp, bufs := (bufs m)(a \<mapsto> replicate (unat sz) 0), ptables := T\<rparr>"
    by (subst 2(2)) (simp add: z(1) T_def)
  define m3 where "m3 = m2\<lparr>procs := (procs m2)(p \<mapsto> ?pr)\<rparr>"
  have "process_malloc m p sz = Done (a, m3)"
    unfolding process_malloc_def m3_def using assms(4-6) pr1 idx 2(1) len
    by (simp add: process_find_free_allocation_index_def deref_Some wr_in del: andthen_eq_Done wr_eq_Done)
  moreover have m3: "m3 = m\<lparr>kernel_heap := hp, bufs := (bufs m)(a \<mapsto> replicate (unat sz) 0), ptables := ptables m3,
      procs := (procs m)(p \<mapsto> ?pr)\<rparr>"
    by (simp add: m3_def m2)
  moreover have "kmem_live m3 = insert (unat a, k) (kmem_live m)"
    using z(4) z(1) by (simp add: kmem_live_def m3_def m2)
  moreover have "process_at m3 p ?pr c dir"
  proof -
    have "kmem_live m3 = kmem_live m1" using z(1) by (simp add: kmem_live_def m3_def m2)
    then have "owned m3 (?al[i := \<lparr>alloc_ptr = a, alloc_size = sz\<rparr>])"
      using nolive z(4) assms(5) by (intro owned_update [OF at(3) _ assms(6,2) z(3)]) auto
    moreover have "kmem_ok m3" using z(1,2) by (simp add: kmem_ok_def kmem_live_def m3_def m2)
    moreover have "dir_ok m3 dir" using 2(3) by (simp add: dir_ok_def m3_def)
    ultimately show ?thesis using assms(1) hb by (simp add: process_at_def m3_def m2)
  qed
  moreover have "space m3 dir n = space m2 dir n" "space m1 dir n = space m dir n" for n
    by (rule space_ptables, simp add: z(1) m3_def)+
  ultimately show ?thesis using sp z(3) pr1(3) by (intro exI [of _ m3] exI [of _ k]) simp
qed

section \<open>Release\<close>

lemma unjoin_eq:
  assumes "owned m al" and "i < 1024" and "alloc_ptr (al ! i) = a" and "a \<noteq> 0" and "proc_allocations pr = al"
  shows "process_allocation_unjoin pr a = pr\<lparr>proc_allocations := al[i := \<lparr>alloc_ptr = 0, alloc_size = 0\<rparr>]\<rparr>"
proof -
  have len: "length al = 1024" using assms(1) by (simp add: owned_def)
  have "alloc_ptr (al ! j) = a \<longleftrightarrow> j = i" if "j < 1024" for j
    using assms(1-4) that unfolding owned_def by metis
  then have "map (\<lambda>x. if alloc_ptr x = a then \<lparr>alloc_ptr = 0, alloc_size = 0\<rparr> else x) al =
      al[i := \<lparr>alloc_ptr = 0, alloc_size = 0\<rparr>]"
    by (intro nth_equalityI) (auto simp: len nth_list_update)
  then show ?thesis by (simp add: process_allocation_unjoin_def assms(5))
qed

lemma owned_release:
  assumes "owned m al" and "i < 1024" and "alloc_ptr (al ! i) = a" and "a \<noteq> 0"
    and "kmem_live m' = kmem_live m - {(unat a, k)}"
  shows "owned m' (al[i := \<lparr>alloc_ptr = 0, alloc_size = 0\<rparr>])"
proof -
  have len: "length al = 1024" using assms(1) by (simp add: owned_def)
  have "entry_ok m' (al ! j)" if j: "j < 1024" "j \<noteq> i" for j
  proof -
    have "alloc_ptr (al ! j) \<noteq> a" using assms(1-4) j unfolding owned_def by metis
    moreover have "entry_ok m (al ! j)" using assms(1) j by (simp add: owned_def)
    ultimately show ?thesis using assms(5) by (auto simp: entry_ok_def word_unat_eq_iff split: if_splits)
  qed
  moreover have "entry_ok m' \<lparr>alloc_ptr = 0, alloc_size = 0\<rparr>" by (simp add: entry_ok_def)
  moreover have inj: "j = l" if "j < 1024" "l < 1024" "alloc_ptr (al ! j) = alloc_ptr (al ! l)" "alloc_ptr (al ! j) \<noteq> 0" for j l
    using assms(1) that unfolding owned_def by blast
  ultimately show ?thesis unfolding owned_def using len assms(2) by (simp add: nth_list_update) metis
qed

lemma kfree_allocation:
  assumes "kmem_ok m" and "(unat a, k) \<in> kmem_live m"
  shows "\<exists>hp. kfree m a = Done (m\<lparr>kernel_heap := hp, bufs := (bufs m)(a := None)\<rparr>) \<and>
    kmem_ok (m\<lparr>kernel_heap := hp, bufs := (bufs m)(a := None)\<rparr>) \<and> heap_live hp = kmem_live m - {(unat a, k)} \<and>
    heap_blocks hp = heap_blocks (kernel_heap m) \<and> saddr hp = saddr (kernel_heap m)"
proof -
  let ?m = "m\<lparr>bufs := (bufs m)(a := None)\<rparr>"
  have "kmem_ok ?m" using assms(1) by (auto simp: kmem_ok_def kmem_live_def)
  moreover have "(unat a, k) \<in> kmem_live ?m" using assms(2) by (simp add: kmem_live_def)
  ultimately obtain hp where hp: "kfree ?m a = Done (?m\<lparr>kernel_heap := hp\<rparr>)" "kmem_ok (?m\<lparr>kernel_heap := hp\<rparr>)"
    "heap_live hp = kmem_live ?m - {(unat a, k)}" "heap_blocks hp = heap_blocks (kernel_heap ?m)"
    "saddr hp = saddr (kernel_heap ?m)" using kfree_page [of ?m a k] by auto
  have "kfree m a = kfree ?m a" by (simp add: kfree_def)
  then show ?thesis using hp by (intro exI [of _ hp]) (simp add: kmem_ok_def kmem_live_def)
qed

lemma process_free_eq:
  assumes "process_at m p pr c dir" and "i < 1024" and "alloc_ptr (proc_allocations pr ! i) = a" and "a \<noteq> 0"
    and "(unat a, k) \<in> kmem_live m"
  shows "\<exists>m'. process_free m p a = Done m' \<and> kmem_live m' = kmem_live m - {(unat a, k)} \<and>
    m' = m\<lparr>kernel_heap := kernel_heap m', bufs := (bufs m)(a := None), ptables := ptables m',
      procs := (procs m)(p \<mapsto> pr\<lparr>proc_allocations := (proc_allocations pr)[i := \<lparr>alloc_ptr = 0, alloc_size = 0\<rparr>]\<rparr>)\<rparr> \<and>
    kfree m a = Done (m\<lparr>kernel_heap := kernel_heap m', bufs := (bufs m)(a := None)\<rparr>) \<and>
    process_at m' p (pr\<lparr>proc_allocations := (proc_allocations pr)[i := \<lparr>alloc_ptr = 0, alloc_size = 0\<rparr>]\<rparr>) c dir \<and>
    (\<forall>n. space m' dir n = (if page_no a \<le> n \<and> n < page_no a + blocks_needed (unat (alloc_size (proc_allocations pr ! i)))
      then Some (of_nat n * PAGING_PAGE_SIZE) else space m dir n))"
proof -
  let ?al = "proc_allocations pr"
  let ?pr = "pr\<lparr>proc_allocations := ?al[i := \<lparr>alloc_ptr = 0, alloc_size = 0\<rparr>]\<rparr>" and ?sz = "alloc_size (?al ! i)"
  have at: "kmem_ok m" "procs m p = Some pr" "owned m ?al" "chunks m c = Some dir" "dir_ok m dir"
    "unat (saddr (kernel_heap m)) + 4096 * heap_blocks (kernel_heap m) < 2 ^ 32"
    using assms(1) by (simp_all add: process_at_def)
  obtain k' where k': "unat ?sz \<le> k'" "(unat a, k') \<in> kmem_live m"
    using ownedD [OF at(3) assms(2)] assms(3,4) by metis
  then have sz: "unat ?sz \<le> k" using kernel.live_size_unique [OF at(1) assms(5), of k'] by simp
  have len: "length ?al = 1024" using at(3) by (simp add: owned_def)
  have idx: "allocation_index ?al a 0 = Done (Some i)"
    using allocation_index_owned [OF at(3) assms(2)] assms(3,4) by simp
  from map_allocation [OF at(1,6,4,5) assms(5) sz, of 0] obtain m2 where
    2: "paging_map_to m c a a (paging_align_address (a + ?sz)) 0 = Done (0, m2)" "m2 = m\<lparr>ptables := ptables m2\<rparr>" "dir_ok m2 dir"
    and sp: "\<forall>n. space m2 dir n = (if page_no a \<le> n \<and> n < page_no a + blocks_needed (unat ?sz)
      then Some (of_nat n * PAGING_PAGE_SIZE) else space m dir n)"
    by auto
  define T where "T = ptables m2"
  have m2: "m2 = m\<lparr>ptables := T\<rparr>" by (subst 2(2)) (simp add: T_def)
  from kfree_allocation [OF at(1) assms(5)] obtain hp where
    hp: "kfree m a = Done (m\<lparr>kernel_heap := hp, bufs := (bufs m)(a := None)\<rparr>)"
      "kmem_ok (m\<lparr>kernel_heap := hp, bufs := (bufs m)(a := None)\<rparr>)" "heap_live hp = kmem_live m - {(unat a, k)}"
      "heap_blocks hp = heap_blocks (kernel_heap m)" "saddr hp = saddr (kernel_heap m)" by blast
  define m3 where "m3 = m\<lparr>kernel_heap := hp, bufs := (bufs m)(a := None), ptables := T, procs := (procs m)(p \<mapsto> ?pr)\<rparr>"
  have hf: "heap_free (kernel_heap m) a = Done hp"
    using hp(1) by (auto simp: kfree_def dest: arg_cong [of _ _ kernel_heap])
  have free: "kfree (m2\<lparr>procs := (procs m)(p \<mapsto> ?pr)\<rparr>) a = Done m3"
    by (simp add: kfree_def hf m2 m3_def del: andthen_eq_Done)
  have "process_get_allocation_by_addr pr a = Done (Some (?al ! i))"
    using idx len assms(2) by (simp add: process_get_allocation_by_addr_def rd_in del: andthen_eq_Done rd_eq_Done)
  then have "process_free m p a = Done m3"
    unfolding process_free_def using at(2) process_directory_eq [OF assms(1)] 2(1) assms(3) free
      unjoin_eq [OF at(3) assms(2-4) refl]
    by (simp add: deref_Some m2 del: andthen_eq_Done)
  moreover have live: "kmem_live m3 = kmem_live m - {(unat a, k)}" using hp(3) by (simp add: kmem_live_def m3_def)
  moreover have "process_at m3 p ?pr c dir"
  proof -
    have "owned m3 (?al[i := \<lparr>alloc_ptr = 0, alloc_size = 0\<rparr>])" by (rule owned_release [OF at(3) assms(2-4) live])
    moreover have "kmem_ok m3" using hp(2) by (simp add: kmem_ok_def kmem_live_def m3_def)
    moreover have "dir_ok m3 dir" using 2(3) by (simp add: dir_ok_def m3_def T_def)
    ultimately show ?thesis using assms(1) hp(4,5) by (simp add: process_at_def m3_def)
  qed
  moreover have "space m3 dir n = space m2 dir n" for n by (rule space_ptables) (simp add: m3_def T_def)
  ultimately show ?thesis using sp hp(1) by (intro exI [of _ m3]) (simp add: m3_def)
qed

text \<open>The blocks of the kernel heap that the entries of a table from index \<open>i\<close> on stand for.\<close>

definition held :: "process_allocation list \<Rightarrow> nat \<Rightarrow> (nat \<times> nat) set" where
  "held al i = {(unat (alloc_ptr (al ! j)), k) |j k. i \<le> j \<and> j < 1024 \<and> alloc_ptr (al ! j) \<noteq> 0}"

lemma remove_only:
  "(\<And>x. x \<in> L \<Longrightarrow> fst x = a \<Longrightarrow> x = (a, k)) \<Longrightarrow> (a, k) \<in> H \<Longrightarrow> L - {(a, k)} = L - {x \<in> H. fst x = a}"
proof -
  assume "\<And>x. x \<in> L \<Longrightarrow> fst x = a \<Longrightarrow> x = (a, k)" and "(a, k) \<in> H"
  then have "{x \<in> H. fst x = a} \<inter> L \<subseteq> {(a, k)}" and "(a, k) \<in> {x \<in> H. fst x = a}" by (blast, simp)
  then show "L - {(a, k)} = L - {x \<in> H. fst x = a}" by blast
qed

lemma terminate_allocations_from:
  assumes "process_at m p pr c dir" and "i \<le> 1024"
  shows "\<exists>m' pr'. process_terminate_allocations_from m p i = Done m' \<and> process_at m' p pr' c dir \<and>
    kmem_live m' = kmem_live m - held (proc_allocations pr) i \<and>
    (\<forall>j < 1024. alloc_ptr (proc_allocations pr' ! j) = (if i \<le> j then 0 else alloc_ptr (proc_allocations pr ! j)))"
  using assms
proof (induction "1024 - i" arbitrary: m pr i)
  case 0
  then have "i = 1024" by simp
  then show ?case using 0 process_terminate_allocations_from.simps [of m p 1024]
    by (auto simp: PANDORA_MAX_PROGRAM_ALLOCATIONS_def held_def)
next
  case (Suc n)
  let ?al = "proc_allocations pr"
  have i: "i < 1024" using Suc.hyps(2) by simp
  have at: "procs m p = Some pr" "owned m ?al" "kmem_ok m" using Suc.prems(1) by (simp_all add: process_at_def)
  have len: "length ?al = 1024" using at(2) by (simp add: owned_def)
  have step: "process_terminate_allocations_from m p i =
      andthen (if alloc_ptr (?al ! i) \<noteq> 0 then process_free m p (alloc_ptr (?al ! i)) else Done m)
        (\<lambda>m. process_terminate_allocations_from m p (Suc i))"
    using i at(1) len by (subst process_terminate_allocations_from.simps)
      (simp add: deref_Some rd_in PANDORA_MAX_PROGRAM_ALLOCATIONS_def del: andthen_eq_Done rd_eq_Done)
  obtain m1 pr1 where 1: "process_terminate_allocations_from m p i = process_terminate_allocations_from m1 p (Suc i)"
    "process_at m1 p pr1 c dir" "kmem_live m1 = kmem_live m - {x \<in> held ?al i. fst x = unat (alloc_ptr (?al ! i))}"
    "\<forall>j < 1024. alloc_ptr (proc_allocations pr1 ! j) = (if j = i then 0 else alloc_ptr (?al ! j))"
  proof (cases "alloc_ptr (?al ! i) = 0")
    case True
    then have e: "{x \<in> held ?al i. fst x = unat (alloc_ptr (?al ! i))} = {}"
      by (auto simp: held_def unat_eq_0)
    have "process_terminate_allocations_from m p i = process_terminate_allocations_from m p (Suc i)"
      using step True by simp
    moreover have "kmem_live m = kmem_live m - {x \<in> held ?al i. fst x = unat (alloc_ptr (?al ! i))}"
      unfolding e by simp
    moreover have "\<forall>j < 1024. alloc_ptr (?al ! j) = (if j = i then 0 else alloc_ptr (?al ! j))" using True by simp
    ultimately show ?thesis using that [OF _ Suc.prems(1)] by blast
  next
    case False
    obtain k where k: "(unat (alloc_ptr (?al ! i)), k) \<in> kmem_live m" using ownedD [OF at(2) i False] by blast
    from process_free_eq [OF Suc.prems(1) i refl False k] obtain m1 where
      f: "process_free m p (alloc_ptr (?al ! i)) = Done m1" "kmem_live m1 = kmem_live m - {(unat (alloc_ptr (?al ! i)), k)}"
      "process_at m1 p (pr\<lparr>proc_allocations := ?al[i := \<lparr>alloc_ptr = 0, alloc_size = 0\<rparr>]\<rparr>) c dir" by blast
    have "x = (unat (alloc_ptr (?al ! i)), k)" if "x \<in> kmem_live m" "fst x = unat (alloc_ptr (?al ! i))" for x
      using that kernel.live_size_unique [OF at(3) k] by (metis prod.collapse)
    moreover have "(unat (alloc_ptr (?al ! i)), k) \<in> held ?al i" unfolding held_def using i False by blast
    ultimately have "kmem_live m - {(unat (alloc_ptr (?al ! i)), k)} =
        kmem_live m - {x \<in> held ?al i. fst x = unat (alloc_ptr (?al ! i))}"
      by (rule remove_only)
    with that [OF _ f(3)] show ?thesis using step f(1,2) False i len by (simp add: nth_list_update)
  qed
  have "n = 1024 - Suc i" "Suc i \<le> 1024" using Suc.hyps(2) i by simp_all
  from Suc.hyps(1) [OF this(1) 1(2) this(2)] obtain m2 pr2 where
    2: "process_terminate_allocations_from m1 p (Suc i) = Done m2" "process_at m2 p pr2 c dir"
      "kmem_live m2 = kmem_live m1 - held (proc_allocations pr1) (Suc i)"
      "\<forall>j < 1024. alloc_ptr (proc_allocations pr2 ! j) = (if Suc i \<le> j then 0 else alloc_ptr (proc_allocations pr1 ! j))"
    by blast
  have "held (proc_allocations pr1) (Suc i) = held ?al (Suc i)"
  proof -
    have "alloc_ptr (proc_allocations pr1 ! j) = alloc_ptr (?al ! j)" if "Suc i \<le> j" "j < 1024" for j
      using 1(4) that by simp
    then show ?thesis unfolding held_def by (intro Collect_cong) metis
  qed
  moreover have "held ?al i = {x \<in> held ?al i. fst x = unat (alloc_ptr (?al ! i))} \<union> held ?al (Suc i)"
    unfolding held_def by (auto simp: Suc_le_eq le_less)
  ultimately have "kmem_live m2 = kmem_live m - held ?al i" using 1(3) 2(3) by blast
  then show ?case using 1(1,4) 2 by (intro exI [of _ m2] exI [of _ pr2]) auto
qed

section \<open>Counting arguments\<close>

text \<open>The arguments at the addresses \<open>as\<close>, linked from one to the next, lead to the address \<open>b\<close>.\<close>

fun argument_path :: "'a kmem_scheme \<Rightarrow> addr \<Rightarrow> addr list \<Rightarrow> addr \<Rightarrow> bool" where
  "argument_path m a [] b \<longleftrightarrow> a = b"
| "argument_path m a (x # as) b \<longleftrightarrow> a = x \<and> a \<noteq> 0 \<and> (\<exists>y. argument_next m a = Done y \<and> argument_path m y as b)"

lemma count_arguments_path:
  "argument_path m a as 0 \<Longrightarrow> process_count_arguments_from m a i = Some (Done (i + int (length as)))"
proof (induction as arbitrary: a i)
  case Nil
  then show ?case by (simp add: process_count_arguments_from.simps)
next
  case (Cons x as)
  then obtain y where y: "a \<noteq> 0" "argument_next m a = Done y" "argument_path m y as 0" by auto
  from Cons.IH [OF y(3), of "i + 1"] show ?case
    by (subst process_count_arguments_from.simps) (simp add: y(1,2))
qed

text \<open>From an argument on a cycle the count never ends.\<close>

lemma count_arguments_cycle:
  assumes "\<forall>a \<in> C. a \<noteq> 0 \<and> (\<exists>b \<in> C. argument_next m a = Done b)" and "a \<in> C"
  shows "process_count_arguments_from m a i = None"
proof -
  have "m' = m \<longrightarrow> a \<notin> C" if "process_count_arguments_from m' a i = Some r" for m' a i r
  proof (rule process_count_arguments_from.raw_induct [of "\<lambda>m' a i r. m' = m \<longrightarrow> a \<notin> C", OF _ that])
    fix f :: "'a kmem_scheme \<Rightarrow> addr \<Rightarrow> int \<Rightarrow> int run option" and m' a i r
    assume IH: "\<And>m' b i r. f m' b i = Some r \<Longrightarrow> m' = m \<longrightarrow> b \<notin> C"
      and run: "(if a = 0 then Some (Done i)
        else case argument_next m' a of Done next \<Rightarrow> f m' next (i + 1) | Panic \<Rightarrow> Some Panic | Fault \<Rightarrow> Some Fault) = Some r"
    show "m' = m \<longrightarrow> a \<notin> C"
    proof (intro impI notI)
      assume "m' = m" "a \<in> C"
      then obtain b where "a \<noteq> 0" "b \<in> C" "argument_next m' a = Done b" using assms(1) by blast
      then show False using IH [of m' b "i + 1" r] run \<open>m' = m\<close> by simp
    qed
  qed
  then show ?thesis using assms(2) by (metis not_Some_eq)
qed

lemma argument_path_next:
  "argument_path m a as b \<Longrightarrow> b \<in> S \<Longrightarrow> set as \<subseteq> S \<Longrightarrow> \<forall>x \<in> set as. x \<noteq> 0 \<and> (\<exists>y \<in> S. argument_next m x = Done y)"
proof (induction as arbitrary: a)
  case (Cons x as)
  then obtain y where y: "a = x" "a \<noteq> 0" "argument_next m a = Done y" "argument_path m y as b" by auto
  then have "y \<in> S" using Cons.prems(2,3) by (cases as) auto
  then show ?case using y Cons.IH [OF y(4)] Cons.prems(2,3) by auto
qed simp

lemma buffer_before_skip:
  "\<forall>j < k. bufs m (a - 4 * of_nat j) = None \<Longrightarrow> bufs m (a - 4 * of_nat k) \<noteq> None \<Longrightarrow> k < n \<Longrightarrow>
    buffer_before m a n = Some (a - 4 * of_nat k)"
proof (induction k arbitrary: a n)
  case 0
  then show ?case by (cases n) auto
next
  case (Suc k)
  obtain l where n: "n = Suc l" using Suc.prems(3) by (cases n) auto
  have sh: "a - 4 - 4 * of_nat j = a - 4 * of_nat (Suc j)" for j by (simp add: algebra_simps)
  have "buffer_before m (a - 4) l = Some (a - 4 - 4 * of_nat k)"
    using Suc.prems n by (intro Suc.IH) (simp_all only: sh, auto)
  moreover have "bufs m a = None" using Suc.prems(1) by force
  ultimately show ?case using n sh by simp
qed

section \<open>A process in a fresh kernel\<close>

definition sim_proc :: process where
  "sim_proc = zero_process\<lparr>proc_task := 0x1400000\<rparr>"

lemma sim_process:
  "\<exists>(m :: sim kernel) c dir. process_at m 0x1404000 sim_proc c dir \<and> below m 1026 \<and> heap_blocks (kernel_heap m) = 25600 \<and>
    saddr (kernel_heap m) = 0x1000000"
proof -
  let ?base = "sim_kernel\<lparr>chunks := Map.empty\<rparr>"
  have ok: "pages_ok ?base" "paging_room ?base 0 (1026 + 0)"
    by (simp_all add: pages_ok_def kmem_ok_def paging_room_def below_def sim_kernel_def boot_heap_ok boot_heap_simps)
  from paging_new_4gb_eq_room [OF ok, of 7] obtain c dir ps hp where n:
    "pages_ok (new_4gb_result ?base 7 hp c dir ps)" "length ps = 1024" "distinct (dir # ps)" "\<forall>p \<in> set ps. 4096 dvd unat p"
    "heap_blocks hp = heap_blocks (kernel_heap ?base)" "saddr hp = saddr (kernel_heap ?base)"
    "paging_room (new_4gb_result ?base 7 hp c dir ps) 1026 0" by auto
  let ?m = "(new_4gb_result ?base 7 hp c dir ps)\<lparr>procs := [0x1404000 \<mapsto> sim_proc],
    tasks := [0x1400000 \<mapsto> zero_task\<lparr>page_directory := c\<rparr>]\<rparr>"
  have hp: "heap_blocks hp = 25600" "saddr hp = 0x1000000"
    using n(5,6) by (simp_all add: sim_kernel_def boot_heap_simps)
  have "kmem_ok ?m" using n(1) by (simp add: pages_ok_def kmem_ok_def kmem_live_def)
  moreover have "dir_ok (new_4gb_result ?base 7 hp c dir ps) dir" by (rule new_4gb_space(1) [OF n(2-4)])
  then have "dir_ok ?m dir" by (rule dir_ok_ptables) simp
  moreover have "owned ?m (proc_allocations sim_proc)"
    by (simp add: owned_def entry_ok_def sim_proc_def zero_process_def PANDORA_MAX_PROGRAM_ALLOCATIONS_def)
  moreover have "chunks ?m c = Some dir" by (simp add: new_4gb_result_def)
  ultimately have "process_at ?m 0x1404000 sim_proc c dir"
    using hp by (simp add: process_at_def new_4gb_result_def sim_proc_def)
  moreover have "below ?m 1026" using n(7) by (simp add: paging_room_def below_def)
  moreover have "heap_blocks (kernel_heap ?m) = 25600" "saddr (kernel_heap ?m) = 0x1000000" using hp by (simp_all add: new_4gb_result_def)
  ultimately show ?thesis by blast
qed

section \<open>Properties\<close>

lemma least_free_entry:
  assumes "owned m al" and "\<exists>x \<in> set al. alloc_ptr x = 0"
  obtains i where "i < 1024" and "al ! i = \<lparr>alloc_ptr = 0, alloc_size = 0\<rparr>" and "\<forall>j < i. alloc_ptr (al ! j) \<noteq> 0"
proof -
  have len: "length al = 1024" using assms(1) by (simp add: owned_def)
  then obtain l where l: "l < 1024 \<and> alloc_ptr (al ! l) = 0" using assms(2) by (auto simp: in_set_conv_nth)
  let ?i = "LEAST i. i < 1024 \<and> alloc_ptr (al ! i) = 0"
  have i: "?i < 1024" "alloc_ptr (al ! ?i) = 0" using LeastI [of "\<lambda>i. i < 1024 \<and> alloc_ptr (al ! i) = 0" l, OF l] by simp_all
  moreover have "alloc_ptr (al ! j) \<noteq> 0" if "j < ?i" for j
    using not_less_Least [OF that] that i(1) by auto
  moreover have "al ! ?i = \<lparr>alloc_ptr = 0, alloc_size = 0\<rparr>"
    using assms(1) i unfolding owned_def entry_ok_def by (metis (full_types) process_allocation.surjective old.unit.exhaust)
  ultimately show thesis using that by blast
qed

text \<open>
  C18. Memory of a process: when the kernel heap has a block for the request and the table of the process a
  free entry, \<open>process_malloc\<close> returns the block, maps exactly its pages one to one with the rights of
  a user program in the address space of the process, and records it so that the invariant of the
  table holds; \<open>process_free\<close> of the pointer gives back the heap, the kernel's buffers and the process as they
  were, and leaves the pages without access.
\<close>

theorem process_malloc_free_roundtrip:
  assumes "process_at m p pr c dir" and "0 < unat sz" and "unat sz \<le> 0xFFFFF000"
    and "kzalloc m sz = Done (a, m1)" and "a \<noteq> 0" and "\<exists>x \<in> set (proc_allocations pr). alloc_ptr x = 0"
  shows "\<exists>m' pr' m''. process_malloc m p sz = Done (a, m') \<and> process_at m' p pr' c dir \<and>
    (\<forall>n. space m' dir n = (if page_no a \<le> n \<and> n < page_no a + blocks_needed (unat sz)
      then Some ((of_nat n * PAGING_PAGE_SIZE) OR user_flags) else space m dir n)) \<and>
    process_free m' p a = Done m'' \<and> kernel_heap m'' = kernel_heap m \<and> bufs m'' = bufs m \<and> procs m'' = procs m \<and>
    (\<forall>n. space m'' dir n = (if page_no a \<le> n \<and> n < page_no a + blocks_needed (unat sz)
      then Some (of_nat n * PAGING_PAGE_SIZE) else space m dir n))"
proof -
  let ?al = "proc_allocations pr"
  have at: "kmem_ok m" "procs m p = Some pr" "owned m ?al" using assms(1) by (simp_all add: process_at_def)
  obtain i where i: "i < 1024" "?al ! i = \<lparr>alloc_ptr = 0, alloc_size = 0\<rparr>" "\<forall>j < i. alloc_ptr (?al ! j) \<noteq> 0"
    using least_free_entry [OF at(3) assms(6)] .
  have len: "length ?al = 1024" using at(3) by (simp add: owned_def)
  have "alloc_ptr (?al ! i) = 0" using i(2) by simp
  from process_malloc_eq [OF assms(1-5) i(1) this i(3)] obtain m2 k where
    2: "process_malloc m p sz = Done (a, m2)" "kmem_live m2 = insert (unat a, k) (kmem_live m)"
    "m2 = m\<lparr>kernel_heap := kernel_heap m1, bufs := (bufs m)(a \<mapsto> replicate (unat sz) 0), ptables := ptables m2,
      procs := (procs m)(p \<mapsto> pr\<lparr>proc_allocations := ?al[i := \<lparr>alloc_ptr = a, alloc_size = sz\<rparr>]\<rparr>)\<rparr>"
    "process_at m2 p (pr\<lparr>proc_allocations := ?al[i := \<lparr>alloc_ptr = a, alloc_size = sz\<rparr>]\<rparr>) c dir"
    "\<forall>n. space m2 dir n = (if page_no a \<le> n \<and> n < page_no a + blocks_needed (unat sz)
      then Some ((of_nat n * PAGING_PAGE_SIZE) OR user_flags) else space m dir n)" by blast
  have "(unat a, k) \<in> kmem_live m2" using 2(2) by simp
  from process_free_eq [OF 2(4) i(1) _ assms(5) this] len i(1) obtain m3 where
    3: "process_free m2 p a = Done m3"
    "m3 = m2\<lparr>kernel_heap := kernel_heap m3, bufs := (bufs m2)(a := None), ptables := ptables m3,
      procs := (procs m2)(p \<mapsto> pr\<lparr>proc_allocations := ?al[i := \<lparr>alloc_ptr = 0, alloc_size = 0\<rparr>]\<rparr>)\<rparr>"
    "kfree m2 a = Done (m2\<lparr>kernel_heap := kernel_heap m3, bufs := (bufs m2)(a := None)\<rparr>)"
    "\<forall>n. space m3 dir n = (if page_no a \<le> n \<and> n < page_no a + blocks_needed (unat sz)
      then Some (of_nat n * PAGING_PAGE_SIZE) else space m2 dir n)" by auto
  have none: "bufs m a = None" "kfree m1 a = Done m" using kzalloc_alloc [OF at(1) assms(2-4)] assms(5) by blast+
  have "heap_free (kernel_heap m1) a = Done (kernel_heap m)" using none(2) by (auto simp: kfree_def)
  moreover have "kernel_heap m2 = kernel_heap m1" by (subst 2(3)) simp
  moreover have "heap_free (kernel_heap m2) a = Done (kernel_heap m3)"
    using 3(3) by (auto simp: kfree_def dest: arg_cong [of _ _ kernel_heap])
  ultimately have h: "kernel_heap m3 = kernel_heap m" by simp
  have b: "bufs m3 = bufs m" by (subst 3(2), subst 2(3)) (simp add: none(1) fun_upd_idem)
  have "?al[i := \<lparr>alloc_ptr = 0, alloc_size = 0\<rparr>] = ?al" using i(2) by (metis list_update_id)
  then have q: "procs m3 = procs m" by (subst 3(2), subst 2(3)) (simp add: at(2) fun_upd_idem)
  have "\<forall>n. space m3 dir n = (if page_no a \<le> n \<and> n < page_no a + blocks_needed (unat sz)
      then Some (of_nat n * PAGING_PAGE_SIZE) else space m dir n)" using 3(4) 2(5) by simp
  then show ?thesis using 2(1,4,5) 3(1) h b q by blast
qed

theorem process_malloc_free_roundtrip_witness:
  "\<exists>(m :: sim kernel) a m' m''. process_malloc m 0x1404000 5000 = Done (a, m') \<and> a \<noteq> 0 \<and>
    process_free m' 0x1404000 a = Done m'' \<and> kernel_heap m'' = kernel_heap m"
proof -
  obtain m :: "sim kernel" and c dir where
    m: "process_at m 0x1404000 sim_proc c dir" "below m 1026" "heap_blocks (kernel_heap m) = 25600"
    using sim_process by blast
  have "blocks_needed (unat (5000 :: u32)) = 2" by (simp add: blocks_needed_def)
  then obtain a m1 where z: "kzalloc m 5000 = Done (a, m1)" "a \<noteq> 0"
    using kzalloc_below [of m 1026 5000] m by (auto simp: process_at_def)
  have "\<exists>x \<in> set (proc_allocations sim_proc). alloc_ptr x = 0"
    by (simp add: sim_proc_def zero_process_def PANDORA_MAX_PROGRAM_ALLOCATIONS_def)
  from process_malloc_free_roundtrip [OF m(1) _ _ z this] z(2) show ?thesis by auto
qed

text \<open>
  C19. The end of a process leaks none of its memory and takes no other: \<open>process_terminate_allocations\<close>
  always returns, frees every block of the kernel heap that the table of the process stands for and no
  other, and leaves the table empty.
\<close>

theorem process_terminate_allocations_frees:
  assumes "process_at m p pr c dir"
  shows "\<exists>m' pr'. process_terminate_allocations m p = Done m' \<and> procs m' p = Some pr' \<and>
    (\<forall>x \<in> set (proc_allocations pr'). alloc_ptr x = 0) \<and> kmem_ok m' \<and>
    kmem_live m' = {(a, k) \<in> kmem_live m. \<forall>x \<in> set (proc_allocations pr). alloc_ptr x = 0 \<or> unat (alloc_ptr x) \<noteq> a}"
proof -
  from terminate_allocations_from [OF assms, of 0] obtain m' pr' where
    1: "process_terminate_allocations_from m p 0 = Done m'" "process_at m' p pr' c dir"
      "kmem_live m' = kmem_live m - held (proc_allocations pr) 0"
      "\<forall>j < 1024. alloc_ptr (proc_allocations pr' ! j) = 0" by auto
  have len: "length (proc_allocations pr) = 1024" "length (proc_allocations pr') = 1024"
    using assms 1(2) by (simp_all add: process_at_def owned_def)
  have "held (proc_allocations pr) 0 = {(a, k). \<exists>x \<in> set (proc_allocations pr). alloc_ptr x \<noteq> 0 \<and> unat (alloc_ptr x) = a}"
    unfolding held_def by (auto simp: in_set_conv_nth len Bex_def)
  moreover have "\<forall>x \<in> set (proc_allocations pr'). alloc_ptr x = 0" using 1(4) len(2) by (auto simp: in_set_conv_nth)
  ultimately show ?thesis using 1 by (auto simp: process_terminate_allocations_def process_at_def)
qed

theorem process_terminate_allocations_frees_witness:
  "\<exists>(m :: sim kernel) m'. process_terminate_allocations m 0x1404000 = Done m' \<and> kmem_ok m'"
proof -
  obtain m :: "sim kernel" and c dir where "process_at m 0x1404000 sim_proc c dir" using sim_process by blast
  from process_terminate_allocations_frees [OF this] show ?thesis by blast
qed

text \<open>
  C30. The arguments of a process are counted when their list ends: for a list of arguments that
  ends in a null pointer \<open>process_count_command_arguments\<close> returns their number, and from an argument on a
  cycle, which a user program can build, the loop of the kernel never ends (the model panics). (A list whose tail
  leads into a cycle behaves like its tail and is not stated separately.)
\<close>

theorem process_count_arguments_terminates:
  "(argument_path m a as 0 \<longrightarrow> process_count_command_arguments m a = Done (int (length as))) \<and>
   (argument_path m a as a \<and> as \<noteq> [] \<longrightarrow> process_count_command_arguments m a = Panic)"
proof (intro conjI impI)
  show "process_count_command_arguments m a = Done (int (length as))" if "argument_path m a as 0"
    using count_arguments_path [OF that, of 0] by (simp add: process_count_command_arguments_def endless_def)
  assume c: "argument_path m a as a \<and> as \<noteq> []"
  then have "a \<in> set as" by (cases as) auto
  with argument_path_next [of m a as a "set as"] c have "process_count_arguments_from m a 0 = None"
    by (intro count_arguments_cycle [of "set as"]) auto
  then show "process_count_command_arguments m a = Panic" by (simp add: process_count_command_arguments_def endless_def)
qed

text \<open>One argument at 0x1000000 whose pointer to the next one is \<open>nxt\<close>.\<close>

definition argument_link :: "addr \<Rightarrow> u8 list" where
  "argument_link nxt = [ucast nxt, ucast (drop_bit 8 nxt), ucast (drop_bit 16 nxt), ucast (drop_bit 24 nxt)]"

definition one_argument :: "addr \<Rightarrow> kmem" where
  "one_argument nxt = \<lparr>kernel_heap = boot_heap, bufs = [0x1000000 \<mapsto> replicate 512 0 @ argument_link nxt]\<rparr>"

lemma pbytes_four:
  "pload m a = Done w \<Longrightarrow> pload m (a + 1) = Done x \<Longrightarrow> pload m (a + 2) = Done y \<Longrightarrow> pload m (a + 3) = Done z \<Longrightarrow>
    pbytes m a 4 = [w, x, y, z]"
proof -
  assume "pload m a = Done w" "pload m (a + 1) = Done x" "pload m (a + 2) = Done y" "pload m (a + 3) = Done z"
  then have "pbytes m a (Suc (Suc (Suc (Suc 0)))) = [w, x, y, z]" by (simp add: add.assoc)
  then show ?thesis by (simp add: eval_nat_numeral)
qed

lemma one_argument_next: "argument_next (one_argument 0) 0x1000000 = Done 0"
  "argument_next (one_argument 0x1000000) 0x1000000 = Done 0x1000000"
proof -
  have no: "bufs (one_argument n) (0x1000200 - 4 * of_nat j) = None" if "j < 128" for n j
  proof -
    have u: "unat (4 * of_nat j :: addr) = 4 * j" using that by (subst unat_mult_u32) (simp_all add: unat_of_nat_u32)
    have "(4 * of_nat j :: addr) \<le> 0x1000200" unfolding word_le_nat_alt u using that by simp
    then have "unat (0x1000200 - 4 * of_nat j :: addr) = 0x1000200 - 4 * j" by (simp add: unat_sub u)
    then have "0x1000200 - 4 * of_nat j \<noteq> (0x1000000 :: addr)" using that by (auto dest: arg_cong [of _ _ unat])
    then show ?thesis by (simp add: one_argument_def)
  qed
  have "buffer_before (one_argument n) 0x1000200 26214400 = Some 0x1000000" for n
    using buffer_before_skip [of 128 "one_argument n" "0x1000200" 26214400] no [of _ n]
    by (simp add: one_argument_def)
  then have b: "buffer_of (one_argument n) a = Some 0x1000000" if "a AND 0xFFFFFFFC = 0x1000200" for n a
    using that by (simp add: buffer_of_def conf)
  have ld: "pload (one_argument n) (0x1000200 + w) = Done ((replicate 512 0 @ argument_link n) ! (512 + unat w))"
    if "unat w < 4" "(0x1000200 + w) AND 0xFFFFFFFC = 0x1000200" for n w
  proof -
    have "unat (0x200 + w) = 512 + unat w" using that(1) by (subst unat_add_u32) simp_all
    moreover have "bufs (one_argument n) 0x1000000 = Some (replicate 512 0 @ argument_link n)"
      by (simp add: one_argument_def)
    moreover have "length (argument_link n) = 4" by (simp add: argument_link_def)
    ultimately show ?thesis using b [OF that(2), of n] that(1)
      by (simp add: pload_def deref_Some rd_in del: andthen_eq_Done rd_eq_Done deref_eq_Done)
  qed
  have "pbytes (one_argument n) 0x1000200 4 = argument_link n" for n
  proof -
    have "pload (one_argument n) (0x1000200 + 0) = Done (ucast n)" using ld [of 0 n] by (simp add: argument_link_def nth_append)
    moreover have "pload (one_argument n) (0x1000200 + 1) = Done (ucast (drop_bit 8 n))"
      using ld [of 1 n] by (simp add: argument_link_def nth_append)
    moreover have "pload (one_argument n) (0x1000200 + 2) = Done (ucast (drop_bit 16 n))"
      using ld [of 2 n] by (simp add: argument_link_def nth_append)
    moreover have "pload (one_argument n) (0x1000200 + 3) = Done (ucast (drop_bit 24 n))"
      using ld [of 3 n] by (simp add: argument_link_def nth_append)
    ultimately show ?thesis unfolding argument_link_def by (intro pbytes_four) simp_all
  qed
  then show "argument_next (one_argument 0) 0x1000000 = Done 0"
    "argument_next (one_argument 0x1000000) 0x1000000 = Done 0x1000000"
    by (simp_all add: argument_next_def argument_link_def le32_def)
qed

theorem process_count_arguments_terminates_witness:
  "process_count_command_arguments (one_argument 0) 0x1000000 = Done 1 \<and>
   process_count_command_arguments (one_argument 0x1000000) 0x1000000 = Panic"
  using process_count_arguments_terminates [of "one_argument 0" "0x1000000" "[0x1000000]"]
    process_count_arguments_terminates [of "one_argument 0x1000000" "0x1000000" "[0x1000000]"]
  by (simp add: one_argument_next)

end
