(* ===== verification/User_Copy.thy ===== *)
theory User_Copy
  imports Process_Memory
begin

text \<open>
  Reading the memory of a program: \<open>copy_string_from_task\<close> (\<^verbatim>\<open>src/task/task.c\<close>) maps a fresh kernel buffer
  into the address space of the task, switches to it, copies the string, switches back, restores the
  mapping and releases the buffer. The lemmas show that the bytes a task sees do not depend on the new
  buffer and its mapping (\<open>vload_fresh\<close>), and that nothing of the detour remains.
\<close>

section \<open>Translation by the processor\<close>

lemma mmu_indexes:
  "unat (a div 0x400000 :: addr) = page_no a div 1024" "unat (a div 0x1000 mod 1024 :: addr) = page_no a mod 1024"
  by (simp_all add: page_no_def unat_div unat_mod div_mult2_eq [symmetric])

text \<open>It depends only on the directory and on the entry of the page.\<close>

lemma mmu_cong:
  assumes "dir_ok m dir" and "dir_ok m' dir" and "ptables m' dir = ptables m dir" and "cr3 m = dir" and "cr3 m' = dir"
    and "space m' dir (page_no a) = space m dir (page_no a)"
  shows "mmu m' a = mmu m a"
proof -
  from assms(1) obtain d where d: "ptables m dir = Some d" "length d = 1024"
    "\<And>i. i < 1024 \<Longrightarrow> \<exists>t. ptables m (table_of (d ! i)) = Some t \<and> length t = 1024" by (rule dir_okE) blast
  from assms(2) obtain d' where d': "ptables m' dir = Some d'" "length d' = 1024"
    "\<And>i. i < 1024 \<Longrightarrow> \<exists>t. ptables m' (table_of (d' ! i)) = Some t \<and> length t = 1024" by (rule dir_okE) blast
  have dd: "d' = d" using d(1) d'(1) assms(3) by simp
  let ?i = "page_no a div 1024" and ?j = "page_no a mod 1024"
  obtain t where t: "ptables m (table_of (d ! ?i)) = Some t" "length t = 1024" using d(3) [OF page_split(1)] by blast
  obtain t' where t': "ptables m' (table_of (d ! ?i)) = Some t'" "length t' = 1024"
    using d'(3) [OF page_split(1), of a] unfolding dd by blast
  have "t' ! ?j = t ! ?j"
    using assms(6) d(1,2) d' t t' page_split [of a] by (simp add: space_def dd)
  moreover have "tab_rd m dir ?i = Done (d ! ?i)" "tab_rd m (table_of (d ! ?i)) ?j = Done (t ! ?j)"
    "tab_rd m' dir ?i = Done (d ! ?i)" "tab_rd m' (table_of (d ! ?i)) ?j = Done (t' ! ?j)"
    using d d'(1) t t' page_split [of a] by (simp_all add: tab_rd_def dd deref_Some rd_def del: rd_eq_Done andthen_eq_Done)
  ultimately show ?thesis by (simp add: mmu_def mmu_indexes assms(4,5) del: rd_eq_Done andthen_eq_Done)
qed

section \<open>The buffer an address belongs to\<close>

lemma buffer_before_Some:
  "buffer_before m a n = Some p \<longleftrightarrow> (\<exists>j < n. p = a - 4 * of_nat j \<and> bufs m p \<noteq> None \<and> (\<forall>i < j. bufs m (a - 4 * of_nat i) = None))"
proof (induction n arbitrary: a)
  case 0
  then show ?case by simp
next
  case (Suc n)
  show ?case
  proof (cases "bufs m a = None")
    case False
    have "(\<exists>j < Suc n. p = a - 4 * of_nat j \<and> bufs m p \<noteq> None \<and> (\<forall>i < j. bufs m (a - 4 * of_nat i) = None)) \<longleftrightarrow> p = a"
    proof
      assume "\<exists>j < Suc n. p = a - 4 * of_nat j \<and> bufs m p \<noteq> None \<and> (\<forall>i < j. bufs m (a - 4 * of_nat i) = None)"
      then obtain j where j: "p = a - 4 * of_nat j" "\<forall>i < j. bufs m (a - 4 * of_nat i) = None" by blast
      have "j = 0" using j(2) [rule_format, of 0] False by (cases j) auto
      with j(1) show "p = a" by simp
    qed (use False in auto)
    with False show ?thesis by auto
  next
    case True
    have sh: "a - 4 * of_nat (Suc i) = a - 4 - 4 * of_nat i" for i by (simp add: algebra_simps)
    have "(\<exists>j < Suc n. p = a - 4 * of_nat j \<and> bufs m p \<noteq> None \<and> (\<forall>i < j. bufs m (a - 4 * of_nat i) = None)) \<longleftrightarrow>
        (\<exists>j < n. p = a - 4 - 4 * of_nat j \<and> bufs m p \<noteq> None \<and> (\<forall>i < j. bufs m (a - 4 - 4 * of_nat i) = None))" (is "?L \<longleftrightarrow> ?R")
    proof
      assume ?L
      then obtain j where j: "j < Suc n" "p = a - 4 * of_nat j" "bufs m p \<noteq> None" "\<forall>i < j. bufs m (a - 4 * of_nat i) = None" by blast
      then obtain l where l: "j = Suc l" using True by (cases j) auto
      have "\<forall>i < l. bufs m (a - 4 - 4 * of_nat i) = None"
      proof (intro allI impI)
        fix i assume "i < l"
        with j(4) l have "bufs m (a - 4 * of_nat (Suc i)) = None" by blast
        then show "bufs m (a - 4 - 4 * of_nat i) = None" unfolding sh .
      qed
      with j(1,2,3) l show ?R unfolding l sh by auto
    next
      assume ?R
      then obtain j where j: "j < n" "p = a - 4 - 4 * of_nat j" "bufs m p \<noteq> None" "\<forall>i < j. bufs m (a - 4 - 4 * of_nat i) = None" by blast
      have "bufs m (a - 4 * of_nat i) = None" if "i < Suc j" for i
      proof (cases i)
        case (Suc l)
        then show ?thesis using j(4) that unfolding Suc sh by simp
      qed (simp add: True)
      with j(1-3) show ?L unfolding sh [symmetric] by blast
    qed
    with True Suc.IH [of "a - 4"] show ?thesis by simp
  qed
qed

text \<open>
  Buffers do not overlap what the heap hands out: a buffer in the heap lies inside its allocation, a
  buffer of the kernel elsewhere outside of the heap.
\<close>

definition buffers_apart :: "'a kmem_scheme \<Rightarrow> bool" where
  "buffers_apart m \<longleftrightarrow> (\<forall>p b. bufs m p = Some b \<longrightarrow> unat p + length b \<le> 2 ^ 32 \<and>
     (if in_heap (kernel_heap m) p then \<exists>k \<ge> length b. (unat p, k) \<in> kmem_live m
      else \<forall>q. in_heap (kernel_heap m) q \<longrightarrow> unat q < unat p \<or> unat p + length b \<le> unat q))"

lemma kzalloc_outside:
  assumes "kmem_ok m" and "buffers_apart m" and "0 < unat sz" and "unat sz \<le> 0xFFFFF000"
    and "kzalloc m sz = Done (a, m1)" and "a \<noteq> 0" and "bufs m p = Some b"
  shows "unat a < unat p \<or> unat p + length b \<le> unat a"
proof -
  from kernel.alloc_fresh [OF assms(1,3-6)] obtain k where
    k: "kmem_ok m1" "unat sz \<le> k" "kmem_live m1 = insert (unat a, k) (kmem_live m)" "(unat a, k) \<notin> kmem_live m" by blast
  have ok: "heap_ok (kernel_heap m)" using assms(1) by (simp add: kmem_ok_def)
  from assms(5,6) obtain hp where mal: "heap_malloc (kernel_heap m) sz = Done (a, hp)"
    and hp: "m1 = m\<lparr>kernel_heap := hp, bufs := (bufs m)(a \<mapsto> replicate (unat sz) 0)\<rparr>"
    by (auto simp: kzalloc_eq [OF assms(4)] split: if_splits)
  from mal have same: "in_heap hp = in_heap (kernel_heap m)" by (rule heap_malloc_in_heap [OF ok assms(3,4)])
  have ina: "in_heap (kernel_heap m) a"
    using heap_live_in_heap [of a k hp] k(3) hp same by (simp add: kmem_live_def)
  show ?thesis
  proof (cases "in_heap (kernel_heap m) p")
    case True
    then obtain l where l: "length b \<le> l" "(unat p, l) \<in> kmem_live m"
      using assms(2,7) unfolding buffers_apart_def by fastforce
    with k(3) kernel.live_disjoint [OF k(1), of "unat a" k "unat p" l] have
      "(unat a, k) = (unat p, l) \<or> unat a + k \<le> unat p \<or> unat p + l \<le> unat a" by auto
    moreover have "0 < k" using k(2) assms(3) by linarith
    ultimately show ?thesis using l k(4) by auto
  next
    case False
    then show ?thesis using assms(2,7) ina unfolding buffers_apart_def by (metis (mono_tags, lifting))
  qed
qed

lemma low_bits: "(x AND 0xFFFFFFFC) + (x AND 3) = (x :: addr)" "unat (x AND 3 :: addr) < 4"
proof -
  have m: "(3 :: addr) = mask 2" "(0xFFFFFFFC :: addr) = NOT (mask 2)" by (simp_all add: mask_eq_exp_minus_1)
  have "(x AND NOT (mask 2)) AND (x AND mask 2) = 0" by (intro bit_word_eqI) (auto simp: bit_simps)
  then have "(x AND NOT (mask 2)) + (x AND mask 2) = (x AND NOT (mask 2)) OR (x AND mask 2)"
    by (rule disjunctive_add_eq_or)
  also have "\<dots> = x" by (intro bit_word_eqI) (auto simp: bit_simps)
  finally show "(x AND 0xFFFFFFFC) + (x AND 3) = x" unfolding m .
  have "unat (take_bit 2 x) = unat x mod 4" by (simp add: take_bit_eq_mod unat_mod)
  then show "unat (x AND 3) < 4" unfolding m take_bit_eq_mask [symmetric] by simp
qed

text \<open>So a byte that can be read is the same byte when the heap has handed out a new buffer.\<close>

lemma pload_fresh:
  assumes "pload m x = Done c" and "bufs m' = (bufs m)(a \<mapsto> z)" and "bufs m a = None"
    and "\<And>p b. bufs m p = Some b \<Longrightarrow> unat p + length b \<le> 2 ^ 32 \<and> (unat a < unat p \<or> unat p + length b \<le> unat a)"
  shows "pload m' x = Done c"
proof -
  let ?y = "x AND 0xFFFFFFFC" and ?n = "nat PANDORAOS_HEAP_SIZE_BYTES div 4"
  from assms(1) obtain p b where p: "buffer_of m x = Some p" "bufs m p = Some b" "rd b (unat (x - p)) = Done c"
    by (auto simp: pload_def deref_def split: option.splits)
  from p(3) have in_b: "unat (x - p) < length b" by (simp add: rd_def split: if_splits)
  from p(1) obtain j where j: "j < ?n" "p = ?y - 4 * of_nat j" "bufs m p \<noteq> None" "\<forall>i < j. bufs m (?y - 4 * of_nat i) = None"
    unfolding buffer_of_def buffer_before_Some by blast
  have "?n = 26214400" by (simp add: PANDORAOS_HEAP_SIZE_BYTES_def)
  with j(1) have "4 * j < 2 ^ 28" by simp
  then have w: "unat (4 * of_nat i :: addr) = 4 * i" if "i \<le> j" for i
    using that by (simp add: unat_word_ariths unat_of_nat)
  have "x - p = (x AND 3) + 4 * of_nat j" unfolding j(2) by (subst low_bits(1) [of x, symmetric]) simp
  moreover have "unat ((x AND 3) + 4 * of_nat j) = unat (x AND 3) + 4 * j"
    using low_bits(2) [of x] w [OF order_refl] \<open>4 * j < 2 ^ 28\<close> by (subst unat_add_u32) simp_all
  ultimately have jb: "4 * j < length b" using in_b by simp
  note far = assms(4) [OF p(2)]
  have "a \<noteq> ?y - 4 * of_nat i" if i: "i < j" for i
  proof
    assume "a = ?y - 4 * of_nat i"
    then have "a = p + (4 * of_nat (j - i))" using i j(2) by (simp add: of_nat_diff algebra_simps)
    moreover have "4 * (j - i) \<le> 4 * j" by simp
    then have "unat p + 4 * (j - i) < 2 ^ 32" using far jb by linarith
    ultimately have "unat a = unat p + 4 * (j - i)"
      using w [of "j - i"] by (simp only:) (subst unat_add_u32, simp_all)
    with far jb i show False by auto
  qed
  then have "\<forall>i < j. bufs m' (?y - 4 * of_nat i) = None" using j(4) assms(2) by auto
  moreover have pb: "bufs m' p = Some b" using p(2) assms(2,3) by auto
  ultimately have "buffer_of m' x = Some p" unfolding buffer_of_def buffer_before_Some using j(1,2) by blast
  with pb p(3) show ?thesis by (simp add: pload_def deref_Some del: andthen_eq_Done rd_eq_Done)
qed

text \<open>
  The memory a task sees is not changed by a new buffer and by the mapping of its page: \<open>m1\<close> is the memory
  after \<open>kzalloc\<close>, \<open>m2\<close> the one after \<open>paging_map\<close>.
\<close>

lemma vload_fresh:
  assumes "vload m x = Done c" and "cr3 m = dir" and "cr3 m2 = dir" and "dir_ok m dir" and "dir_ok m2 dir"
    and "ptables m2 dir = ptables m dir" and "space m2 dir (page_no x) = space m dir (page_no x)"
    and "bufs m2 = (bufs m)(a \<mapsto> z)" and "bufs m a = None"
    and "\<And>p b. bufs m p = Some b \<Longrightarrow> unat p + length b \<le> 2 ^ 32 \<and> (unat a < unat p \<or> unat p + length b \<le> unat a)"
  shows "vload m2 x = Done c"
proof -
  from assms(1) obtain y where y: "mmu m x = Done y" "pload m y = Done c" by (auto simp: vload_def)
  have "mmu m2 x = Done y" using mmu_cong [OF assms(4-6,2,3,7)] y(1) by simp
  with pload_fresh [OF y(2) assms(8-10)] show ?thesis by (simp add: vload_def del: andthen_eq_Done)
qed

lemma vbytes_prefix:
  "\<lbrakk>\<forall>i < length xs. vload m (a + of_nat i) = Done (xs ! i); length xs \<le> k\<rbrakk> \<Longrightarrow> \<exists>ys. vbytes m a k = xs @ ys"
proof (induction xs arbitrary: a k)
  case Nil
  then show ?case by simp
next
  case (Cons c xs)
  then obtain l where k: "k = Suc l" "length xs \<le> l" by (cases k) auto
  have "vload m (a + 1 + of_nat i) = Done (xs ! i)" if "i < length xs" for i
    using Cons.prems(1) [rule_format, of "Suc i"] that by (simp add: add.assoc)
  with Cons.IH [of "a + 1" l] k(2) obtain ys where "vbytes m (a + 1) l = xs @ ys" by blast
  moreover have "vload m a = Done c" using Cons.prems(1) [rule_format, of 0] by simp
  ultimately show ?case by (simp add: k(1))
qed

section \<open>Mapping and restoring a page\<close>

lemma paging_set_restores:
  fixes m :: "'a pmem_scheme"
  assumes "dir_ok m dir" and "paging_is_aligned virt" and "space m dir (page_no virt) = Some old"
  shows "\<exists>m'. paging_set m dir virt val = Done (0, m') \<and> m' = m\<lparr>ptables := ptables m'\<rparr> \<and> dir_ok m' dir \<and>
    ptables m' dir = ptables m dir \<and> space m' dir = (space m dir)(page_no virt \<mapsto> val) \<and>
    (\<forall>m'' :: 'a pmem_scheme. ptables m'' = ptables m' \<longrightarrow> paging_set m'' dir virt old = Done (0, m''\<lparr>ptables := ptables m\<rparr>))"
proof -
  from assms(1) obtain d where d: "ptables m dir = Some d" "length d = 1024"
    "\<And>k. k < 1024 \<Longrightarrow> \<exists>t. ptables m (table_of (d ! k)) = Some t \<and> length t = 1024"
    "\<And>k. k < 1024 \<Longrightarrow> table_of (d ! k) \<noteq> dir" by (auto elim!: dir_okE)
  let ?i = "page_no virt div 1024" and ?j = "page_no virt mod 1024"
  let ?p = "table_of (d ! ?i)"
  obtain t where t: "ptables m ?p = Some t" "length t = 1024" using d(3) [OF page_split(1)] by blast
  let ?m = "m\<lparr>ptables := (ptables m)(?p \<mapsto> t[?j := val])\<rparr>"
  have n: "1024 * ?i + ?j = page_no virt" by simp
  note su = space_update [OF assms(1) d(1) page_split [of virt] t(1) refl, of val, unfolded n]
  have old: "t ! ?j = old" using assms(3) d(1,2) t page_split [of virt] by (simp add: space_def)
  have "dir \<noteq> ?p" using d(4) [OF page_split(1), of virt] by metis
  then have d': "ptables ?m dir = Some d" using d(1) by simp
  have "paging_set m'' dir virt old = Done (0, m''\<lparr>ptables := ptables m\<rparr>)" if "ptables m'' = ptables ?m" for m'' :: "'a pmem_scheme"
  proof -
    have ok: "dir_ok m'' dir" using su(1) that unfolding dir_ok_def by simp
    have "paging_set m'' dir virt old = Done (0, m''\<lparr>ptables := (ptables m'')(?p \<mapsto> (t[?j := val])[?j := old])\<rparr>)"
      by (rule paging_set_eq [OF ok assms(2)]) (use d' that in simp_all)
    also have "(ptables m'')(?p \<mapsto> (t[?j := val])[?j := old]) = ptables m"
      using t(1) that by (auto simp: old [symmetric])
    finally show ?thesis .
  qed
  moreover have "paging_set m dir virt val = Done (0, ?m)" by (rule paging_set_eq [OF assms(1,2) d(1) t(1)])
  ultimately show ?thesis using su(1,2) d' d(1) by (intro exI [of _ ?m]) simp
qed

section \<open>The copy\<close>

lemma strncpy_text:
  assumes "0 \<notin> set str" and "length str < k" and "length str < length dst"
  shows "strncpy dst (str @ 0 # r) (int k) = Done (str @ 0 # drop (Suc (length str)) dst)"
proof -
  have "cstring (str @ 0 # r) = str" using assms(1) by (induction str) (auto simp: cstring_def)
  then show ?thesis using assms(2,3) by (simp add: strncpy_eq Let_def)
qed

text \<open>A task whose memory can be read, with what the switch back to the kernel needs.\<close>

definition reads_ok :: "('io, 'a) taskmem_scheme \<Rightarrow> addr \<Rightarrow> addr \<Rightarrow> addr \<Rightarrow> bool" where
  "reads_ok m t dir k \<longleftrightarrow> (\<exists>tk. tasks m t = Some tk \<and> chunks m (page_directory tk) = Some dir) \<and>
     chunks m (kernel_chunk m) = Some k \<and> dir_ok m dir \<and> low_tables m dir \<and> kmem_ok m \<and> buffers_apart m"

text \<open>The task finds the string \<open>str\<close> at its address \<open>virt\<close>.\<close>

definition task_string :: "('io, 'a) taskmem_scheme \<Rightarrow> addr \<Rightarrow> addr \<Rightarrow> u8 list \<Rightarrow> bool" where
  "task_string m dir virt str \<longleftrightarrow> 0 \<notin> set str \<and>
     (\<forall>i \<le> length str. vload (m\<lparr>cr3 := dir\<rparr>) (virt + of_nat i) = Done ((str @ [0]) ! i))"

lemma copy_string_run:
  assumes "reads_ok m t dir k" and "task_string m dir virt str" and "length str < n" and "n < 4096"
    and "length str < length out" and "kzalloc m (of_nat n) = Done (a, m1)" and "a \<noteq> 0"
    and "\<forall>i \<le> length str. page_no (virt + of_nat i) \<noteq> page_no a"
  shows "copy_string_from_task m t virt out (int n) = Done (0, str @ 0 # drop (Suc (length str)) out,
    m\<lparr>user_segments := False, cr3 := k, current_directory := k\<rparr>)"
proof -
  have n: "unat (of_nat n :: u32) = n" "u32_of_int (int n) = of_nat n" using assms(4) by (simp_all add: unat_of_nat)
  then have sz: "0 < unat (of_nat n :: u32)" "unat (of_nat n :: u32) \<le> 0xFFFFF000" using assms(3,4) by simp_all
  from assms(1) obtain tk where t: "tasks m t = Some tk" "chunks m (page_directory tk) = Some dir" "chunks m (kernel_chunk m) = Some k"
    and ok: "dir_ok m dir" "low_tables m dir" "kmem_ok m" "buffers_apart m" by (auto simp: reads_ok_def)
  from kzalloc_alloc [OF ok(3) sz assms(6)] assms(7) obtain hp where
    m1: "m1 = m\<lparr>kernel_heap := hp, bufs := (bufs m)(a \<mapsto> replicate n 0)\<rparr>" "bufs m a = None" "kfree m1 a = Done m"
    unfolding n(1) by blast
  have al: "paging_is_aligned a" using kernel.alloc_aligned [OF ok(3) sz assms(6)] by (simp add: paging_is_aligned_iff)
  have ok1: "dir_ok m1 dir" "low_tables m1 dir" using ok(1,2) dir_ok_ptables [of m dir m1] by (simp_all add: m1(1) low_tables_def)
  obtain old where old: "space m1 dir (page_no a) = Some old" using space_Some [OF ok1(1) page_no_less] by blast
  define val where "val = a OR (PAGING_IS_WRITEABLE OR PAGING_IS_PRESENT OR PAGING_ACCESS_FROM_ALL)"
  from paging_set_restores [OF ok1(1) al old, of val] obtain m2 where
    m2: "paging_set m1 dir a val = Done (0, m2)" "m2 = m1\<lparr>ptables := ptables m2\<rparr>" "dir_ok m2 dir" "ptables m2 dir = ptables m1 dir"
      "space m2 dir = (space m1 dir)(page_no a \<mapsto> val)"
    and restore: "\<And>m'' :: ('a, 'b) taskmem_scheme. ptables m'' = ptables m2 \<Longrightarrow>
      paging_set m'' dir a old = Done (0, m''\<lparr>ptables := ptables m1\<rparr>)" by blast
  have f2: "chunks m2 = chunks m" "bufs m2 = (bufs m)(a \<mapsto> replicate n 0)" "kernel_heap m2 = hp" "kernel_chunk m2 = kernel_chunk m"
    by (subst m2(2), simp add: m1(1))+
  have map: "paging_map m1 (page_directory tk) a a (PAGING_IS_WRITEABLE OR PAGING_IS_PRESENT OR PAGING_ACCESS_FROM_ALL) = Done (0, m2)"
    using paging_map_eq [of m1 "page_directory tk" dir, OF _ al al] m2(1) t(2) by (simp add: m1(1) val_def)
  define m3 where "m3 = m2\<lparr>cr3 := dir, current_directory := dir\<rparr>"
  have switch: "paging_switch m2 (page_directory tk) = Done m3"
    using t(2) f2(1) by (simp add: paging_switch_def m3_def deref_Some del: andthen_eq_Done)
  have "vload m3 (virt + of_nat i) = Done ((str @ [0]) ! i)" if i: "i < length (str @ [0])" for i
  proof (rule vload_fresh [where m = "m\<lparr>cr3 := dir\<rparr>" and dir = dir and a = a and z = "replicate n 0"])
    show "vload (m\<lparr>cr3 := dir\<rparr>) (virt + of_nat i) = Done ((str @ [0]) ! i)"
      using assms(2) i by (simp add: task_string_def)
    have "page_no (virt + of_nat i) \<noteq> page_no a" using assms(8) i by simp
    then show "space m3 dir (page_no (virt + of_nat i)) = space (m\<lparr>cr3 := dir\<rparr>) dir (page_no (virt + of_nat i))"
      using m2(5) space_ptables [of m3 m2 dir] space_ptables [of m1 "m\<lparr>cr3 := dir\<rparr>" dir] by (simp add: m3_def m1(1))
    show "dir_ok (m\<lparr>cr3 := dir\<rparr>) dir" "dir_ok m3 dir"
      using dir_ok_ptables [OF ok(1), of "m\<lparr>cr3 := dir\<rparr>"] dir_ok_ptables [OF m2(3), of m3] by (simp_all add: m3_def)
    show "unat p + length b \<le> 2 ^ 32 \<and> (unat a < unat p \<or> unat p + length b \<le> unat a)"
      if "bufs (m\<lparr>cr3 := dir\<rparr>) p = Some b" for p b
      using kzalloc_outside [OF ok(3,4) sz assms(6,7)] ok(4) that unfolding buffers_apart_def by simp
  qed (use m1 m2(4) f2 in \<open>simp_all add: m3_def\<close>)
  then obtain ys where vb: "vbytes m3 virt n = str @ 0 # ys"
    using vbytes_prefix [of "str @ [0]" m3 virt n] assms(3) by auto
  define b1 where "b1 = str @ 0 # drop (Suc (length str)) (replicate n 0)"
  have s0: "0 \<notin> set str" using assms(2) by (simp add: task_string_def)
  have cp1: "strncpy (replicate n 0) (str @ 0 # ys) (int n) = Done b1"
    unfolding b1_def by (rule strncpy_text) (use s0 assms(3) in simp_all)
  have cp2: "strncpy out b1 (int n) = Done (str @ 0 # drop (Suc (length str)) out)"
    unfolding b1_def by (rule strncpy_text) (use s0 assms(3,5) in simp_all)
  define m5 where "m5 = m3\<lparr>bufs := (bufs m3)(a \<mapsto> b1), user_segments := False, cr3 := k, current_directory := k\<rparr>"
  have page: "kernel_page (m3\<lparr>bufs := (bufs m3)(a \<mapsto> b1)\<rparr>) = Done m5"
    using kernel_page_eq [of "m3\<lparr>bufs := (bufs m3)(a \<mapsto> b1)\<rparr>" k] t(3) f2 by (simp add: m5_def m3_def)
  have set: "paging_set m5 dir a old = Done (0, m5\<lparr>ptables := ptables m1\<rparr>)" by (rule restore) (simp add: m5_def m3_def)
  from m1(1,3) obtain hx where hx: "heap_free hp a = Done hx" "m\<lparr>kernel_heap := hx, bufs := (bufs m)(a := None)\<rparr> = m"
    by (auto simp: kfree_def)
  have "hx = kernel_heap m" using arg_cong [OF hx(2), of kernel_heap] by simp
  with hx(1) have "heap_free hp a = Done (kernel_heap m)" by simp
  moreover have "(bufs m)(a := None) = bufs m" using m1(2) by (simp add: fun_upd_idem)
  moreover obtain P where "m2 = m1\<lparr>ptables := P\<rparr>" using m2(2) by blast
  ultimately have free: "kfree (m5\<lparr>ptables := ptables m1\<rparr>) a = Done (m\<lparr>user_segments := False, cr3 := k, current_directory := k\<rparr>)"
    by (simp add: kfree_def m5_def m3_def m1(1))
  have get: "paging_get m1 dir a = Done old" by (rule paging_get_space [OF ok1 al old])
  have t1: "tasks m1 t = Some tk" "chunks m1 (page_directory tk) = Some dir" using t by (simp_all add: m1(1))
  have b3: "bufs m3 a = Some (replicate n 0)" using f2(2) by (simp add: m3_def)
  have mx: "\<not> uint PAGING_PAGE_SIZE \<le> int n" using assms(4) by (simp add: PAGING_PAGE_SIZE_def)
  show ?thesis
    unfolding copy_string_from_task_def paging_4gb_chunk_get_directory_def
    by (simp add: mx n(2) assms(6,7) t1 get map switch b3 vb cp1 cp2 page set free deref_Some Let_def del: andthen_eq_Done)
qed

end
