(* ===== verification/Heap_Steps.thy ===== *)
theory Heap_Steps
  imports Kheap
begin

text \<open>
  The kernel heap as a state machine. A client of \<^verbatim>\<open>src/memory/heap/kheap.c\<close> calls \<open>kzalloc\<close> with a
  legal size and \<open>kfree\<close> with a pointer it got and has not released; \<open>heap_step\<close> is one such call,
  \<open>heap_run\<close> a sequence of them. \<open>outstanding\<close> is the specification: the bookkeeping of the client, which
  knows nothing of the block table. Every run from the start-up refines it. A step is a call that returns;
  \<open>roomy\<close>, a predicate on the bookkeeping alone, says of every legal call whether there is one.
\<close>

datatype heap_event = Alloc u32 addr | Release addr

inductive heap_step :: "'a kmem_scheme \<Rightarrow> heap_event \<Rightarrow> 'a kmem_scheme \<Rightarrow> bool" where
  step_alloc: "0 < unat n \<Longrightarrow> unat n \<le> 0xFFFFF000 \<Longrightarrow> kzalloc m n = Done (p, m') \<Longrightarrow> heap_step m (Alloc n p) m'"
| step_release: "(unat p, l) \<in> kmem_live m \<Longrightarrow> kfree m p = Done m' \<Longrightarrow> heap_step m (Release p) m'"

inductive_cases heap_step_Alloc: "heap_step m (Alloc n p) m'"
inductive_cases heap_step_Release: "heap_step m (Release p) m'"

inductive heap_run :: "'a kmem_scheme \<Rightarrow> heap_event list \<Rightarrow> 'a kmem_scheme \<Rightarrow> bool" for m where
  run_start: "heap_run m [] m"
| run_step: "heap_run m es m1 \<Longrightarrow> heap_step m1 e m2 \<Longrightarrow> heap_run m (es @ [e]) m2"

text \<open>The (address, length) pairs a client still holds; a failed call (null pointer) adds none.\<close>

fun account :: "(nat \<times> nat) set \<Rightarrow> heap_event \<Rightarrow> (nat \<times> nat) set" where
  "account L (Alloc n p) = (if p = 0 then L else insert (unat p, 4096 * blocks_needed (unat n)) L)"
| "account L (Release p) = {(a, l) \<in> L. a \<noteq> unat p}"

definition outstanding :: "heap_event list \<Rightarrow> (nat \<times> nat) set" where
  "outstanding es = foldl account {} es"

lemma outstanding_simps [simp]: "outstanding [] = {}" "outstanding (es @ [e]) = account (outstanding es) e"
  by (simp_all add: outstanding_def)

section \<open>One step\<close>

lemma kzalloc_exact:
  assumes "kmem_ok m" and "0 < unat n" and "unat n \<le> 0xFFFFF000" and "kzalloc m n = Done (p, m')"
  shows "kmem_live m' = account (kmem_live m) (Alloc n p)"
    and "saddr (kernel_heap m') = saddr (kernel_heap m)" and "heap_blocks (kernel_heap m') = heap_blocks (kernel_heap m)"
proof -
  have ok: "heap_ok (kernel_heap m)" using assms(1) by (simp add: kmem_ok_def)
  from assms(4) obtain hp where hp: "heap_malloc (kernel_heap m) n = Done (p, hp)" and k: "kernel_heap m' = hp"
    by (auto simp: kzalloc_eq [OF assms(3)] split: if_splits)
  have "kmem_live m' = account (kmem_live m) (Alloc n p) \<and> saddr hp = saddr (kernel_heap m) \<and>
    heap_blocks hp = heap_blocks (kernel_heap m)"
  proof (cases "p = 0")
    case True
    then show ?thesis using block.alloc_null [OF ok assms(2,3)] hp k by (simp add: kmem_live_def)
  next
    case False
    let ?k = "blocks_needed (unat n)"
    from heap_malloc_cases [OF ok assms(2,3) hp] False obtain s where s: "p = block_addr (kernel_heap m) s"
      "gap (allocations (kernel_heap m)) (heap_blocks (kernel_heap m)) s ?k" "saddr hp = saddr (kernel_heap m)"
      "heap_blocks hp = heap_blocks (kernel_heap m)" "allocations hp = insert (s, ?k) (allocations (kernel_heap m))" by blast
    have "0 < ?k" using assms(2) by simp
    moreover have "s + ?k \<le> heap_blocks (kernel_heap m)" using s(2) by (simp add: gap_def)
    ultimately have "s < heap_blocks (kernel_heap m)" by linarith
    then have "unat p = unat (saddr (kernel_heap m)) + 4096 * s" using heap_live_block(1) [OF ok] s(1) by simp
    then show ?thesis using False s(3-5) k by (simp add: kmem_live_def heap_live_def)
  qed
  then show "kmem_live m' = account (kmem_live m) (Alloc n p)" "saddr (kernel_heap m') = saddr (kernel_heap m)"
    "heap_blocks (kernel_heap m') = heap_blocks (kernel_heap m)" by (simp_all add: k)
qed

lemma kfree_exact:
  assumes "kmem_ok m" and "(unat p, l) \<in> kmem_live m" and "kfree m p = Done m'"
  shows "kmem_live m' = account (kmem_live m) (Release p)"
    and "saddr (kernel_heap m') = saddr (kernel_heap m)" and "heap_blocks (kernel_heap m') = heap_blocks (kernel_heap m)"
proof -
  have ok: "heap_ok (kernel_heap m)" using assms(1) by (simp add: kmem_ok_def)
  have "kmem_live m' = kmem_live m - {(unat p, l)}" using kernel.release_live [OF assms(1,2)] assms(3) by auto
  also have "\<dots> = account (kmem_live m) (Release p)"
    using kernel.live_size_unique [OF assms(1,2)] by auto
  finally show "kmem_live m' = account (kmem_live m) (Release p)" .
  from heap_live_allocation [OF ok] assms(2) obtain s k where s: "(s, k) \<in> allocations (kernel_heap m)"
    and p: "p = block_addr (kernel_heap m) s" unfolding kmem_live_def by metis
  from assms(3) obtain hp where hp: "heap_free (kernel_heap m) p = Done hp" and k: "kernel_heap m' = hp"
    by (auto simp: kfree_def)
  from heap_free_allocation [OF ok s] hp have "saddr hp = saddr (kernel_heap m) \<and> heap_blocks hp = heap_blocks (kernel_heap m)"
    unfolding p by auto
  then show "saddr (kernel_heap m') = saddr (kernel_heap m)" "heap_blocks (kernel_heap m') = heap_blocks (kernel_heap m)"
    by (simp_all add: k)
qed

section \<open>Room\<close>

text \<open>
  \<open>roomy L s k\<close>: the \<open>k\<close> blocks from block \<open>s\<close> of the heap avoid everything in the bookkeeping \<open>L\<close>.
\<close>

definition roomy :: "(nat \<times> nat) set \<Rightarrow> nat \<Rightarrow> nat \<Rightarrow> bool" where
  "roomy L s k \<longleftrightarrow> s + k \<le> 25600 \<and>
     (\<forall>(a, l) \<in> L. a + l \<le> 0x01000000 + 4096 * s \<or> 0x01000000 + 4096 * (s + k) \<le> a)"

section \<open>Runs\<close>

definition boot_layout :: "'a kmem_scheme \<Rightarrow> bool" where
  "boot_layout m \<longleftrightarrow> kmem_ok m \<and> saddr (kernel_heap m) = PANDORAOS_HEAP_ADDRESS \<and> heap_blocks (kernel_heap m) = 25600"

lemma boot_kmem_layout: "boot_layout boot_kmem" "kmem_live boot_kmem = {}"
  using boot_kmem_ok boot_heap_simps
  by (simp_all add: boot_layout_def boot_kmem_def kmem_live_def heap_live_def PANDORAOS_HEAP_ADDRESS_def)

lemma heap_step_layout:
  assumes "heap_step m e m'" and "boot_layout m"
  shows "boot_layout m' \<and> kmem_live m' = account (kmem_live m) e"
  using assms
proof (induction rule: heap_step.induct)
  case (step_alloc n m p m')
  then show ?case using kzalloc_exact [of m n p m'] kernel.alloc_invar [of m n p m'] by (simp add: boot_layout_def)
next
  case (step_release p l m m')
  then show ?case using kfree_exact [of m p l m'] kfree_live [of m p l] by (auto simp: boot_layout_def)
qed

lemma boot_layout_live:
  assumes "boot_layout m" and "(a, l) \<in> kmem_live m"
  shows "0x01000000 \<le> a \<and> a + l \<le> 0x01000000 + 104857600"
proof -
  from assms obtain s k where "(s, k) \<in> allocations (kernel_heap m)" "a = 0x01000000 + 4096 * s" "l = 4096 * k"
    by (auto simp: boot_layout_def kmem_live_def heap_live_def PANDORAOS_HEAP_ADDRESS_def)
  then show ?thesis using allocations_bounds [of s k "kernel_heap m"] assms(1)
    by (simp add: boot_layout_def heap_blocks_def)
qed

lemma heap_run_layout:
  "heap_run m es m' \<Longrightarrow> boot_layout m \<Longrightarrow> kmem_live m = {} \<Longrightarrow> boot_layout m' \<and> kmem_live m' = outstanding es"
  by (induction rule: heap_run.induct) (use heap_step_layout in auto)

lemma roomy_gap:
  assumes "boot_layout m"
  shows "roomy (kmem_live m) s k \<longleftrightarrow> gap (allocations (kernel_heap m)) (heap_blocks (kernel_heap m)) s k"
  using assms by (force simp: roomy_def gap_def boot_layout_def kmem_live_def heap_live_def PANDORAOS_HEAP_ADDRESS_def)

lemma boot_layout_outcome:
  assumes "boot_layout m" and "0 < unat n" and "unat n \<le> 0xFFFFF000"
  shows "if \<exists>s. roomy (kmem_live m) s (blocks_needed (unat n)) then \<exists>p m'. p \<noteq> 0 \<and> heap_step m (Alloc n p) m'
    else if roomy (kmem_live m) 25599 1 then kzalloc m n = Fault else heap_step m (Alloc n 0) m"
proof -
  have "kmem_ok m" and "heap_blocks (kernel_heap m) = 25600" using assms(1) by (simp_all add: boot_layout_def)
  with kzalloc_outcome [of m n] assms(2,3) show ?thesis
    by (auto simp: roomy_gap [OF assms(1)] intro: step_alloc split: if_splits)
qed

text \<open>
  C1. The heap refines the bookkeeping of its clients. As long as every call returns, after any sequence of
  legal \<open>kzalloc\<close> and \<open>kfree\<close> calls from start-up, in any order, failed allocations included, the heap is
  well-formed, its live allocations are exactly those handed out and not yet released, rounded up to whole
  blocks; they lie in the 100 MB of the heap, no two of them overlap, and each of them can still be released:
  every legal \<open>kfree\<close> returns. Whether a next \<open>kzalloc\<close> of a legal size returns is decided by the bookkeeping: if
  some run of blocks is free for it, it returns a non-null pointer; if none is and the last block of the heap is
  taken, it returns null and changes nothing; if none is and the last block is free, it does not return: it
  writes past the block table (see C36). A request of 200 MB at start-up is of the last kind.
\<close>

theorem heap_run_refines:
  assumes "heap_run boot_kmem es m"
  shows "kmem_ok m \<and> kmem_live m = outstanding es \<and>
    (\<forall>(a, l) \<in> outstanding es. 0x01000000 \<le> a \<and> a + l \<le> 0x01000000 + 104857600) \<and>
    (\<forall>(a, l) \<in> outstanding es. \<forall>(b, k) \<in> outstanding es. (a, l) = (b, k) \<or> a + l \<le> b \<or> b + k \<le> a) \<and>
    (\<forall>p l. (unat p, l) \<in> outstanding es \<longrightarrow> (\<exists>m'. heap_step m (Release p) m')) \<and>
    (\<forall>n. 0 < unat n \<and> unat n \<le> 0xFFFFF000 \<longrightarrow>
      (if \<exists>s. roomy (outstanding es) s (blocks_needed (unat n)) then \<exists>p m'. p \<noteq> 0 \<and> heap_step m (Alloc n p) m'
       else if roomy (outstanding es) 25599 1 then kzalloc m n = Fault else heap_step m (Alloc n 0) m))"
proof -
  from heap_run_layout [OF assms boot_kmem_layout] have b: "boot_layout m" and l: "kmem_live m = outstanding es" by auto
  then have ok: "kmem_ok m" by (simp add: boot_layout_def)
  have rel: "\<exists>m'. heap_step m (Release p) m'" if "(unat p, k) \<in> outstanding es" for p k
    using that kfree_live [OF ok, of p k] step_release [of p k m] by (auto simp: l)
  have range: "\<forall>(a, l) \<in> outstanding es. 0x01000000 \<le> a \<and> a + l \<le> 0x01000000 + 104857600"
    using boot_layout_live [OF b] unfolding l by blast
  have apart: "\<forall>(a, l) \<in> outstanding es. \<forall>(b, k) \<in> outstanding es. (a, l) = (b, k) \<or> a + l \<le> b \<or> b + k \<le> a"
    using kernel.live_disjoint [OF ok] unfolding l by blast
  note outcome = boot_layout_outcome [OF b, unfolded l]
  show ?thesis by (intro conjI allI impI ok l range apart rel outcome; (elim conjE)?)
qed

text \<open>Two allocations and the release of the first one; a request of 200 MB at start-up.\<close>

lemma heap_run_Cons: "heap_step m e m1 \<Longrightarrow> heap_run m1 es m2 \<Longrightarrow> heap_run m (e # es) m2"
proof (induction es arbitrary: m2 rule: rev_induct)
  case Nil
  then have "m2 = m1" by (auto elim: heap_run.cases)
  with Nil(1) show ?case using run_step [OF run_start, of m e m1] by simp
next
  case (snoc x es)
  from snoc.prems(2) obtain m3 where "heap_run m1 es m3" "heap_step m3 x m2" by (auto elim: heap_run.cases)
  with snoc.IH [OF snoc.prems(1)] show ?case using run_step [of m "e # es" m3 x m2] by simp
qed

lemma sample_alloc:
  assumes "boot_layout m" and "below m b" and "b + 2 \<le> 25600"
  shows "\<exists>p m'. heap_step m (Alloc 5000 p) m' \<and> p \<noteq> 0 \<and> boot_layout m' \<and> below m' (b + 2)"
proof -
  have "blocks_needed 5000 = 2" by (simp add: blocks_needed_def)
  with kzalloc_below [of m b 5000] assms obtain p m' where p: "kzalloc m 5000 = Done (p, m')" "p \<noteq> 0" "below m' (b + 2)"
    by (auto simp: boot_layout_def)
  have e: "heap_step m (Alloc 5000 p) m'" by (rule step_alloc) (use p in simp_all)
  with heap_step_layout [OF e assms(1)] p show ?thesis by blast
qed

theorem heap_run_refines_witness:
  "kzalloc boot_kmem 209715200 = Fault \<and>
   (\<exists>p q m. heap_run boot_kmem [Alloc 5000 p, Alloc 5000 q, Release p] m \<and> q \<noteq> 0 \<and> p \<noteq> q \<and>
    kmem_live m = {(unat q, 8192)})"
proof
  have "\<not> roomy {} s (blocks_needed 209715200)" "roomy {} 25599 1" for s
    by (simp_all add: roomy_def blocks_needed_def)
  with heap_run_refines [OF run_start] show "kzalloc boot_kmem 209715200 = Fault"
    by (elim conjE allE [of _ "209715200"]) simp
next
  from sample_alloc [OF boot_kmem_layout(1) boot_kmem_below] obtain p m1 where 1: "heap_step boot_kmem (Alloc 5000 p) m1"
    "p \<noteq> 0" "boot_layout m1" "below m1 (0 + 2)" by fastforce
  from sample_alloc [OF 1(3,4), simplified] obtain q m2 where 2: "heap_step m1 (Alloc 5000 q) m2" "q \<noteq> 0" "boot_layout m2" by blast
  have b: "blocks_needed 5000 = 2" by (simp add: blocks_needed_def)
  have r2: "heap_run boot_kmem [Alloc 5000 p, Alloc 5000 q] m2"
    by (rule heap_run_Cons [OF 1(1)], rule heap_run_Cons [OF 2(1) run_start])
  have out: "outstanding [Alloc 5000 p, Alloc 5000 q] = {(unat p, 8192), (unat q, 8192)}"
    using 1(2) 2(2) b by (auto simp: outstanding_def)
  have "\<forall>x l. (unat x, l) \<in> outstanding [Alloc 5000 p, Alloc 5000 q] \<longrightarrow> (\<exists>m'. heap_step m2 (Release x) m')"
    using heap_run_refines [OF r2] by (elim conjE)
  then obtain m3 where 3: "heap_step m2 (Release p) m3" unfolding out by blast
  have live1: "kmem_live m1 = {(unat p, 8192)}"
    using heap_step_layout [OF 1(1) boot_kmem_layout(1)] 1(2) b by (simp add: boot_kmem_layout(2))
  have "p \<noteq> q"
  proof
    assume "p = q"
    from 2(1) have "kzalloc m1 5000 = Done (q, m2)" by (rule heap_step_Alloc)
    with kernel.alloc_fresh [of m1 5000 q m2] 1(3) 2(2) live1 heap_step_layout [OF 2(1) 1(3)] \<open>p = q\<close> b
    show False by (auto simp: boot_layout_def)
  qed
  then have u: "unat q \<noteq> unat p" by (simp add: word_unat_eq_iff)
  have r3: "heap_run boot_kmem ([Alloc 5000 p, Alloc 5000 q] @ [Release p]) m3" by (rule run_step [OF r2 3])
  from heap_run_refines [OF r3] have "kmem_live m3 = outstanding ([Alloc 5000 p, Alloc 5000 q] @ [Release p])" by (elim conjE)
  also have "\<dots> = {(unat q, 8192)}" unfolding outstanding_simps(2) out using u by auto
  finally have "kmem_live m3 = {(unat q, 8192)}" .
  moreover have "heap_run boot_kmem [Alloc 5000 p, Alloc 5000 q, Release p] m3" using r3 by simp
  moreover note \<open>p \<noteq> q\<close>
  ultimately show "\<exists>p q m. heap_run boot_kmem [Alloc 5000 p, Alloc 5000 q, Release p] m \<and> q \<noteq> 0 \<and> p \<noteq> q \<and>
    kmem_live m = {(unat q, 8192)}" using 2(2) by blast
qed

end
