(* ===== verification/Output.thy ===== *)
theory Output
  imports User_Copy Traps Heap_Steps
begin

text \<open>
  From the program to the screen: the system call \<open>isr80h_command1_print\<close> (\<^verbatim>\<open>src/isr80h/io.c\<close>) through its
  whole path: the entry of the handler, the argument on the stack of the program, the copy of the string
  out of its address space, the terminal, and the return to the program.
\<close>

section \<open>The memory a task sees is not changed by the entry of the handler\<close>

lemma mmu_same:
  assumes "ptables m' = ptables m" and "cr3 m' = cr3 m"
  shows "mmu m' a = mmu m a"
  unfolding mmu_def tab_rd_def assms ..

lemma buffer_before_same: "bufs m' = bufs m \<Longrightarrow> buffer_before m' a n = buffer_before m a n"
  by (induction n arbitrary: a) simp_all

lemma pload_same: "bufs m' = bufs m \<Longrightarrow> pload m' x = pload m x"
proof -
  assume b: "bufs m' = bufs m"
  show ?thesis unfolding pload_def buffer_of_def b buffer_before_same [OF b] ..
qed

lemma vload_same:
  assumes "ptables m' = ptables m" and "cr3 m' = cr3 m" and "bufs m' = bufs m"
  shows "vload m' a = vload m a"
  by (simp add: vload_def mmu_same [OF assms(1,2)] pload_same [OF assms(3)] fun_eq_iff cong: andthen_cong)

lemma vload32_same: "ptables m' = ptables m \<Longrightarrow> cr3 m' = cr3 m \<Longrightarrow> bufs m' = bufs m \<Longrightarrow> vload32 m' a = vload32 m a"
  by (simp add: vload32_def vload_same [of m' m])

lemma task_string_same:
  assumes "task_string m dir virt str" and "ptables m' = ptables m" and "bufs m' = bufs m"
  shows "task_string m' dir virt str"
proof -
  have "vload (m'\<lparr>cr3 := dir\<rparr>) a = vload (m\<lparr>cr3 := dir\<rparr>) a" for a by (rule vload_same) (simp_all add: assms)
  with assms(1) show ?thesis by (simp add: task_string_def)
qed

lemma kzalloc_same:
  assumes "kzalloc m n = Done (a, m1)" and "unat n \<le> 0xFFFFF000" and "kernel_heap m' = kernel_heap m"
  shows "\<exists>m1'. kzalloc m' n = Done (a, m1')"
  using assms by (auto simp: kzalloc_eq split: if_splits)

section \<open>The argument of a system call\<close>

text \<open>The kernel in its own address space with the task suspended in the frame \<open>f\<close>.\<close>

definition entered :: "('io, 'a) kernel_scheme \<Rightarrow> interrupt_frame \<Rightarrow> addr \<Rightarrow> ('io, 'a) kernel_scheme" where
  "entered m f k = with_registers (m\<lparr>user_segments := False, cr3 := k, current_directory := k\<rparr>) (current_task m) (frame_registers f)"

lemma entered_simps [simp]:
  "ptables (entered m f k) = ptables m" "bufs (entered m f k) = bufs m" "kernel_heap (entered m f k) = kernel_heap m"
  "chunks (entered m f k) = chunks m" "kernel_chunk (entered m f k) = kernel_chunk m" "current_task (entered m f k) = current_task m"
  "idt (entered m f k) = idt m" "screen (entered m f k) = screen m" "cr3 (entered m f k) = k" "current_directory (entered m f k) = k"
  "user_segments (entered m f k) = False"
  by (simp_all add: entered_def with_registers_def)

lemma entered_task: "tasks m (current_task m) = Some tk \<Longrightarrow>
    tasks (entered m f k) (current_task m) = Some (tk\<lparr>task_registers := frame_registers f\<rparr>)"
  by (simp add: entered_def with_registers_def)

lemma entered_again: "(entered m f k)\<lparr>user_segments := False, cr3 := k, current_directory := k\<rparr> = entered m f k"
  by (simp add: entered_def with_registers_def)

lemma entered_reads:
  assumes "reads_ok m (current_task m) dir k"
  shows "reads_ok (entered m f k) (current_task m) dir k"
proof -
  from assms obtain tk where t: "tasks m (current_task m) = Some tk" "chunks m (page_directory tk) = Some dir"
    and r: "chunks m (kernel_chunk m) = Some k" "dir_ok m dir" "low_tables m dir" "kmem_ok m" "buffers_apart m"
    by (auto simp: reads_ok_def)
  have "dir_ok (entered m f k) dir" by (rule dir_ok_ptables [OF r(2)]) simp
  moreover have "low_tables (entered m f k) dir" using r(3) by (simp add: low_tables_def)
  moreover have "kmem_ok (entered m f k)" using r(4) by (simp add: kmem_ok_def kmem_live_def)
  moreover have "buffers_apart (entered m f k)" using r(5) unfolding buffers_apart_def kmem_live_def by simp
  ultimately show ?thesis using entered_task [OF t(1), of f k] t(2) r(1) by (simp add: reads_ok_def)
qed

lemma stack_item_entered:
  assumes "reads_ok m (current_task m) dir k" and "vload32 (m\<lparr>cr3 := dir\<rparr>) (f_esp f + 4 * u32_of_int i) = Done v"
  shows "stack_item (entered m f k) i = Done (v, entered m f k)"
proof -
  from assms(1) obtain tk where t: "tasks m (current_task m) = Some tk" "chunks m (page_directory tk) = Some dir"
    "chunks m (kernel_chunk m) = Some k" by (auto simp: reads_ok_def)
  let ?e = "entered m f k"
  let ?u = "?e\<lparr>user_segments := True, cr3 := dir, current_directory := dir\<rparr>"
  have sw: "task_page_task ?e (current_task m) = Done ?u"
    using entered_task [OF t(1), of f k] t(2)
    by (simp add: task_page_task_def user_registers_def paging_switch_def deref_Some del: andthen_eq_Done)
  have ld: "vload32 ?u (f_esp f + 4 * u32_of_int i) = Done v"
    using assms(2) vload32_same [of ?u "m\<lparr>cr3 := dir\<rparr>"] by simp
  have kp: "kernel_page ?u = Done ?e"
    using kernel_page_eq [of ?u k] t(3) entered_again [where m = m and f = f and k = k] by simp
  show ?thesis
    using entered_task [OF t(1), of f k] sw ld kp
    by (simp add: stack_item_def task_current_def task_get_stack_item_def deref_Some frame_registers_def del: andthen_eq_Done)
qed

section \<open>The way of a system call that returns\<close>

lemma system_call_returns:
  assumes "reads_ok m (current_task m) dir k" and "current_task m \<noteq> 0" and "isr80h_lookup (idt m) c = Done (Some cmd)"
    and "call_command P cmd (entered m f k) = Done (Return v m')"
    and "current_task m' = current_task m" and "tasks m' = tasks (entered m f k)" and "chunks m' = chunks m"
  shows "isr80h_handler P m c f = Done (Return v (m'\<lparr>user_segments := True, cr3 := dir, current_directory := dir\<rparr>))"
proof -
  from assms(1) obtain tk where t: "tasks m (current_task m) = Some tk" "chunks m (page_directory tk) = Some dir"
    "chunks m (kernel_chunk m) = Some k" by (auto simp: reads_ok_def)
  let ?m1 = "m\<lparr>user_segments := False, cr3 := k, current_directory := k\<rparr>"
  have save: "task_current_save_state ?m1 f = Done (entered m f k)"
    using task_current_save_state_eq [of ?m1 tk f] t(1) assms(2) by (simp add: entered_def)
  have leave: "task_page m' = Done (m'\<lparr>user_segments := True, cr3 := dir, current_directory := dir\<rparr>)"
    using entered_task [OF t(1), of f k] t(2) assms(5-7)
    by (simp add: task_page_def task_switch_def user_registers_def paging_switch_def deref_Some del: andthen_eq_Done)
  show ?thesis
    unfolding isr80h_handler_def kernel_page_eq [OF t(3)] andthen.simps save isr80h_handle_command_def
    using assms(3,4) leave by (simp del: andthen_eq_Done)
qed

section \<open>Printing\<close>

lemma print_text:
  assumes "term_ok t" and "\<forall>c \<in> set str. visible c \<and> c \<noteq> 0" and "cursor t + length str \<le> 16384"
  shows "\<exists>t'. print t (str @ 0 # r) = Done t' \<and> term_ok t' \<and> cursor t' = cursor t + length str \<and>
    video_mem t' = take (cursor t) (video_mem t) @ map (\<lambda>c. terminal_make_char c 15) str @ drop (cursor t + length str) (video_mem t)"
proof -
  have "cstring (str @ 0 # r) = str" using assms(2) by (induction str) (auto simp: cstring_def)
  then have "strlen (str @ 0 # r) = Done (int (length str))" by (simp add: strlen_eq)
  with print_loop_visible [of t 0 str "0 # r"] assms show ?thesis by (auto simp: print_def simp del: andthen_eq_Done)
qed

text \<open>
  C6. What a program prints appears on the screen: the \<open>print\<close> system call of a program that passes the address of
  a visible string of less than 1024 characters in its own address space appends exactly this string to the
  screen, and returns to the program in its own address space; apart from the screen and the saved registers
  of the program the kernel is as it was, its heap and the page tables of the program included. (The string
  must not lie on the page of the kernel buffer it is copied through.)
\<close>

theorem print_call_appends:
  assumes "reads_ok m (current_task m) dir k" and "current_task m \<noteq> 0"
    and "isr80h_lookup (idt m) 1 = Done (Some command1_print)"
    and "vload32 (m\<lparr>cr3 := dir\<rparr>) (f_esp f) = Done virt" and "task_string m dir virt str"
    and "\<forall>c \<in> set str. visible c" and "length str < 1024"
    and "kzalloc m 1024 = Done (a, m1)" and "a \<noteq> 0" and "\<forall>i \<le> length str. page_no (virt + of_nat i) \<noteq> page_no a"
    and "term_ok (screen m)" and "cursor (screen m) + length str \<le> 16384"
  shows "\<exists>t. isr80h_handler P m 1 f = Done (Return 0 ((with_registers m (current_task m) (frame_registers f))
      \<lparr>screen := t, user_segments := True, cr3 := dir, current_directory := dir\<rparr>)) \<and>
    term_ok t \<and> cursor t = cursor (screen m) + length str \<and>
    video_mem t = take (cursor (screen m)) (video_mem (screen m)) @ map (\<lambda>c. terminal_make_char c 15) str @
      drop (cursor (screen m) + length str) (video_mem (screen m))"
proof -
  let ?e = "entered m f k"
  have st: "stack_item ?e 0 = Done (virt, ?e)" by (rule stack_item_entered [OF assms(1)]) (use assms(4) in simp)
  from kzalloc_same [OF assms(8), of ?e] obtain m1' where kz: "kzalloc ?e (of_nat 1024) = Done (a, m1')" by auto
  have ts: "task_string ?e dir virt str" by (rule task_string_same [OF assms(5)]) simp_all
  have cp: "copy_string_from_task ?e (task_current ?e) virt (replicate 1024 0xCC) 1024 =
      Done (0, str @ 0 # drop (Suc (length str)) (replicate 1024 0xCC), ?e)"
    using copy_string_run [OF entered_reads [OF assms(1)] ts assms(7) _ _ kz assms(9,10)] assms(7)
    by (simp add: task_current_def entered_again)
  have "\<forall>c \<in> set str. visible c \<and> c \<noteq> 0" using assms(5,6) by (auto simp: task_string_def)
  from print_text [OF assms(11) this assms(12)] obtain t where
    t: "print (screen m) (str @ 0 # drop (Suc (length str)) (replicate 1024 0xCC)) = Done t"
    and out: "term_ok t \<and> cursor t = cursor (screen m) + length str \<and>
      video_mem t = take (cursor (screen m)) (video_mem (screen m)) @ map (\<lambda>c. terminal_make_char c 15) str @
      drop (cursor (screen m) + length str) (video_mem (screen m))" by blast
  have "call_command P command1_print ?e = Done (Return 0 (?e\<lparr>screen := t\<rparr>))"
    using st cp t by (simp add: call_command_def isr80h_command1_print_def del: andthen_eq_Done)
  from system_call_returns [OF assms(1-3) this] have
    "isr80h_handler P m 1 f = Done (Return 0 (?e\<lparr>screen := t, user_segments := True, cr3 := dir, current_directory := dir\<rparr>))"
    by simp
  then show ?thesis using out by (auto simp: entered_def with_registers_def)
qed

section \<open>A program that prints\<close>

text \<open>In an address space made by \<open>paging_new_4gb\<close> with the present bit the processor maps every address to itself.\<close>

lemma mmu_identity:
  assumes "length ps = 1024" and "distinct (dir # ps)" and "\<forall>p \<in> set ps. 4096 dvd unat p"
    and "ptables m = ptables (new_4gb_result b 7 hp c dir ps)" and "cr3 m = dir"
  shows "mmu m x = Done x"
proof -
  note pt = new_4gb_ptables [OF assms(1,2), where m = b and flags = 7 and hp = hp and c = c, folded assms(4)]
  let ?i = "page_no x div 1024" and ?j = "page_no x mod 1024"
  note ij = page_split [of x]
  have al: "4096 dvd unat (ps ! ?i)" using assms(1,3) ij(1) by simp
  have e1: "tab_rd m dir ?i = Done (dir_entry 7 (ps ! ?i))"
    using pt(1) assms(1) ij(1) by (simp add: tab_rd_def deref_Some rd_def del: rd_eq_Done andthen_eq_Done)
  have d: "table_of (dir_entry 7 (ps ! ?i)) = ps ! ?i" using table_of_flags [OF al, of 7] by (simp only:)
  have odd1: "dir_entry 7 p AND 1 \<noteq> 0" for p by (simp add: and_one_eq mod_2_eq_odd even_or_iff)
  let ?v = "of_nat ?i * 0x400000 + of_nat ?j * PAGING_PAGE_SIZE :: u32"
  have e2: "tab_rd m (ps ! ?i) ?j = Done (?v OR 7)"
    using pt(2) [OF ij(1)] ij(2) by (simp add: tab_rd_def deref_Some rd_def identity_table_def del: rd_eq_Done andthen_eq_Done)
  have odd2: "(?v OR 7) AND 1 \<noteq> 0" by (simp add: and_one_eq mod_2_eq_odd even_or_iff)
  have v: "?v = of_nat (4096 * page_no x)"
  proof -
    have "4096 * page_no x = ?i * 0x400000 + ?j * 4096" using div_mult_mod_eq [of "page_no x" 1024] by linarith
    then show ?thesis by (simp only: of_nat_add of_nat_mult PAGING_PAGE_SIZE_def) simp
  qed
  have u: "unat ?v = 4096 * page_no x"
    unfolding v using unat_u32_less [of x] by (intro unat_of_nat_u32) (simp add: page_no_def)
  then have "table_of (?v OR 7) = ?v" by (intro table_of_or_small) simp_all
  moreover have "?v + x mod 0x1000 = x"
  proof -
    have "4096 * page_no x + unat x mod 4096 = unat x" by (simp add: page_no_def)
    moreover have "unat (?v + x mod 4096) = 4096 * page_no x + unat x mod 4096"
      using unat_u32_less [of x] calculation by (subst unat_add_u32) (simp_all only: u unat_mod, simp_all)
    ultimately show ?thesis by (simp add: word_unat_eq_iff)
  qed
  ultimately show ?thesis
    unfolding mmu_def mmu_indexes assms(5) e1 andthen.simps d e2 using odd1 odd2 by simp
qed

text \<open>The stack of the program at 0x300000: the address of the string, and behind it the string \<^verbatim>\<open>Hi\<close>.\<close>

definition sim_stack :: "u8 list" where
  "sim_stack = [0x08, 0x00, 0x30, 0x00, 0, 0, 0, 0, 0x48, 0x69, 0]"

definition sim_frame :: interrupt_frame where
  "sim_frame = \<lparr>f_edi = 0, f_esi = 0, f_ebp = 0, f_reserved = 0, f_ebx = 0, f_edx = 0, f_ecx = 0, f_eax = 1, f_ip = 0x400020,
     f_cs = 0x1B, f_flags = 0x202, f_esp = 0x300000, f_ss = 0x23\<rparr>"

lemma sim_stack_buffers:
  assumes "bufs m = [0x300000 \<mapsto> sim_stack]"
  shows "buffer_before m 0x300000 (Suc n) = Some 0x300000" and "buffer_before m 0x300008 (Suc (Suc (Suc n))) = Some 0x300000"
  by (simp_all add: assms)

lemma sim_stack_bytes:
  assumes "bufs m = [0x300000 \<mapsto> sim_stack]"
  shows "pload m 0x300000 = Done 0x08" "pload m 0x300001 = Done 0x00" "pload m 0x300002 = Done 0x30" "pload m 0x300003 = Done 0x00"
    "pload m 0x300008 = Done 0x48" "pload m 0x300009 = Done 0x69" "pload m 0x30000A = Done 0"
proof -
  obtain n where n: "nat PANDORAOS_HEAP_SIZE_BYTES div 4 = Suc (Suc (Suc n))"
    by (rule that [of 26214397]) (simp add: PANDORAOS_HEAP_SIZE_BYTES_def)
  note b = sim_stack_buffers [OF assms]
  show "pload m 0x300000 = Done 0x08" "pload m 0x300001 = Done 0x00" "pload m 0x300002 = Done 0x30" "pload m 0x300003 = Done 0x00"
    "pload m 0x300008 = Done 0x48" "pload m 0x300009 = Done 0x69" "pload m 0x30000A = Done 0"
    by (simp_all add: pload_def buffer_of_def n b assms deref_Some rd_def sim_stack_def
      del: buffer_before.simps rd_eq_Done andthen_eq_Done)
qed

definition sim_printing :: "sim kernel" where
  "sim_printing = sim_kernel\<lparr>chunks := Map.empty, bufs := [0x300000 \<mapsto> sim_stack], screen := sample_term,
     idt := sim_idt\<lparr>isr80h_commands := (replicate 1024 None)[1 := Some command1_print]\<rparr>\<rparr>"

lemma sim_printing_ready:
  "\<exists>(m :: sim kernel) dir k a m1. reads_ok m (current_task m) dir k \<and> current_task m = 0x1400000 \<and>
    isr80h_lookup (idt m) 1 = Done (Some command1_print) \<and> vload32 (m\<lparr>cr3 := dir\<rparr>) 0x300000 = Done 0x300008 \<and>
    task_string m dir 0x300008 [0x48, 0x69] \<and> screen m = sample_term \<and>
    kzalloc m 1024 = Done (a, m1) \<and> a \<noteq> 0 \<and> 0x1000000 \<le> unat a"
proof -
  have bh: "\<not> in_heap boot_heap 0x300000" "\<forall>q. in_heap boot_heap q \<longrightarrow> 0x1000000 \<le> unat q"
    by (simp_all add: in_heap_def boot_heap_simps)
  have ok: "pages_ok sim_printing" "paging_room sim_printing 0 (1026 + 1)"
    using bh(1) by (simp_all add: pages_ok_def kmem_ok_def paging_room_def below_def sim_printing_def sim_kernel_def boot_heap_ok boot_heap_simps)
  from paging_new_4gb_eq_room [OF ok, of 7] obtain c dir ps hp where n:
    "pages_ok (new_4gb_result sim_printing 7 hp c dir ps)" "length ps = 1024" "distinct (dir # ps)" "\<forall>p \<in> set ps. 4096 dvd unat p"
    "\<forall>p \<in> set ps. unat p + 4096 \<le> 2 ^ 28"
    "heap_blocks hp = heap_blocks (kernel_heap sim_printing)" "saddr hp = saddr (kernel_heap sim_printing)"
    "paging_room (new_4gb_result sim_printing 7 hp c dir ps) 1026 1" by auto
  define m where "m = (new_4gb_result sim_printing 7 hp c dir ps)\<lparr>kernel_chunk := c, tasks := [0x1400000 \<mapsto> zero_task\<lparr>page_directory := c\<rparr>]\<rparr>"
  have f: "bufs m = [0x300000 \<mapsto> sim_stack]" "kernel_heap m = hp" "chunks m c = Some dir" "current_task m = 0x1400000"
    "ptables m = ptables (new_4gb_result sim_printing 7 hp c dir ps)" "idt m = idt sim_printing" "screen m = sample_term"
    by (simp_all add: m_def new_4gb_result_def sim_printing_def sim_kernel_def)
  have hp: "in_heap hp = in_heap boot_heap" "heap_blocks hp = 25600" "saddr hp = 0x1000000"
    using in_heap_cong [OF n(7,6)] n(6,7) by (simp_all add: sim_printing_def sim_kernel_def boot_heap_simps)
  have km: "kmem_ok m" using n(1) by (simp add: pages_ok_def kmem_ok_def kmem_live_def m_def)
  have "dir_ok (new_4gb_result sim_printing 7 hp c dir ps) dir" by (rule new_4gb_space(1) [OF n(2-4)])
  then have d: "dir_ok m dir" by (rule dir_ok_ptables) (simp add: f(5))
  have low: "low_tables m dir" using new_4gb_low [OF n(2,3,5), of sim_printing 7 hp c] by (simp add: low_tables_def f(5))
  have apart: "buffers_apart m" using bh by (auto simp: buffers_apart_def f(1,2) hp(1) sim_stack_def)
  have r: "reads_ok m (current_task m) dir dir" using d low km apart f by (simp add: reads_ok_def m_def)
  have ld: "vload (m\<lparr>cr3 := dir\<rparr>) x = pload m x" for x
    using mmu_identity [OF n(2-4), where m = "m\<lparr>cr3 := dir\<rparr>" and b = sim_printing and hp = hp and c = c] f(5) pload_same [of "m\<lparr>cr3 := dir\<rparr>" m] by (simp add: vload_def)
  note by8 = sim_stack_bytes [OF f(1)]
  have v32: "vload32 (m\<lparr>cr3 := dir\<rparr>) 0x300000 = Done 0x300008" by (simp add: vload32_def ld by8 le32_def)
  have ts: "task_string m dir 0x300008 [0x48, 0x69]"
    unfolding task_string_def ld
  proof (intro conjI allI impI)
    fix i :: nat
    assume "i \<le> length [0x48 :: u8, 0x69]"
    then consider "i = 0" | "i = 1" | "i = 2" by fastforce
    then show "pload m (0x300008 + of_nat i) = Done (([0x48, 0x69] @ [0]) ! i)" by cases (simp_all add: by8)
  qed simp
  have "below m 1026" using n(8) by (simp add: paging_room_def below_def m_def)
  from kzalloc_below [OF km this, of 1024] f(2) hp(2) obtain a m1 where
    a: "kzalloc m 1024 = Done (a, m1)" "a \<noteq> 0" by (auto simp: blocks_needed_def)
  from kernel.alloc_fresh [OF km _ _ a] obtain l where "kmem_ok m1" "(unat a, l) \<in> kmem_live m1" by auto
  moreover from kzalloc_exact(2,3) [OF km _ _ a(1)] have "in_heap (kernel_heap m1) = in_heap hp"
    by (intro in_heap_cong) (simp_all add: f(2))
  ultimately have "0x1000000 \<le> unat a" using heap_live_in_heap [of a l "kernel_heap m1"] bh(2) hp(1) by (simp add: kmem_live_def)
  moreover have "isr80h_lookup (idt m) 1 = Done (Some command1_print)"
    by (simp add: f(6) sim_printing_def isr80h_lookup_def PANDORA_MAX_ISR80H_COMMANDS_def rd_def)
  ultimately show ?thesis using r f(4,7) v32 ts a by blast
qed

theorem print_call_appends_witness:
  "\<exists>(m :: sim kernel) m'. isr80h_handler (sim_ports sim_image) m 1 sim_frame = Done (Return 0 m') \<and>
    cursor (screen m') = cursor (screen m) + 2 \<and> video_mem (screen m') ! 159 = terminal_make_char 0x48 15"
proof -
  from sim_printing_ready obtain m :: "sim kernel" and dir k a m1 where m: "reads_ok m (current_task m) dir k"
    "current_task m = 0x1400000" "isr80h_lookup (idt m) 1 = Done (Some command1_print)"
    "vload32 (m\<lparr>cr3 := dir\<rparr>) 0x300000 = Done 0x300008" "task_string m dir 0x300008 [0x48, 0x69]" "screen m = sample_term"
    "kzalloc m 1024 = Done (a, m1)" "a \<noteq> 0" "0x1000000 \<le> unat a" by blast
  have pg: "page_no (0x300008 + of_nat i) \<noteq> page_no a" if i: "i \<le> length [0x48 :: u8, 0x69]" for i
  proof -
    have "page_no (0x300008 + of_nat i) < 0x1000"
      using i by (cases i rule: nat.exhaust) (auto simp: page_no_def le_Suc_eq)
    moreover have "0x1000 \<le> page_no a" using div_le_mono [OF m(9), of 4096] by (simp add: page_no_def)
    ultimately show ?thesis by linarith
  qed
  have t: "term_ok sample_term" "cursor sample_term = 159" by (simp_all add: sample_term_def term_ok_def cursor_def)
  let ?s = "\<lambda>t. (with_registers m (current_task m) (frame_registers sim_frame))
      \<lparr>screen := t, user_segments := True, cr3 := dir, current_directory := dir\<rparr>"
  have "\<exists>t. isr80h_handler (sim_ports sim_image) m 1 sim_frame = Done (Return 0 ((with_registers m (current_task m) (frame_registers sim_frame))
      \<lparr>screen := t, user_segments := True, cr3 := dir, current_directory := dir\<rparr>)) \<and>
    term_ok t \<and> cursor t = cursor (screen m) + length [0x48 :: u8, 0x69] \<and>
    video_mem t = take (cursor (screen m)) (video_mem (screen m)) @ map (\<lambda>c. terminal_make_char c 15) [0x48, 0x69] @
      drop (cursor (screen m) + length [0x48 :: u8, 0x69]) (video_mem (screen m))"
    by (rule print_call_appends [OF m(1) _ m(3) _ m(5) _ _ m(7,8)])
      (use m(2,4,6) pg t in \<open>simp_all add: sim_frame_def visible_def\<close>)
  then obtain x where x: "isr80h_handler (sim_ports sim_image) m 1 sim_frame = Done (Return 0 (?s x))"
    "cursor x = cursor (screen m) + 2" "video_mem x ! 159 = terminal_make_char 0x48 15"
    using m(6) t(2) by (auto simp: sample_term_def nth_append)
  then show ?thesis by (intro exI [of _ m] exI [of _ "?s x"]) simp
qed

end
