(* ===== verification/Task_Lifecycle.thy ===== *)
theory Task_Lifecycle
  imports Scheduler
begin

text \<open>
  The birth and the death of a task (\<^verbatim>\<open>task_new\<close>, \<^verbatim>\<open>task_init\<close> and \<^verbatim>\<open>task_free\<close> of \<^verbatim>\<open>src/task/task.c\<close>): a new task
  gets an address space of its own and the registers its program starts with, and joins the ring of the
  scheduler behind the last task; freed as the last task of the ring, it leaves no trace.
\<close>

section \<open>The store of tasks\<close>

text \<open>Every task is a live object of the kernel heap; the ring is empty or \<open>task_ring\<close>, and a task of it runs.\<close>

definition tasks_ok :: "('io, 'a) taskmem_scheme \<Rightarrow> bool" where
  "tasks_ok m \<longleftrightarrow> pages_ok m \<and> (\<forall>t \<in> dom (tasks m). unat t \<in> fst ` kmem_live m)"

definition ring :: "('io, 'a) taskmem_scheme \<Rightarrow> addr list \<Rightarrow> bool" where
  "ring m ts \<longleftrightarrow> (if ts = [] then task_head m = 0 \<and> task_tail m = 0 \<and> current_task m = 0
     else task_ring m ts \<and> current_task m \<in> set ts)"

text \<open>The address a program starts at.\<close>

definition starts_at :: "('io, 'a) taskmem_scheme \<Rightarrow> process \<Rightarrow> addr \<Rightarrow> bool" where
  "starts_at m pr e \<longleftrightarrow>
     (if filetype pr = PROCESS_FILE_TYPE_ELF
      then \<exists>f h. elf_files m (proc_ptr pr) = Some f \<and> header_at m (elf_header_ptr f) = Done h \<and> e_entry h = e
      else e = PANDORA_PROGRAM_VIRTUAL_ADDRESS)"

definition start_registers :: "addr \<Rightarrow> registers" where
  "start_registers e = zero_registers\<lparr>ip := e, ss_reg := USER_DATA_SEGMENT, cs_reg := USER_CODE_SEGMENT,
     esp := PANDORA_PROGRAM_VIRTUAL_STACK_ADDRESS_START\<rparr>"

definition new_task :: "addr \<Rightarrow> addr \<Rightarrow> addr \<Rightarrow> task" where
  "new_task c process e = zero_task\<lparr>page_directory := c, task_registers := start_registers e, task_process := process\<rparr>"

lemma new_task_links [simp]: "task_next_link (new_task c p e) = 0" "task_prev_link (new_task c p e) = 0"
  "page_directory (new_task c p e) = c" "task_registers (new_task c p e) = start_registers e"
  by (simp_all add: new_task_def zero_task_def)

lemma task_init_eq:
  assumes "tasks m t \<noteq> None" and "procs m p = Some pr" and "starts_at m pr e"
    and "paging_new_4gb (m\<lparr>tasks := (tasks m)(t \<mapsto> zero_task)\<rparr>) 5 = Done (c, m2)" and "c \<noteq> 0"
    and "m2 = new_4gb_result (m\<lparr>tasks := (tasks m)(t \<mapsto> zero_task)\<rparr>) 5 hp c dir ps"
  shows "task_init m t p = Done (0, m2\<lparr>tasks := (tasks m)(t \<mapsto> new_task c p e)\<rparr>)"
proof -
  let ?m3 = "m2\<lparr>tasks := (tasks m)(t \<mapsto> zero_task\<lparr>page_directory := c\<rparr>)\<rparr>"
  have m2: "procs m2 = procs m" "elf_files m2 = elf_files m" "bufs m2 = bufs m" "tasks m2 = (tasks m)(t \<mapsto> zero_task)"
    using assms(6) by (simp_all add: new_4gb_result_def)
  have h: "header_at ?m3 a = header_at m a" for a by (simp add: header_at_def read_in_def m2)
  have fl: "ucast (PAGING_IS_PRESENT OR PAGING_ACCESS_FROM_ALL) = (5 :: u8)"
    by (simp add: PAGING_IS_PRESENT_def PAGING_ACCESS_FROM_ALL_def)
  show ?thesis
    using assms(1-5) m2 h unfolding task_init_def starts_at_def fl Let_def
    by (auto simp: deref_Some new_task_def start_registers_def zero_task_def split: if_splits simp del: andthen_eq_Done)
qed

text \<open>The object of the task, and its release.\<close>

lemma task_object:
  fixes m :: "('io, 'a) taskmem_scheme"
  assumes "tasks_ok m" and "paging_room m b (1027 + n)"
  obtains t hp where "kzalloc m 64 = Done (t, m\<lparr>kernel_heap := hp, bufs := (bufs m)(t \<mapsto> replicate 64 0)\<rparr>)"
    and "t \<noteq> 0" and "bufs m t = None" and "tasks m t = None" and "pages_ok (m\<lparr>kernel_heap := hp\<rparr>)"
    and "paging_room (m\<lparr>kernel_heap := hp\<rparr>) (b + 1) (1026 + n)" and "heap_live hp = insert (unat t, 4096) (kmem_live m)"
    and "kfree (m\<lparr>kernel_heap := hp\<rparr>) t = Done m"
proof -
  from assms have ok: "kmem_ok m" "below m b" "b + 1 \<le> heap_blocks (kernel_heap m)"
    by (simp_all add: tasks_ok_def pages_ok_def paging_room_def)
  from kzalloc_page [OF ok(1,2) _ _ ok(3), of 64] obtain t hp where z:
    "kzalloc m 64 = Done (t, m\<lparr>kernel_heap := hp, bufs := (bufs m)(t \<mapsto> replicate 64 0)\<rparr>)"
    "t \<noteq> 0" "bufs m t = None" "unat t \<notin> fst ` kmem_live m" "heap_live hp = insert (unat t, 4096) (kmem_live m)"
    "kmem_ok (m\<lparr>kernel_heap := hp, bufs := (bufs m)(t \<mapsto> replicate 64 0)\<rparr>)"
    "below (m\<lparr>kernel_heap := hp, bufs := (bufs m)(t \<mapsto> replicate 64 0)\<rparr>) (b + 1)"
    "heap_blocks hp = heap_blocks (kernel_heap m)" "saddr hp = saddr (kernel_heap m)" by auto
  have ih: "in_heap hp = in_heap (kernel_heap m)" using z(8,9) by (simp add: in_heap_def fun_eq_iff)
  have "heap_ok hp" using z(6) by (simp add: kmem_ok_def)
  then have "pages_ok (m\<lparr>kernel_heap := hp\<rparr>)"
    using assms(1) z(5) unfolding tasks_ok_def pages_ok_def kmem_ok_def by (auto simp: kmem_live_def ih)
  moreover have "paging_room (m\<lparr>kernel_heap := hp\<rparr>) (b + 1) (1026 + n)"
    using assms(2) z(7-9) by (simp add: paging_room_def below_def)
  moreover have "kfree (m\<lparr>kernel_heap := hp\<rparr>) t = Done m"
  proof -
    have "kfree (m\<lparr>kernel_heap := hp, bufs := (bufs m)(t \<mapsto> replicate 64 0)\<rparr>) t = Done m"
      by (rule kernel.alloc_release [OF ok(1) _ _ z(1,2)]) simp_all
    then obtain hq where hq: "heap_free hp t = Done hq"
      and e: "m\<lparr>kernel_heap := hq, bufs := (bufs m)(t := None)\<rparr> = m" by (auto simp: kfree_def)
    have "(bufs m)(t := None) = bufs m" using z(3) by (simp add: fun_upd_idem)
    with e show ?thesis by (simp add: kfree_def hq del: andthen_eq_Done)
  qed
  moreover have "tasks m t = None" using assms(1) z(4) by (auto simp: tasks_ok_def)
  ultimately show thesis using that [OF z(1-3)] z(5) by blast
qed

section \<open>Joining the ring\<close>

lemma joined_ring:
  assumes "task_ring m ts" and "t \<notin> set ts" and "t \<noteq> 0" and "tasks m t = Some tk" and "task_next_link tk = 0"
    and "tasks m (last ts) = Some lk"
  shows "task_ring (m\<lparr>tasks := (tasks m)(last ts \<mapsto> lk\<lparr>task_next_link := t\<rparr>, t \<mapsto> tk\<lparr>task_prev_link := last ts\<rparr>),
    task_tail := t\<rparr>) (ts @ [t])"
proof -
  let ?m = "m\<lparr>tasks := (tasks m)(last ts \<mapsto> lk\<lparr>task_next_link := t\<rparr>, t \<mapsto> tk\<lparr>task_prev_link := last ts\<rparr>), task_tail := t\<rparr>"
  have ts: "ts \<noteq> []" "distinct ts" "0 \<notin> set ts" "task_head m = hd ts" using assms(1) by (simp_all add: task_ring_def)
  have lt: "last ts = ts ! (length ts - 1)" using ts(1) by (rule last_conv_nth)
  have "\<exists>k. tasks ?m ((ts @ [t]) ! i) = Some k \<and>
      task_next_link k = (if Suc i < length (ts @ [t]) then (ts @ [t]) ! Suc i else 0) \<and>
      task_prev_link k = (if i = 0 then 0 else (ts @ [t]) ! (i - 1))" if i: "i < length (ts @ [t])" for i
  proof (cases "i < length ts")
    case True
    from assms(1) True obtain k where k: "tasks m (ts ! i) = Some k"
      "task_next_link k = (if Suc i < length ts then ts ! Suc i else 0)"
      "task_prev_link k = (if i = 0 then 0 else ts ! (i - 1))" by (rule task_ringE)
    have nt: "ts ! i \<noteq> t" using assms(2) True by auto
    have la: "ts ! i = last ts \<longleftrightarrow> Suc i = length ts"
      using ts(1,2) True by (auto simp: lt nth_eq_iff_index_eq)
    show ?thesis
    proof (cases "Suc i = length ts")
      case True
      then have e: "ts ! i = last ts" using la by simp
      then have "lk = k" using k(1) assms(6) by simp
      then show ?thesis using k e nt True \<open>i < length ts\<close> by (auto simp: nth_append)
    next
      case False
      then show ?thesis using k la nt True by (auto simp: nth_append)
    qed
  next
    case False
    then have "i = length ts" using i by simp
    then show ?thesis using assms(5) ts(1) lt by (auto simp: nth_append)
  qed
  then show ?thesis using ts assms(2,3) unfolding task_ring_def by auto
qed

lemma single_ring:
  "t \<noteq> 0 \<Longrightarrow> tasks m t = Some tk \<Longrightarrow> task_next_link tk = 0 \<Longrightarrow> task_prev_link tk = 0 \<Longrightarrow> task_head m = t \<Longrightarrow>
    task_tail m = t \<Longrightarrow> task_ring m [t]"
  by (simp add: task_ring_def)

text \<open>The state after a task has joined the ring \<open>ts\<close>.\<close>

definition joined :: "('io, 'a) taskmem_scheme \<Rightarrow> addr list \<Rightarrow> addr \<Rightarrow> task \<Rightarrow> ('io, 'a) taskmem_scheme" where
  "joined m ts t tk =
     (if ts = [] then m\<lparr>tasks := (tasks m)(t \<mapsto> tk), task_head := t, task_tail := t, current_task := t\<rparr>
      else m\<lparr>tasks := (tasks m)(last ts \<mapsto> (the (tasks m (last ts)))\<lparr>task_next_link := t\<rparr>,
               t \<mapsto> tk\<lparr>task_prev_link := last ts\<rparr>), task_tail := t\<rparr>)"

lemma tasks_update_pages:
  fixes m :: "('io, 'a) taskmem_scheme"
  shows "pages_ok (m\<lparr>tasks := T\<rparr>) = pages_ok m" and "paging_room (m\<lparr>tasks := T\<rparr>) b n = paging_room m b n"
    and "new_4gb_result (m\<lparr>tasks := T\<rparr>) fl hp c dir ps = (new_4gb_result m fl hp c dir ps)\<lparr>tasks := T\<rparr>"
    and "new_space (m\<lparr>tasks := T\<rparr>) fl hp c dir ps = new_space m fl hp c dir ps"
  by (simp_all add: pages_ok_def kmem_ok_def kmem_live_def paging_room_def below_def new_4gb_result_def new_space_def)

lemma new_space_nonzero: "new_space m fl hp c dir ps \<Longrightarrow> c \<noteq> 0"
proof -
  assume n: "new_space m fl hp c dir ps"
  then have "kmem_ok (new_4gb_result m fl hp c dir ps)" "(unat c, 4096) \<in> kmem_live (new_4gb_result m fl hp c dir ps)"
    by (simp_all add: new_space_def pages_ok_def kmem_live_def new_4gb_result_def)
  from kernel.live_positive [OF this] show "c \<noteq> 0" by auto
qed

lemma ring_cong:
  "tasks m' = tasks m \<Longrightarrow> task_head m' = task_head m \<Longrightarrow> task_tail m' = task_tail m \<Longrightarrow> current_task m' = current_task m \<Longrightarrow>
    ring m' ts = ring m ts"
  by (simp add: ring_def task_ring_def)

lemma ring_head: "ring m ts \<Longrightarrow> task_head m = 0 \<longleftrightarrow> ts = []"
  by (cases ts) (auto simp: ring_def task_ring_def)

lemma ring_last:
  assumes "ring m ts" and "ts \<noteq> []"
  obtains lk where "tasks m (last ts) = Some lk" and "task_tail m = last ts" and "task_next_link lk = 0" and "last ts \<noteq> 0"
proof -
  have r: "task_ring m ts" using assms by (simp add: ring_def)
  have i: "length ts - 1 < length ts" using assms(2) by simp
  show thesis
    by (rule task_ringE [OF r i]) (use that assms(2) r in \<open>auto simp: last_conv_nth task_ring_def\<close>)
qed

lemma task_new_eq:
  fixes m :: "('io, 'a) taskmem_scheme"
  assumes "tasks_ok m" and "paging_room m b (1027 + n)" and "procs m p = Some pr" and "starts_at m pr e" and "ring m ts"
  obtains t hp1 c dir ps hp where
    "task_new m p = Done (t, joined (new_4gb_result (m\<lparr>kernel_heap := hp1\<rparr>) 5 hp c dir ps) ts t (new_task c p e))"
    and "t \<noteq> 0" and "tasks m t = None" and "pages_ok (m\<lparr>kernel_heap := hp1\<rparr>)"
    and "new_space (m\<lparr>kernel_heap := hp1\<rparr>) 5 hp c dir ps" and "heap_live hp1 = insert (unat t, 4096) (kmem_live m)"
    and "kfree (m\<lparr>kernel_heap := hp1\<rparr>) t = Done m"
    and "paging_room (new_4gb_result (m\<lparr>kernel_heap := hp1\<rparr>) 5 hp c dir ps) (b + 1027) n"
proof -
  from task_object [OF assms(1,2)] obtain t hp1 where z:
    "kzalloc m 64 = Done (t, m\<lparr>kernel_heap := hp1, bufs := (bufs m)(t \<mapsto> replicate 64 0)\<rparr>)" "t \<noteq> 0" "bufs m t = None"
    "tasks m t = None" "pages_ok (m\<lparr>kernel_heap := hp1\<rparr>)" "paging_room (m\<lparr>kernel_heap := hp1\<rparr>) (b + 1) (1026 + n)"
    "heap_live hp1 = insert (unat t, 4096) (kmem_live m)" "kfree (m\<lparr>kernel_heap := hp1\<rparr>) t = Done m" .
  let ?h = "m\<lparr>kernel_heap := hp1\<rparr>"
  define mt where "mt = ?h\<lparr>tasks := (tasks m)(t \<mapsto> zero_task)\<rparr>"
  have mt: "pages_ok mt" "paging_room mt (b + 1) (1026 + n)" using z(5,6) by (simp_all add: mt_def tasks_update_pages)
  from paging_new_4gb_space [OF mt, of 5] obtain c dir ps hp where g:
    "paging_new_4gb mt 5 = Done (c, new_4gb_result mt 5 hp c dir ps)" "new_space mt 5 hp c dir ps"
    "paging_room (new_4gb_result mt 5 hp c dir ps) (b + 1 + 1026) n" .
  let ?r = "new_4gb_result ?h 5 hp c dir ps"
  have sp: "new_space ?h 5 hp c dir ps" using g(2) by (simp add: mt_def tasks_update_pages)
  have room: "paging_room ?r (b + 1027) n" using g(3) by (simp add: mt_def tasks_update_pages add.commute)
  have r: "tasks ?r = tasks m" "task_head ?r = task_head m" "task_tail ?r = task_tail m" by (simp_all add: new_4gb_result_def)
  have same: "mt\<lparr>tasks := (tasks mt)(t \<mapsto> zero_task)\<rparr> = mt" by (simp add: mt_def)
  have "header_at mt a = header_at m a" "elf_files mt = elf_files m" for a by (simp_all add: header_at_def read_in_def mt_def)
  then have "starts_at mt pr e = starts_at m pr e" by (simp add: starts_at_def)
  with assms(4) have st: "starts_at mt pr e" by simp
  have init: "task_init mt t p = Done (0, ?r\<lparr>tasks := (tasks m)(t \<mapsto> new_task c p e)\<rparr>)"
    using task_init_eq [of mt t p pr e c "new_4gb_result mt 5 hp c dir ps" hp dir ps] g(1) new_space_nonzero [OF g(2)] st assms(3)
    unfolding same by (simp add: mt_def tasks_update_pages)
  have mt': "m\<lparr>kernel_heap := hp1, bufs := (bufs m)(t := None), tasks := (tasks m)(t \<mapsto> zero_task)\<rparr> = mt"
    using z(3) by (simp add: mt_def fun_upd_idem)
  have "task_new m p = Done (t, joined ?r ts t (new_task c p e))"
  proof (cases "ts = []")
    case True
    then show ?thesis
      using z(1,2) init mt' ring_head [OF assms(5)] r
      by (simp add: task_new_def task_new_out_def joined_def conf PANDORAOS_ALL_OK_def del: andthen_eq_Done)
  next
    case False
    from ring_last [OF assms(5) False] obtain lk where lk: "tasks m (last ts) = Some lk" "task_tail m = last ts" by blast
    have ne: "last ts \<noteq> t" using lk(1) z(4) by auto
    then have sw: "(tasks m)(t \<mapsto> a, last ts \<mapsto> x, t \<mapsto> y) = (tasks m)(last ts \<mapsto> x, t \<mapsto> y)" for a x y by auto
    show ?thesis
      using z(1,2) init mt' ring_head [OF assms(5)] r lk False ne
      by (simp add: task_new_def task_new_out_def joined_def update_task_def deref_Some sw conf PANDORAOS_ALL_OK_def
          del: andthen_eq_Done)
  qed
  from that [OF this z(2,4,5) sp z(7,8) room] show thesis .
qed

section \<open>Properties\<close>

lemma joined_simps [simp]:
  "kernel_heap (joined m ts t tk) = kernel_heap m" "bufs (joined m ts t tk) = bufs m" "ptables (joined m ts t tk) = ptables m"
  "chunks (joined m ts t tk) = chunks m" "procs (joined m ts t tk) = procs m"
  by (simp_all add: joined_def)

lemma joined_ring_ok:
  assumes "ring m ts" and "t \<noteq> 0" and "tasks m t = None" and "task_next_link tk = 0" and "task_prev_link tk = 0"
  shows "ring (joined m ts t tk) (ts @ [t])" and "saved (joined m ts t tk) t = task_registers tk"
    and "u \<in> set ts \<Longrightarrow> saved (joined m ts t tk) u = saved m u"
    and "dom (tasks (joined m ts t tk)) = insert t (dom (tasks m))"
    and "current_task (joined m ts t tk) = (if ts = [] then t else current_task m)"
    and "page_directory (the (tasks (joined m ts t tk) t)) = page_directory tk"
proof -
  have nin: "t \<notin> set ts"
  proof
    assume "t \<in> set ts"
    then obtain i where "i < length ts" "t = ts ! i" by (metis in_set_conv_nth)
    moreover have "task_ring m ts" using assms(1) \<open>t \<in> set ts\<close> by (auto simp: ring_def split: if_splits)
    ultimately show False using assms(3) by (auto simp: task_ring_def)
  qed
  have "ring (joined m ts t tk) (ts @ [t]) \<and> saved (joined m ts t tk) t = task_registers tk \<and>
    (u \<in> set ts \<longrightarrow> saved (joined m ts t tk) u = saved m u) \<and> dom (tasks (joined m ts t tk)) = insert t (dom (tasks m)) \<and>
    current_task (joined m ts t tk) = (if ts = [] then t else current_task m) \<and>
    page_directory (the (tasks (joined m ts t tk) t)) = page_directory tk"
  proof (cases "ts = []")
    case True
    then show ?thesis using assms by (simp add: joined_def ring_def task_ring_def saved_def)
  next
    case False
    from ring_last [OF assms(1) False] obtain lk where lk: "tasks m (last ts) = Some lk" by blast
    let ?m = "m\<lparr>tasks := (tasks m)(t \<mapsto> tk)\<rparr>"
    have ne: "last ts \<noteq> t" using lk assms(3) by auto
    have r: "task_ring m ts" "current_task m \<in> set ts" using assms(1) False by (simp_all add: ring_def)
    have "task_ring ?m ts" using r(1) nin by (auto simp: task_ring_def)
    from joined_ring [OF this nin assms(2) _ assms(4), of lk] lk ne
    have "task_ring (?m\<lparr>tasks := (tasks ?m)(last ts \<mapsto> lk\<lparr>task_next_link := t\<rparr>, t \<mapsto> tk\<lparr>task_prev_link := last ts\<rparr>),
      task_tail := t\<rparr>) (ts @ [t])" by simp
    moreover have "?m\<lparr>tasks := (tasks ?m)(last ts \<mapsto> lk\<lparr>task_next_link := t\<rparr>, t \<mapsto> tk\<lparr>task_prev_link := last ts\<rparr>),
      task_tail := t\<rparr> = joined m ts t tk"
      using False lk ne by (simp add: joined_def fun_upd_twist)
    ultimately have "task_ring (joined m ts t tk) (ts @ [t])" by simp
    then show ?thesis using False lk ne nin r(2) by (auto simp: ring_def joined_def saved_def)
  qed
  then show "ring (joined m ts t tk) (ts @ [t])" "saved (joined m ts t tk) t = task_registers tk"
    "u \<in> set ts \<Longrightarrow> saved (joined m ts t tk) u = saved m u" "dom (tasks (joined m ts t tk)) = insert t (dom (tasks m))"
    "current_task (joined m ts t tk) = (if ts = [] then t else current_task m)"
    "page_directory (the (tasks (joined m ts t tk) t)) = page_directory tk" by blast+
qed

text \<open>What a release undoes.\<close>

lemma joined_pages:
  "new_4gb_result (joined m ts t tk) fl hp c dir ps = joined (new_4gb_result m fl hp c dir ps) ts t tk"
  "pages_ok (joined m ts t tk) = pages_ok m"
  by (simp_all add: joined_def new_4gb_result_def pages_ok_def kmem_ok_def kmem_live_def)

lemma joined_new_space: "new_space (joined m ts t tk) fl hp c dir ps = new_space m fl hp c dir ps"
  by (simp add: new_space_def joined_pages kmem_live_def)

lemma leave_ring:
  assumes "ring m ts" and "t \<noteq> 0" and "tasks m t = None" and "task_next_link tk = 0" and "task_prev_link tk = 0"
  shows "\<exists>T. task_list_remove (joined (m\<lparr>kernel_heap := hp\<rparr>) ts t tk) t = Done (m\<lparr>kernel_heap := hp, tasks := T\<rparr>) \<and>
    T(t := None) = tasks m"
proof (cases "ts = []")
  case True
  with assms have "m\<lparr>task_head := 0, task_tail := 0, current_task := 0\<rparr> = m" by (simp add: ring_def)
  then have e: "m\<lparr>kernel_heap := hp, tasks := T, task_head := 0, task_tail := 0, current_task := 0\<rparr> =
      m\<lparr>kernel_heap := hp, tasks := T\<rparr>" for T
    using assms(1) True by (simp add: ring_def)
  have "(tasks m)(t := None) = tasks m" using assms(3) by (simp add: fun_upd_idem)
  then show ?thesis
    using True assms e
    by (intro exI [of _ "(tasks m)(t \<mapsto> tk)"]) (simp add: joined_def task_list_remove_def deref_Some task_get_next_def Let_def del: andthen_eq_Done)
next
  case False
  from ring_last [OF assms(1) False] obtain lk where lk: "tasks m (last ts) = Some lk" "task_tail m = last ts"
    "task_next_link lk = 0" "last ts \<noteq> 0" .
  have r: "task_ring m ts" "current_task m \<in> set ts" using assms(1) False by (simp_all add: ring_def)
  have nin: "t \<notin> set ts" using r(1) assms(3) by (auto simp: task_ring_def in_set_conv_nth)
  have ne: "last ts \<noteq> t" using lk assms(3) by auto
  have hd: "task_head m \<noteq> t" "current_task m \<noteq> t" using r nin False by (auto simp: task_ring_def)
  have lk0: "lk\<lparr>task_next_link := t, task_next_link := 0\<rparr> = lk" using lk(3) by (cases lk) simp
  let ?T = "(tasks m)(last ts \<mapsto> lk, t \<mapsto> tk\<lparr>task_prev_link := last ts\<rparr>)"
  have "?T(t := None) = tasks m" using lk(1) assms(3) ne by (auto simp: fun_eq_iff)
  moreover have "task_list_remove (joined (m\<lparr>kernel_heap := hp\<rparr>) ts t tk) t = Done (m\<lparr>kernel_heap := hp, tasks := ?T\<rparr>)"
  proof -
    define j where "j = joined (m\<lparr>kernel_heap := hp\<rparr>) ts t tk"
    have jt: "tasks j = (tasks m)(last ts \<mapsto> lk\<lparr>task_next_link := t\<rparr>, t \<mapsto> tk\<lparr>task_prev_link := last ts\<rparr>)"
      and jh: "task_head j = task_head m" "current_task j = current_task m" "task_tail j = t"
      using False lk(1) by (simp_all add: j_def joined_def)
    let ?j1 = "j\<lparr>tasks := (tasks j)(last ts \<mapsto> lk)\<rparr>"
    have up: "update_task j (last ts) (\<lambda>p. p\<lparr>task_next_link := 0\<rparr>) = Done ?j1"
      using ne lk0 by (simp add: update_task_def jt deref_Some del: andthen_eq_Done)
    have "deref (tasks j) t = Done (tk\<lparr>task_prev_link := last ts\<rparr>)" by (simp add: jt deref_Some)
    then have "task_list_remove j t = Done (?j1\<lparr>task_tail := last ts\<rparr>)"
      using up lk(4) hd assms(4) jh by (simp add: task_list_remove_def Let_def deref_Some del: andthen_eq_Done)
    moreover have "(tasks j)(last ts \<mapsto> lk) = ?T" using ne by (auto simp: jt fun_eq_iff)
    moreover have "j\<lparr>tasks := ?T, task_tail := task_tail m\<rparr> = m\<lparr>kernel_heap := hp, tasks := ?T\<rparr>"
      using False by (simp add: j_def joined_def)
    ultimately show ?thesis unfolding j_def [symmetric] lk(2) by simp
  qed
  ultimately show ?thesis by blast
qed

text \<open>
  C10. Task creation: for a process whose program is loaded \<open>task_new\<close> succeeds; the new task is appended to the ring of the
  scheduler, which stays well-formed, and runs at once only if there was no other; it starts with the entry point,
  stack and segments of a user program, in an address space of its own, which maps every page to itself, readable
  but not writeable; the saved registers of the other tasks and all page tables that were there are unchanged.
\<close>

theorem task_new_joins_ring:
  assumes "tasks_ok m" and "paging_room m b (1027 + n)" and "procs m p = Some pr" and "starts_at m pr e" and "ring m ts"
  shows "\<exists>t m'. task_new m p = Done (t, m') \<and> tasks_ok m' \<and> paging_room m' (b + 1027) n \<and> procs m' = procs m \<and>
    ring m' (ts @ [t]) \<and> current_task m' = (if ts = [] then t else current_task m) \<and>
    saved m' t = start_registers e \<and> (\<forall>u \<in> set ts. saved m' u = saved m u) \<and>
    (\<exists>dir. chunks m' (page_directory (the (tasks m' t))) = Some dir \<and> dir_ok m' dir \<and>
       (\<forall>k < 1024 * 1024. space m' dir k = Some ((of_nat k * PAGING_PAGE_SIZE) OR 5)) \<and>
       footprint m' dir \<inter> dom (ptables m) = {}) \<and>
    (\<forall>q \<in> dom (ptables m). ptables m' q = ptables m q)"
proof -
  from task_new_eq [OF assms] obtain t hp1 c dir ps hp where
    n: "task_new m p = Done (t, joined (new_4gb_result (m\<lparr>kernel_heap := hp1\<rparr>) 5 hp c dir ps) ts t (new_task c p e))"
      "t \<noteq> 0" "tasks m t = None" "new_space (m\<lparr>kernel_heap := hp1\<rparr>) 5 hp c dir ps"
      "heap_live hp1 = insert (unat t, 4096) (kmem_live m)"
      "paging_room (new_4gb_result (m\<lparr>kernel_heap := hp1\<rparr>) 5 hp c dir ps) (b + 1027) n" by metis
  let ?r = "new_4gb_result (m\<lparr>kernel_heap := hp1\<rparr>) 5 hp c dir ps"
  let ?j = "joined ?r ts t (new_task c p e)"
  note d = new_space_directory [OF n(4) refl]
  have r: "ring ?r ts = ring m ts" "tasks ?r = tasks m" "saved ?r = saved m" "current_task ?r = current_task m" "procs ?r = procs m"
    by (intro ring_cong) (simp_all add: new_4gb_result_def saved_def fun_eq_iff)
  note j = joined_ring_ok [of ?r ts t "new_task c p e", unfolded r, OF assms(5) n(2,3) new_task_links(1,2)]
  have live: "kmem_live ?j = insert (unat t, 4096) (kmem_live m) \<union> (\<lambda>p. (unat p, 4096)) ` set (c # dir # ps)"
    using n(4,5) by (simp add: new_space_def kmem_live_def new_4gb_result_def)
  have ok: "tasks_ok ?j"
    using n(4) assms(1) unfolding tasks_ok_def joined_pages(2) live j(4)
    by (auto simp: new_space_def)
  have sp: "space ?j dir = space ?r dir" "dir_ok ?j dir = dir_ok ?r dir" "footprint ?j dir = footprint ?r dir" for dir
    by (intro space_frame; simp)+
  have room: "paging_room ?j (b + 1027) n" using n(6) by (simp add: paging_room_def below_def)
  show ?thesis
    using n(1) ok room j d r(5) by (intro exI [of _ t] exI [of _ ?j]) (auto simp: sp)
qed

text \<open>A kernel with one loaded flat binary and no task; two tasks are created for it.\<close>

definition idle_kernel :: "sim kernel" where
  "idle_kernel = sim_kernel\<lparr>chunks := Map.empty, tasks := Map.empty, task_head := 0, task_tail := 0, current_task := 0,
     procs := [0x500000 \<mapsto> zero_process\<lparr>filetype := PROCESS_FILE_TYPE_BINARY\<rparr>]\<rparr>"

lemma idle_kernel_ok: "tasks_ok idle_kernel" "paging_room idle_kernel 0 (1027 + 1027)" "ring idle_kernel []"
  "procs idle_kernel 0x500000 = Some (zero_process\<lparr>filetype := PROCESS_FILE_TYPE_BINARY\<rparr>)"
  by (simp_all add: tasks_ok_def pages_ok_def kmem_ok_def paging_room_def below_def ring_def idle_kernel_def sim_kernel_def
      boot_heap_ok boot_heap_simps)

lemma flat_binary_starts: "starts_at m (zero_process\<lparr>filetype := PROCESS_FILE_TYPE_BINARY\<rparr>) PANDORA_PROGRAM_VIRTUAL_ADDRESS"
  by (simp add: starts_at_def PROCESS_FILE_TYPE_BINARY_def PROCESS_FILE_TYPE_ELF_def)

theorem task_new_joins_ring_witness:
  "\<exists>t u m1 m2. task_new idle_kernel 0x500000 = Done (t, m1) \<and> task_new m1 0x500000 = Done (u, m2) \<and>
    ring m2 [t, u] \<and> current_task m2 = t \<and> ip (saved m2 u) = 0x400000"
proof -
  from task_new_joins_ring [OF idle_kernel_ok(1,2,4) flat_binary_starts idle_kernel_ok(3)] obtain t and m1 :: "sim kernel" where
    1: "task_new idle_kernel 0x500000 = Done (t, m1)" "tasks_ok m1" "paging_room m1 1027 1027" "procs m1 = procs idle_kernel"
      "ring m1 [t]" "current_task m1 = t" by auto
  have room: "paging_room m1 1027 (1027 + 0)" using 1(3) by simp
  have "procs m1 0x500000 = Some (zero_process\<lparr>filetype := PROCESS_FILE_TYPE_BINARY\<rparr>)" using 1(4) idle_kernel_ok(4) by simp
  from task_new_joins_ring [OF 1(2) room this flat_binary_starts 1(5)] obtain u and m2 :: "sim kernel" where
    2: "task_new m1 0x500000 = Done (u, m2)" "ring m2 [t, u]" "current_task m2 = t"
      "saved m2 u = start_registers PANDORA_PROGRAM_VIRTUAL_ADDRESS" using 1(6) by auto
  have "ip (saved m2 u) = 0x400000" by (simp add: 2(4) start_registers_def PANDORA_PROGRAM_VIRTUAL_ADDRESS_def)
  with 1(1) 2 show ?thesis by blast
qed

text \<open>
  C17. Creating a task and freeing it again while it is the last of the ring restores the kernel exactly: heap, page tables,
  chunks, the links of the other tasks and the running task.
\<close>

theorem task_new_free_roundtrip:
  assumes "tasks_ok m" and "paging_room m b 1027" and "procs m p = Some pr" and "starts_at m pr e" and "ring m ts"
  shows "\<exists>t m'. task_new m p = Done (t, m') \<and> task_free m' t = Done (0, m)"
proof -
  have "paging_room m b (1027 + 0)" using assms(2) by simp
  from task_new_eq [OF assms(1) this assms(3-5)] obtain t hp1 c dir ps hp where
    n: "task_new m p = Done (t, joined (new_4gb_result (m\<lparr>kernel_heap := hp1\<rparr>) 5 hp c dir ps) ts t (new_task c p e))"
      "t \<noteq> 0" "tasks m t = None" "pages_ok (m\<lparr>kernel_heap := hp1\<rparr>)" "new_space (m\<lparr>kernel_heap := hp1\<rparr>) 5 hp c dir ps"
      "kfree (m\<lparr>kernel_heap := hp1\<rparr>) t = Done m" by metis
  let ?k = "joined (m\<lparr>kernel_heap := hp1\<rparr>) ts t (new_task c p e)"
  let ?j = "joined (new_4gb_result (m\<lparr>kernel_heap := hp1\<rparr>) 5 hp c dir ps) ts t (new_task c p e)"
  have "paging_free_4gb ?j c = Done ?k"
    using paging_free_4gb_result [of ?k 5 hp c dir ps] n(4,5) by (simp add: joined_pages joined_new_space)
  moreover obtain tk where "tasks ?j t = Some tk" "page_directory tk = c" by (cases "ts = []") (simp_all add: joined_def)
  moreover obtain T where T: "task_list_remove ?k t = Done (m\<lparr>kernel_heap := hp1, tasks := T\<rparr>)" "T(t := None) = tasks m"
    using leave_ring [OF assms(5) n(2,3) new_task_links(1,2)] by blast
  moreover obtain hq where "heap_free hp1 t = Done hq" "m\<lparr>kernel_heap := hq, bufs := (bufs m)(t := None)\<rparr> = m"
    using n(6) by (auto simp: kfree_def)
  then have hq: "heap_free hp1 t = Done hq" "hq = kernel_heap m" "(bufs m)(t := None) = bufs m"
    by (auto dest: arg_cong [of _ _ kernel_heap] arg_cong [of _ _ bufs])
  then have "kfree (m\<lparr>kernel_heap := hp1, tasks := T\<rparr>) t = Done (m\<lparr>tasks := T\<rparr>)"
    by (simp add: kfree_def del: andthen_eq_Done)
  ultimately have "task_free ?j t = Done (0, m)"
    by (simp add: task_free_def deref_Some del: andthen_eq_Done)
  with n(1) show ?thesis by blast
qed

theorem task_new_free_roundtrip_witness:
  "\<exists>t m'. task_new idle_kernel 0x500000 = Done (t, m') \<and> task_free m' t = Done (0, idle_kernel)"
proof -
  have "paging_room idle_kernel 0 1027" using idle_kernel_ok(2) by (simp add: paging_room_def)
  from task_new_free_roundtrip [OF idle_kernel_ok(1) this idle_kernel_ok(4) flat_binary_starts idle_kernel_ok(3)]
  show ?thesis .
qed

end
