(* ===== verification/Files.thy ===== *)
theory Files
  imports Scheduler
begin

text \<open>
  The table of file descriptors of \<^verbatim>\<open>src/fs/file.c\<close> and the error path of \<open>fopen\<close>: which descriptors can
  be looked up again, and what happens when the file system refuses to open a file.
\<close>

section \<open>The table of descriptors\<close>

lemma first_free_found:
  "\<lbrakk>i \<le> j; j < n; n \<le> length tbl; tbl ! j = 0; \<forall>l. i \<le> l \<and> l < j \<longrightarrow> tbl ! l \<noteq> 0\<rbrakk>
    \<Longrightarrow> first_free tbl i n = Done (Some j)"
proof (induction "j - i" arbitrary: i)
  case 0
  then show ?case by (simp add: first_free.simps [of tbl i n] rd_in del: rd_eq_Done andthen_eq_Done)
next
  case (Suc k)
  then have "first_free tbl (Suc i) n = Done (Some j)" by (intro Suc.hyps(1)) auto
  moreover have "i < n" "i < length tbl" "tbl ! i \<noteq> 0" using Suc.hyps(2) Suc.prems by auto
  ultimately show ?case by (simp add: first_free.simps [of tbl i n] rd_in del: rd_eq_Done andthen_eq_Done)
qed

text \<open>Freeing path parts touches nothing but the heap and the parts.\<close>

lemma kfree_frame: "kfree m a = Done m' \<Longrightarrow> \<exists>hp bs. m' = m\<lparr>kernel_heap := hp, bufs := bs\<rparr>"
  by (auto simp: kfree_def)

lemma pathparser_free_loop_frame:
  "pathparser_free_loop n m p = Done m' \<Longrightarrow>
    \<exists>hp bs ps. m' = m\<lparr>kernel_heap := hp, bufs := bs, path_parts := ps\<rparr>"
proof (induction n arbitrary: m p)
  case 0
  then have "m' = m\<lparr>kernel_heap := kernel_heap m, bufs := bufs m, path_parts := path_parts m\<rparr>"
    by (simp add: pathparser_free_loop.simps [of 0] split: if_splits)
  then show ?case by blast
next
  case (Suc n)
  show ?case
  proof (cases "p = 0")
    case True
    then have "m' = m\<lparr>kernel_heap := kernel_heap m, bufs := bufs m, path_parts := path_parts m\<rparr>"
      using Suc.prems by (simp add: pathparser_free_loop.simps [of "Suc n"])
    then show ?thesis by blast
  next
    case False
    from Suc.prems False obtain pt m1 m2 where
      1: "path_parts m p = Some pt" "kfree m (part pt) = Done m1" "kfree m1 p = Done m2"
      "pathparser_free_loop n (m2\<lparr>path_parts := (path_parts m2)(p := None)\<rparr>) (next_part pt) = Done m'"
      by (auto simp: pathparser_free_loop.simps [of "Suc n"])
    from kfree_frame [OF 1(2)] kfree_frame [OF 1(3)] Suc.IH [OF 1(4)] obtain hp bs ps where
      "m' = m\<lparr>kernel_heap := hp, bufs := bs, path_parts := ps\<rparr>" by auto
    then show ?thesis by blast
  qed
qed

lemma pathparser_free_frame:
  assumes "pathparser_free m root = Done m'"
  shows "\<exists>hp bs rs ps. m' = m\<lparr>kernel_heap := hp, bufs := bs, path_roots := rs, path_parts := ps\<rparr>"
proof -
  from assms obtain r :: path_root and m1 m2 where 1: "pathparser_free_loop free_fuel m (first r) = Done m1"
    "kfree m1 root = Done m2" "m2\<lparr>path_roots := (path_roots m2)(root := None)\<rparr> = m'"
    by (simp add: pathparser_free_def) blast
  obtain hp bs ps where 2: "m1 = m\<lparr>kernel_heap := hp, bufs := bs, path_parts := ps\<rparr>"
    using pathparser_free_loop_frame [OF 1(1)] by blast
  obtain hp' bs' where 3: "m2 = m1\<lparr>kernel_heap := hp', bufs := bs'\<rparr>" using kfree_frame [OF 1(2)] by blast
  have "m' = m\<lparr>kernel_heap := hp', bufs := bs', path_roots := (path_roots m)(root := None), path_parts := ps\<rparr>"
    using 1(3) [symmetric] by (simp add: 2 3)
  then show ?thesis by blast
qed

section \<open>Properties\<close>

text \<open>
  C33. A new descriptor takes the first free slot \<open>i\<close> and is number \<open>i + 1\<close>; \<open>file_get_descriptor\<close> finds it
  again under this number, and releasing it restores the table and the heap. But the bound of the lookup is
  one too low: the descriptor 512, which the last slot yields, is never found, so that the file can be
  neither read nor closed.
\<close>

theorem file_descriptor_roundtrip:
  assumes "kmem_ok m" and "length (file_descriptors m) = 512" and "i < 512" and "file_descriptors m ! i = 0"
    and "\<forall>j < i. file_descriptors m ! j \<noteq> 0" and "kzalloc m 16 = Done (desc, m1)" and "desc \<noteq> 0"
  shows "\<exists>m' m''. file_new_descriptor m = Done (0, desc, m') \<and>
    fdescs m' desc = Some \<lparr>fd_index = int i + 1, fd_filesystem = 0, fd_private = 0, fd_disk = 0\<rparr> \<and>
    file_get_descriptor m' (int i + 1) = Done (if i = 511 then 0 else desc) \<and>
    file_free_descriptor m' desc = Done m'' \<and> file_descriptors m'' = file_descriptors m \<and>
    kernel_heap m'' = kernel_heap m"
proof -
  have "unat (16 :: u32) = 16" by simp
  with kzalloc_alloc [OF assms(1) _ _ assms(6)] assms(7) obtain hp where
    hp: "m1 = m\<lparr>kernel_heap := hp, bufs := (bufs m)(desc \<mapsto> replicate 16 0)\<rparr>" "kfree m1 desc = Done m" by auto
  let ?ds = "\<lparr>fd_index = int i + 1, fd_filesystem = 0, fd_private = 0, fd_disk = 0\<rparr>"
  let ?m' = "m1\<lparr>bufs := (bufs m1)(desc := None), file_descriptors := (file_descriptors m1)[i := desc],
    fdescs := (fdescs m1)(desc \<mapsto> ?ds)\<rparr>"
  have ff: "first_free (file_descriptors m) 0 512 = Done (Some i)"
    by (rule first_free_found) (use assms in auto)
  have new: "file_new_descriptor m = Done (0, desc, ?m')"
    using ff assms(2,3,6,7) hp(1)
    by (simp add: file_new_descriptor_def PANDORA_MAX_FILE_DESCRIPTORS_def wr_in del: andthen_eq_Done wr_eq_Done)
  have get: "file_get_descriptor ?m' (int i + 1) = Done (if i = 511 then 0 else desc)"
    using assms(2,3) hp(1) by (auto simp: file_get_descriptor_def PANDORA_MAX_FILE_DESCRIPTORS_def rd_def nat_add_distrib)
  have "heap_free hp desc = Done (kernel_heap m)"
    using hp by (auto simp: kfree_def dest: arg_cong [of _ _ kernel_heap])
  then have "\<exists>m''. file_free_descriptor ?m' desc = Done m'' \<and> file_descriptors m'' = file_descriptors m \<and>
      kernel_heap m'' = kernel_heap m"
    using assms(2-4) hp(1)
    by (simp add: file_free_descriptor_def deref_Some wr_in kfree_def list_update_same_conv [THEN iffD2]
        del: andthen_eq_Done wr_eq_Done)
  moreover have "fdescs ?m' desc = Some ?ds" by simp
  ultimately show ?thesis using new get by metis
qed

theorem file_descriptor_roundtrip_witness:
  "\<exists>desc m' m''. file_new_descriptor sim_kernel = Done (0, desc, m') \<and> desc \<noteq> 0 \<and>
    file_get_descriptor m' 1 = Done desc \<and> file_free_descriptor m' desc = Done m'' \<and> kernel_heap m'' = boot_heap"
proof -
  have ok: "kmem_ok sim_kernel" "below sim_kernel 0" "heap_blocks (kernel_heap sim_kernel) = 25600"
    by (simp_all add: kmem_ok_def below_def sim_kernel_def boot_heap_ok boot_heap_simps)
  obtain desc m1 where z: "kzalloc sim_kernel 16 = Done (desc, m1)" "desc \<noteq> 0"
    using kzalloc_below [OF ok(1,2), of 16] ok(3) by (auto simp: blocks_needed_def)
  have "length (file_descriptors sim_kernel) = 512" "file_descriptors sim_kernel ! 0 = 0" "kernel_heap sim_kernel = boot_heap"
    by (simp_all add: sim_kernel_def)
  with file_descriptor_roundtrip [OF ok(1) _ _ _ _ z, of 0] z(2) show ?thesis by auto
qed

text \<open>
  The way of a failed open through the label \<^verbatim>\<open>out\<close>: the path is released, then the error code is closed.
\<close>

lemma fopen_open_failed:
  assumes "pathparser_parse m fname 0 = Done (root, m1)" and "root \<noteq> 0" and "path_roots m1 root = Some r" and "first r \<noteq> 0"
    and "drive_no r = 0" and "disk_at m1 \<noteq> 0" and "filesystem (the_disk m1) = fat16_fs_at m1" and "fat16_fs_at m1 \<noteq> 0"
    and "file_get_mode_by_string mode_str = Done mode" and "mode \<noteq> FILE_MODE_INVALID"
    and "fat16_open P m1 (disk_at m1) (first r) mode = Done (priv, m2)" and "ISERR priv"
    and "pathparser_free m2 root = Done m3" and "disk_at m3 = disk_at m1" and "filesystem (the_disk m3) = fat16_fs_at m3"
    and "fat16_fs_at m3 \<noteq> 0" and "fat16_close m3 priv = Fault"
  shows "fopen P m fname mode_str = Fault"
proof -
  have neg: "ERROR_I priv < 0" "priv \<noteq> 0" using assms(12) by (auto simp: ERROR_I_def ISERR_def)
  have call: "fs_call m1 (filesystem (the_disk m1)) q = q" for q :: "(addr \<times> ('a, 'b) filemem_scheme) run"
    using assms(7,8) by (simp add: fs_call_def)
  have "fopen P m fname mode_str = fopen_out m2 (ERROR_I priv) root (disk_at m1) priv 0"
    unfolding fopen_def assms(1) andthen.simps prod.case if_not_P [OF assms(2)] deref_Some [of "path_roots m1", OF assms(3)]
      if_not_P [OF assms(4)] Let_def assms(5) disk_get_def
    using assms(6,7,8,9,10,11,12) call by (simp add: disk_object_def del: andthen_eq_Done)
  also have "\<dots> = Fault"
    using neg assms(2,6,13-17) by (simp add: fopen_out_def disk_object_def fs_call_def del: andthen_eq_Done)
  finally show ?thesis .
qed

text \<open>
  C40. An open that fails in the file system faults. Take a path that parses, on the mounted disk 0, and an
  open mode that is valid, and let \<open>fat16_open\<close> return an error code instead of a descriptor and leave
  memory as it was, as it does for a file to be written (\<open>- ERDONLY\<close>) and for a file that does not exist
  (see C29). Then \<open>fopen\<close> releases the parsed path, which returns, and passes the error code as a pointer to
  \<open>fat16_close\<close>, which follows it. Unless a descriptor lies at that address, such as 0xFFFFFFFF, this is a
  \<open>Fault\<close>, where the caller was to get the 0 that reports the failure.
\<close>

theorem fopen_failure_faults:
  assumes "fs_ok m" and "drive_path fname 0x30 rest"
    and "fs_room m b (2 * length (path_components rest) + 2)" and "path_components rest \<noteq> []"
    and "disk_at m \<noteq> 0" and "filesystem (the_disk m) = fat16_fs_at m" and "fat16_fs_at m \<noteq> 0"
    and "file_get_mode_by_string mode_str = Done mode" and "mode \<noteq> FILE_MODE_INVALID"
    and "pathparser_parse m fname 0 = Done (root, m1)" and "path_roots m1 root = Some r"
    and "fat16_open P m1 (disk_at m) (first r) mode = Done (priv, m1)" and "ISERR priv" and "fat_descriptors m priv = None"
  shows "pathparser_free m1 root = Done m \<and> fat16_close m priv = Fault \<and> fopen P m fname mode_str = Fault"
proof -
  from pathparser_parse_eq [OF assms(1-4), of 0] assms(10) obtain ns hp where p:
    "m1 = parsed m hp root (tonumericdigit 0x30) ns" "map (\<lambda>(a, q, x). x) ns = path_components rest"
    "new_pages m hp (root # objects ns) (b + 2 * length (path_components rest) + 1)" by auto
  have "ns \<noteq> []" using p(2) assms(4) by auto
  then have nz: "root \<noteq> 0" "head_addr ns \<noteq> 0" using new_pages_nonzero [OF p(3)] by (cases ns; auto)+
  have f: "disk_at m1 = disk_at m" "the_disk m1 = the_disk m" "fat16_fs_at m1 = fat16_fs_at m"
    "r = \<lparr>drive_no = 0, first = head_addr ns\<rparr>"
    using assms(11) by (simp_all add: p(1) parsed_def tonumericdigit_def)
  have free: "pathparser_free m1 root = Done m" by (rule pathparser_free_parsed [OF assms(1-4,10)])
  have close: "fat16_close m priv = Fault"
    using assms(14) by (simp add: fat16_close_def fat16_free_file_descriptor_def deref_None)
  have "fopen P m fname mode_str = Fault"
    by (rule fopen_open_failed [OF assms(10) nz(1) assms(11) _ _ _ _ _ assms(8,9) _ assms(13) free _ assms(6,7) close])
      (use assms(5-7,12) nz(2) f in simp_all)
  with free close show ?thesis by blast
qed

text \<open>A kernel whose disk is mounted.\<close>

definition sim_files :: "sim kernel" where
  "sim_files = sim_kernel\<lparr>the_disk := \<lparr>disk_type = 0, sector_size = 512, disk_id = 0, filesystem = 0x210000, fs_private = 0\<rparr>\<rparr>"

theorem fopen_failure_faults_witness:
  "fopen (sim_ports sim_image) sim_files sample_path [0x77, 0] = Fault"
proof -
  have ok: "fs_ok sim_files" "fs_room sim_files 0 (2 * length (path_components [0x61, 0x62, slash, 0x63, 0]) + 2)"
    by (simp_all add: fs_ok_def kmem_ok_def fs_room_def below_def sim_files_def sim_kernel_def boot_heap_ok boot_heap_simps
        sample_path(2))
  have ne: "path_components [0x61, 0x62, slash, 0x63, 0] \<noteq> []" by (simp add: sample_path(2))
  from pathparser_parse_eq [OF ok(1) sample_path(1) ok(2) ne, of 0] obtain root ns hp where p:
    "pathparser_parse sim_files sample_path 0 = Done (root, parsed sim_files hp root (tonumericdigit 0x30) ns)" by blast
  have r: "path_roots (parsed sim_files hp root (tonumericdigit 0x30) ns) root =
    Some \<lparr>drive_no = tonumericdigit 0x30, first = head_addr ns\<rparr>" by (simp add: parsed_def)
  have mode: "file_get_mode_by_string [0x77, 0] = Done FILE_MODE_WRITE"
    by (simp add: file_get_mode_by_string_def)
  have op: "fat16_open P n d pth FILE_MODE_WRITE = Done (ERROR (- ERDONLY), n)" for P d pth and n :: "sim kernel"
    by (simp add: fat16_open_def conf)
  have "pathparser_free (parsed sim_files hp root (tonumericdigit 0x30) ns) root = Done sim_files \<and>
      fat16_close sim_files (ERROR (- ERDONLY)) = Fault \<and>
      fopen (sim_ports sim_image) sim_files sample_path [0x77, 0] = Fault"
    by (rule fopen_failure_faults [OF ok(1) sample_path(1) ok(2) ne _ _ _ mode _ p r op])
      (simp_all add: sim_files_def sim_kernel_def conf ISERR_def ERROR_def)
  then show ?thesis by blast
qed

end
