(* ===== verification/Fat16_Read.thy ===== *)
theory Fat16_Read
  imports Fat16
begin

text \<open>
  What the FAT16 driver reads. A file is described by the file allocation table on the disk
  (\<open>fat_entry\<close>) and the position of the clusters (\<open>cluster_pos\<close>): \<open>file_bytes\<close> is its contents, read
  cluster by cluster along the chain. The lemmas follow a read through the two streams it uses
  and show that it yields these bytes when it starts at a cluster boundary, and what it yields when
  it does not.
\<close>

section \<open>Streams\<close>

definition stream_on :: "('io, 'a) dmem_scheme \<Rightarrow> addr \<Rightarrow> bool" where
  "stream_on m s \<longleftrightarrow> (\<exists>p. streams m s = Some \<lparr>pos = p, stream_disk = disk_at m\<rparr>)"

text \<open>\<open>m'\<close> is \<open>m\<close> after reads through the streams in \<open>S\<close>, all of which are streams of the disk.\<close>

definition reads_only :: "('io, 'a) dmem_scheme \<Rightarrow> addr set \<Rightarrow> ('io, 'a) dmem_scheme \<Rightarrow> bool" where
  "reads_only m S m' \<longleftrightarrow> (\<exists>io str. m' = m\<lparr>disk_io := io, streams := str\<rparr> \<and>
     (\<forall>s. s \<notin> S \<longrightarrow> str s = streams m s) \<and> (\<forall>s \<in> S. \<exists>p. str s = Some \<lparr>pos = p, stream_disk = disk_at m\<rparr>))"

lemma reads_only_refl: "\<forall>s \<in> S. stream_on m s \<Longrightarrow> reads_only m S m"
  unfolding reads_only_def stream_on_def by (intro exI [of _ "disk_io m"] exI [of _ "streams m"]) simp

lemma reads_only_trans:
  assumes "reads_only m S m1" and "reads_only m1 T m2" and "S \<union> T \<subseteq> U" and "\<forall>s \<in> U. stream_on m s"
  shows "reads_only m U m2"
proof -
  obtain io1 str1 where 1: "m1 = m\<lparr>disk_io := io1, streams := str1\<rparr>" "\<forall>s. s \<notin> S \<longrightarrow> str1 s = streams m s"
    "\<forall>s \<in> S. \<exists>p. str1 s = Some \<lparr>pos = p, stream_disk = disk_at m\<rparr>"
    using assms(1) unfolding reads_only_def by blast
  obtain io2 str2 where 2: "m2 = m1\<lparr>disk_io := io2, streams := str2\<rparr>" "\<forall>s. s \<notin> T \<longrightarrow> str2 s = streams m1 s"
    "\<forall>s \<in> T. \<exists>p. str2 s = Some \<lparr>pos = p, stream_disk = disk_at m1\<rparr>"
    using assms(2) unfolding reads_only_def by blast
  have "m2 = m\<lparr>disk_io := io2, streams := str2\<rparr>" using 1(1) 2(1) by simp
  moreover have "str2 s = streams m s" if "s \<notin> U" for s
  proof -
    have "s \<notin> S" "s \<notin> T" using that assms(3) by auto
    then show ?thesis using 1(1,2) 2(2) by simp
  qed
  moreover have "\<exists>p. str2 s = Some \<lparr>pos = p, stream_disk = disk_at m\<rparr>" if "s \<in> U" for s
    using that 1 2 assms(4) unfolding stream_on_def by (cases "s \<in> T"; cases "s \<in> S") auto
  ultimately show ?thesis unfolding reads_only_def by blast
qed

lemma reads_only_stream_on: "reads_only m S m' \<Longrightarrow> stream_on m s \<Longrightarrow> stream_on m' s"
  unfolding reads_only_def stream_on_def by (cases "s \<in> S") auto

lemma reads_only_fatmem:
  fixes m m' :: "('io, 'a) fatmem_scheme"
  assumes "reads_only m S m'"
  shows "the_disk m' = the_disk m" and "disk_at m' = disk_at m" and "fat_privates m' = fat_privates m"
    and "fat_descriptors m' = fat_descriptors m" and "fat_items m' = fat_items m" and "bufs m' = bufs m"
    and "fat_directories m' = fat_directories m"
  using assms unfolding reads_only_def by auto

lemma seek_read:
  assumes "ata_drive P img idle" and "idle (disk_io m)" and "stream_on m s" and "p + n < 2 ^ 31"
    and "k + n \<le> length out"
  shows "\<exists>m1 m2. diskstreamer_seek m s (int p) = Done (0, m1) \<and>
    diskstreamer_read_at P m1 s out k (int n) = Done (0, take k out @ disk_bytes img p n @ drop (k + n) out, m2) \<and>
    reads_only m {s} m2 \<and> idle (disk_io m2)"
proof -
  obtain q where q: "streams m s = Some \<lparr>pos = q, stream_disk = disk_at m\<rparr>"
    using assms(3) unfolding stream_on_def by blast
  define m1 where "m1 = m\<lparr>streams := (streams m)(s \<mapsto> \<lparr>pos = int p, stream_disk = disk_at m\<rparr>)\<rparr>"
  have seek: "diskstreamer_seek m s (int p) = Done (0, m1)"
    using assms(4) unfolding diskstreamer_seek_def m1_def by (simp add: deref_Some [of "streams m", OF q] del: deref_eq_Done)
  have "idle (disk_io m1)" "stream_at m1 s p" using assms(2) unfolding m1_def stream_at_def by simp_all
  from diskstreamer_read_at_eq [OF assms(1) this assms(4,5)] obtain io where
    rd: "diskstreamer_read_at P m1 s out k (int n) =
      Done (0, take k out @ disk_bytes img p n @ drop (k + n) out, moved m1 s (p + n) io)" and "idle io" by blast
  moreover have "reads_only m {s} (moved m1 s (p + n) io)"
    unfolding reads_only_def moved_def m1_def
    by (intro exI [of _ io] exI [of _ "(streams m)(s \<mapsto> \<lparr>pos = int (p + n), stream_disk = disk_at m\<rparr>)"]) simp
  moreover have "disk_io (moved m1 s (p + n) io) = io" by (simp add: moved_def)
  ultimately show ?thesis using seek by metis
qed

section \<open>Files on the disk\<close>

text \<open>The entry of a cluster in the file allocation table, which starts after the reserved sectors.\<close>

definition fat_base :: "fat_private \<Rightarrow> nat" where
  "fat_base f = unat (reserved_sectors (primary_header (header f))) * 512"

definition fat_entry :: "(int \<Rightarrow> u8 list) \<Rightarrow> fat_private \<Rightarrow> nat \<Rightarrow> nat" where
  "fat_entry img f c = unat (le16 (disk_bytes img (fat_base f + 2 * c) 2) 0)"

text \<open>The cluster \<open>n\<close> steps down the chain.\<close>

fun chain :: "(nat \<Rightarrow> nat) \<Rightarrow> nat \<Rightarrow> nat \<Rightarrow> nat" where
  "chain F c 0 = c"
| "chain F c (Suc n) = chain F (F c) n"

text \<open>Entries at which the driver gives up.\<close>

definition stops :: "nat \<Rightarrow> bool" where
  "stops e \<longleftrightarrow> e \<in> {0xFFF8, 0xFFFF, 0xFF7, 0xFF0, 0xFF6, 0}"

definition cluster_bytes :: "fat_private \<Rightarrow> nat" where
  "cluster_bytes f = unat (sectors_per_cluster (primary_header (header f))) * 512"

text \<open>The first byte of a cluster; data clusters are numbered from 2.\<close>

definition cluster_pos :: "fat_private \<Rightarrow> nat \<Rightarrow> nat" where
  "cluster_pos f k = nat (ending_sector_pos (root_directory f)) * 512 + (k - 2) * cluster_bytes f"

definition file_byte :: "(int \<Rightarrow> u8 list) \<Rightarrow> fat_private \<Rightarrow> nat \<Rightarrow> nat \<Rightarrow> u8" where
  "file_byte img f c j =
     disk_byte img (cluster_pos f (chain (fat_entry img f) c (j div cluster_bytes f)) + j mod cluster_bytes f)"

definition file_bytes :: "(int \<Rightarrow> u8 list) \<Rightarrow> fat_private \<Rightarrow> nat \<Rightarrow> nat \<Rightarrow> nat \<Rightarrow> u8 list" where
  "file_bytes img f c j n = map (file_byte img f c) [j..<j + n]"

text \<open>
  The chain from cluster \<open>c\<close> has \<open>n\<close> clusters: the entries in between are not among those the driver
  stops at, and every cluster lies on the part of the disk the driver can address with an \<^verbatim>\<open>int\<close>.
\<close>

definition chain_ok :: "(int \<Rightarrow> u8 list) \<Rightarrow> fat_private \<Rightarrow> nat \<Rightarrow> nat \<Rightarrow> bool" where
  "chain_ok img f c n \<longleftrightarrow> (\<forall>i < n. 2 \<le> chain (fat_entry img f) c i \<and> chain (fat_entry img f) c i < 0x10000 \<and>
     cluster_pos f (chain (fat_entry img f) c i) + 2 * cluster_bytes f < 2 ^ 31 \<and>
     (0 < i \<longrightarrow> \<not> stops (chain (fat_entry img f) c i)))"

text \<open>The disk \<open>d\<close> is mounted with the private data \<open>f\<close>.\<close>

definition mounted :: "('io, 'a) fatmem_scheme \<Rightarrow> addr \<Rightarrow> fat_private \<Rightarrow> bool" where
  "mounted m d f \<longleftrightarrow> d = disk_at m \<and> sector_size (the_disk m) = 512 \<and>
     fat_privates m (fs_private (the_disk m)) = Some f \<and>
     0 \<le> ending_sector_pos (root_directory f) \<and> 0 < cluster_bytes f \<and>
     fat_read_stream f \<noteq> 0 \<and> stream_on m (fat_read_stream f) \<and> stream_on m (cluster_read_stream f)"

lemma mounted_object: "mounted m d f \<Longrightarrow> disk_object m d = Done (the_disk m) \<and> private_of m d = Done f"
  by (simp add: mounted_def disk_object_def private_of_def)

lemma mounted_reads:
  "mounted m d f \<Longrightarrow> reads_only m S m' \<Longrightarrow> mounted m' d f"
  using reads_only_stream_on [of m S m'] reads_only_fatmem [of m S m'] unfolding mounted_def by auto

lemma chain_Suc: "chain F c (Suc n) = F (chain F c n)"
  by (induction n arbitrary: c) simp_all

lemma fat_entry_less: "fat_entry img f c < 0x10000"
  using unsigned_less [of "le16 (disk_bytes img (fat_base f + 2 * c) 2) 0", where ?'a = nat]
  by (simp add: fat_entry_def)

lemma fat16_get_fat_entry_eq:
  assumes "ata_drive P img idle" and "idle (disk_io m)" and "mounted m d f" and "c < 0x10000"
  shows "\<exists>m'. fat16_get_fat_entry P m d (int c) = Done (int (fat_entry img f c), m') \<and>
    reads_only m {fat_read_stream f} m' \<and> idle (disk_io m')"
proof -
  let ?r = "reserved_sectors (primary_header (header f))"
  have r: "unat ?r < 0x10000" using unsigned_less [of ?r, where ?'a = nat] by simp
  have s: "stream_on m (fat_read_stream f)" "fat_read_stream f \<noteq> 0" "sector_size (the_disk m) = 512"
    using assms(3) by (simp_all add: mounted_def)
  have b: "fat_base f + 2 * c + 2 < 2 ^ 31" using r assms(4) by (simp add: fat_base_def)
  have u: "unat (ucast ?r * 0x200 :: u32) = fat_base f"
    using r by (subst unat_mult_u32) (simp_all add: fat_base_def unsigned_ucast_eq take_bit_nat_eq_self)
  have "word_of_int (int c * 2) = (of_nat (2 * c) :: u32)" by (simp add: mult.commute)
  then have w: "unat (ucast ?r * 0x200 + word_of_int (int c * 2) :: u32) = fat_base f + 2 * c"
    using u b assms(4) by (subst unat_add_u32) (simp_all add: unat_of_nat_u32 del: of_nat_mult)
  then have p: "sint (ucast ?r * 0x200 + word_of_int (int c * 2) :: u32) = int (fat_base f + 2 * c)"
    using b by (subst sint_u32_small) simp_all
  have "fat_base f + 2 * c + 2 < 2 ^ 31" "0 + 2 \<le> length [0, 0 :: u8]" using b by simp_all
  from seek_read [OF assms(1,2) s(1) this] obtain m1 m2 where
    1: "diskstreamer_seek m (fat_read_stream f) (int (fat_base f + 2 * c)) = Done (0, m1)"
    "diskstreamer_read_at P m1 (fat_read_stream f) [0, 0] 0 (int 2) =
      Done (0, disk_bytes img (fat_base f + 2 * c) 2, m2)"
    and 2: "reads_only m {fat_read_stream f} m2" "idle (disk_io m2)"
    by auto
  have "fat16_get_fat_entry P m d (int c) = Done (int (fat_entry img f c), m2)"
    using 1 mounted_object [OF assms(3)] s(2,3) p
    by (simp add: fat16_get_fat_entry_def fat16_get_first_fat_sector_def PANDORA_FAT16_FAT_ENTRY_SIZE_def
        diskstreamer_read_def fat_entry_def Let_def del: andthen_eq_Done)
  with 2 show ?thesis by blast
qed

lemma int_eq_numeral: "int n = numeral k \<longleftrightarrow> n = numeral k"
  by (metis of_nat_eq_iff of_nat_numeral)

lemma fat16_follow_chain_eq:
  assumes "ata_drive P img idle"
  shows "\<lbrakk>idle (disk_io m); mounted m d f; c < 0x10000; \<forall>i. 0 < i \<and> i \<le> n \<longrightarrow> \<not> stops (chain (fat_entry img f) c i)\<rbrakk> \<Longrightarrow>
    \<exists>m'. fat16_follow_chain P m d (int c) n = Done (int (chain (fat_entry img f) c n), m') \<and>
      reads_only m {fat_read_stream f} m' \<and> idle (disk_io m')"
proof (induction n arbitrary: m c)
  case 0
  then show ?case by (auto simp: mounted_def intro: reads_only_refl)
next
  case (Suc n)
  let ?e = "fat_entry img f c"
  from fat16_get_fat_entry_eq [OF assms Suc.prems(1-3)] obtain m1 where
    1: "fat16_get_fat_entry P m d (int c) = Done (int ?e, m1)" "reads_only m {fat_read_stream f} m1" "idle (disk_io m1)"
    by blast
  have "\<not> stops ?e" using Suc.prems(4) [rule_format, of 1] by simp
  then have e: "int ?e \<noteq> 0xFFF8" "int ?e \<noteq> 0xFFFF" "int ?e \<noteq> 0xFF7" "int ?e \<noteq> 0xFF0" "int ?e \<noteq> 0xFF6" "int ?e \<noteq> 0"
    by (auto simp: stops_def int_eq_numeral)
  have step: "fat16_follow_chain P m d (int c) (Suc n) = fat16_follow_chain P m1 d (int ?e) n"
    using e by (simp add: 1(1) PANDORA_FAT16_BAD_SECTOR_def)
  have "\<forall>i. 0 < i \<and> i \<le> n \<longrightarrow> \<not> stops (chain (fat_entry img f) ?e i)"
    using Suc.prems(4) by (metis Suc_le_mono chain.simps(2) zero_less_Suc)
  from Suc.IH [OF 1(3) mounted_reads [OF Suc.prems(2) 1(2)] fat_entry_less this] obtain m' where
    2: "fat16_follow_chain P m1 d (int ?e) n = Done (int (chain (fat_entry img f) ?e n), m')"
    "reads_only m1 {fat_read_stream f} m'" "idle (disk_io m')" by blast
  have "reads_only m {fat_read_stream f} m'"
    using reads_only_trans [OF 1(2) 2(2)] Suc.prems(2) by (auto simp: mounted_def)
  then show ?case unfolding step using 2 by auto
qed

section \<open>Reading along the chain\<close>

lemma chain_okD:
  assumes "chain_ok img f c n" and "i < n"
  shows "2 \<le> chain (fat_entry img f) c i" and "chain (fat_entry img f) c i < 0x10000"
    and "cluster_pos f (chain (fat_entry img f) c i) + 2 * cluster_bytes f < 2 ^ 31"
    and "0 < i \<Longrightarrow> \<not> stops (chain (fat_entry img f) c i)"
  using assms unfolding chain_ok_def by blast+

lemma signed_div_mod_of_nat:
  "int a sdiv int b = int (a div b)" "0 < b \<Longrightarrow> int a smod int b = int (a mod b)"
  by (cases "a = 0"; cases "b = 0"; simp add: signed_divide_int_def smod_mod_positive sgn_if zdiv_int zmod_int)+

text \<open>The position that is computed for byte \<open>r\<close> of cluster \<open>k\<close>.\<close>

lemma cluster_start:
  assumes "mounted m d f" and "2 \<le> k"
  shows "fat16_cluster_to_sector f (int k) * sector_size (the_disk m) + int r = int (cluster_pos f k + r)"
proof -
  obtain j where j: "k = j + 2" using assms(2) by (metis add.commute le_Suc_ex)
  have "0 \<le> ending_sector_pos (root_directory f)" "sector_size (the_disk m) = 512"
    using assms(1) by (simp_all add: mounted_def)
  then show ?thesis
    unfolding fat16_cluster_to_sector_def cluster_pos_def cluster_bytes_def j by (simp add: algebra_simps)
qed

lemma get_cluster_for_offset_eq:
  assumes "ata_drive P img idle" and "idle (disk_io m)" and "mounted m d f" and "chain_ok img f c N" and "q < N"
    and "r < cluster_bytes f"
  shows "\<exists>m'. fat16_get_cluster_for_offset P m d (int c) (int (cluster_bytes f * q + r)) =
      Done (int (chain (fat_entry img f) c q), m') \<and> reads_only m {fat_read_stream f} m' \<and> idle (disk_io m')"
proof -
  let ?s = "sectors_per_cluster (primary_header (header f))"
  have sz: "uint ?s * sector_size (the_disk m) = int (cluster_bytes f)"
    using assms(3) by (simp add: mounted_def cluster_bytes_def)
  have pos: "0 < cluster_bytes f" using assms(3) by (simp add: mounted_def)
  have "(cluster_bytes f * q + r) div cluster_bytes f = q" using assms(6) pos by simp
  then have q: "nat (int (cluster_bytes f * q + r) sdiv int (cluster_bytes f)) = q"
    unfolding signed_div_mod_of_nat by simp
  have "c < 0x10000" using chain_okD(2) [OF assms(4), of 0] assms(5) by simp
  moreover have "\<forall>i. 0 < i \<and> i \<le> q \<longrightarrow> \<not> stops (chain (fat_entry img f) c i)"
    using chain_okD(4) [OF assms(4)] assms(5) by (meson order.strict_trans1)
  ultimately obtain m' where
    "fat16_follow_chain P m d (int c) q = Done (int (chain (fat_entry img f) c q), m')"
    "reads_only m {fat_read_stream f} m'" "idle (disk_io m')"
    using fat16_follow_chain_eq [OF assms(1-3)] by blast
  moreover have "uint ?s \<noteq> 0" "sector_size (the_disk m) \<noteq> 0" using sz pos by auto
  ultimately show ?thesis
    using mounted_object [OF assms(3)] pos
    by (simp add: fat16_get_cluster_for_offset_def sz q Let_def del: andthen_eq_Done of_nat_add of_nat_mult)
qed

lemma read_internal_step:
  assumes "ata_drive P img idle" and "idle (disk_io m)" and "mounted m d f" and "chain_ok img f c N" and "q < N"
    and "r < cluster_bytes f" and "k + min n (cluster_bytes f) \<le> length out"
  defines "p \<equiv> cluster_pos f (chain (fat_entry img f) c q) + r"
  shows "\<exists>m'. fat16_read_internal_from_stream P m d (cluster_read_stream f) (int c) (int (cluster_bytes f * q + r)) (int n) out k =
      (if n \<le> cluster_bytes f then Done (0, take k out @ disk_bytes img p n @ drop (k + n) out, m')
       else fat16_read_internal_from_stream P m' d (cluster_read_stream f) (int c) (int (cluster_bytes f * Suc q + r))
         (int (n - cluster_bytes f)) (take k out @ disk_bytes img p (cluster_bytes f) @ drop (k + cluster_bytes f) out)
         (k + cluster_bytes f)) \<and>
    reads_only m {fat_read_stream f, cluster_read_stream f} m' \<and> idle (disk_io m')"
proof -
  let ?s = "sectors_per_cluster (primary_header (header f))" and ?cs = "cluster_bytes f"
  let ?c = "chain (fat_entry img f) c q" and ?st = "cluster_read_stream f"
  define t where "t = min n ?cs"
  have sz: "uint ?s * sector_size (the_disk m) = int ?cs"
    using assms(3) by (simp add: mounted_def cluster_bytes_def)
  have cpos: "0 < ?cs" using assms(3) by (simp add: mounted_def)
  from get_cluster_for_offset_eq [OF assms(1-6)] obtain m1 where
    1: "fat16_get_cluster_for_offset P m d (int c) (int (?cs * q + r)) = Done (int ?c, m1)"
      "reads_only m {fat_read_stream f} m1" "idle (disk_io m1)" by blast
  have m1: "mounted m1 d f" by (rule mounted_reads [OF assms(3) 1(2)])
  then have st: "stream_on m1 ?st" by (simp add: mounted_def)
  have "p + t < 2 ^ 31" using chain_okD(3) [OF assms(4,5)] assms(6) unfolding p_def t_def by simp
  from seek_read [OF assms(1) 1(3) st this, of k out] assms(7) obtain m2 m3 where
    2: "diskstreamer_seek m1 ?st (int p) = Done (0, m2)"
      "diskstreamer_read_at P m2 ?st out k (int t) = Done (0, take k out @ disk_bytes img p t @ drop (k + t) out, m3)"
      "reads_only m1 {?st} m3" "idle (disk_io m3)" unfolding t_def by blast
  have "2 \<le> ?c" using chain_okD(1) [OF assms(4,5)] .
  from cluster_start [OF assms(3) this, of r]
  have ps: "fat16_cluster_to_sector f (int ?c) * sector_size (the_disk m) + int r = int p" unfolding p_def .
  have rm: "int (?cs * q + r) smod int ?cs = int r"
    using assms(6) cpos by (simp add: signed_div_mod_of_nat del: of_nat_add of_nat_mult)
  have tt: "(if int n > int ?cs then int ?cs else int n) = int t" unfolding t_def by simp
  have nx: "int (?cs * q + r) + int ?cs = int (?cs * Suc q + r)" by simp
  have mo: "disk_object m d = Done (the_disk m)" "private_of m d = Done f"
    using mounted_object [OF assms(3)] by simp_all
  have neg: "(int ?c < 0) = False" by simp
  have run: "fat16_read_internal_from_stream P m d ?st (int c) (int (?cs * q + r)) (int n) out k =
      (if int n - int t > 0 then if int t \<le> 0 then Fault
         else fat16_read_internal_from_stream P m3 d ?st (int c) (int (?cs * q + r) + int t) (int n - int t)
           (take k out @ disk_bytes img p t @ drop (k + t) out) (k + nat (int t))
       else Done (0, take k out @ disk_bytes img p t @ drop (k + t) out, m3))"
    unfolding fat16_read_internal_from_stream.simps [of P m d]
    by (simp only: mo andthen.simps Let_def sz 1(1) prod.case neg if_False rm ps tt 2(1,2) PANDORAOS_ALL_OK_def simp_thms)
  have "reads_only m {fat_read_stream f, ?st} m3"
    using reads_only_trans [OF 1(2) 2(3)] assms(3) by (auto simp: mounted_def)
  moreover have "fat16_read_internal_from_stream P m d ?st (int c) (int (?cs * q + r)) (int n) out k =
      (if n \<le> ?cs then Done (0, take k out @ disk_bytes img p n @ drop (k + n) out, m3)
       else fat16_read_internal_from_stream P m3 d ?st (int c) (int (?cs * Suc q + r)) (int (n - ?cs))
         (take k out @ disk_bytes img p ?cs @ drop (k + ?cs) out) (k + ?cs))"
  proof (cases "n \<le> ?cs")
    case True
    then have "t = n" unfolding t_def by simp
    then show ?thesis unfolding run using True by simp
  next
    case False
    then have t: "t = ?cs" unfolding t_def by simp
    have "int n - int ?cs = int (n - ?cs)" using False by simp
    then show ?thesis unfolding run t nx using False cpos by simp
  qed
  ultimately show ?thesis using 2(4) by blast
qed

lemma file_bytes_append: "file_bytes img f c j a @ file_bytes img f c (j + a) b = file_bytes img f c j (a + b)"
  using upt_add_eq_append [of j "j + a" b] by (simp add: file_bytes_def add.assoc flip: map_append)

text \<open>The bytes of a file inside one cluster are consecutive on the disk.\<close>

lemma file_bytes_cluster:
  assumes "r + t \<le> cluster_bytes f" and "0 < cluster_bytes f"
  shows "file_bytes img f c (cluster_bytes f * q + r) t =
    disk_bytes img (cluster_pos f (chain (fat_entry img f) c q) + r) t"
proof (rule nth_equalityI)
  fix i
  assume "i < length (file_bytes img f c (cluster_bytes f * q + r) t)"
  then have i: "i < t" by (simp add: file_bytes_def)
  then have ri: "r + i < cluster_bytes f" using assms(1) by simp
  have "(cluster_bytes f * q + r + i) div cluster_bytes f = q" "(cluster_bytes f * q + r + i) mod cluster_bytes f = r + i"
    using ri by (simp_all add: add.assoc)
  then show "file_bytes img f c (cluster_bytes f * q + r) t ! i =
      disk_bytes img (cluster_pos f (chain (fat_entry img f) c q) + r) t ! i"
    using i by (simp add: file_bytes_def file_byte_def disk_bytes_def add.assoc)
qed (simp add: file_bytes_def)

lemma length_file_bytes [simp]: "length (file_bytes img f c j n) = n"
  by (simp add: file_bytes_def)

lemma read_internal_aligned:
  assumes "ata_drive P img idle" and "chain_ok img f c N"
  shows "\<lbrakk>idle (disk_io m); mounted m d f; q < N; cluster_bytes f * q + n \<le> cluster_bytes f * N; k + n \<le> length out\<rbrakk> \<Longrightarrow>
    \<exists>m'. fat16_read_internal_from_stream P m d (cluster_read_stream f) (int c) (int (cluster_bytes f * q)) (int n) out k =
      Done (0, take k out @ file_bytes img f c (cluster_bytes f * q) n @ drop (k + n) out, m') \<and>
    reads_only m {fat_read_stream f, cluster_read_stream f} m' \<and> idle (disk_io m')"
proof (induction n arbitrary: m q k out rule: less_induct)
  case (less n)
  let ?cs = "cluster_bytes f"
  have cpos: "0 < ?cs" using less.prems(2) by (simp add: mounted_def)
  have "k + min n ?cs \<le> length out" using less.prems(5) by simp
  from read_internal_step [OF assms(1) less.prems(1,2) assms(2) less.prems(3) cpos this, unfolded add_0_right] obtain m1 where
    step: "fat16_read_internal_from_stream P m d (cluster_read_stream f) (int c) (int (?cs * q)) (int n) out k =
      (if n \<le> ?cs then Done (0, take k out @ disk_bytes img (cluster_pos f (chain (fat_entry img f) c q)) n @ drop (k + n) out, m1)
       else fat16_read_internal_from_stream P m1 d (cluster_read_stream f) (int c) (int (?cs * Suc q))
         (int (n - ?cs)) (take k out @ disk_bytes img (cluster_pos f (chain (fat_entry img f) c q)) ?cs @ drop (k + ?cs) out)
         (k + ?cs))"
    and 1: "reads_only m {fat_read_stream f, cluster_read_stream f} m1" "idle (disk_io m1)"
    by blast
  have fb: "disk_bytes img (cluster_pos f (chain (fat_entry img f) c q)) t = file_bytes img f c (?cs * q) t" if "t \<le> ?cs" for t
    using file_bytes_cluster [of 0 t f img c q] that cpos by simp
  show ?case
  proof (cases "n \<le> ?cs")
    case True
    then show ?thesis using step 1 fb by auto
  next
    case False
    let ?out = "take k out @ file_bytes img f c (?cs * q) ?cs @ drop (k + ?cs) out"
    have "n - ?cs < n" using False cpos by simp
    moreover have "?cs * Suc q + (n - ?cs) \<le> ?cs * N" using less.prems(4) False by simp
    moreover have "Suc q < N"
    proof -
      have "?cs * Suc q < ?cs * N" using less.prems(4) False by simp
      then show ?thesis using mult_less_cancel1 [of ?cs "Suc q" N] by blast
    qed
    moreover have "k + ?cs + (n - ?cs) \<le> length ?out" using less.prems(5) False by simp
    ultimately obtain m2 where
      2: "fat16_read_internal_from_stream P m1 d (cluster_read_stream f) (int c) (int (?cs * Suc q)) (int (n - ?cs)) ?out (k + ?cs) =
        Done (0, take (k + ?cs) ?out @ file_bytes img f c (?cs * Suc q) (n - ?cs) @ drop (k + ?cs + (n - ?cs)) ?out, m2)"
        "reads_only m1 {fat_read_stream f, cluster_read_stream f} m2" "idle (disk_io m2)"
      using less.IH [OF _ 1(2) mounted_reads [OF less.prems(2) 1(1)]] by blast
    have a: "take (k + ?cs) ?out = take k out @ file_bytes img f c (?cs * q) ?cs"
      using less.prems(5) False by simp
    have b: "drop (k + ?cs + (n - ?cs)) ?out = drop (k + n) out"
      using less.prems(5) False cpos by (simp add: add.commute)
    have "file_bytes img f c (?cs * q) ?cs @ file_bytes img f c (?cs * Suc q) (n - ?cs) = file_bytes img f c (?cs * q) n"
      using file_bytes_append [of img f c "?cs * q" ?cs "n - ?cs"] False by (simp add: add.commute)
    then have "fat16_read_internal_from_stream P m d (cluster_read_stream f) (int c) (int (?cs * q)) (int n) out k =
        Done (0, take k out @ file_bytes img f c (?cs * q) n @ drop (k + n) out, m2)"
      unfolding step if_not_P [OF False] fb [OF order_refl] 2(1) a b by simp
    moreover have "reads_only m {fat_read_stream f, cluster_read_stream f} m2"
      using reads_only_trans [OF 1(1) 2(2)] less.prems(2) by (auto simp: mounted_def)
    ultimately show ?thesis using 2(3) by blast
  qed
qed

section \<open>The read operation\<close>

text \<open>
  The descriptor \<open>desc\<close> is open on the directory item \<open>it\<close>, at byte \<open>j\<close> of the file; \<open>i\<close> and \<open>a\<close> are the objects behind it.
\<close>

definition file_objects :: "('io, 'a) fatmem_scheme \<Rightarrow> addr \<Rightarrow> addr \<Rightarrow> addr \<Rightarrow> fat_directory_item \<Rightarrow> nat \<Rightarrow> bool" where
  "file_objects m desc i a it j \<longleftrightarrow> fat_descriptors m desc = Some \<lparr>desc_item = i, desc_pos = of_nat j\<rparr> \<and>
     fat_items m i = Some \<lparr>item_ptr = a, item_type = FAT_ITEM_TYPE_FILE\<rparr> \<and>
     (\<exists>b. bufs m a = Some b \<and> 32 \<le> length b \<and> decode_item (take 32 b) = it)"

definition open_file :: "('io, 'a) fatmem_scheme \<Rightarrow> addr \<Rightarrow> fat_directory_item \<Rightarrow> nat \<Rightarrow> bool" where
  "open_file m desc it j \<longleftrightarrow> (\<exists>i a. file_objects m desc i a it j)"

text \<open>A read moves the position of the descriptor, and otherwise only the streams and the drive.\<close>

definition after_read :: "('io, 'a) fatmem_scheme \<Rightarrow> addr \<Rightarrow> nat \<Rightarrow> ('io, 'a) fatmem_scheme \<Rightarrow> bool" where
  "after_read m desc j m' \<longleftrightarrow> (\<exists>io str. m' = m\<lparr>disk_io := io, streams := str, fat_descriptors :=
     (fat_descriptors m)(desc := map_option (\<lambda>ds. ds\<lparr>desc_pos := of_nat j\<rparr>) (fat_descriptors m desc))\<rparr>)"

lemma after_read_objects: "after_read m desc k m' \<Longrightarrow> file_objects m desc i a it j \<Longrightarrow> file_objects m' desc i a it k"
  by (auto simp: after_read_def file_objects_def)

lemma after_read_open: "after_read m desc k m' \<Longrightarrow> open_file m desc it j \<Longrightarrow> open_file m' desc it k"
  unfolding open_file_def using after_read_objects by blast

definition first_cluster :: "fat_directory_item \<Rightarrow> nat" where
  "first_cluster it = unat (fat16_get_first_cluster it)"

lemma fat16_read_once:
  assumes "open_file m desc it j" and "mounted m d f" and "first_cluster it < 2 ^ 31" and "j + n < 2 ^ 31"
    and r: "fat16_read_internal_from_stream P m d (cluster_read_stream f) (int (first_cluster it)) (int j) (int n) out 0 =
      Done (0, out', m')"
    and m': "reads_only m {fat_read_stream f, cluster_read_stream f} m'"
  shows "\<exists>m''. fat16_read P m d desc (of_nat n) 1 out = Done (1, out', m'') \<and> after_read m desc (j + n) m'' \<and>
    mounted m'' d f \<and> disk_io m'' = disk_io m'"
proof -
  obtain i a b where o: "fat_descriptors m desc = Some \<lparr>desc_item = i, desc_pos = of_nat j\<rparr>"
    "fat_items m i = Some \<lparr>item_ptr = a, item_type = FAT_ITEM_TYPE_FILE\<rparr>" "bufs m a = Some b"
    "32 \<le> length b" "decode_item (take 32 b) = it"
    using assms(1) unfolding open_file_def file_objects_def by blast
  let ?d = "\<lparr>desc_item = i, desc_pos = of_nat (j + n)\<rparr>"
  define m2 where "m2 = m'\<lparr>fat_descriptors := (fat_descriptors m')(desc \<mapsto> ?d)\<rparr>"
  have c: "sint (fat16_get_first_cluster it) = int (first_cluster it)"
    using assms(3) unfolding first_cluster_def by (rule sint_u32_small)
  have s: "sint (of_nat j :: u32) = int j" "sint (of_nat n :: u32) = int n" "sint (of_nat (j + n) :: u32) = int (j + n)"
    using assms(4) by (simp_all add: sint_of_nat_u32 del: of_nat_add)
  have w: "word_of_int (int j) + of_nat n = (of_nat (j + n) :: u32)" "word_of_int (int (j + n)) = (of_nat (j + n) :: u32)"
    by simp_all
  have it: "descriptor_item m \<lparr>item_ptr = a, item_type = FAT_ITEM_TYPE_FILE\<rparr> = Done it"
    using o(3-5) by (simp add: descriptor_item_def sub_object_def)
  have pv: "private_of m d = Done f" using mounted_object [OF assms(2)] by simp
  have one: "unat (1 :: u32) = Suc 0" "sint (1 :: u32) = 1" by simp_all
  have loop: "fat16_read_loop P m d (int (first_cluster it)) (int j) (of_nat n) (Suc 0) out 0 = Done (0, int (j + n), out', m')"
    unfolding fat16_read_loop.simps fat16_read_internal_def pv andthen.simps s(2) r prod.case w(1) s(3) by simp
  have "fat16_read P m d desc (of_nat n) 1 out = Done (1, out', m2)"
    unfolding fat16_read_def deref_Some [of "fat_descriptors m", OF o(1)] andthen.simps
      fat_file_descriptor.select_convs deref_Some [of "fat_items m", OF o(2)] it c s(1) one loop prod.case w(2)
    by (simp add: m2_def)
  moreover obtain io str where "m' = m\<lparr>disk_io := io, streams := str\<rparr>" using m' unfolding reads_only_def by blast
  then have "after_read m desc (j + n) m2"
    using o(1) unfolding after_read_def m2_def by (intro exI [of _ io] exI [of _ str]) simp
  moreover have "mounted m2 d f"
    using mounted_reads [OF assms(2) m'] unfolding mounted_def m2_def stream_on_def by simp
  ultimately show ?thesis unfolding m2_def by auto
qed

lemma next_cluster_pos: "2 \<le> k \<Longrightarrow> cluster_pos f (Suc k) = cluster_pos f k + cluster_bytes f"
  by (auto simp: cluster_pos_def dest!: le_Suc_ex)

lemma read_open_file:
  assumes "ata_drive P img idle" and "idle (disk_io m)" and "mounted m d f"
    and "open_file m desc it (cluster_bytes f * q)" and "chain_ok img f (first_cluster it) N" and "q < N"
    and "cluster_bytes f * q + n \<le> cluster_bytes f * N" and "n \<le> length out" and "cluster_bytes f * q + n < 2 ^ 31"
  shows "\<exists>m'. fat16_read P m d desc (of_nat n) 1 out =
      Done (1, file_bytes img f (first_cluster it) (cluster_bytes f * q) n @ drop n out, m') \<and>
    after_read m desc (cluster_bytes f * q + n) m' \<and> mounted m' d f \<and> idle (disk_io m')"
proof -
  have "0 + n \<le> length out" using assms(8) by simp
  from read_internal_aligned [OF assms(1,5,2,3,6,7) this] obtain m' where
    1: "fat16_read_internal_from_stream P m d (cluster_read_stream f) (int (first_cluster it)) (int (cluster_bytes f * q)) (int n) out 0 =
      Done (0, file_bytes img f (first_cluster it) (cluster_bytes f * q) n @ drop n out, m')"
    and 2: "reads_only m {fat_read_stream f, cluster_read_stream f} m'" "idle (disk_io m')" by auto
  have "first_cluster it < 2 ^ 31" using chain_okD(2) [OF assms(5), of 0] assms(6) by simp
  from fat16_read_once [OF assms(4,3) this assms(9) 1 2(1)] 2(2) show ?thesis by metis
qed

section \<open>A disk with one file\<close>

text \<open>
  Sector 1 holds the file allocation table, in which cluster 2 is followed by cluster 5 and that is the
  last one; clusters are one sector and start at sector 2.
\<close>

definition fat_image :: "int \<Rightarrow> u8 list" where
  "fat_image l = (if l = 1 then (replicate 512 0)[4 := 5, 10 := 0xFF, 11 := 0xFF] else replicate 512 (word_of_int l))"

definition sim_private :: fat_private where
  "sim_private = \<lparr>header = \<lparr>primary_header = (decode_fat_header (replicate 36 0))\<lparr>sectors_per_cluster := 1, reserved_sectors := 1\<rparr>,
       extended_header = decode_fat_header_extended (replicate 26 0)\<rparr>,
     root_directory = \<lparr>dir_item = 0, dir_total = 0, sector_pos = 1, ending_sector_pos = 2\<rparr>,
     cluster_read_stream = 0x1000000, fat_read_stream = 0x1001000, directory_stream = 0x1002000\<rparr>"

definition sim_item :: "u8 list" where
  "sim_item = (replicate 32 0)[26 := 2]"

text \<open>A file is open at byte \<open>j\<close>.\<close>

definition sim_fat :: "nat \<Rightarrow> sim fatmem" where
  "sim_fat j = dmem.extend (sim_dmem
     \<lparr>streams := [0x1000000 \<mapsto> \<lparr>pos = 0, stream_disk = 0x200000\<rparr>, 0x1001000 \<mapsto> \<lparr>pos = 0, stream_disk = 0x200000\<rparr>],
      the_disk := \<lparr>disk_type = 0, sector_size = 512, disk_id = 0, filesystem = 0, fs_private = 0x1003000\<rparr>,
      bufs := [0x1004000 \<mapsto> sim_item]\<rparr>)
     (fatmem.fields 0x300000 [] [0x1003000 \<mapsto> sim_private] Map.empty
       [0x1005000 \<mapsto> \<lparr>item_ptr = 0x1004000, item_type = FAT_ITEM_TYPE_FILE\<rparr>]
       [0x1006000 \<mapsto> \<lparr>desc_item = 0x1005000, desc_pos = of_nat j\<rparr>])"

lemma sim_fat_chain:
  "fat_entry fat_image sim_private 2 = 5" "cluster_bytes sim_private = 512" "cluster_pos sim_private 2 = 1024"
  "cluster_pos sim_private 3 = 1536" "cluster_pos sim_private 5 = 2560" "first_cluster (decode_item sim_item) = 2"
  by (simp_all add: fat_entry_def fat_base_def cluster_bytes_def cluster_pos_def first_cluster_def
      fat16_get_first_cluster_def sim_private_def sim_item_def decode_item_def decode_fat_header_def
      fat_image_def disk_bytes_def disk_byte_def le16_def upt_rec)

lemma sim_fat:
  "ata_drive (sim_ports fat_image) fat_image (\<lambda>io. snd io = None)" "snd (disk_io (sim_fat j)) = None"
  "mounted (sim_fat j) 0x200000 sim_private" "open_file (sim_fat j) 0x1006000 (decode_item sim_item) j"
proof -
  show "ata_drive (sim_ports fat_image) fat_image (\<lambda>io. snd io = None)" by (simp add: sim_drive fat_image_def)
  show "snd (disk_io (sim_fat j)) = None" by (simp add: sim_fat_def sim_dmem_def dmem.extend_def)
  show "mounted (sim_fat j) 0x200000 sim_private"
    by (simp add: sim_fat_def sim_dmem_def dmem.extend_def fatmem.fields_def mounted_def stream_on_def sim_fat_chain)
      (simp add: sim_private_def)
  show "open_file (sim_fat j) 0x1006000 (decode_item sim_item) j"
    by (simp add: sim_fat_def sim_dmem_def dmem.extend_def fatmem.fields_def open_file_def file_objects_def sim_item_def)
qed

lemma sim_fat_chain_ok: "chain_ok fat_image sim_private 2 2"
  by (auto simp: chain_ok_def less_2_cases_iff sim_fat_chain stops_def)

lemma sim_file:
  "file_bytes fat_image sim_private 2 0 1024 = replicate 512 2 @ replicate 512 5"
  "file_bytes fat_image sim_private 2 500 12 = replicate 12 2"
  "disk_bytes fat_image 1536 8 = replicate 8 3"
proof -
  have b: "disk_bytes fat_image (512 * k + r) n = replicate n (of_nat k)" if "2 \<le> k" "r + n \<le> 512" for k r n
  proof (rule nth_equalityI)
    fix i assume "i < length (disk_bytes fat_image (512 * k + r) n)"
    then have i: "i < n" by simp
    then have "(512 * k + r + i) div 512 = k" using that by (simp add: add.assoc)
    then show "disk_bytes fat_image (512 * k + r) n ! i = replicate n (of_nat k) ! i"
      using i that(1) by (simp add: disk_bytes_def disk_byte_def fat_image_def)
  qed simp
  show "file_bytes fat_image sim_private 2 0 1024 = replicate 512 2 @ replicate 512 5"
    using file_bytes_append [of fat_image sim_private 2 0 512 512]
      file_bytes_cluster [of 0 512 sim_private fat_image 2 0] file_bytes_cluster [of 0 512 sim_private fat_image 2 1]
      b [of 2 0 512] b [of 5 0 512] by (simp add: sim_fat_chain)
  show "file_bytes fat_image sim_private 2 500 12 = replicate 12 2"
    using file_bytes_cluster [of 500 12 sim_private fat_image 2 0] b [of 2 500 12] by (simp add: sim_fat_chain)
  show "disk_bytes fat_image 1536 8 = replicate 8 3" using b [of 3 0 8] by simp
qed

text \<open>
  C3. Reading a file: when a file is open at a cluster boundary and its cluster chain is long enough,
  \<open>fat16_read\<close> of \<open>n\<close> bytes delivers exactly the next \<open>n\<close> bytes of the file, collected from the
  clusters of its chain in the file allocation table wherever they lie on the disk, leaves the rest of
  the buffer alone, and advances the descriptor by \<open>n\<close>. (\<open>chain_ok\<close> asks that no cluster number on
  the chain is one of the values the driver takes for a marker, and that positions fit an \<^verbatim>\<open>int\<close>.)
\<close>

theorem fat16_read_file:
  assumes "ata_drive P img idle" and "idle (disk_io m)" and "mounted m d f"
    and "open_file m desc it (cluster_bytes f * q)" and "chain_ok img f (first_cluster it) N" and "q < N"
    and "cluster_bytes f * q + n \<le> cluster_bytes f * N" and "n \<le> length out" and "cluster_bytes f * q + n < 2 ^ 31"
  shows "\<exists>m'. fat16_read P m d desc (of_nat n) 1 out =
      Done (1, file_bytes img f (first_cluster it) (cluster_bytes f * q) n @ drop n out, m') \<and>
    open_file m' desc it (cluster_bytes f * q + n) \<and> mounted m' d f \<and> idle (disk_io m')"
  using read_open_file [OF assms] after_read_open [OF _ assms(4)] by blast

theorem fat16_read_file_witness:
  "\<exists>m'. fat16_read (sim_ports fat_image) (sim_fat 0) 0x200000 0x1006000 1024 1 (replicate 1024 7) =
      Done (1, replicate 512 2 @ replicate 512 5, m')"
  using fat16_read_file [where m = "sim_fat 0" and desc = "0x1006000" and it = "decode_item sim_item" and q = 0 and N = 2 and n = 1024
      and out = "replicate 1024 7", OF sim_fat(1-3)]
  by (auto simp: sim_fat sim_fat_chain sim_fat_chain_ok sim_file)

text \<open>
  C38. A read of at most one cluster's size that starts strictly inside a cluster and crosses its end does not
  follow the chain: from the end of the cluster on it delivers the bytes of the cluster that comes next on
  the disk, whichever file that belongs to, and reports success. (The driver limits a step to the size of a
  cluster, not to what is left of the cluster. A read that starts at a cluster follows the chain, see C3;
  longer reads from inside a cluster are not covered here.)
\<close>

theorem fat16_read_crosses_cluster:
  assumes "ata_drive P img idle" and "idle (disk_io m)" and "mounted m d f"
    and "open_file m desc it (cluster_bytes f * q + r)" and "chain_ok img f (first_cluster it) N" and "q < N"
    and "r < cluster_bytes f" and "cluster_bytes f - r < n" and "n \<le> cluster_bytes f" and "n \<le> length out"
    and "cluster_bytes f * q + r + n < 2 ^ 31"
  shows "\<exists>m'. fat16_read P m d desc (of_nat n) 1 out =
      Done (1, file_bytes img f (first_cluster it) (cluster_bytes f * q + r) (cluster_bytes f - r) @
        disk_bytes img (cluster_pos f (Suc (chain (fat_entry img f) (first_cluster it) q))) (n - (cluster_bytes f - r)) @
        drop n out, m')"
proof -
  let ?c = "first_cluster it" and ?cs = "cluster_bytes f"
  let ?k = "chain (fat_entry img f) ?c q"
  have "0 + min n ?cs \<le> length out" using assms(10) by simp
  from read_internal_step [OF assms(1-3,5-7) this] assms(9) obtain m' where
    1: "fat16_read_internal_from_stream P m d (cluster_read_stream f) (int ?c) (int (?cs * q + r)) (int n) out 0 =
      Done (0, disk_bytes img (cluster_pos f ?k + r) n @ drop n out, m')"
    and 2: "reads_only m {fat_read_stream f, cluster_read_stream f} m'" by auto
  have "disk_bytes img (cluster_pos f ?k + r) n =
      disk_bytes img (cluster_pos f ?k + r) (?cs - r) @ disk_bytes img (cluster_pos f ?k + r + (?cs - r)) (n - (?cs - r))"
    using disk_bytes_append [of img "cluster_pos f ?k + r" "?cs - r" "n - (?cs - r)"] assms(8) by simp
  also have "cluster_pos f ?k + r + (?cs - r) = cluster_pos f (Suc ?k)"
    using next_cluster_pos [OF chain_okD(1) [OF assms(5,6)]] assms(7) by simp
  also have "disk_bytes img (cluster_pos f ?k + r) (?cs - r) = file_bytes img f ?c (?cs * q + r) (?cs - r)"
    using file_bytes_cluster [of r "?cs - r" f img ?c q] assms(7) by simp
  finally have "disk_bytes img (cluster_pos f ?k + r) n =
    file_bytes img f ?c (?cs * q + r) (?cs - r) @ disk_bytes img (cluster_pos f (Suc ?k)) (n - (?cs - r))" .
  moreover have "?c < 2 ^ 31" using chain_okD(2) [OF assms(5), of 0] assms(6) by simp
  ultimately show ?thesis using fat16_read_once [OF assms(4,3) _ assms(11) 1 2] by auto
qed

theorem fat16_read_crosses_cluster_witness:
  "\<exists>m'. fat16_read (sim_ports fat_image) (sim_fat 500) 0x200000 0x1006000 20 1 (replicate 20 7) =
      Done (1, replicate 12 2 @ replicate 8 3, m')"
  using fat16_read_crosses_cluster [where m = "sim_fat 500" and desc = "0x1006000" and it = "decode_item sim_item" and q = 0 and r = 500 and N = 2
      and n = 20 and out = "replicate 20 7", OF sim_fat(1-3)]
  by (auto simp: sim_fat sim_fat_chain sim_fat_chain_ok sim_file)

end
