(* ===== verification/Fat16_Names.thy ===== *)
theory Fat16_Names
  imports Fat16
begin

text \<open>
  The names of directory entries: the driver turns the space padded 8 and 3 characters of an entry into the
  string that is compared with a component of a path.
\<close>

definition name_char :: "u8 \<Rightarrow> bool" where
  "name_char c \<longleftrightarrow> c \<noteq> 0 \<and> c \<noteq> 0x20"

text \<open>The name of an entry as a user writes it.\<close>

definition short_name :: "fat_directory_item \<Rightarrow> u8 list" where
  "short_name item = takeWhile name_char (filename item) @
     (if name_char (ext item ! 0) then 0x2E # takeWhile name_char (ext item) else [])"

lemma put_at:
  assumes "k + length (c # t) \<le> length out"
  shows "take (Suc k) (out[k := c]) @ t @ drop (Suc k + length t) (out[k := c]) = take k out @ (c # t) @ drop (k + length (c # t)) out"
  using assms by (simp add: take_Suc_conv_app_nth)

lemma to_proper_string_loop:
  "\<lbrakk>length inp = n; 0 < n; unat i + n = unat sz; k + n \<le> length out\<rbrakk> \<Longrightarrow>
    fat16_to_proper_string_loop out k inp i sz =
      Done (take k out @ takeWhile name_char inp @ drop (k + length (takeWhile name_char inp)) out,
        k + length (takeWhile name_char inp))"
proof (induction n arbitrary: inp i k out)
  case (Suc n)
  then obtain c cs where inp: "inp = c # cs" "length cs = n" by (cases inp) auto
  show ?case
  proof (cases "name_char c")
    case False
    then show ?thesis by (auto simp: inp name_char_def)
  next
    case True
    then have c: "c \<noteq> 0" "c \<noteq> 0x20" by (simp_all add: name_char_def)
    have k: "k < length out" using Suc.prems(4) by simp
    have "0 < unat sz" using Suc.prems(3) by simp
    then have sz: "unat (sz - 1) = unat sz - 1" by (subst unat_sub) (simp_all add: word_le_nat_alt)
    show ?thesis
    proof (cases n)
      case 0
      then have "sz - 1 \<le> i" unfolding word_le_nat_alt sz using Suc.prems(3) by simp
      then show ?thesis using c k True 0 inp
        by (simp add: wr_in take_Suc_conv_app_nth upd_conv_take_nth_drop del: andthen_eq_Done wr_eq_Done)
    next
      case (Suc n')
      then have "\<not> sz - 1 \<le> i" unfolding word_le_nat_alt sz using Suc.prems(3) by simp
      moreover have "unat (i + 1) + n = unat sz" using Suc.prems(3) unat_u32_less [of sz] Suc
        by (subst unat_add_u32) simp_all
      ultimately have "fat16_to_proper_string_loop out k inp i sz =
          Done (take (Suc k) (out[k := c]) @ takeWhile name_char cs @ drop (Suc k + length (takeWhile name_char cs)) (out[k := c]),
            Suc k + length (takeWhile name_char cs))"
        using Suc.IH [OF inp(2), of "i + 1" "Suc k" "out[k := c]"] Suc.prems(4) Suc c k
        by (simp add: inp wr_in del: andthen_eq_Done wr_eq_Done)
      moreover have "k + length (c # takeWhile name_char cs) \<le> length out"
        using Suc.prems(4) length_takeWhile_le [of name_char cs] inp(2) by simp
      ultimately show ?thesis using put_at [of k c "takeWhile name_char cs" out] True by (simp add: inp)
    qed
  qed
qed simp

lemma to_proper_string:
  assumes "length inp = n" and "0 < n" and "unat sz = n" and "k + n < length out"
  shows "fat16_to_proper_string out k inp sz =
    Done (take k out @ takeWhile name_char inp @ 0 # drop (k + length (takeWhile name_char inp) + 1) out,
      k + length (takeWhile name_char inp))"
proof -
  let ?t = "takeWhile name_char inp"
  have t: "length ?t \<le> n" using length_takeWhile_le [of name_char inp] assms(1) by simp
  have "fat16_to_proper_string_loop out k inp 0 sz = Done (take k out @ ?t @ drop (k + length ?t) out, k + length ?t)"
    using assms by (intro to_proper_string_loop [where n = n]) simp_all
  moreover have "(take k out @ ?t @ drop (k + length ?t) out)[k + length ?t := 0] =
      take k out @ ?t @ 0 # drop (k + length ?t + 1) out"
    using assms(4) t by (simp add: list_update_append drop_update_swap upd_conv_take_nth_drop min_def)
  ultimately show ?thesis using assms(4) t
    by (simp add: fat16_to_proper_string_def wr_in del: andthen_eq_Done wr_eq_Done)
qed

lemma full_name:
  assumes "11 \<le> length b" and "length out = 108"
  shows "fat16_get_full_relative_filename (decode_item b) out 108 =
    Done (short_name (decode_item b) @ replicate (108 - length (short_name (decode_item b))) 0)"
proof -
  let ?it = "decode_item b"
  let ?n = "takeWhile name_char (filename ?it)" and ?e = "takeWhile name_char (ext ?it)"
  have len: "length (filename ?it) = 8" "length (ext ?it) = 3" using assms(1) by (simp_all add: decode_item_def)
  have ln: "length ?n \<le> 8" using length_takeWhile_le [of name_char "filename ?it"] len(1) by simp
  have le: "length ?e \<le> 3" using length_takeWhile_le [of name_char "ext ?it"] len(2) by simp
  let ?o1 = "?n @ replicate (108 - length ?n) 0"
  have "Suc (107 - length ?n) = 108 - length ?n" using ln by simp
  then have z: "(0 :: u8) # replicate (107 - length ?n) 0 = replicate (108 - length ?n) 0" by (metis replicate_Suc)
  have 1: "fat16_to_proper_string (replicate 108 0) 0 (filename ?it) 8 = Done (?o1, length ?n)"
    using to_proper_string [of "filename ?it" 8 8 0 "replicate 108 0"] len(1) z by simp
  have ms: "memset out 0 (u32_of_int 108) = Done (replicate 108 0)" using assms(2) by (simp add: memset_eq)
  have rx: "rd (ext ?it) 0 = Done (ext ?it ! 0)" using len(2) by (intro rd_in) simp
  show ?thesis
  proof (cases "name_char (ext ?it ! 0)")
    case False
    then show ?thesis unfolding fat16_get_full_relative_filename_def ms andthen.simps 1 prod.case rx
      by (auto simp: short_name_def name_char_def)
  next
    case True
    let ?o2 = "?n @ 0x2E # replicate (107 - length ?n) 0"
    have w: "wr ?o1 (length ?n) 0x2E = Done ?o2" using ln by (simp add: wr_def list_update_append flip: z)
    have "107 - length ?n - length ?e - 1 = 106 - length ?n - length ?e" by simp
    have 2: "fat16_to_proper_string ?o2 (Suc (length ?n)) (ext ?it) 3 =
        Done (take (Suc (length ?n)) ?o2 @ ?e @ 0 # drop (Suc (length ?n) + length ?e + 1) ?o2, Suc (length ?n) + length ?e)"
      using to_proper_string [of "ext ?it" 3 3 "Suc (length ?n)" ?o2] len(2) ln by simp
    have "short_name ?it = ?n @ 0x2E # ?e" using True by (simp add: short_name_def)
    moreover have "(0 :: u8) # replicate (106 - length ?n - length ?e) 0 = replicate (107 - length ?n - length ?e) 0"
      using ln le by (cases "107 - length ?n - length ?e") auto
    ultimately have "take (Suc (length ?n)) ?o2 @ ?e @ 0 # drop (Suc (length ?n) + length ?e + 1) ?o2 =
        short_name ?it @ replicate (108 - length (short_name ?it)) 0" using ln le by simp
    then show ?thesis using True
      unfolding fat16_get_full_relative_filename_def ms andthen.simps 1 prod.case rx w 2 by (simp add: name_char_def)
  qed
qed

section \<open>Properties\<close>

text \<open>
  C34. \<open>fat16_get_full_relative_filename\<close> computes the name of an entry: the name without its padding, and if the entry
  has an extension a dot and the extension without its padding; the rest of the 108 byte buffer is cleared,
  whatever was there before. No access leaves the entry or the buffer, although neither of the two fields of the
  entry is terminated when it is filled completely.
\<close>

theorem fat16_full_name:
  assumes "11 \<le> length b" and "length out = 108"
  shows "fat16_get_full_relative_filename (decode_item b) out 108 =
    Done (short_name (decode_item b) @ replicate (108 - length (short_name (decode_item b))) 0)"
  by (rule full_name [OF assms])

text \<open>The entry of a file \<^verbatim>\<open>BLANK.ELF\<close>.\<close>

definition sim_entry :: "u8 list" where
  "sim_entry = [0x42, 0x4C, 0x41, 0x4E, 0x4B, 0x20, 0x20, 0x20, 0x45, 0x4C, 0x46] @ replicate 21 0"

theorem fat16_full_name_witness:
  "fat16_get_full_relative_filename (decode_item sim_entry) (replicate 108 0xCC) 108 =
    Done ([0x42, 0x4C, 0x41, 0x4E, 0x4B, 0x2E, 0x45, 0x4C, 0x46] @ replicate 99 0)"
  using fat16_full_name [of sim_entry "replicate 108 0xCC"]
  by (simp add: sim_entry_def short_name_def decode_item_def name_char_def)

end
