(* ===== verification/Fat16_Open.thy ===== *)
theory Fat16_Open
  imports Fat16_Read Fat16_Names
begin

text \<open>
  Opening a file by its name (\<open>fat16_open\<close>, \<open>fat16_get_directory_entry\<close> and \<open>fat16_find_item_in_directory\<close> of
  \<^verbatim>\<open>src/fs/fat/fat16.c\<close>): which entry of the root directory a name selects, and the objects that are made
  for it.
\<close>

section \<open>Small objects\<close>

text \<open>A heap with \<open>k\<close> free blocks behind the first \<open>b\<close>.\<close>

definition room :: "'a kmem_scheme \<Rightarrow> nat \<Rightarrow> nat \<Rightarrow> bool" where
  "room m b k \<longleftrightarrow> kmem_ok m \<and> below m b \<and> b + k \<le> heap_blocks (kernel_heap m)"

lemma kmem_ok_cong:
  "kmem_ok m \<Longrightarrow> kernel_heap m' = kernel_heap m \<Longrightarrow> dom (bufs m') \<subseteq> dom (bufs m) \<Longrightarrow> kmem_ok m'"
  by (auto simp: kmem_ok_def kmem_live_def)

lemma room_cong:
  "room m b k \<Longrightarrow> kernel_heap m' = kernel_heap m \<Longrightarrow> dom (bufs m') \<subseteq> dom (bufs m) \<Longrightarrow> room m' b k"
  using kmem_ok_cong [of m m'] by (simp add: room_def below_def)

lemma room_mono: "room m b k \<Longrightarrow> l \<le> k \<Longrightarrow> room m b l"
  by (simp add: room_def)

text \<open>
  The allocations of \<open>m\<close> are \<open>L\<close> and, apart from these, the one-block objects \<open>A\<close>.
\<close>

definition holds :: "'a kmem_scheme \<Rightarrow> addr list \<Rightarrow> (nat \<times> nat) set \<Rightarrow> bool" where
  "holds m A L \<longleftrightarrow> kmem_ok m \<and> distinct A \<and> kmem_live m = L \<union> (\<lambda>p. (unat p, 4096)) ` set A \<and>
     L \<inter> (\<lambda>p. (unat p, 4096)) ` set A = {}"

lemma holds_start: "kmem_ok m \<Longrightarrow> holds m [] (kmem_live m)"
  by (simp add: holds_def)

lemma holds_cong:
  "holds m A L \<Longrightarrow> kernel_heap m' = kernel_heap m \<Longrightarrow> dom (bufs m') \<subseteq> dom (bufs m) \<Longrightarrow> holds m' A L"
  using kmem_ok_cong [of m m'] by (simp add: holds_def kmem_live_def)

lemma room_object:
  fixes m :: "'a kmem_scheme"
  assumes "room m b (Suc k)" and "0 < unat sz" and "unat sz \<le> 4096"
  obtains p hp where "kzalloc m sz = Done (p, m\<lparr>kernel_heap := hp, bufs := (bufs m)(p \<mapsto> replicate (unat sz) 0)\<rparr>)"
    and "p \<noteq> 0" and "bufs m p = None" and "in_heap hp p" and "in_heap hp = in_heap (kernel_heap m)"
    and "room (m\<lparr>kernel_heap := hp, bufs := (bufs m)(p \<mapsto> replicate (unat sz) 0)\<rparr>) (Suc b) k"
    and "\<forall>A L. holds m A L \<longrightarrow> holds (m\<lparr>kernel_heap := hp, bufs := (bufs m)(p \<mapsto> replicate (unat sz) 0)\<rparr>) (p # A) L"
proof -
  from assms(1) have m: "kmem_ok m" "below m b" "b + 1 \<le> heap_blocks (kernel_heap m)" by (simp_all add: room_def)
  from kzalloc_page [OF m(1,2) assms(2,3) m(3)] obtain p hp where z:
    "kzalloc m sz = Done (p, m\<lparr>kernel_heap := hp, bufs := (bufs m)(p \<mapsto> replicate (unat sz) 0)\<rparr>)" "p \<noteq> 0" "bufs m p = None"
    "kmem_ok (m\<lparr>kernel_heap := hp, bufs := (bufs m)(p \<mapsto> replicate (unat sz) 0)\<rparr>)"
    "below (m\<lparr>kernel_heap := hp, bufs := (bufs m)(p \<mapsto> replicate (unat sz) 0)\<rparr>) (b + 1)"
    "heap_blocks hp = heap_blocks (kernel_heap m)" "saddr hp = saddr (kernel_heap m)"
    "heap_live hp = insert (unat p, 4096) (kmem_live m)" "unat p \<notin> fst ` kmem_live m" by blast
  have "in_heap hp p" "in_heap hp = in_heap (kernel_heap m)"
    using heap_live_in_heap [of p 4096 hp] in_heap_cong [OF z(7,6)] z(8) by simp_all
  moreover have "room (m\<lparr>kernel_heap := hp, bufs := (bufs m)(p \<mapsto> replicate (unat sz) 0)\<rparr>) (Suc b) k"
    using z(4-6) assms(1) by (simp add: room_def)
  moreover have "(unat p, 4096) \<notin> kmem_live m" using z(9) by force
  then have "\<forall>A L. holds m A L \<longrightarrow> holds (m\<lparr>kernel_heap := hp, bufs := (bufs m)(p \<mapsto> replicate (unat sz) 0)\<rparr>) (p # A) L"
    using z(4,8) by (auto simp: holds_def kmem_live_def)
  ultimately show thesis using that z(1-3) by blast
qed

text \<open>The item of a file: two objects, the second one a copy of the entry.\<close>

lemma new_file_item:
  fixes m :: "('io, 'a) fatmem_scheme"
  assumes "room m b (2 + l)" and "length e = 32" and "attribute (decode_item e) AND FAT_FILE_SUBDIRECTORY = 0"
  obtains fi a hp where "fat16_new_fat_item_for_directory_item P m d e = Done (fi, m\<lparr>kernel_heap := hp, bufs := (bufs m)(a \<mapsto> e),
      fat_items := (fat_items m)(fi \<mapsto> \<lparr>item_ptr = a, item_type = FAT_ITEM_TYPE_FILE\<rparr>)\<rparr>)"
    and "fi \<noteq> 0" and "bufs m a = None" and "in_heap hp = in_heap (kernel_heap m)"
    and "room (m\<lparr>kernel_heap := hp, bufs := (bufs m)(a \<mapsto> e),
      fat_items := (fat_items m)(fi \<mapsto> \<lparr>item_ptr = a, item_type = FAT_ITEM_TYPE_FILE\<rparr>)\<rparr>) (b + 2) l"
    and "\<forall>A L. holds m A L \<longrightarrow> holds (m\<lparr>kernel_heap := hp, bufs := (bufs m)(a \<mapsto> e),
      fat_items := (fat_items m)(fi \<mapsto> \<lparr>item_ptr = a, item_type = FAT_ITEM_TYPE_FILE\<rparr>)\<rparr>) (a # fi # A) L"
proof -
  have two: "room m b (Suc (Suc l))" using assms(1) by simp
  obtain fi h1 where 1: "kzalloc m 8 = Done (fi, m\<lparr>kernel_heap := h1, bufs := (bufs m)(fi \<mapsto> replicate (unat (8 :: u32)) 0)\<rparr>)"
    "fi \<noteq> 0" "bufs m fi = None" "in_heap h1 fi" "in_heap h1 = in_heap (kernel_heap m)"
    "room (m\<lparr>kernel_heap := h1, bufs := (bufs m)(fi \<mapsto> replicate (unat (8 :: u32)) 0)\<rparr>) (Suc b) (Suc l)"
    "\<forall>A L. holds m A L \<longrightarrow> holds (m\<lparr>kernel_heap := h1, bufs := (bufs m)(fi \<mapsto> replicate (unat (8 :: u32)) 0)\<rparr>) (fi # A) L"
    by (rule room_object [OF two, of 8]) auto
  let ?m1 = "m\<lparr>kernel_heap := h1\<rparr>"
  have b1: "(bufs m)(fi := None) = bufs m" using 1(3) by (simp add: fun_upd_idem)
  have r1: "room ?m1 (Suc b) (Suc l)" by (rule room_cong [OF 1(6)]) auto
  obtain a h2 where 2: "kzalloc ?m1 32 = Done (a, ?m1\<lparr>kernel_heap := h2, bufs := (bufs ?m1)(a \<mapsto> replicate (unat (32 :: u32)) 0)\<rparr>)"
    "a \<noteq> 0" "bufs ?m1 a = None" "in_heap h2 a" "in_heap h2 = in_heap (kernel_heap ?m1)"
    "room (?m1\<lparr>kernel_heap := h2, bufs := (bufs ?m1)(a \<mapsto> replicate (unat (32 :: u32)) 0)\<rparr>) (Suc (Suc b)) l"
    "\<forall>A L. holds ?m1 A L \<longrightarrow> holds (?m1\<lparr>kernel_heap := h2, bufs := (bufs ?m1)(a \<mapsto> replicate (unat (32 :: u32)) 0)\<rparr>) (a # A) L"
    by (rule room_object [OF r1, of 32]) auto
  have "memcpy (replicate 32 0) e (int 32) = Done (take 32 e @ drop 32 (replicate 32 0))"
    using assms(2) by (intro memcpy_eq) simp_all
  then have cp: "memcpy (replicate 32 0) e 32 = Done e" using assms(2) by simp
  have cl: "fat16_clone_directory_item ?m1 e 32 = Done (a, m\<lparr>kernel_heap := h2, bufs := (bufs m)(a \<mapsto> e)\<rparr>)"
    using 2 cp by (simp add: fat16_clone_directory_item_def deref_Some del: andthen_eq_Done)
  have "fat16_new_fat_item_for_directory_item P m d e = Done (fi, m\<lparr>kernel_heap := h2, bufs := (bufs m)(a \<mapsto> e),
      fat_items := (fat_items m)(fi \<mapsto> \<lparr>item_ptr = a, item_type = FAT_ITEM_TYPE_FILE\<rparr>)\<rparr>)"
    using 1(1,2) cl assms(3) b1 by (simp add: fat16_new_fat_item_for_directory_item_def Let_def del: andthen_eq_Done)
  moreover let ?m2 = "m\<lparr>kernel_heap := h2, bufs := (bufs m)(a \<mapsto> e),
      fat_items := (fat_items m)(fi \<mapsto> \<lparr>item_ptr = a, item_type = FAT_ITEM_TYPE_FILE\<rparr>)\<rparr>"
  have "room ?m2 (b + 2) l" using room_cong [OF 2(6), of ?m2] by auto
  moreover have "holds ?m2 (a # fi # A) L" if "holds m A L" for A L
  proof -
    from 1(7) that have "holds (m\<lparr>kernel_heap := h1, bufs := (bufs m)(fi \<mapsto> replicate (unat (8 :: u32)) 0)\<rparr>) (fi # A) L" by blast
    then have "holds ?m1 (fi # A) L" by (rule holds_cong) auto
    with 2(7) have "holds (?m1\<lparr>kernel_heap := h2, bufs := (bufs ?m1)(a \<mapsto> replicate (unat (32 :: u32)) 0)\<rparr>) (a # fi # A) L" by blast
    then show ?thesis by (rule holds_cong) auto
  qed
  ultimately show thesis using that [of fi a h2] 1(2,5) 2(3,5) by simp
qed

section \<open>The search\<close>

definition entry_at :: "u8 list \<Rightarrow> nat \<Rightarrow> u8 list" where
  "entry_at b i = take 32 (drop (32 * i) b)"

text \<open>Names are compared without regard to case.\<close>

definition named :: "u8 list \<Rightarrow> u8 list \<Rightarrow> bool" where
  "named s e \<longleftrightarrow> map tolower (short_name (decode_item e)) = map tolower s"

text \<open>A directory of \<open>n\<close> entries in the buffer \<open>b\<close>.\<close>

definition directory_in :: "('io, 'a) fatmem_scheme \<Rightarrow> fat_directory \<Rightarrow> u8 list \<Rightarrow> nat \<Rightarrow> bool" where
  "directory_in m D b n \<longleftrightarrow> bufs m (dir_item D) = Some b \<and> dir_total D = int n \<and> 32 * n \<le> length b"

lemma short_name_short:
  assumes "length e = 32"
  shows "0 \<notin> set (short_name (decode_item e))" and "length (short_name (decode_item e)) \<le> 12"
proof -
  have len: "length (filename (decode_item e)) = 8" "length (ext (decode_item e)) = 3"
    using assms by (simp_all add: decode_item_def)
  show "0 \<notin> set (short_name (decode_item e))"
    by (auto simp: short_name_def name_char_def dest: set_takeWhileD)
  show "length (short_name (decode_item e)) \<le> 12"
    using length_takeWhile_le [of name_char "filename (decode_item e)"] length_takeWhile_le [of name_char "ext (decode_item e)"] len
    by (simp add: short_name_def)
qed

lemma name_test:
  assumes "length e = 32" and "terminated name" and "length name \<le> 108"
  obtains tmp r where "fat16_get_full_relative_filename (decode_item e) (replicate 108 0xCC) 108 = Done tmp"
    and "istrncmp tmp name 108 = Done r" and "r = 0 \<longleftrightarrow> named (cstring name) e"
proof -
  let ?s = "short_name (decode_item e)"
  let ?t = "?s @ replicate (108 - length ?s) 0"
  note s = short_name_short [OF assms(1)]
  have "108 - length ?s = Suc (107 - length ?s)" using s(2) by simp
  then have t: "?t = ?s @ 0 # replicate (107 - length ?s) 0" by simp
  have te: "terminated ?t" "cstring ?t = ?s" unfolding t using s(1) by (simp_all add: cstring_append terminated_append)
  obtain r where r: "istrncmp ?t name 108 = Done r" using istrncmp_returns [OF te(1) assms(2)] by blast
  have "length (cstring name) < 108" using length_cstring [OF assms(2)] assms(3) by simp
  then have "r = 0 \<longleftrightarrow> named (cstring name) e"
    using istrncmp_eq_0 [OF te(1) assms(2), of 108] r s(2) by (simp add: te(2) named_def)
  with that full_name [of e "replicate 108 0xCC"] assms(1) r show thesis by simp
qed

lemma entry_length: "directory_in m D b n \<Longrightarrow> i < n \<Longrightarrow> length (entry_at b i) = 32"
  by (simp add: entry_at_def directory_in_def min_absorb2 le_diff_conv2)

text \<open>One round of the search.\<close>

lemma find_step:
  assumes "directory_in m D b n" and "i < n" and "terminated name" and "length name \<le> 108"
  shows "fat16_find_item_loop P m d D name f i =
    andthen (if named (cstring name) (entry_at b i) then fat16_new_fat_item_for_directory_item P m d (entry_at b i) else Done (f, m))
      (\<lambda>(f, m). fat16_find_item_loop P m d D name f (Suc i))"
proof -
  have b: "bufs m (dir_item D) = Some b" "32 * i + 32 \<le> length b" "int i < dir_total D"
    using assms(1,2) by (simp_all add: directory_in_def)
  have so: "sub_object b (32 * i) 32 = Done (entry_at b i)" using b(2) by (simp add: sub_object_def entry_at_def)
  from name_test [OF entry_length [OF assms(1,2)] assms(3,4)] obtain tmp r where
    t: "fat16_get_full_relative_filename (decode_item (entry_at b i)) (replicate 108 0xCC) 108 = Done tmp"
      "istrncmp tmp name 108 = Done r" "r = 0 \<longleftrightarrow> named (cstring name) (entry_at b i)" .
  show ?thesis
    unfolding fat16_find_item_loop.simps [of P m] if_P [OF b(3)] deref_Some [of "bufs m", OF b(1)] andthen.simps so t(1,2) t(3) ..
qed

lemma find_end:
  "directory_in m D b n \<Longrightarrow> n \<le> i \<Longrightarrow> fat16_find_item_loop P m d D name f i = Done (f, m)"
  by (subst fat16_find_item_loop.simps) (simp add: directory_in_def)

lemma find_nothing:
  assumes "directory_in m D b n" and "terminated name" and "length name \<le> 108"
    and "\<forall>j. i \<le> j \<and> j < n \<longrightarrow> \<not> named (cstring name) (entry_at b j)"
  shows "fat16_find_item_loop P m d D name f i = Done (f, m)"
  using assms(4)
proof (induction "n - i" arbitrary: i)
  case 0
  then show ?case using find_end [OF assms(1)] by simp
next
  case (Suc l)
  then have i: "i < n" by simp
  have "fat16_find_item_loop P m d D name f i = fat16_find_item_loop P m d D name f (Suc i)"
    using find_step [OF assms(1) i assms(2,3)] Suc.prems i by simp
  also have "\<dots> = Done (f, m)" using Suc.hyps(2) Suc.prems by (intro Suc.hyps(1)) auto
  finally show ?case .
qed

lemma find_single:
  assumes "directory_in m D b n" and "terminated name" and "length name \<le> 108" and "k < n" and "i \<le> k"
    and "\<forall>j < n. named (cstring name) (entry_at b j) \<longleftrightarrow> j = k"
    and "fat16_new_fat_item_for_directory_item P m d (entry_at b k) = Done (f', m')" and "directory_in m' D b n"
  shows "fat16_find_item_loop P m d D name f i = Done (f', m')"
  using assms(5)
proof (induction "k - i" arbitrary: i)
  case 0
  then have i: "i = k" by simp
  have "\<forall>j. Suc k \<le> j \<and> j < n \<longrightarrow> \<not> named (cstring name) (entry_at b j)" using assms(6) by auto
  from find_nothing [OF assms(8,2,3) this] find_step [OF assms(1,4,2,3)] assms(4,6,7)
  show ?case unfolding i by simp
next
  case (Suc l)
  then have i: "i < k" by simp
  then have "fat16_find_item_loop P m d D name f i = fat16_find_item_loop P m d D name f (Suc i)"
    using find_step [OF assms(1) _ assms(2,3), of i] assms(4,6) by auto
  also have "\<dots> = Done (f', m')" using Suc.hyps(2) i by (intro Suc.hyps(1)) auto
  finally show ?case .
qed

section \<open>Opening\<close>

text \<open>
  A path of one component \<open>name\<close>, in a file system whose root directory has the \<open>n\<close> entries in \<open>b\<close>. All of it lies in
  buffers that are there before the call.
\<close>

definition root_lookup :: "('io, 'a) fatmem_scheme \<Rightarrow> fat_private \<Rightarrow> addr \<Rightarrow> u8 list \<Rightarrow> u8 list \<Rightarrow> nat \<Rightarrow> bool" where
  "root_lookup m f path name b n \<longleftrightarrow> (\<exists>pt. path_parts m path = Some pt \<and> next_part pt = 0 \<and> bufs m (part pt) = Some name) \<and>
     terminated name \<and> length name \<le> 108 \<and> directory_in m (root_directory f) b n"

lemma root_lookup_cong:
  "root_lookup m f path name b n \<Longrightarrow> path_parts m' = path_parts m \<Longrightarrow> bufs m \<subseteq>\<^sub>m bufs m' \<Longrightarrow> root_lookup m' f path name b n"
  unfolding root_lookup_def directory_in_def map_le_def by (metis domI)

lemma mounted_cong:
  "mounted m d f \<Longrightarrow> disk_at m' = disk_at m \<Longrightarrow> the_disk m' = the_disk m \<Longrightarrow> fat_privates m' = fat_privates m \<Longrightarrow>
    streams m' = streams m \<Longrightarrow> mounted m' d f"
  by (simp add: mounted_def stream_on_def)

lemma directory_entry_eq:
  assumes "mounted m d f" and "root_lookup m f path name b n"
    and "fat16_find_item_in_directory P m d (root_directory f) name = Done (item, m')"
  shows "fat16_get_directory_entry P m d path = Done (item, m')"
proof -
  from assms(2) obtain pt where pt: "path_parts m path = Some pt" "next_part pt = 0" "bufs m (part pt) = Some name"
    by (auto simp: root_lookup_def)
  have w: "fat16_walk free_fuel P m' d item 0 = Done (item, m')" by (subst fat16_walk.simps) simp
  show ?thesis
    using mounted_object [OF assms(1)] pt assms(3) w
    by (simp add: fat16_get_directory_entry_def deref_Some del: andthen_eq_Done)
qed

lemma entry_missing:
  assumes "mounted m d f" and "root_lookup m f path name b n"
    and "fat16_find_item_in_directory P m d (root_directory f) name = Done (0, m)"
  shows "fat16_get_directory_entry P m d path = Done (0, m)"
proof -
  from assms(2) obtain pt where "path_parts m path = Some pt" "bufs m (part pt) = Some name"
    by (auto simp: root_lookup_def)
  then show ?thesis
    using mounted_object [OF assms(1)] assms(3)
    by (simp add: fat16_get_directory_entry_def deref_Some del: andthen_eq_Done)
qed

text \<open>What \<open>fat16_open\<close> changes: the heap and the objects in it.\<close>

definition objects_only :: "('io, 'a) fatmem_scheme \<Rightarrow> ('io, 'a) fatmem_scheme \<Rightarrow> bool" where
  "objects_only m m' \<longleftrightarrow> (\<exists>hp bs is ds. m' = m\<lparr>kernel_heap := hp, bufs := bs, fat_items := is, fat_descriptors := ds\<rparr>) \<and>
     in_heap (kernel_heap m') = in_heap (kernel_heap m)"

lemma objects_only_mounted: "objects_only m m' \<Longrightarrow> mounted m d f \<Longrightarrow> mounted m' d f"
  by (erule mounted_cong) (auto simp: objects_only_def)

lemma open_found:
  fixes m :: "('io, 'a) fatmem_scheme"
  assumes "mounted m d f" and "root_lookup m f path name b n" and "room m r (3 + l)" and "k < n"
    and "\<forall>j < n. named (cstring name) (entry_at b j) \<longleftrightarrow> j = k"
    and "attribute (decode_item (entry_at b k)) AND FAT_FILE_SUBDIRECTORY = 0"
  shows "\<exists>desc m'. fat16_open P m d path FILE_MODE_READ = Done (desc, m') \<and> objects_only m m' \<and>
    in_heap (kernel_heap m') desc \<and> room m' (r + 3) l \<and>
    (\<exists>i a. file_objects m' desc i a (decode_item (entry_at b k)) 0 \<and> holds m' [a, i, desc] (kmem_live m))"
proof -
  let ?e = "entry_at b k"
  have r3: "room m r (Suc (2 + l))" using assms(3) by (simp add: numeral_3_eq_3)
  obtain desc h1 where 1: "kzalloc m 8 = Done (desc, m\<lparr>kernel_heap := h1, bufs := (bufs m)(desc \<mapsto> replicate (unat (8 :: u32)) 0)\<rparr>)"
    "desc \<noteq> 0" "bufs m desc = None" "in_heap h1 desc" "in_heap h1 = in_heap (kernel_heap m)"
    "room (m\<lparr>kernel_heap := h1, bufs := (bufs m)(desc \<mapsto> replicate (unat (8 :: u32)) 0)\<rparr>) (Suc r) (2 + l)"
    "\<forall>A L. holds m A L \<longrightarrow> holds (m\<lparr>kernel_heap := h1, bufs := (bufs m)(desc \<mapsto> replicate (unat (8 :: u32)) 0)\<rparr>) (desc # A) L"
    by (rule room_object [OF r3, of 8]) auto
  define m1 where "m1 = m\<lparr>kernel_heap := h1, bufs := (bufs m)(desc \<mapsto> replicate (unat (8 :: u32)) 0)\<rparr>"
  note z = 1(1) [folded m1_def]
  have le: "bufs m \<subseteq>\<^sub>m bufs m1" using 1(3) by (auto simp: m1_def map_le_def)
  have l1: "root_lookup m1 f path name b n" using root_lookup_cong [OF assms(2) _ le] by (simp add: m1_def)
  have mo: "mounted m1 d f" by (rule mounted_cong [OF assms(1)]) (simp_all add: m1_def)
  have dir: "directory_in m1 (root_directory f) b n" and nm: "terminated name" "length name \<le> 108"
    using l1 by (simp_all add: root_lookup_def)
  have len: "length ?e = 32" using entry_length [OF dir assms(4)] .
  from new_file_item [OF 1(6) [folded m1_def] len assms(6), where P = P and d = d] obtain fi a h2 where
    2: "fat16_new_fat_item_for_directory_item P m1 d ?e = Done (fi, m1\<lparr>kernel_heap := h2, bufs := (bufs m1)(a \<mapsto> ?e),
      fat_items := (fat_items m1)(fi \<mapsto> \<lparr>item_ptr = a, item_type = FAT_ITEM_TYPE_FILE\<rparr>)\<rparr>)" "fi \<noteq> 0" "bufs m1 a = None"
    "in_heap h2 = in_heap (kernel_heap m1)"
    "room (m1\<lparr>kernel_heap := h2, bufs := (bufs m1)(a \<mapsto> ?e),
      fat_items := (fat_items m1)(fi \<mapsto> \<lparr>item_ptr = a, item_type = FAT_ITEM_TYPE_FILE\<rparr>)\<rparr>) (Suc r + 2) l"
    "\<forall>A L. holds m1 A L \<longrightarrow> holds (m1\<lparr>kernel_heap := h2, bufs := (bufs m1)(a \<mapsto> ?e),
      fat_items := (fat_items m1)(fi \<mapsto> \<lparr>item_ptr = a, item_type = FAT_ITEM_TYPE_FILE\<rparr>)\<rparr>) (a # fi # A) L" .
  define m2 where "m2 = m1\<lparr>kernel_heap := h2, bufs := (bufs m1)(a \<mapsto> ?e),
      fat_items := (fat_items m1)(fi \<mapsto> \<lparr>item_ptr = a, item_type = FAT_ITEM_TYPE_FILE\<rparr>)\<rparr>"
  have "directory_in m2 (root_directory f) b n" using dir 2(3) by (auto simp: directory_in_def m2_def)
  from find_single [OF dir nm assms(4) le0 assms(5) 2(1) [folded m2_def] this]
  have "fat16_find_item_in_directory P m1 d (root_directory f) name = Done (fi, m2)"
    by (simp add: fat16_find_item_in_directory_def)
  from directory_entry_eq [OF mo l1 this] have en: "fat16_get_directory_entry P m1 d path = Done (fi, m2)" .
  let ?m3 = "m2\<lparr>bufs := (bufs m2)(desc := None), fat_descriptors := (fat_descriptors m2)(desc \<mapsto> \<lparr>desc_item = fi, desc_pos = 0\<rparr>)\<rparr>"
  have "fat16_open P m d path FILE_MODE_READ = Done (desc, ?m3)"
    using z 1(2) en 2(2) by (simp add: fat16_open_def del: andthen_eq_Done)
  moreover have "a \<noteq> desc" using 2(3) by (auto simp: m1_def)
  then have "file_objects ?m3 desc fi a (decode_item ?e) 0" using len by (simp add: file_objects_def m2_def)
  moreover have "holds m [] (kmem_live m)" using assms(3) by (simp add: room_def holds_start)
  then have "holds m1 [desc] (kmem_live m)" using 1(7) by (simp add: m1_def)
  then have "holds m2 [a, fi, desc] (kmem_live m)" using 2(6) by (simp add: m2_def)
  then have "holds ?m3 [a, fi, desc] (kmem_live m)" by (rule holds_cong) auto
  moreover have "room ?m3 (r + 3) l" using room_cong [OF 2(5) [folded m2_def], of ?m3] by (auto simp: numeral_3_eq_3)
  moreover have "in_heap (kernel_heap ?m3) desc" and same: "in_heap (kernel_heap ?m3) = in_heap (kernel_heap m)"
    using 1(4,5) 2(4) by (simp_all add: m2_def m1_def)
  moreover have "?m3 = m\<lparr>kernel_heap := h2, bufs := bufs ?m3, fat_items := fat_items ?m3, fat_descriptors := fat_descriptors ?m3\<rparr>"
    by (simp add: m2_def m1_def)
  with same have "objects_only m ?m3" unfolding objects_only_def by blast
  ultimately show ?thesis by blast
qed

text \<open>No entry of that name: the descriptor is given back.\<close>

lemma open_missing:
  fixes m :: "('io, 'a) fatmem_scheme"
  assumes "mounted m d f" and "root_lookup m f path name b n" and "room m r 1"
    and "\<forall>j < n. \<not> named (cstring name) (entry_at b j)"
  shows "fat16_open P m d path FILE_MODE_READ = Done (ERROR (- EIO), m)"
proof -
  have ok: "kmem_ok m" and r1: "room m r (Suc 0)" using assms(3) by (simp_all add: room_def)
  obtain desc h1 where 1: "kzalloc m 8 = Done (desc, m\<lparr>kernel_heap := h1, bufs := (bufs m)(desc \<mapsto> replicate (unat (8 :: u32)) 0)\<rparr>)"
    "desc \<noteq> 0" "bufs m desc = None"
    by (rule room_object [OF r1, of 8]) auto
  define m1 where "m1 = m\<lparr>kernel_heap := h1, bufs := (bufs m)(desc \<mapsto> replicate (unat (8 :: u32)) 0)\<rparr>"
  note z = 1(1) [folded m1_def]
  have le: "bufs m \<subseteq>\<^sub>m bufs m1" using 1(3) by (auto simp: m1_def map_le_def)
  have l1: "root_lookup m1 f path name b n" using root_lookup_cong [OF assms(2) _ le] by (simp add: m1_def)
  have mo: "mounted m1 d f" by (rule mounted_cong [OF assms(1)]) (simp_all add: m1_def)
  have "directory_in m1 (root_directory f) b n" "terminated name" "length name \<le> 108"
    using l1 by (simp_all add: root_lookup_def)
  from find_nothing [OF this] assms(4)
  have "fat16_find_item_in_directory P m1 d (root_directory f) name = Done (0, m1)"
    by (simp add: fat16_find_item_in_directory_def)
  from entry_missing [OF mo l1 this] have en: "fat16_get_directory_entry P m1 d path = Done (0, m1)" .
  have "kfree m1 desc = Done m" using kzalloc_alloc [OF ok _ _ z] 1(2) by simp
  then show ?thesis using z 1(2) en by (simp add: fat16_open_def del: andthen_eq_Done)
qed

section \<open>A small file system\<close>

text \<open>
  The volume of \<open>sim_private\<close> with two entries in its root directory: another file's, and the entry of a file
  \<^verbatim>\<open>HI.TXT\<close> that starts at cluster 2. The path part at \<open>0x5000\<close> asks for \<open>name\<close>.
\<close>

definition sim_entries :: "u8 list" where
  "sim_entries = replicate 8 0x41 @ replicate 24 0x20 @
     [0x48, 0x49, 0x20, 0x20, 0x20, 0x20, 0x20, 0x20, 0x54, 0x58, 0x54] @ replicate 15 0 @ [2, 0, 0, 4, 0, 0]"

definition sim_volume :: fat_private where
  "sim_volume = sim_private\<lparr>root_directory := \<lparr>dir_item = 0x4000, dir_total = 2, sector_pos = 1, ending_sector_pos = 2\<rparr>,
     cluster_read_stream := 0x7000, fat_read_stream := 0x7010\<rparr>"

definition sim_root :: "u8 list \<Rightarrow> sim fatmem" where
  "sim_root name = (sim_fat 0)\<lparr>bufs := [0x4000 \<mapsto> sim_entries, 0x6000 \<mapsto> name],
     path_parts := [0x5000 \<mapsto> \<lparr>part = 0x6000, next_part = 0\<rparr>],
     streams := [0x7000 \<mapsto> \<lparr>pos = 0, stream_disk = 0x200000\<rparr>, 0x7010 \<mapsto> \<lparr>pos = 0, stream_disk = 0x200000\<rparr>],
     fat_privates := [0x1003000 \<mapsto> sim_volume], fat_items := Map.empty, fat_descriptors := Map.empty\<rparr>"

lemma sim_volume_same:
  "fat_entry img sim_volume = fat_entry img sim_private" "cluster_bytes sim_volume = cluster_bytes sim_private"
  "cluster_pos sim_volume = cluster_pos sim_private"
  by (auto simp: sim_volume_def sim_private_def fat_entry_def fat_base_def cluster_bytes_def cluster_pos_def fun_eq_iff)

lemma sim_volume_file:
  "file_bytes img sim_volume c j n = file_bytes img sim_private c j n" "chain_ok img sim_volume c n = chain_ok img sim_private c n"
  by (simp_all add: file_bytes_def file_byte_def [abs_def] chain_ok_def sim_volume_same)

lemma sim_entries:
  "entry_at sim_entries 0 = replicate 8 0x41 @ replicate 24 0x20"
  "entry_at sim_entries 1 = [0x48, 0x49, 0x20, 0x20, 0x20, 0x20, 0x20, 0x20, 0x54, 0x58, 0x54] @ replicate 15 0 @ [2, 0, 0, 4, 0, 0]"
  "length sim_entries = 64"
  by (simp_all add: entry_at_def sim_entries_def)

lemma sim_names:
  "named [0x68, 0x69, 0x2E, 0x74, 0x78, 0x74] (entry_at sim_entries 1)"
  "\<not> named [0x68, 0x69, 0x2E, 0x74, 0x78, 0x74] (entry_at sim_entries 0)"
  "\<not> named [0x68, 0x69] (entry_at sim_entries 0)" "\<not> named [0x68, 0x69] (entry_at sim_entries 1)"
  by code_simp+

lemma sim_root:
  "snd (disk_io (sim_root name)) = None" "mounted (sim_root name) 0x200000 sim_volume" "room (sim_root name) 0 3"
proof -
  show "snd (disk_io (sim_root name)) = None" using sim_fat(2) [of 0] by (simp add: sim_root_def)
  show "mounted (sim_root name) 0x200000 sim_volume"
    by (simp add: sim_root_def mounted_def stream_on_def sim_volume_same sim_fat_chain)
      (simp add: sim_volume_def sim_fat_def sim_dmem_def dmem.extend_def fatmem.fields_def)
  show "room (sim_root name) 0 3"
    by (simp add: sim_root_def room_def kmem_ok_def below_def in_heap_def sim_fat_def sim_dmem_def dmem.extend_def
        boot_heap_ok boot_heap_simps)
qed

lemma all_less_two: "(\<forall>j < 2. Q j) \<longleftrightarrow> Q 0 \<and> Q (Suc 0)"
  by (auto simp: numeral_2_eq_2 less_Suc_eq)

lemma sim_root_lookup:
  "terminated name \<Longrightarrow> length name \<le> 108 \<Longrightarrow> root_lookup (sim_root name) sim_volume 0x5000 name sim_entries 2"
  by (simp add: root_lookup_def directory_in_def sim_root_def sim_volume_def sim_entries)

section \<open>Properties\<close>

text \<open>
  C29. Opening a file that is not there: when no entry of the root directory has the name, \<open>fat16_open\<close> returns the
  error \<open>- EIO\<close>, and the kernel's memory is exactly what it was before the call, so nothing is leaked.
\<close>

theorem fat16_open_missing:
  assumes "mounted m d f" and "root_lookup m f path name b n" and "room m r 1"
    and "\<forall>j < n. \<not> named (cstring name) (entry_at b j)"
  shows "fat16_open P m d path FILE_MODE_READ = Done (ERROR (- EIO), m)"
  by (rule open_missing [OF assms])

theorem fat16_open_missing_witness:
  "fat16_open (sim_ports fat_image) (sim_root [0x68, 0x69, 0]) 0x200000 0x5000 FILE_MODE_READ =
    Done (ERROR (- EIO), sim_root [0x68, 0x69, 0])"
proof -
  let ?name = "[0x68, 0x69, 0] :: u8 list"
  have nm: "root_lookup (sim_root ?name) sim_volume 0x5000 ?name sim_entries 2" by (rule sim_root_lookup) (simp_all add: terminated_def)
  have "room (sim_root ?name) 0 1" using sim_root(3) [of ?name] by (simp add: room_def)
  from fat16_open_missing [OF sim_root(2) nm this] sim_names(3,4) show ?thesis
    by (simp add: all_less_two)
qed

end
