(* ===== verification/File_Access.thy ===== *)
theory File_Access
  imports Files Fat16_Open
begin

text \<open>
  Reading a file the way the loader and the system calls do: \<open>fopen\<close> of a path and \<open>fread\<close> of the descriptor it returns
  (\<^verbatim>\<open>src/fs/file.c\<close>), over the path parser, the descriptor table, FAT16, the streams and the disk driver.
\<close>

section \<open>The path\<close>

lemma path_head_component: "path_components s = [x] \<Longrightarrow> x = path_head s"
  by (simp add: path_components.simps [of s] split: if_splits)

lemma padded_string:
  assumes "drive_path pth d rest" and "path_components rest = [x]"
  shows "terminated (padded x)" and "cstring (padded x) = x" and "length (padded x) = 108"
proof -
  have tr: "terminated rest" using assms(1) by (simp add: drive_path_def)
  have "length (cstring pth) = 3 + length (cstring rest)"
    using assms(1) isdigit_nonzero by (auto simp: drive_path_def)
  moreover have "length x \<le> length (cstring rest)" using path_head_short [OF tr] path_head_component [OF assms(2)] by simp
  moreover have "length (cstring pth) \<le> 108" using assms(1) by (auto simp: drive_path_def conf)
  ultimately have len: "length x < 108" by simp
  then have "108 - length x = Suc (107 - length x)" by simp
  then have p: "padded x = x @ 0 # replicate (107 - length x) 0" by (simp add: padded_def conf)
  have "0 \<notin> set x" unfolding path_head_component [OF assms(2)] path_head_def
    by (auto simp: component_char_def dest: set_takeWhileD)
  then show "terminated (padded x)" "cstring (padded x) = x" unfolding p by (simp_all add: cstring_append terminated_append)
  show "length (padded x) = 108" using len by (simp add: p)
qed

text \<open>Parsing a path of one component leaves everything in place that an open needs.\<close>

lemma parse_single:
  fixes m :: "('io, 'a) fatmem_scheme"
  assumes "fs_ok m" and "drive_path pth d rest" and "path_components rest = [x]" and "fs_room m r (4 + l)"
    and "directory_in m (root_directory f) b n"
  obtains root a hp ns where "pathparser_parse m pth 0 = Done (root, parsed m hp root (tonumericdigit d) ns)"
    and "root \<noteq> 0" and "a \<noteq> 0" and "head_addr ns = a" and "in_heap hp = in_heap (kernel_heap m)"
    and "root_lookup (parsed m hp root (tonumericdigit d) ns) f a (padded x) b n"
    and "room (parsed m hp root (tonumericdigit d) ns) (r + 3) (l + 1)"
    and "heap_live hp = kmem_live m \<union> (\<lambda>p. (unat p, 4096)) ` set (root # objects ns)"
    and "distinct (root # objects ns)" and "length (objects ns) = 2"
    and "kmem_live m \<inter> (\<lambda>p. (unat p, 4096)) ` set (root # objects ns) = {}"
proof -
  have room: "fs_room m r (2 * length (path_components rest) + 2)" using assms(3,4) by (simp add: fs_room_def)
  from pathparser_parse_eq [OF assms(1,2) room, of 0] assms(3) obtain root ns hp where p:
    "pathparser_parse m pth 0 = Done (root, parsed m hp root (tonumericdigit d) ns)" "map (\<lambda>(a, q, x). x) ns = [x]"
    "new_pages m hp (root # objects ns) (r + 3)" by (auto simp: numeral_3_eq_3)
  from p(2) obtain a q where ns: "ns = [(a, q, x)]" by auto
  let ?m1 = "parsed m hp root (tonumericdigit d) ns"
  note str = padded_string [OF assms(2,3)]
  have nz: "root \<noteq> 0" "a \<noteq> 0" using new_pages_nonzero [OF p(3)] by (auto simp: ns)
  have "dir_item (root_directory f) \<noteq> q"
    using assms(5) new_pages_None(1) [OF assms(1) p(3), of q] by (auto simp: directory_in_def ns)
  then have "root_lookup ?m1 f a (padded x) b n"
    using str assms(5) by (simp add: root_lookup_def parsed_def ns strings_def directory_in_def)
  moreover have "kmem_ok ?m1" using parsed_ok [OF assms(1) p(3)] by (simp add: fs_ok_def)
  then have "room ?m1 (r + 3) (l + 1)"
    using p(3) assms(4) by (simp add: room_def new_pages_def parsed_def below_def fs_room_def)
  moreover have "in_heap hp = in_heap (kernel_heap m)" using p(3) by (intro in_heap_cong) (simp_all add: new_pages_def)
  moreover have "heap_live hp = kmem_live m \<union> (\<lambda>p. (unat p, 4096)) ` set (root # objects ns)" "distinct (root # objects ns)"
    "kmem_live m \<inter> (\<lambda>p. (unat p, 4096)) ` set (root # objects ns) = {}"
    using p(3) new_pages_disjoint [OF p(3)] by (simp_all only: new_pages_def)
  moreover have "length (objects ns) = 2" by (simp add: ns objects_def)
  ultimately show thesis using that p(1) nz by (simp add: ns)
qed

section \<open>The descriptor\<close>

lemma new_descriptor:
  fixes m :: "('io, 'a) filemem_scheme"
  assumes "room m r (1 + l)" and "length (file_descriptors m) = 512" and "i < 512" and "file_descriptors m ! i = 0"
    and "\<forall>j < i. file_descriptors m ! j \<noteq> 0"
  obtains fd hp where "file_new_descriptor m = Done (0, fd, m\<lparr>kernel_heap := hp, file_descriptors := (file_descriptors m)[i := fd],
      fdescs := (fdescs m)(fd \<mapsto> \<lparr>fd_index = int i + 1, fd_filesystem = 0, fd_private = 0, fd_disk = 0\<rparr>)\<rparr>)"
    and "fd \<noteq> 0" and "room (m\<lparr>kernel_heap := hp\<rparr>) (r + 1) l" and "\<forall>A L. holds m A L \<longrightarrow> holds (m\<lparr>kernel_heap := hp\<rparr>) (fd # A) L"
proof -
  have r: "room m r (Suc l)" using assms(1) by simp
  obtain fd hp where z: "kzalloc m 16 = Done (fd, m\<lparr>kernel_heap := hp, bufs := (bufs m)(fd \<mapsto> replicate (unat (16 :: u32)) 0)\<rparr>)"
    "fd \<noteq> 0" "bufs m fd = None"
    "room (m\<lparr>kernel_heap := hp, bufs := (bufs m)(fd \<mapsto> replicate (unat (16 :: u32)) 0)\<rparr>) (Suc r) l"
    "\<forall>A L. holds m A L \<longrightarrow> holds (m\<lparr>kernel_heap := hp, bufs := (bufs m)(fd \<mapsto> replicate (unat (16 :: u32)) 0)\<rparr>) (fd # A) L"
    by (rule room_object [OF r, of 16]) auto
  have ff: "first_free (file_descriptors m) 0 512 = Done (Some i)"
    by (rule first_free_found) (use assms in auto)
  then have "file_new_descriptor m = Done (0, fd, m\<lparr>kernel_heap := hp, file_descriptors := (file_descriptors m)[i := fd],
      fdescs := (fdescs m)(fd \<mapsto> \<lparr>fd_index = int i + 1, fd_filesystem = 0, fd_private = 0, fd_disk = 0\<rparr>)\<rparr>)"
    using z assms(2,3)
    by (simp add: file_new_descriptor_def PANDORA_MAX_FILE_DESCRIPTORS_def wr_in fun_upd_idem del: andthen_eq_Done wr_eq_Done)
  moreover have "room (m\<lparr>kernel_heap := hp\<rparr>) (r + 1) l" using room_cong [OF z(4), of "m\<lparr>kernel_heap := hp\<rparr>"] by auto
  moreover have "holds (m\<lparr>kernel_heap := hp\<rparr>) (fd # A) L" if "holds m A L" for A L
    using holds_cong [OF z(5) [rule_format, OF that], of "m\<lparr>kernel_heap := hp\<rparr>"] by auto
  ultimately show thesis using that z(2) by blast
qed

text \<open>The steps of \<open>fopen\<close> when none of them fails.\<close>

lemma fopen_steps:
  fixes m :: "('io, 'a) filemem_scheme"
  assumes "pathparser_parse m pth 0 = Done (root, m1)" and "root \<noteq> 0"
    and "path_roots m1 root = Some \<lparr>drive_no = 0, first = a\<rparr>" and "a \<noteq> 0"
    and "disk_at m1 \<noteq> 0" and "filesystem (the_disk m1) = fat16_fs_at m1" and "fat16_fs_at m1 \<noteq> 0"
    and "fat16_open P m1 (disk_at m1) a FILE_MODE_READ = Done (desc, m2)" and "\<not> ISERR desc"
    and "file_new_descriptor m2 = Done (0, fd, m3)" and "fdescs m3 fd = Some \<lparr>fd_index = int i + 1, fd_filesystem = 0, fd_private = 0, fd_disk = 0\<rparr>"
    and "the_disk m3 = the_disk m1" and "disk_at m3 = disk_at m1"
  shows "fopen P m pth [0x72, 0] = Done (int i + 1, m3\<lparr>fdescs := (fdescs m3)(fd \<mapsto>
    \<lparr>fd_index = int i + 1, fd_filesystem = fat16_fs_at m1, fd_private = desc, fd_disk = disk_at m1\<rparr>)\<rparr>)"
proof -
  have mode: "file_get_mode_by_string [0x72, 0] = Done FILE_MODE_READ" by (simp add: file_get_mode_by_string_def)
  have call: "fs_call m1 (filesystem (the_disk m1)) q = q" for q :: "(addr \<times> ('io, 'a) filemem_scheme) run"
    using assms(6,7) by (simp add: fs_call_def)
  show ?thesis
    unfolding fopen_def assms(1) andthen.simps prod.case if_not_P [OF assms(2)] deref_Some [of "path_roots m1", OF assms(3)]
    using assms(4-13) mode call
    by (simp add: Let_def disk_get_def disk_object_def deref_Some fopen_out_def conf del: andthen_eq_Done)
qed

lemma fread_steps:
  assumes "file_get_descriptor m fd = Done desc" and "desc \<noteq> 0" and "0 < fd" and "sz \<noteq> 0"
    and "fdescs m desc = Some ds" and "fd_filesystem ds = fat16_fs_at m" and "fat16_fs_at m \<noteq> 0"
  shows "fread P m out sz 1 fd = fat16_read P m (fd_disk ds) (fd_private ds) sz 1 out"
  using assms by (simp add: fread_def fs_call_def deref_Some del: andthen_eq_Done)

section \<open>Opening\<close>

text \<open>
  A volume is mounted as drive 0: its root directory is the one of \<open>n\<close> entries in \<open>b\<close>, and the kernel heap lies
  below 2 GB, so that its addresses are not taken for error codes.
\<close>

definition volume :: "('io, 'a) fatmem_scheme \<Rightarrow> fat_private \<Rightarrow> u8 list \<Rightarrow> nat \<Rightarrow> bool" where
  "volume m f b n \<longleftrightarrow> mounted m (disk_at m) f \<and> disk_at m \<noteq> 0 \<and> filesystem (the_disk m) = fat16_fs_at m \<and> fat16_fs_at m \<noteq> 0 \<and>
     directory_in m (root_directory f) b n \<and> unat (saddr (kernel_heap m)) + 4096 * heap_blocks (kernel_heap m) \<le> 2 ^ 31"

lemma no_error:
  assumes "volume m f b n" and "in_heap (kernel_heap m) p"
  shows "\<not> ISERR p"
proof -
  have "unat p < 2 ^ 31" using assms by (simp add: volume_def in_heap_def)
  from sint_u32_small [OF this] show ?thesis by (simp add: ISERR_def)
qed

text \<open>The slot \<open>i\<close> is the first free one of the descriptor table.\<close>

definition first_slot :: "('io, 'a) filemem_scheme \<Rightarrow> nat \<Rightarrow> bool" where
  "first_slot m i \<longleftrightarrow> length (file_descriptors m) = 512 \<and> i < 512 \<and> file_descriptors m ! i = 0 \<and>
     (\<forall>j < i. file_descriptors m ! j \<noteq> 0)"

text \<open>
  The descriptor number \<open>i + 1\<close> stands for an open file; its four objects are all the kernel has allocated besides \<open>L\<close>.
\<close>

definition opened :: "('io, 'a) filemem_scheme \<Rightarrow> nat \<Rightarrow> fat_directory_item \<Rightarrow> nat \<Rightarrow> (nat \<times> nat) set \<Rightarrow> bool" where
  "opened m i it j L \<longleftrightarrow> (\<exists>p desc fi a. length (file_descriptors m) = 512 \<and> file_descriptors m ! i = p \<and> p \<noteq> 0 \<and>
     fdescs m p = Some \<lparr>fd_index = int i + 1, fd_filesystem = fat16_fs_at m, fd_private = desc, fd_disk = disk_at m\<rparr> \<and>
     file_objects m desc fi a it j \<and> holds m [p, a, fi, desc] L)"

text \<open>What \<open>fopen\<close> and \<open>fclose\<close> change: the heap, the objects in it and the descriptor table.\<close>

definition files_only :: "('io, 'a) filemem_scheme \<Rightarrow> ('io, 'a) filemem_scheme \<Rightarrow> bool" where
  "files_only m m' \<longleftrightarrow> (\<exists>hp bs rs ps is ds t fds. m' = m\<lparr>kernel_heap := hp, bufs := bs, path_roots := rs, path_parts := ps,
     fat_items := is, fat_descriptors := ds, file_descriptors := t, fdescs := fds\<rparr>)"

lemma card_pages: "distinct A \<Longrightarrow> card ((\<lambda>p :: addr. (unat p, n :: nat)) ` set A) = length A"
  by (subst card_image) (auto simp: inj_on_def distinct_card word_unat_eq_iff)

lemma fopen_opens:
  fixes m :: "('io, 'a) filemem_scheme"
  assumes "fs_ok m" and "fs_room m r (7 + l)" and "volume m f b n" and "first_slot m i"
    and "drive_path pth 0x30 rest" and "path_components rest = [x]" and "k < n" and "\<forall>j < n. named x (entry_at b j) \<longleftrightarrow> j = k"
    and "attribute (decode_item (entry_at b k)) AND FAT_FILE_SUBDIRECTORY = 0"
  shows "\<exists>m' p R. fopen P m pth [0x72, 0] = Done (int i + 1, m') \<and> opened m' i (decode_item (entry_at b k)) 0 (kmem_live m \<union> R) \<and>
    card R = 3 \<and> R \<inter> kmem_live m = {} \<and> mounted m' (disk_at m') f \<and> fat16_fs_at m' \<noteq> 0 \<and> files_only m m' \<and>
    file_descriptors m' = (file_descriptors m)[i := p] \<and> room m' (r + 7) l"
proof -
  have v: "mounted m (disk_at m) f" "disk_at m \<noteq> 0" "filesystem (the_disk m) = fat16_fs_at m" "fat16_fs_at m \<noteq> 0"
    "directory_in m (root_directory f) b n" using assms(3) by (simp_all add: volume_def)
  have r7: "fs_room m r (4 + (3 + l))" using assms(2) by simp
  obtain root a hp ns where p: "pathparser_parse m pth 0 = Done (root, parsed m hp root (tonumericdigit 0x30) ns)"
    "root \<noteq> 0" "a \<noteq> 0" "head_addr ns = a" "in_heap hp = in_heap (kernel_heap m)"
    "root_lookup (parsed m hp root (tonumericdigit 0x30) ns) f a (padded x) b n"
    "room (parsed m hp root (tonumericdigit 0x30) ns) (r + 3) (3 + l + 1)"
    "heap_live hp = kmem_live m \<union> (\<lambda>p. (unat p, 4096)) ` set (root # objects ns)" "distinct (root # objects ns)"
    "length (objects ns) = 2" "kmem_live m \<inter> (\<lambda>p. (unat p, 4096)) ` set (root # objects ns) = {}"
    by (rule parse_single [OF assms(1,5,6) r7 v(5)])
  define m1 where "m1 = parsed m hp root (tonumericdigit 0x30) ns"
  let ?R = "(\<lambda>p. (unat p, 4096 :: nat)) ` set (root # objects ns)" and ?it = "decode_item (entry_at b k)"
  have same: "disk_at m1 = disk_at m" "the_disk m1 = the_disk m" "fat16_fs_at m1 = fat16_fs_at m"
    "file_descriptors m1 = file_descriptors m" "kernel_heap m1 = hp" "path_roots m1 root = Some \<lparr>drive_no = 0, first = a\<rparr>"
    "kmem_live m1 = kmem_live m \<union> ?R"
    using p(4,8) by (simp_all add: m1_def parsed_def tonumericdigit_def kmem_live_def)
  have mo1: "mounted m1 (disk_at m) f" by (rule mounted_cong [OF v(1)]) (simp_all add: m1_def parsed_def)
  have nm: "\<forall>j < n. named (cstring (padded x)) (entry_at b j) \<longleftrightarrow> j = k" using assms(8) padded_string(2) [OF assms(5,6)] by simp
  have r1: "room m1 (r + 3) (3 + (1 + l))" using p(7) by (simp add: m1_def add.commute)
  from open_found [OF mo1 p(6) [folded m1_def] r1 assms(7) nm assms(9), where P = P] obtain desc fi c m2 where
    o: "fat16_open P m1 (disk_at m) a FILE_MODE_READ = Done (desc, m2)" "objects_only m1 m2"
      "in_heap (kernel_heap m2) desc" "room m2 (r + 3 + 3) (1 + l)" "file_objects m2 desc fi c ?it 0"
      "holds m2 [c, fi, desc] (kmem_live m \<union> ?R)" unfolding same(7) by blast
  from o(2) have same2: "disk_at m2 = disk_at m" "the_disk m2 = the_disk m" "fat16_fs_at m2 = fat16_fs_at m"
    "file_descriptors m2 = file_descriptors m" "in_heap (kernel_heap m2) = in_heap (kernel_heap m)"
    by (auto simp: objects_only_def same p(5))
  have noerr: "\<not> ISERR desc" using no_error [OF assms(3)] o(3) by (simp add: same2)
  have fs: "length (file_descriptors m2) = 512" "i < 512" "file_descriptors m2 ! i = 0" "\<forall>j < i. file_descriptors m2 ! j \<noteq> 0"
    using assms(4) by (simp_all add: first_slot_def same2)
  obtain fd h3 where n: "file_new_descriptor m2 = Done (0, fd, m2\<lparr>kernel_heap := h3, file_descriptors := (file_descriptors m2)[i := fd],
      fdescs := (fdescs m2)(fd \<mapsto> \<lparr>fd_index = int i + 1, fd_filesystem = 0, fd_private = 0, fd_disk = 0\<rparr>)\<rparr>)" "fd \<noteq> 0"
    "room (m2\<lparr>kernel_heap := h3\<rparr>) (r + 3 + 3 + 1) l" "\<forall>A L. holds m2 A L \<longrightarrow> holds (m2\<lparr>kernel_heap := h3\<rparr>) (fd # A) L"
    by (rule new_descriptor [OF o(4) fs])
  let ?m3 = "m2\<lparr>kernel_heap := h3, file_descriptors := (file_descriptors m2)[i := fd],
    fdescs := (fdescs m2)(fd \<mapsto> \<lparr>fd_index = int i + 1, fd_filesystem = 0, fd_private = 0, fd_disk = 0\<rparr>)\<rparr>"
  let ?m4 = "?m3\<lparr>fdescs := (fdescs ?m3)(fd \<mapsto>
    \<lparr>fd_index = int i + 1, fd_filesystem = fat16_fs_at m1, fd_private = desc, fd_disk = disk_at m1\<rparr>)\<rparr>"
  have "fopen P m pth [0x72, 0] = Done (int i + 1, ?m4)"
    by (rule fopen_steps [OF p(1) [folded m1_def] p(2) same(6) p(3) _ _ _ _ noerr n(1)])
      (use o(1) v(2-4) in \<open>simp_all add: same same2\<close>)
  moreover have "file_objects ?m4 desc fi c ?it 0" using o(5) by (simp add: file_objects_def)
  moreover have "holds (m2\<lparr>kernel_heap := h3\<rparr>) [fd, c, fi, desc] (kmem_live m \<union> ?R)" using n(4) o(6) by blast
  then have "holds ?m4 [fd, c, fi, desc] (kmem_live m \<union> ?R)" by (rule holds_cong) auto
  ultimately have "opened ?m4 i ?it 0 (kmem_live m \<union> ?R)" using n(2) fs by (auto simp: opened_def same same2)
  moreover have "card ?R = 3" using card_pages [OF p(9), of 4096] p(10) by simp
  moreover have "?R \<inter> kmem_live m = {}" using p(11) by blast
  moreover have "mounted ?m4 (disk_at ?m4) f"
    using mounted_cong [OF objects_only_mounted [OF o(2) mo1], of ?m4] by (simp add: same2)
  moreover have "r + 3 + 3 + 1 = r + 7" by simp
  then have "room ?m4 (r + 7) l" using room_cong [OF n(3), of ?m4] by (simp add: add.commute)
  moreover obtain h2 b2 its ds where "m2 = m1\<lparr>kernel_heap := h2, bufs := b2, fat_items := its, fat_descriptors := ds\<rparr>"
    using o(2) by (auto simp: objects_only_def)
  then have "?m4 = m\<lparr>kernel_heap := kernel_heap ?m4, bufs := bufs ?m4, path_roots := path_roots ?m4, path_parts := path_parts ?m4,
     fat_items := fat_items ?m4, fat_descriptors := fat_descriptors ?m4, file_descriptors := file_descriptors ?m4, fdescs := fdescs ?m4\<rparr>"
    by (simp add: m1_def parsed_def)
  then have "files_only m ?m4" unfolding files_only_def by blast
  ultimately show ?thesis
    using v(4) \<open>fopen P m pth [0x72, 0] = _\<close> by (intro exI [of _ ?m4] exI [of _ fd] exI [of _ ?R]) (simp add: same2)
qed

section \<open>The open file\<close>

lemma opened_descriptor:
  assumes "opened m i it j L" and "i < 511"
  obtains p desc fi a where "file_get_descriptor m (int i + 1) = Done p" and "p \<noteq> 0" and "file_descriptors m ! i = p"
    and "fdescs m p = Some \<lparr>fd_index = int i + 1, fd_filesystem = fat16_fs_at m, fd_private = desc, fd_disk = disk_at m\<rparr>"
    and "file_objects m desc fi a it j" and "holds m [p, a, fi, desc] L" and "length (file_descriptors m) = 512"
proof -
  from assms(1) obtain p desc fi a where o: "length (file_descriptors m) = 512" "file_descriptors m ! i = p" "p \<noteq> 0"
    "fdescs m p = Some \<lparr>fd_index = int i + 1, fd_filesystem = fat16_fs_at m, fd_private = desc, fd_disk = disk_at m\<rparr>"
    "file_objects m desc fi a it j" "holds m [p, a, fi, desc] L" by (auto simp: opened_def)
  have "file_get_descriptor m (int i + 1) = Done p"
    using o(1,2) assms(2) by (auto simp: file_get_descriptor_def PANDORA_MAX_FILE_DESCRIPTORS_def rd_def)
  with that o show thesis by blast
qed

lemma fread_opened:
  assumes "ata_drive P img idle" and "idle (disk_io m)" and "mounted m (disk_at m) f" and "fat16_fs_at m \<noteq> 0"
    and "opened m i it 0 L" and "i < 511" and "chain_ok img f (first_cluster it) N" and "0 < N"
    and "0 < c" and "c \<le> cluster_bytes f * N" and "c \<le> length out" and "c < 2 ^ 31"
  shows "\<exists>m'. fread P m out (of_nat c) 1 (int i + 1) = Done (1, file_bytes img f (first_cluster it) 0 c @ drop c out, m') \<and>
    opened m' i it c L \<and> (\<exists>io str ds. m' = m\<lparr>disk_io := io, streams := str, fat_descriptors := ds\<rparr>)"
proof -
  obtain p desc fi a where o: "file_get_descriptor m (int i + 1) = Done p" "p \<noteq> 0" "file_descriptors m ! i = p"
    "fdescs m p = Some \<lparr>fd_index = int i + 1, fd_filesystem = fat16_fs_at m, fd_private = desc, fd_disk = disk_at m\<rparr>"
    "file_objects m desc fi a it 0" "holds m [p, a, fi, desc] L" "length (file_descriptors m) = 512"
    by (rule opened_descriptor [OF assms(5,6)])
  have "(of_nat c :: u32) \<noteq> 0" using assms(9,12) by (simp add: word_of_nat_eq_0_iff nat_dvd_not_less)
  then have f: "fread P m out (of_nat c) 1 (int i + 1) = fat16_read P m (disk_at m) desc (of_nat c) 1 out"
    using fread_steps [of m "int i + 1" p "of_nat c" _ P out] o(1,2,4) assms(4) by simp
  have "open_file m desc it 0" using o(5) by (auto simp: open_file_def)
  with read_open_file [OF assms(1-3) _ assms(7,8), of desc c out] assms(10-12) obtain m' where
    r: "fat16_read P m (disk_at m) desc (of_nat c) 1 out = Done (1, file_bytes img f (first_cluster it) 0 c @ drop c out, m')"
      "after_read m desc c m'" by auto
  from r(2) obtain io str ds where m': "m' = m\<lparr>disk_io := io, streams := str, fat_descriptors := ds\<rparr>" by (auto simp: after_read_def)
  have "file_objects m' desc fi a it c" by (rule after_read_objects [OF r(2) o(5)])
  moreover have "holds m' [p, a, fi, desc] L" by (rule holds_cong [OF o(6)]) (simp_all add: m')
  ultimately have "opened m' i it c L" using o(2-4,7) unfolding opened_def by (simp add: m') blast
  with f r(1) m' show ?thesis by auto
qed

lemma fstat_opened:
  assumes "opened m i it j L" and "i < 511" and "fat16_fs_at m \<noteq> 0"
  shows "\<exists>fl. fstat m (int i + 1) st = Done (0, \<lparr>stat_flags = fl, stat_filesize = filesize it\<rparr>)"
proof -
  obtain p desc fi a where o: "file_get_descriptor m (int i + 1) = Done p" "p \<noteq> 0" "file_descriptors m ! i = p"
    "fdescs m p = Some \<lparr>fd_index = int i + 1, fd_filesystem = fat16_fs_at m, fd_private = desc, fd_disk = disk_at m\<rparr>"
    "file_objects m desc fi a it j" by (rule opened_descriptor [OF assms(1,2)])
  from o(5) obtain b where b: "fat_descriptors m desc = Some \<lparr>desc_item = fi, desc_pos = of_nat j\<rparr>"
    "fat_items m fi = Some \<lparr>item_ptr = a, item_type = FAT_ITEM_TYPE_FILE\<rparr>" "bufs m a = Some b" "32 \<le> length b"
    "decode_item (take 32 b) = it" by (auto simp: file_objects_def)
  then show ?thesis
    using o(1,2,4) assms(3)
    by (simp add: fstat_def fs_call_def fat16_stat_def descriptor_item_def sub_object_def deref_Some del: andthen_eq_Done)
qed

text \<open>Freeing one object of those held.\<close>

lemma kfree_holds:
  fixes m :: "('io, 'a) fatmem_scheme"
  assumes "holds m (p # A) L"
  obtains hp where "kfree m p = Done (m\<lparr>kernel_heap := hp, bufs := (bufs m)(p := None)\<rparr>)"
    and "\<And>m' :: ('io, 'a) fatmem_scheme. kernel_heap m' = hp \<Longrightarrow> dom (bufs m') \<subseteq> dom (bufs m) - {p} \<Longrightarrow> holds m' A L"
proof -
  have ok: "kmem_ok m" "(unat p, 4096) \<in> kmem_live m" using assms by (simp_all add: holds_def)
  obtain hp where f: "kfree m p = Done (m\<lparr>kernel_heap := hp, bufs := (bufs m)(p := None)\<rparr>)" "freed m hp [p]"
    by (rule kfree_fs [OF ok])
  have "holds m' A L" if "kernel_heap m' = hp" "dom (bufs m') \<subseteq> dom (bufs m) - {p}" for m' :: "('io, 'a) fatmem_scheme"
  proof -
    have "kmem_ok m'" by (rule freed_ok [OF ok(1) f(2) that(1)]) (use that ok(2) in auto)
    moreover have "kmem_live m' = L \<union> (\<lambda>p. (unat p, 4096)) ` set A"
      using assms f(2) that(1) unfolding holds_def freed_def kmem_live_def
      by (auto dest: word_unat_eq_iff [THEN iffD2])
    ultimately show ?thesis using assms unfolding holds_def by auto
  qed
  with that f(1) show thesis by blast
qed

text \<open>Closing gives the four objects back, and nothing else.\<close>

lemma fat16_close_holds:
  fixes m :: "('io, 'a) fatmem_scheme"
  assumes "file_objects m desc fi a it j" and "holds m (a # fi # desc # A) L"
  obtains hp where "fat16_close m desc = Done (0, m\<lparr>kernel_heap := hp, bufs := (bufs m)(a := None, fi := None, desc := None),
      fat_items := (fat_items m)(fi := None), fat_descriptors := (fat_descriptors m)(desc := None)\<rparr>)"
    and "\<And>m' :: ('io, 'a) fatmem_scheme. kernel_heap m' = hp \<Longrightarrow> dom (bufs m') \<subseteq> dom (bufs m) - {a, fi, desc} \<Longrightarrow> holds m' A L"
proof -
  from assms(1) have o: "fat_descriptors m desc = Some \<lparr>desc_item = fi, desc_pos = of_nat j\<rparr>"
    "fat_items m fi = Some \<lparr>item_ptr = a, item_type = FAT_ITEM_TYPE_FILE\<rparr>" by (auto simp: file_objects_def)
  have ty: "FAT_ITEM_TYPE_FILE \<noteq> FAT_ITEM_TYPE_DIRECTORY" by (simp add: conf)
  obtain h1 where 1: "kfree m a = Done (m\<lparr>kernel_heap := h1, bufs := (bufs m)(a := None)\<rparr>)"
    "\<And>m' :: ('io, 'a) fatmem_scheme. kernel_heap m' = h1 \<Longrightarrow> dom (bufs m') \<subseteq> dom (bufs m) - {a} \<Longrightarrow> holds m' (fi # desc # A) L"
    by (rule kfree_holds [OF assms(2)]) blast
  let ?m1 = "m\<lparr>kernel_heap := h1, bufs := (bufs m)(a := None)\<rparr>"
  have "holds ?m1 (fi # desc # A) L" by (rule 1(2)) auto
  then obtain h2 where 2: "kfree ?m1 fi = Done (?m1\<lparr>kernel_heap := h2, bufs := (bufs ?m1)(fi := None)\<rparr>)"
    "\<And>m' :: ('io, 'a) fatmem_scheme. kernel_heap m' = h2 \<Longrightarrow> dom (bufs m') \<subseteq> dom (bufs ?m1) - {fi} \<Longrightarrow> holds m' (desc # A) L"
    by (rule kfree_holds) blast
  let ?m2 = "m\<lparr>kernel_heap := h2, bufs := (bufs m)(a := None, fi := None), fat_items := (fat_items m)(fi := None)\<rparr>"
  have "holds ?m2 (desc # A) L" by (rule 2(2)) auto
  then obtain h3 where 3: "kfree ?m2 desc = Done (?m2\<lparr>kernel_heap := h3, bufs := (bufs ?m2)(desc := None)\<rparr>)"
    "\<And>m' :: ('io, 'a) fatmem_scheme. kernel_heap m' = h3 \<Longrightarrow> dom (bufs m') \<subseteq> dom (bufs ?m2) - {desc} \<Longrightarrow> holds m' A L"
    by (rule kfree_holds) blast
  have "fat16_fat_item_free m fi = Done ?m2"
    using o(2) 1(1) 2(1) ty by (simp add: fat16_fat_item_free_def deref_Some del: andthen_eq_Done)
  then have "fat16_close m desc = Done (0, m\<lparr>kernel_heap := h3, bufs := (bufs m)(a := None, fi := None, desc := None),
      fat_items := (fat_items m)(fi := None), fat_descriptors := (fat_descriptors m)(desc := None)\<rparr>)"
    using o(1) 3(1) by (simp add: fat16_close_def fat16_free_file_descriptor_def deref_Some del: andthen_eq_Done)
  moreover have "holds m' A L" if "kernel_heap m' = h3" "dom (bufs m') \<subseteq> dom (bufs m) - {a, fi, desc}"
    for m' :: "('io, 'a) fatmem_scheme"
    by (rule 3(2)) (use that in auto)
  ultimately show thesis using that by blast
qed

text \<open>An object outside of those held is none of them.\<close>

lemma holds_apart:
  assumes "holds m A L" and "(unat q, k) \<in> L"
  shows "q \<notin> set A"
proof
  assume "q \<in> set A"
  then have l: "(unat q, 4096) \<in> kmem_live m" "(unat q, k) \<in> kmem_live m" using assms by (auto simp: holds_def)
  have ok: "kmem_ok m" using assms(1) by (simp add: holds_def)
  have "(unat q, k) = (unat q, 4096)"
    using kernel.live_disjoint [OF ok l] kernel.live_positive [OF ok l(1)] kernel.live_positive [OF ok l(2)] by auto
  with assms \<open>q \<in> set A\<close> show False by (auto simp: holds_def)
qed

lemma fclose_opened:
  fixes m :: "('io, 'a) filemem_scheme"
  assumes "opened m i it j L" and "i < 511" and "fat16_fs_at m \<noteq> 0"
  shows "\<exists>m'. fclose m (int i + 1) = Done (0, m') \<and> kmem_ok m' \<and> kmem_live m' = L \<and> files_only m m' \<and>
    file_descriptors m' = (file_descriptors m)[i := 0] \<and> (\<forall>q k. (unat q, k) \<in> L \<longrightarrow> bufs m' q = bufs m q)"
proof -
  obtain p desc fi a where o: "file_get_descriptor m (int i + 1) = Done p" "p \<noteq> 0" "file_descriptors m ! i = p"
    "fdescs m p = Some \<lparr>fd_index = int i + 1, fd_filesystem = fat16_fs_at m, fd_private = desc, fd_disk = disk_at m\<rparr>"
    "file_objects m desc fi a it j" "holds m [p, a, fi, desc] L" "length (file_descriptors m) = 512"
    by (rule opened_descriptor [OF assms(1,2)])
  have perm: "holds m [a, fi, desc, p] L" using o(6) by (auto simp: holds_def)
  obtain h1 where 1: "fat16_close m desc = Done (0, m\<lparr>kernel_heap := h1, bufs := (bufs m)(a := None, fi := None, desc := None),
      fat_items := (fat_items m)(fi := None), fat_descriptors := (fat_descriptors m)(desc := None)\<rparr>)"
    "\<And>m' :: ('io, 'a) filemem_scheme. kernel_heap m' = h1 \<Longrightarrow> dom (bufs m') \<subseteq> dom (bufs m) - {a, fi, desc} \<Longrightarrow> holds m' [p] L"
    by (rule fat16_close_holds [OF o(5) perm]) blast
  define m1 where "m1 = m\<lparr>kernel_heap := h1, bufs := (bufs m)(a := None, fi := None, desc := None),
      fat_items := (fat_items m)(fi := None), fat_descriptors := (fat_descriptors m)(desc := None)\<rparr>"
  have "holds m1 [p] L" by (rule 1(2)) (auto simp: m1_def)
  then obtain h2 where 2: "kfree m1 p = Done (m1\<lparr>kernel_heap := h2, bufs := (bufs m1)(p := None)\<rparr>)"
    "\<And>m' :: ('io, 'a) filemem_scheme. kernel_heap m' = h2 \<Longrightarrow> dom (bufs m') \<subseteq> dom (bufs m1) - {p} \<Longrightarrow> holds m' [] L"
    by (rule kfree_holds) blast
  let ?m2 = "m1\<lparr>kernel_heap := h2, bufs := (bufs m1)(p := None), file_descriptors := (file_descriptors m)[i := 0],
    fdescs := (fdescs m)(p := None)\<rparr>"
  have tbl: "fdescs m1 = fdescs m" "file_descriptors m1 = file_descriptors m" by (simp_all add: m1_def)
  have "file_free_descriptor m1 p = Done ?m2"
    using o(4,7) 2(1) assms(2) by (simp add: file_free_descriptor_def deref_Some wr_in tbl del: andthen_eq_Done wr_eq_Done)
  then have "fclose m (int i + 1) = Done (0, ?m2)"
    using o(1,2,4) 1(1) [folded m1_def] assms(3) by (simp add: fclose_def fs_call_def deref_Some conf del: andthen_eq_Done)
  moreover have "holds ?m2 [] L" by (rule 2(2)) auto
  then have "kmem_ok ?m2 \<and> kmem_live ?m2 = L" by (simp add: holds_def)
  moreover have "?m2 = m\<lparr>kernel_heap := kernel_heap ?m2, bufs := bufs ?m2, path_roots := path_roots m, path_parts := path_parts m,
     fat_items := fat_items ?m2, fat_descriptors := fat_descriptors ?m2, file_descriptors := file_descriptors ?m2, fdescs := fdescs ?m2\<rparr>"
    by (simp add: m1_def)
  then have "files_only m ?m2" unfolding files_only_def by blast
  moreover have "bufs ?m2 q = bufs m q" if "(unat q, k) \<in> L" for q k
    using holds_apart [OF o(6) that] by (auto simp: m1_def)
  ultimately show ?thesis by (intro exI [of _ ?m2]) auto
qed

section \<open>Properties\<close>

text \<open>
  C4. Opening a path and reading the file: on a kernel with a mounted volume, when the path \<^verbatim>\<open>0:/name\<close> names exactly one
  entry of the root directory and that is a file, \<open>fopen\<close> for reading returns the number of the first free descriptor,
  and \<open>fread\<close> of \<open>c\<close> bytes from it delivers the first \<open>c\<close> bytes of the file whose cluster chain the entry
  starts. (Seven free blocks are enough for the objects on the way; descriptor 512 is excluded, since the lookup refuses it.)
\<close>

theorem fopen_fread:
  assumes "ata_drive P img idle" and "idle (disk_io m)" and "fs_ok m" and "fs_room m r 7" and "volume m f b n"
    and "first_slot m i" and "i < 511" and "drive_path pth 0x30 rest" and "path_components rest = [x]"
    and "k < n" and "\<forall>j < n. named x (entry_at b j) \<longleftrightarrow> j = k"
    and "attribute (decode_item (entry_at b k)) AND FAT_FILE_SUBDIRECTORY = 0"
    and "chain_ok img f (first_cluster (decode_item (entry_at b k))) N" and "0 < N"
    and "0 < c" and "c \<le> cluster_bytes f * N" and "c \<le> length out" and "c < 2 ^ 31"
  shows "\<exists>m1 m2. fopen P m pth [0x72, 0] = Done (int i + 1, m1) \<and>
    fread P m1 out (of_nat c) 1 (int i + 1) =
      Done (1, file_bytes img f (first_cluster (decode_item (entry_at b k))) 0 c @ drop c out, m2)"
proof -
  have room: "fs_room m r (7 + 0)" using assms(4) by simp
  from fopen_opens [OF assms(3) room assms(5,6,8-12), of P] obtain m1 L where o: "fopen P m pth [0x72, 0] = Done (int i + 1, m1)"
    "opened m1 i (decode_item (entry_at b k)) 0 L" "mounted m1 (disk_at m1) f" "fat16_fs_at m1 \<noteq> 0" "files_only m m1"
    by blast
  have "disk_io m1 = disk_io m" using o(5) by (auto simp: files_only_def)
  with fread_opened [OF assms(1) _ o(3,4,2) assms(7,13-18)] assms(2) o(1) show ?thesis by auto
qed

text \<open>A kernel with the volume of \<open>Fat16_Open\<close>, and the path \<^verbatim>\<open>0:/hi.txt\<close>.\<close>

definition sim_mounted :: "sim kernel" where
  "sim_mounted = sim_kernel\<lparr>bufs := [0x4000 \<mapsto> sim_entries],
     the_disk := \<lparr>disk_type = 0, sector_size = 512, disk_id = 0, filesystem = 0x210000, fs_private = 0x3000\<rparr>,
     streams := [0x7000 \<mapsto> \<lparr>pos = 0, stream_disk = 0x200000\<rparr>, 0x7010 \<mapsto> \<lparr>pos = 0, stream_disk = 0x200000\<rparr>],
     fat_privates := [0x3000 \<mapsto> sim_volume]\<rparr>"

lemma sim_mounted:
  "snd (disk_io sim_mounted) = None" "fs_ok sim_mounted" "n \<le> 25600 \<Longrightarrow> fs_room sim_mounted 0 n" "first_slot sim_mounted 0"
  "volume sim_mounted sim_volume sim_entries 2"
proof -
  show "snd (disk_io sim_mounted) = None" "first_slot sim_mounted 0" "n \<le> 25600 \<Longrightarrow> fs_room sim_mounted 0 n"
    by (simp_all add: sim_mounted_def sim_kernel_def fs_room_def below_def boot_heap_simps first_slot_def)
  show "fs_ok sim_mounted"
    by (simp add: fs_ok_def kmem_ok_def sim_mounted_def sim_kernel_def boot_heap_ok boot_heap_simps in_heap_def)
  have "mounted sim_mounted 0x200000 sim_volume"
    by (simp add: sim_mounted_def sim_kernel_def mounted_def stream_on_def sim_volume_same sim_fat_chain)
      (simp add: sim_volume_def)
  then show "volume sim_mounted sim_volume sim_entries 2"
    by (simp add: volume_def sim_mounted_def sim_kernel_def boot_heap_simps directory_in_def sim_entries)
      (simp add: sim_volume_def)
qed

text \<open>The file name of the path \<^verbatim>\<open>0:/hi.txt\<close>.\<close>

abbreviation hi_txt :: "u8 list" where "hi_txt \<equiv> [0x68, 0x69, 0x2E, 0x74, 0x78, 0x74, 0]"

lemma sim_path:
  "drive_path (0x30 # colon # slash # hi_txt) 0x30 hi_txt" "path_components hi_txt = [[0x68, 0x69, 0x2E, 0x74, 0x78, 0x74]]"
  "first_cluster (decode_item (entry_at sim_entries 1)) = 2" "filesize (decode_item (entry_at sim_entries 1)) = 1024"
  "attribute (decode_item (entry_at sim_entries 1)) AND FAT_FILE_SUBDIRECTORY = 0"
proof -
  show "drive_path (0x30 # colon # slash # hi_txt) 0x30 hi_txt" by (simp add: drive_path_def isdigit_def conf)
  show "path_components hi_txt = [[0x68, 0x69, 0x2E, 0x74, 0x78, 0x74]]"
    by (simp add: path_components.simps path_head_def path_rest_def component_char_def)
  show "first_cluster (decode_item (entry_at sim_entries 1)) = 2" "filesize (decode_item (entry_at sim_entries 1)) = 1024"
    "attribute (decode_item (entry_at sim_entries 1)) AND FAT_FILE_SUBDIRECTORY = 0"
    unfolding sim_entries(2) by code_simp+
qed

theorem fopen_fread_witness:
  "\<exists>m1 m2. fopen (sim_ports fat_image) sim_mounted (0x30 # colon # slash # hi_txt) [0x72, 0] = Done (1, m1) \<and>
    fread (sim_ports fat_image) m1 (replicate 1024 7) 1024 1 1 = Done (1, replicate 512 2 @ replicate 512 5, m2)"
  using fopen_fread [OF sim_fat(1) sim_mounted(1,2) sim_mounted(3) sim_mounted(5,4) _ sim_path(1,2), of 1 2 1024 "replicate 1024 7"]
    sim_path(3,5) sim_names
  by (simp add: all_less_two sim_volume_file sim_volume_same sim_fat_chain sim_fat_chain_ok sim_file)

end
