(* ===== verification/Program_Load.thy ===== *)
theory Program_Load
  imports File_Access
begin

text \<open>
  Loading a flat binary (\<open>process_load_binary\<close> of \<^verbatim>\<open>src/task/process.c\<close>): a file is opened, measured, read to a buffer of
  its size and closed, over the whole file system; what of that stays allocated.
\<close>

section \<open>An open file while other memory changes\<close>

lemma opened_holds: "opened m i it j L \<Longrightarrow> L \<subseteq> kmem_live m \<and> kmem_ok m"
  by (auto simp: opened_def holds_def)

lemma opened_transfer:
  assumes "opened m i it j L" and "file_descriptors m' = file_descriptors m" and "fdescs m' = fdescs m"
    and "fat16_fs_at m' = fat16_fs_at m" and "disk_at m' = disk_at m"
    and "\<And>p desc fi a. file_objects m desc fi a it j \<Longrightarrow> holds m [p, a, fi, desc] L \<Longrightarrow>
      file_objects m' desc fi a it j \<and> holds m' [p, a, fi, desc] L'"
  shows "opened m' i it j L'"
  using assms(1,6) unfolding opened_def assms(2-5) by blast

text \<open>One more allocation.\<close>

lemma opened_alloc:
  assumes "opened m i it j L" and "bufs m p = None"
    and "kmem_ok (m\<lparr>kernel_heap := hp, bufs := (bufs m)(p \<mapsto> x)\<rparr>)" and "heap_live hp = insert y (kmem_live m)" and "y \<notin> kmem_live m"
  shows "opened (m\<lparr>kernel_heap := hp, bufs := (bufs m)(p \<mapsto> x)\<rparr>) i it j (insert y L)"
proof (rule opened_transfer [OF assms(1)])
  fix q desc fi a
  assume o: "file_objects m desc fi a it j" and h: "holds m [q, a, fi, desc] L"
  have "file_objects (m\<lparr>kernel_heap := hp, bufs := (bufs m)(p \<mapsto> x)\<rparr>) desc fi a it j"
    using o assms(2) by (auto simp: file_objects_def)
  moreover have "holds (m\<lparr>kernel_heap := hp, bufs := (bufs m)(p \<mapsto> x)\<rparr>) [q, a, fi, desc] (insert y L)"
    using h assms(3-5) by (auto simp: holds_def kmem_live_def)
  ultimately show "file_objects (m\<lparr>kernel_heap := hp, bufs := (bufs m)(p \<mapsto> x)\<rparr>) desc fi a it j \<and>
    holds (m\<lparr>kernel_heap := hp, bufs := (bufs m)(p \<mapsto> x)\<rparr>) [q, a, fi, desc] (insert y L)" ..
qed simp_all

text \<open>Writing to a buffer of another owner, and to processes.\<close>

lemma opened_write:
  fixes m :: "('io, 'a) taskmem_scheme"
  assumes "opened m i it j L" and "(unat q, k) \<in> L" and "bufs m q = Some y"
  shows "opened (m\<lparr>bufs := (bufs m)(q \<mapsto> x), procs := ps\<rparr>) i it j L"
proof (rule opened_transfer [OF assms(1)])
  fix p desc fi a
  assume o: "file_objects m desc fi a it j" and h: "holds m [p, a, fi, desc] L"
  let ?m = "m\<lparr>bufs := (bufs m)(q \<mapsto> x), procs := ps\<rparr>"
  have "a \<noteq> q" using holds_apart [OF h assms(2)] by auto
  then have "file_objects ?m desc fi a it j" using o by (simp add: file_objects_def)
  moreover have "holds ?m [p, a, fi, desc] L" by (rule holds_cong [OF h]) (use assms(3) in auto)
  ultimately show "file_objects ?m desc fi a it j \<and> holds ?m [p, a, fi, desc] L" ..
qed simp_all

section \<open>Loading\<close>

text \<open>The steps of \<open>load_binary_open\<close> when none of them fails.\<close>

lemma load_steps:
  fixes m :: "('io, 'a) taskmem_scheme"
  assumes "fstat m fd stale_stat = Done (0, \<lparr>stat_flags = fl, stat_filesize = sz\<rparr>)"
    and "kzalloc m sz = Done (data, m2)" and "data \<noteq> 0" and "bufs m2 data = Some x"
    and "fread P m2 x sz 1 fd = Done (1, y, m3)" and "bufs m3 = bufs m2" and "procs m3 p = Some pr"
  shows "load_binary_open P m p fd = Done (0, data, m3\<lparr>bufs := (bufs m3)(data \<mapsto> y),
    procs := (procs m3)(p \<mapsto> pr\<lparr>filetype := PROCESS_FILE_TYPE_BINARY, proc_ptr := data, proc_size := sz\<rparr>)\<rparr>)"
  using assms
  by (simp add: load_binary_open_def object_bytes_def store_object_def update_proc_def deref_Some Let_def conf del: andthen_eq_Done)

text \<open>The buffer for a file of \<open>s\<close> bytes.\<close>

lemma file_buffer:
  fixes m :: "('io, 'a) filemem_scheme"
  assumes "opened m i it j L" and "room m r (blocks_needed (unat sz))" and "0 < unat sz" and "unat sz < 2 ^ 31"
  obtains data l hp where "kzalloc m sz = Done (data, m\<lparr>kernel_heap := hp, bufs := (bufs m)(data \<mapsto> replicate (unat sz) 0)\<rparr>)"
    and "data \<noteq> 0" and "unat sz \<le> l" and "(unat data, l) \<notin> kmem_live m"
    and "opened (m\<lparr>kernel_heap := hp, bufs := (bufs m)(data \<mapsto> replicate (unat sz) 0)\<rparr>) i it j (insert (unat data, l) L)"
proof -
  have r: "kmem_ok m" "below m r" "r + blocks_needed (unat sz) \<le> heap_blocks (kernel_heap m)"
    using assms(2) by (simp_all add: room_def)
  have sz: "unat sz \<le> 0xFFFFF000" using assms(4) by simp
  from kzalloc_below [OF r(1,2) assms(3) sz r(3)] obtain data m2 where z: "kzalloc m sz = Done (data, m2)" "data \<noteq> 0" by blast
  from kzalloc_alloc [OF r(1) assms(3) sz z(1)] z(2) obtain hp l where a: "bufs m data = None"
    "m2 = m\<lparr>kernel_heap := hp, bufs := (bufs m)(data \<mapsto> replicate (unat sz) 0)\<rparr>" "kmem_ok m2" "unat sz \<le> l"
    "kmem_live m2 = insert (unat data, l) (kmem_live m)" "(unat data, l) \<notin> kmem_live m" by blast
  have "opened m2 i it j (insert (unat data, l) L)"
    unfolding a(2) by (rule opened_alloc [OF assms(1) a(1)]) (use a(2,3,5,6) in \<open>simp_all add: kmem_live_def\<close>)
  with that z a(2,4,6) show thesis by blast
qed

section \<open>Properties\<close>

text \<open>
  C8. Loading a flat binary: on a kernel with a mounted volume, when the path names exactly one file of the root directory,
  \<open>process_load_binary\<close> returns 0 and the process points to a new buffer that holds exactly the bytes of the file, as
  many as its directory entry says; the descriptor that was used is free again. Of the memory allocated on the way only
  the buffer and three blocks stay: the three objects of the parsed path, which \<open>fopen\<close> never releases.
\<close>

theorem process_load_binary_loads:
  fixes m :: "('io, 'a) taskmem_scheme"
  assumes "it = decode_item (entry_at b k)" and "ata_drive P img idle" and "idle (disk_io m)" and "fs_ok m" and "fs_room m r (7 + blocks_needed (unat (filesize it)))"
    and "volume m f b n" and "first_slot m i" and "i < 511" and "drive_path pth 0x30 rest" and "path_components rest = [x]"
    and "k < n" and "\<forall>j < n. named x (entry_at b j) \<longleftrightarrow> j = k" and "attribute it AND FAT_FILE_SUBDIRECTORY = 0"
    and "chain_ok img f (first_cluster it) N" and "0 < unat (filesize it)"
    and "unat (filesize it) \<le> cluster_bytes f * N" and "unat (filesize it) < 2 ^ 31" and "procs m p = Some pr"
  shows "\<exists>m' data l R. process_load_binary P m pth p = Done (0, m') \<and>
    procs m' p = Some (pr\<lparr>filetype := PROCESS_FILE_TYPE_BINARY, proc_ptr := data, proc_size := filesize it\<rparr>) \<and>
    bufs m' data = Some (file_bytes img f (first_cluster it) 0 (unat (filesize it))) \<and>
    file_descriptors m' = file_descriptors m \<and> kmem_ok m' \<and>
    kmem_live m' = insert (unat data, l) (kmem_live m \<union> R) \<and> unat (filesize it) \<le> l \<and> card R = 3 \<and> R \<inter> kmem_live m = {}"
proof -
  let ?s = "unat (filesize it)" and ?fd = "int i + 1"
  have attr: "attribute (decode_item (entry_at b k)) AND FAT_FILE_SUBDIRECTORY = 0" using assms(1,13) by simp
  from fopen_opens [OF assms(4-7,9-12) attr, of P] obtain m1 q R where o: "fopen P m pth [0x72, 0] = Done (?fd, m1)"
    "opened m1 i it 0 (kmem_live m \<union> R)" "card R = 3" "R \<inter> kmem_live m = {}" "mounted m1 (disk_at m1) f" "fat16_fs_at m1 \<noteq> 0"
    "files_only m m1" "file_descriptors m1 = (file_descriptors m)[i := q]" "room m1 (r + 7) (blocks_needed ?s)"
    unfolding assms(1) [symmetric] by blast
  from o(7) have same1: "disk_io m1 = disk_io m" "procs m1 = procs m" by (auto simp: files_only_def)
  obtain fl where st: "fstat m1 ?fd stale_stat = Done (0, \<lparr>stat_flags = fl, stat_filesize = filesize it\<rparr>)"
    using fstat_opened [OF o(2) assms(8) o(6)] by blast
  obtain data l hp where z: "kzalloc m1 (filesize it) = Done (data, m1\<lparr>kernel_heap := hp, bufs := (bufs m1)(data \<mapsto> replicate ?s 0)\<rparr>)"
    "data \<noteq> 0" "?s \<le> l"
    "opened (m1\<lparr>kernel_heap := hp, bufs := (bufs m1)(data \<mapsto> replicate ?s 0)\<rparr>) i it 0 (insert (unat data, l) (kmem_live m \<union> R))"
    by (rule file_buffer [OF o(2,9) assms(15,17)])
  define m2 where "m2 = m1\<lparr>kernel_heap := hp, bufs := (bufs m1)(data \<mapsto> replicate ?s 0)\<rparr>"
  have mo2: "mounted m2 (disk_at m2) f" using mounted_cong [OF o(5), of m2] by (simp add: m2_def)
  have "0 < N" using assms(15,16) by (cases N) simp_all
  from fread_opened [OF assms(2) _ mo2 _ z(4) [folded m2_def] assms(8,14) this assms(15,16) _ assms(17), of "replicate ?s 0"]
  obtain m3 where rd: "fread P m2 (replicate ?s 0) (filesize it) 1 ?fd = Done (1, file_bytes img f (first_cluster it) 0 ?s, m3)"
    "opened m3 i it ?s (insert (unat data, l) (kmem_live m \<union> R))" "\<exists>io str ds. m3 = m2\<lparr>disk_io := io, streams := str, fat_descriptors := ds\<rparr>"
    using assms(3) o(6) by (auto simp: m2_def same1)
  from rd(3) have same3: "bufs m3 = bufs m2" "procs m3 = procs m2" "file_descriptors m3 = file_descriptors m2" "fat16_fs_at m3 = fat16_fs_at m2"
    by auto
  have pr: "procs m3 p = Some pr" and x: "bufs m3 data = Some (replicate ?s 0)" "bufs m2 data = Some (replicate ?s 0)"
    using assms(18) by (simp_all add: same3 m2_def same1)
  let ?pr = "pr\<lparr>filetype := PROCESS_FILE_TYPE_BINARY, proc_ptr := data, proc_size := filesize it\<rparr>"
  let ?m4 = "m3\<lparr>bufs := (bufs m3)(data \<mapsto> file_bytes img f (first_cluster it) 0 ?s), procs := (procs m3)(p \<mapsto> ?pr)\<rparr>"
  have load: "load_binary_open P m1 p ?fd = Done (0, data, ?m4)"
    by (rule load_steps [OF st z(1) [folded m2_def] z(2) x(2) rd(1) same3(1) pr])
  have "opened ?m4 i it ?s (insert (unat data, l) (kmem_live m \<union> R))" by (rule opened_write [OF rd(2) insertI1 x(1)])
  moreover have "fat16_fs_at ?m4 \<noteq> 0" using o(6) by (simp add: same3 m2_def)
  ultimately obtain m' where c: "fclose ?m4 ?fd = Done (0, m')" "kmem_ok m'" "kmem_live m' = insert (unat data, l) (kmem_live m \<union> R)"
    "files_only ?m4 m'" "file_descriptors m' = (file_descriptors ?m4)[i := 0]" "bufs m' data = bufs ?m4 data"
    using fclose_opened [of ?m4 i it ?s "insert (unat data, l) (kmem_live m \<union> R)", OF _ assms(8)] by blast
  have "process_load_binary P m pth p = Done (0, m')"
    using o(1) load c(1) by (simp add: process_load_binary_def r_string_def del: andthen_eq_Done)
  moreover have "procs m' p = Some ?pr" using c(4) by (auto simp: files_only_def)
  moreover have "file_descriptors m' = file_descriptors m"
    using c(5) assms(7) by (simp add: same3 m2_def o(8) first_slot_def list_update_same_conv)
  ultimately show ?thesis using c(2,3,6) z(3) o(3,4) by (intro exI [of _ m'] exI [of _ data] exI [of _ l] exI [of _ R]) simp
qed

theorem process_load_binary_loads_witness:
  "\<exists>(m :: sim kernel) m' data. process_load_binary (sim_ports fat_image) m (0x30 # colon # slash # hi_txt) 0x8000 = Done (0, m') \<and>
    bufs m' data = Some (replicate 512 2 @ replicate 512 5) \<and> file_descriptors m' = replicate 512 0"
proof -
  let ?m = "sim_mounted\<lparr>procs := [0x8000 \<mapsto> sim_proc]\<rparr>"
  note s = sim_mounted
  have "fs_ok ?m" "fs_room ?m 0 (7 + blocks_needed 1024)" "first_slot ?m 0" "volume ?m sim_volume sim_entries 2"
    "snd (disk_io ?m) = None" "procs ?m 0x8000 = Some sim_proc" "file_descriptors ?m = replicate 512 0"
    using s(1,2,4,5) s(3) [of "7 + blocks_needed 1024"]
    by (simp_all add: fs_ok_def kmem_ok_def kmem_live_def fs_room_def below_def first_slot_def volume_def mounted_def
        stream_on_def directory_in_def blocks_needed_def sim_mounted_def sim_kernel_def)
  with process_load_binary_loads [OF refl sim_fat(1), of ?m 0 sim_entries 1 sim_volume 2 0 _ _ _ 2 "0x8000" sim_proc, OF _ _ _ _ _ _ sim_path(1,2)]
  show ?thesis using sim_path(3-5) sim_names
    by (auto simp: all_less_two sim_volume_file sim_volume_same sim_fat_chain sim_fat_chain_ok sim_file)
qed

end
