(* ===== verification/Elf_Segments.thy ===== *)
theory Elf_Segments
  imports Scheduler
begin

text \<open>
  What \<open>elf_process_pheaders\<close> computes from the program headers of a file: the range of virtual addresses the
  loadable segments span, and where its ends lie in the loaded file.
\<close>

section \<open>The program headers of a file\<close>

text \<open>The file in the buffer \<open>b\<close>: its header and its program headers, which lie inside the buffer.\<close>

definition header_of :: "u8 list \<Rightarrow> elf_header" where
  "header_of b = decode_elf_header (take 52 b)"

definition phdr_of :: "u8 list \<Rightarrow> nat \<Rightarrow> elf32_phdr" where
  "phdr_of b i = decode_phdr (take 32 (drop (unat (e_phoff (header_of b)) + 32 * i) b))"

definition phdrs :: "u8 list \<Rightarrow> elf32_phdr list" where
  "phdrs b = map (phdr_of b) [0..<unat (e_phnum (header_of b))]"

definition loads :: "u8 list \<Rightarrow> elf32_phdr set" where
  "loads b = {ph \<in> set (phdrs b). p_type ph = PT_LOAD}"

definition headers_inside :: "u8 list \<Rightarrow> bool" where
  "headers_inside b \<longleftrightarrow> 52 \<le> length b \<and> length b < 2 ^ 32 \<and> e_phoff (header_of b) \<noteq> 0 \<and>
     unat (e_phoff (header_of b)) + 32 * unat (e_phnum (header_of b)) \<le> length b"

definition process_all :: "elf_file \<Rightarrow> elf32_phdr list \<Rightarrow> elf_file" where
  "process_all f phs = fold (\<lambda>ph f. snd (elf_process_pheader f ph)) phs f"

lemma fst_process: "fst (elf_process_pheader f ph) = 0"
  by (simp add: elf_process_pheader_def elf_process_phdr_pt_load_def Let_def)

lemma process_memory: "elf_memory_field (snd (elf_process_pheader f ph)) = elf_memory_field f"
  by (simp add: elf_process_pheader_def elf_process_phdr_pt_load_def Let_def)

lemma process_all_memory: "elf_memory_field (process_all f phs) = elf_memory_field f"
  unfolding process_all_def by (induction phs arbitrary: f) (simp_all add: process_memory)

lemma read_phdr:
  assumes "bufs m base = Some b" and "headers_inside b" and "i < unat (e_phnum (header_of b))"
  shows "read_in m base (elf_program_header base (header_of b) (int i)) 32 =
    Done (take 32 (drop (unat (e_phoff (header_of b)) + 32 * i) b))"
proof -
  let ?off = "e_phoff (header_of b)"
  have b: "unat ?off + 32 * unat (e_phnum (header_of b)) \<le> length b" "length b < 2 ^ 32" "?off \<noteq> 0"
    using assms(2) by (simp_all add: headers_inside_def)
  have lt: "unat ?off + 32 * i + 32 \<le> length b" using b(1) assms(3) by linarith
  have "unat (32 * of_nat i :: u32) = 32 * i"
    using lt b(2) by (subst unat_mult_u32) (simp_all add: unat_of_nat_u32)
  then have "unat (?off + 32 * of_nat i) = unat ?off + 32 * i" using lt b(2) by (subst unat_add_u32) simp_all
  moreover have "elf_program_header base (header_of b) (int i) - base = ?off + 32 * of_nat i"
    using b(3) by (simp add: elf_program_header_def elf_pheader_def)
  ultimately have "unat (elf_program_header base (header_of b) (int i) - base) = unat ?off + 32 * i" by simp
  then show ?thesis using assms(1) lt by (simp add: read_in_def sub_object_def deref_Some del: andthen_eq_Done)
qed

lemma pheaders_loop:
  assumes "headers_inside b" and "h = header_of b"
  shows "\<lbrakk>bufs m base = Some b; elf_files m file = Some f; i \<le> unat (e_phnum h)\<rbrakk> \<Longrightarrow>
    elf_process_pheaders_loop m file base h (int i) 0 = Done (0,
      if i < unat (e_phnum h) then m\<lparr>elf_files := (elf_files m)(file \<mapsto> process_all f (drop i (phdrs b)))\<rparr> else m)"
proof (induction "unat (e_phnum h) - i" arbitrary: m f i)
  case 0
  then have "i = unat (e_phnum h)" by simp
  then show ?case by (subst elf_process_pheaders_loop.simps) simp
next
  case (Suc n)
  then have i: "i < unat (e_phnum h)" by simp
  let ?f = "snd (elf_process_pheader f (phdr_of b i))"
  let ?m = "m\<lparr>elf_files := (elf_files m)(file \<mapsto> ?f)\<rparr>"
  have u: "int i < uint (e_phnum h)" 
  proof -
    have "int i < int (unat (e_phnum h))" using i by (simp only: of_nat_less_iff)
    then show ?thesis by simp
  qed
  have "elf_process_pheaders_loop m file base h (int i) 0 = elf_process_pheaders_loop ?m file base h (int (Suc i)) 0"
    using u read_phdr [OF Suc.prems(1) assms(1), of i] i Suc.prems(2)
    by (subst elf_process_pheaders_loop.simps)
      (simp add: assms(2) deref_Some Let_def phdr_of_def add.commute case_prod_beta fst_process del: andthen_eq_Done deref_eq_Done)
  also have "\<dots> = Done (0, if Suc i < unat (e_phnum h)
      then ?m\<lparr>elf_files := (elf_files ?m)(file \<mapsto> process_all ?f (drop (Suc i) (phdrs b)))\<rparr> else ?m)"
    using Suc.hyps(2) Suc.prems i by (intro Suc.hyps(1)) auto
  finally have run: "elf_process_pheaders_loop m file base h (int i) 0 = \<dots>" .
  have "drop i (phdrs b) = phdr_of b i # drop (Suc i) (phdrs b)"
    using i assms(2) by (simp add: phdrs_def Cons_nth_drop_Suc [symmetric])
  then have "process_all f (drop i (phdrs b)) = process_all ?f (drop (Suc i) (phdrs b))" by (simp add: process_all_def)
  moreover have "process_all ?f (drop (Suc i) (phdrs b)) = ?f" if "\<not> Suc i < unat (e_phnum h)"
    using that assms(2) by (simp add: process_all_def phdrs_def)
  ultimately show ?case using run i by simp
qed

section \<open>The range of the segments\<close>

definition seg_end :: "elf32_phdr \<Rightarrow> addr" where
  "seg_end ph = p_vaddr ph + p_filesz ph"

text \<open>\<open>f\<close> spans the segments in \<open>S\<close>.\<close>

definition spans :: "elf_file \<Rightarrow> elf32_phdr set \<Rightarrow> bool" where
  "spans f S \<longleftrightarrow>
     (if S = {} then virtual_base_address f = 0 \<and> virtual_end_address f = 0
      else (\<exists>ph \<in> S. virtual_base_address f = p_vaddr ph \<and> physical_base_address f = elf_memory_field f + p_offset ph) \<and>
        (\<forall>ph \<in> S. virtual_base_address f \<le> p_vaddr ph) \<and>
        (\<exists>ph \<in> S. virtual_end_address f = seg_end ph \<and>
          physical_end_address f = elf_memory_field f + p_offset ph + p_filesz ph) \<and>
        (\<forall>ph \<in> S. seg_end ph \<le> virtual_end_address f))"

lemma spans_step:
  assumes "spans f S" and "p_type ph = PT_LOAD" and "\<forall>q \<in> insert ph S. p_vaddr q \<noteq> 0 \<and> seg_end q \<noteq> 0"
  shows "spans (snd (elf_process_pheader f ph)) (insert ph S)"
  using assms unfolding spans_def elf_process_pheader_def elf_process_phdr_pt_load_def elf_memory_def seg_end_def Let_def
  by (auto split: if_splits)

lemma spans_all:
  assumes "virtual_base_address f = 0" and "virtual_end_address f = 0"
  shows "\<forall>q \<in> set phs. p_type q = PT_LOAD \<longrightarrow> p_vaddr q \<noteq> 0 \<and> seg_end q \<noteq> 0 \<Longrightarrow>
    spans (process_all f phs) {ph \<in> set phs. p_type ph = PT_LOAD}"
proof (induction phs rule: rev_induct)
  case Nil
  then show ?case using assms by (simp add: process_all_def spans_def)
next
  case (snoc ph phs)
  then have IH: "spans (process_all f phs) {ph \<in> set phs. p_type ph = PT_LOAD}" by simp
  have step: "process_all f (phs @ [ph]) = snd (elf_process_pheader (process_all f phs) ph)" by (simp add: process_all_def)
  show ?case
  proof (cases "p_type ph = PT_LOAD")
    case True
    then have "{q \<in> set (phs @ [ph]). p_type q = PT_LOAD} = insert ph {q \<in> set phs. p_type q = PT_LOAD}" by auto
    with spans_step [OF IH True] snoc.prems True show ?thesis by (simp add: step)
  next
    case False
    then have "{q \<in> set (phs @ [ph]). p_type q = PT_LOAD} = {q \<in> set phs. p_type q = PT_LOAD}" by auto
    with IH False show ?thesis unfolding step by (simp add: elf_process_pheader_def)
  qed
qed

section \<open>Properties\<close>

text \<open>
  C22. For a file whose program headers lie inside it, whatever their order, \<open>elf_process_pheaders\<close> returns 0 and
  records the exact range of the loadable segments: the base is the least virtual address of a segment and
  the end the greatest address one past a segment; the physical base and end are where these very segments
  start and end in the loaded file. Other headers are ignored. (0 is the mark for an address that is not
  set yet, so no segment may start or end at 0.)
\<close>

theorem elf_process_pheaders_range:
  assumes "elf_files m file = Some f" and "bufs m (elf_memory_field f) = Some b" and "headers_inside b"
    and "virtual_base_address f = 0" and "virtual_end_address f = 0"
    and "loads b \<noteq> {}" and "\<forall>ph \<in> loads b. p_vaddr ph \<noteq> 0 \<and> seg_end ph \<noteq> 0"
  shows "\<exists>f'. elf_process_pheaders m file = Done (0, m\<lparr>elf_files := (elf_files m)(file \<mapsto> f')\<rparr>) \<and>
    virtual_base_address f' = Min (p_vaddr ` loads b) \<and> virtual_end_address f' = Max (seg_end ` loads b) \<and>
    (\<exists>ph \<in> loads b. p_vaddr ph = virtual_base_address f' \<and>
       physical_base_address f' = elf_memory_field f + p_offset ph) \<and>
    (\<exists>ph \<in> loads b. seg_end ph = virtual_end_address f' \<and>
       physical_end_address f' = elf_memory_field f + p_offset ph + p_filesz ph)"
proof -
  let ?f = "process_all f (phdrs b)"
  have "spans ?f (loads b)" unfolding loads_def
    using assms(7) by (intro spans_all [OF assms(4,5)]) (auto simp: loads_def)
  then have s: "\<exists>ph \<in> loads b. virtual_base_address ?f = p_vaddr ph \<and> physical_base_address ?f = elf_memory_field f + p_offset ph"
      "\<forall>ph \<in> loads b. virtual_base_address ?f \<le> p_vaddr ph"
      "\<exists>ph \<in> loads b. virtual_end_address ?f = seg_end ph \<and>
         physical_end_address ?f = elf_memory_field f + p_offset ph + p_filesz ph"
      "\<forall>ph \<in> loads b. seg_end ph \<le> virtual_end_address ?f"
    using assms(6) by (simp_all add: spans_def process_all_memory)
  have fin: "finite (loads b)" by (simp add: loads_def)
  have "Min (p_vaddr ` loads b) = virtual_base_address ?f" using s(1,2) fin by (intro Min_eqI) auto
  moreover have "Max (seg_end ` loads b) = virtual_end_address ?f" using s(3,4) fin by (intro Max_eqI) auto
  moreover have "elf_process_pheaders m file = Done (0, m\<lparr>elf_files := (elf_files m)(file \<mapsto> ?f)\<rparr>)"
  proof -
    have "set (phdrs b) \<noteq> {}" using assms(6) by (auto simp: loads_def)
    then have "0 < unat (e_phnum (header_of b))" by (auto simp: phdrs_def intro: gr0I)
    with pheaders_loop [OF assms(3) refl, of m "elf_memory_field f" "file" f 0] assms(1,2)
    have "elf_process_pheaders_loop m file (elf_memory_field f) (header_of b) 0 0 =
        Done (0, m\<lparr>elf_files := (elf_files m)(file \<mapsto> ?f)\<rparr>)" by simp
    moreover have "header_at m (elf_memory_field f) = Done (header_of b)"
      using assms(2,3) by (simp add: header_at_def read_in_def sub_object_def headers_inside_def header_of_def deref_Some
          del: andthen_eq_Done)
    ultimately show ?thesis using assms(1)
      by (simp add: elf_process_pheaders_def elf_header_ptr_def deref_Some del: andthen_eq_Done)
  qed
  ultimately show ?thesis using s(1,3) by (intro exI [of _ ?f]) (auto simp: eq_commute)
qed

text \<open>A file with two segments, the second one below the first.\<close>

definition sim_elf :: "u8 list" where
  "sim_elf = (replicate 52 0)[28 := 52, 44 := 2] @ (replicate 32 0)[0 := 1, 9 := 0x10, 10 := 0x40, 16 := 0x50] @
     (replicate 32 0)[0 := 1, 10 := 0x40, 17 := 1]"

definition sim_elf_file :: elf_file where
  "sim_elf_file = \<lparr>elf_filename = replicate 108 0, in_memory_size = 116, elf_memory_field = 0x1008000,
     virtual_base_address = 0, virtual_end_address = 0, physical_base_address = 0, physical_end_address = 0\<rparr>"

lemma sim_elf_headers:
  "headers_inside sim_elf" "p_vaddr ` loads sim_elf = {0x401000, 0x400000}" "seg_end ` loads sim_elf = {0x401050, 0x400100}"
proof -
  have h: "e_phoff (header_of sim_elf) = 52" "e_phnum (header_of sim_elf) = 2" "length sim_elf = 116"
    by (simp_all add: header_of_def decode_elf_header_def sim_elf_def le32_def le16_def nth_append)
  then show "headers_inside sim_elf" by (simp add: headers_inside_def)
  have d: "drop 52 sim_elf = (replicate 32 0)[0 := 1, 9 := 0x10, 10 := 0x40, 16 := 0x50] @ (replicate 32 0)[0 := 1, 10 := 0x40, 17 := 1]"
    "drop 84 sim_elf = (replicate 32 0)[0 := 1, 10 := 0x40, 17 := 1]"
    by (simp_all add: sim_elf_def)
  have p: "p_type (phdr_of sim_elf 0) = 1" "p_vaddr (phdr_of sim_elf 0) = 0x401000" "p_filesz (phdr_of sim_elf 0) = 0x50"
    "p_type (phdr_of sim_elf 1) = 1" "p_vaddr (phdr_of sim_elf 1) = 0x400000" "p_filesz (phdr_of sim_elf 1) = 0x100"
    by (simp_all add: phdr_of_def h d decode_phdr_def le32_def)
  have "set (phdrs sim_elf) = {phdr_of sim_elf 0, phdr_of sim_elf 1}" 
  proof -
    have "unat (e_phnum (header_of sim_elf)) = 2" by (simp add: h)
    moreover have "[0..<2] = [0, 1]" by (simp add: upt_rec)
    ultimately show ?thesis unfolding phdrs_def by simp
  qed
  then have "loads sim_elf = {phdr_of sim_elf 0, phdr_of sim_elf 1}" using p by (auto simp: loads_def PT_LOAD_def)
  then show "p_vaddr ` loads sim_elf = {0x401000, 0x400000}" "seg_end ` loads sim_elf = {0x401050, 0x400100}"
    using p by (simp_all add: seg_end_def)
qed

theorem elf_process_pheaders_range_witness:
  "\<exists>m' f'. elf_process_pheaders (sim_kernel\<lparr>bufs := [0x1008000 \<mapsto> sim_elf], elf_files := [0x1009000 \<mapsto> sim_elf_file]\<rparr>) 0x1009000 =
      Done (0, m') \<and> elf_files m' 0x1009000 = Some f' \<and>
    virtual_base_address f' = 0x400000 \<and> virtual_end_address f' = 0x401050"
proof -
  let ?m = "sim_kernel\<lparr>bufs := [0x1008000 \<mapsto> sim_elf], elf_files := [0x1009000 \<mapsto> sim_elf_file]\<rparr>"
  have ne: "loads sim_elf \<noteq> {}" using sim_elf_headers(2) by auto
  have "0 \<notin> p_vaddr ` loads sim_elf" "0 \<notin> seg_end ` loads sim_elf" unfolding sim_elf_headers(2,3) by simp_all
  then have nz: "\<forall>ph \<in> loads sim_elf. p_vaddr ph \<noteq> 0 \<and> seg_end ph \<noteq> 0" by (metis imageI)
  have "elf_files ?m 0x1009000 = Some sim_elf_file" "bufs ?m (elf_memory_field sim_elf_file) = Some sim_elf"
    "virtual_base_address sim_elf_file = 0" "virtual_end_address sim_elf_file = 0" by (simp_all add: sim_elf_file_def)
  from elf_process_pheaders_range [OF this(1,2) sim_elf_headers(1) this(3,4) ne nz] obtain f' where
    "elf_process_pheaders ?m 0x1009000 = Done (0, ?m\<lparr>elf_files := (elf_files ?m)(0x1009000 \<mapsto> f')\<rparr>)"
    "virtual_base_address f' = Min (p_vaddr ` loads sim_elf)" "virtual_end_address f' = Max (seg_end ` loads sim_elf)" by blast
  then show ?thesis unfolding sim_elf_headers(2,3) by (intro exI [of _ "?m\<lparr>elf_files := (elf_files ?m)(0x1009000 \<mapsto> f')\<rparr>"]
        exI [of _ f']) simp
qed

end
