(* ===== verification/Elf_Mapping.thy ===== *)
theory Elf_Mapping
  imports Process_Memory Elf_Segments
begin

text \<open>
  Where the segments of an ELF program appear in the address space of its process: \<open>process_map_elf\<close>
  (\<^verbatim>\<open>src/task/process.c\<close>) maps the pages of the loaded file, page by page, to the addresses the program headers
  ask for, later headers over earlier ones, and lets the program write only to pages of a writeable segment.
\<close>

section \<open>The pages of a segment\<close>

definition seg_flags :: "elf32_phdr \<Rightarrow> u32" where
  "seg_flags ph = (if p_flags ph AND PF_W \<noteq> 0 then user_flags else PAGING_IS_PRESENT OR PAGING_ACCESS_FROM_ALL)"

text \<open>The number of pages the bytes of the segment touch in the file, and whether the program page \<open>k\<close> is one of them.\<close>

definition seg_pages :: "elf_file \<Rightarrow> elf32_phdr \<Rightarrow> nat" where
  "seg_pages f ph = (let phys = unat (elf_phdr_phys_address f ph)
     in (phys + unat (p_memsz ph) + 4095) div 4096 - phys div 4096)"

definition covers :: "elf_file \<Rightarrow> elf32_phdr \<Rightarrow> nat \<Rightarrow> bool" where
  "covers f ph k \<longleftrightarrow> page_no (p_vaddr ph) \<le> k \<and> k < page_no (p_vaddr ph) + seg_pages f ph"

definition map_segment :: "elf_file \<Rightarrow> elf32_phdr \<Rightarrow> (nat \<Rightarrow> u32 option) \<Rightarrow> nat \<Rightarrow> u32 option" where
  "map_segment f ph s k = (if covers f ph k
     then Some ((of_nat (page_no (elf_phdr_phys_address f ph) + (k - page_no (p_vaddr ph))) * PAGING_PAGE_SIZE) OR seg_flags ph)
     else s k)"

text \<open>The segment ends below 4 GB, in the file and in the address space.\<close>

definition seg_fits :: "elf_file \<Rightarrow> elf32_phdr \<Rightarrow> bool" where
  "seg_fits f ph \<longleftrightarrow> unat (elf_phdr_phys_address f ph) + unat (p_memsz ph) + 4096 \<le> 2 ^ 32 \<and>
     page_no (p_vaddr ph) + seg_pages f ph \<le> 1024 * 1024"

lemma page_ceiling:
  "n mod 4096 = 0 \<Longrightarrow> 4096 * ((n + 4095) div 4096) = (n :: nat)"
  "n mod 4096 \<noteq> 0 \<Longrightarrow> 4096 * ((n + 4095) div 4096) = n - n mod 4096 + (4096 :: nat)"
proof -
  let ?q = "n div 4096" and ?r = "n mod 4096"
  have n: "n = 4096 * ?q + ?r" by simp
  have "(n + 4095) div 4096 = ?q + (?r + 4095) div 4096"
    by (subst n) (simp only: add.assoc div_mult_self4 zero_neq_numeral not_False_eq_True)
  moreover have "?r < 4096" by simp
  then have "?r = 0 \<Longrightarrow> (?r + 4095) div 4096 = 0" "?r \<noteq> 0 \<Longrightarrow> (?r + 4095) div 4096 = 1"
    by (simp_all add: div_nat_eqI)
  moreover have "4096 * ?q = n - ?r" using n by linarith
  ultimately have e: "?r = 0 \<Longrightarrow> (n + 4095) div 4096 = ?q" "?r \<noteq> 0 \<Longrightarrow> (n + 4095) div 4096 = ?q + 1" and q: "4096 * ?q = n - ?r"
    by linarith+
  show "?r = 0 \<Longrightarrow> 4096 * ((n + 4095) div 4096) = n" using e(1) q by linarith
  assume "?r \<noteq> 0"
  from e(2) [OF this] q show "4096 * ((n + 4095) div 4096) = n - ?r + 4096" by linarith
qed

lemma align_up_any:
  assumes "unat (a :: addr) + 4096 \<le> 2 ^ 32"
  shows "unat (paging_align_address a) = 4096 * ((unat a + 4095) div 4096)"
proof -
  have m: "unat (a mod 4096) = unat a mod 4096" by (simp add: unat_mod)
  show ?thesis
  proof (cases "a mod 4096 = 0")
    case True
    then have "unat a mod 4096 = 0" using m by simp
    then show ?thesis using True by (simp only: paging_align_address_def conf page_ceiling(1)) simp
  next
    case False
    then have ne: "unat a mod 4096 \<noteq> 0" using m by (metis unat_eq_zero)
    have s: "unat (a - a mod 4096) = unat a - unat a mod 4096"
      by (subst unat_sub) (simp_all add: word_le_nat_alt m)
    have "unat a - unat a mod 4096 + 4096 < 2 ^ 32" using assms ne by linarith
    then have "unat ((a - a mod 4096) + 4096) = unat a - unat a mod 4096 + 4096"
      by (subst unat_add_u32) (simp_all only: s, simp_all)
    moreover have "a + 4096 - a mod 4096 = (a - a mod 4096) + 4096" by (simp add: algebra_simps)
    ultimately show ?thesis
      using False by (simp only: paging_align_address_def conf page_ceiling(2) [OF ne] if_True not_False_eq_True simp_thms)
  qed
qed

lemma lower_page:
  "unat (paging_align_to_lower_page v) = 4096 * page_no v"
  "paging_align_to_lower_page v = of_nat (page_no v) * PAGING_PAGE_SIZE"
proof -
  have "4096 dvd unat (paging_align_to_lower_page v)" using lower_aligned by (simp add: paging_is_aligned_iff)
  then have "unat (paging_align_to_lower_page v) = 4096 * page_no (paging_align_to_lower_page v)" by (simp add: page_no_def)
  then show 1: "unat (paging_align_to_lower_page v) = 4096 * page_no v" by (simp only: page_no_lower)
  have "of_nat (unat (paging_align_to_lower_page v)) = paging_align_to_lower_page v" by simp
  then show "paging_align_to_lower_page v = of_nat (page_no v) * PAGING_PAGE_SIZE" unfolding 1 by (simp add: conf mult.commute)
qed

lemma map_segment_eq:
  assumes "chunks m c = Some dir" and "dir_ok m dir" and "seg_fits f ph"
  shows "\<exists>m'. paging_map_to m c (paging_align_to_lower_page (p_vaddr ph))
      (paging_align_to_lower_page (elf_phdr_phys_address f ph))
      (paging_align_address (elf_phdr_phys_address f ph + p_memsz ph)) (seg_flags ph) = Done (0, m') \<and>
    m' = m\<lparr>ptables := ptables m'\<rparr> \<and> dir_ok m' dir \<and> space m' dir = map_segment f ph (space m dir)"
proof -
  let ?p = "elf_phdr_phys_address f ph"
  let ?a = "paging_align_address (?p + p_memsz ph)" and ?v = "paging_align_to_lower_page (p_vaddr ph)"
  from assms(3) have fit: "unat ?p + unat (p_memsz ph) + 4096 \<le> 2 ^ 32" "page_no (p_vaddr ph) + seg_pages f ph \<le> 1024 * 1024"
    by (simp_all add: seg_fits_def)
  then have u: "unat (?p + p_memsz ph) = unat ?p + unat (p_memsz ph)" by (intro unat_add_u32) linarith
  have a: "unat ?a = 4096 * ((unat ?p + unat (p_memsz ph) + 4095) div 4096)"
    using align_up_any [of "?p + p_memsz ph"] fit(1) by (simp only: u)
  have n: "unat ?a - unat (paging_align_to_lower_page ?p) = 4096 * seg_pages f ph"
    by (simp add: a lower_page(1) seg_pages_def page_no_def Let_def right_diff_distrib')
  have "unat ?p div 4096 \<le> (unat ?p + unat (p_memsz ph) + 4095) div 4096" by (intro div_le_mono) simp
  then have le: "paging_align_to_lower_page ?p \<le> ?a" by (simp add: word_le_nat_alt a lower_page(1) page_no_def)
  have al: "paging_is_aligned ?a" unfolding paging_is_aligned_iff a by simp
  have "unat ?v + (unat ?a - unat (paging_align_to_lower_page ?p)) \<le> 2 ^ 32"
    using fit(2) unfolding n unfolding lower_page(1) by simp
  from paging_map_to_space [OF assms(1,2) lower_aligned lower_aligned al le this, of "seg_flags ph"] obtain m' where
    m': "paging_map_to m c ?v (paging_align_to_lower_page ?p) ?a (seg_flags ph) = Done (0, m')" "m' = m\<lparr>ptables := ptables m'\<rparr>"
      "dir_ok m' dir"
    and sp: "\<forall>k. space m' dir k = (if page_no ?v \<le> k \<and> k < page_no ?v + 4096 * seg_pages f ph div 4096
       then Some ((paging_align_to_lower_page ?p + of_nat (k - page_no ?v) * PAGING_PAGE_SIZE) OR seg_flags ph)
       else space m dir k)" unfolding n by blast
  have d: "4096 * q div 4096 = q" for q :: nat by simp
  have "space m' dir = map_segment f ph (space m dir)"
    by (rule ext) (simp only: sp [rule_format] d page_no_lower map_segment_def covers_def lower_page(2) [of ?p] of_nat_add distrib_right)
  with m' show ?thesis by blast
qed

section \<open>All segments\<close>

definition mapped_program :: "elf_file \<Rightarrow> elf32_phdr list \<Rightarrow> (nat \<Rightarrow> u32 option) \<Rightarrow> nat \<Rightarrow> u32 option" where
  "mapped_program f phs s = fold (map_segment f) phs s"

lemma map_elf_from:
  assumes "headers_inside b" and "h = header_of b" and "\<forall>ph \<in> set (phdrs b). seg_fits f ph"
  shows "\<lbrakk>process_at m p pr c dir; bufs m base = Some b; i \<le> unat (e_phnum h)\<rbrakk> \<Longrightarrow>
    \<exists>m'. process_map_elf_from m pr f base h (int i) 0 = Done (0, m') \<and> m' = m\<lparr>ptables := ptables m'\<rparr> \<and> dir_ok m' dir \<and>
      space m' dir = mapped_program f (drop i (phdrs b)) (space m dir)"
proof (induction "unat (e_phnum h) - i" arbitrary: m i)
  case 0
  then have "i = unat (e_phnum h)" by simp
  then show ?case using 0(2) assms(2) by (subst process_map_elf_from.simps) (simp add: mapped_program_def phdrs_def process_at_def)
next
  case (Suc n)
  then have i: "i < unat (e_phnum h)" by simp
  have "int i < int (unat (e_phnum h))" using i by (simp only: of_nat_less_iff)
  then have u: "int i < uint (e_phnum h)" by simp
  have dr: "drop i (phdrs b) = phdr_of b i # drop (Suc i) (phdrs b)"
    using i assms(2) by (simp add: phdrs_def Cons_nth_drop_Suc [symmetric])
  have "phdr_of b i \<in> set (phdrs b)" using i assms(2) by (simp add: phdrs_def)
  then have fit: "seg_fits f (phdr_of b i)" using assms(3) by blast
  have ch: "chunks m c = Some dir" "dir_ok m dir" using Suc.prems(1) by (simp_all add: process_at_def)
  from map_segment_eq [OF ch fit] obtain m1 where m1: "paging_map_to m c (paging_align_to_lower_page (p_vaddr (phdr_of b i)))
      (paging_align_to_lower_page (elf_phdr_phys_address f (phdr_of b i)))
      (paging_align_address (elf_phdr_phys_address f (phdr_of b i) + p_memsz (phdr_of b i))) (seg_flags (phdr_of b i)) = Done (0, m1)"
    "m1 = m\<lparr>ptables := ptables m1\<rparr>" "dir_ok m1 dir" "space m1 dir = map_segment f (phdr_of b i) (space m dir)" by blast
  obtain T where T: "m1 = m\<lparr>ptables := T\<rparr>" using m1(2) by blast
  have p1: "process_at m1 p pr c dir" "bufs m1 base = Some b"
    using Suc.prems(1,2) m1(3) unfolding T by (auto simp: process_at_def kmem_ok_def kmem_live_def owned_def entry_ok_def)
  have rd: "read_in m base (elf_pheader base h + 32 * u32_of_int (int i)) 32 =
      Done (take 32 (drop (unat (e_phoff (header_of b)) + 32 * i) b))"
    using read_phdr [OF Suc.prems(2) assms(1), of i] i by (simp add: assms(2) elf_program_header_def mult.commute)
  have e: "int (Suc i) = int i + 1" by simp
  have "process_map_elf_from m pr f base h (int i) 0 = process_map_elf_from m1 pr f base h (int (Suc i)) 0"
    unfolding process_map_elf_from.simps [of m] e if_P [OF u] rd andthen.simps Let_def phdr_of_def [symmetric]
      process_directory_eq [OF Suc.prems(1)] seg_flags_def [symmetric] m1(1) by simp
  moreover have si: "n = unat (e_phnum h) - Suc i" "Suc i \<le> unat (e_phnum h)" using Suc.hyps(2) i by linarith+
  from Suc.hyps(1) [OF si(1) p1 si(2)] obtain m2 where m2:
    "process_map_elf_from m1 pr f base h (int (Suc i)) 0 = Done (0, m2)" "m2 = m1\<lparr>ptables := ptables m2\<rparr>" "dir_ok m2 dir"
    "space m2 dir = mapped_program f (drop (Suc i) (phdrs b)) (space m1 dir)" by blast
  moreover obtain T2 where "m2 = m1\<lparr>ptables := T2\<rparr>" using m2(2) by blast
  then have "m2 = m\<lparr>ptables := T2\<rparr>" by (simp add: T)
  then have "m2 = m\<lparr>ptables := ptables m2\<rparr>" by simp
  moreover have "mapped_program f (drop (Suc i) (phdrs b)) (space m1 dir) = mapped_program f (drop i (phdrs b)) (space m dir)"
    by (simp add: dr mapped_program_def m1(4))
  ultimately show ?case using m2(1,3,4) by (intro exI [of _ m2] conjI) simp_all
qed

text \<open>Only writeable segments make pages writeable (bit 1 of the entry).\<close>

lemma frame_bit: "bit ((of_nat n * PAGING_PAGE_SIZE) OR fl :: u32) 1 = bit fl 1"
proof -
  have "of_nat n * PAGING_PAGE_SIZE = push_bit 12 (of_nat n :: u32)" by (simp add: push_bit_eq_mult conf)
  moreover have "\<not> bit (push_bit 12 (of_nat n :: u32)) 1" by (simp add: bit_push_bit_iff)
  ultimately show ?thesis by (simp add: bit_or_iff)
qed

lemma seg_flags_bit: "bit (seg_flags ph) 1 \<longleftrightarrow> p_flags ph AND PF_W \<noteq> 0"
  by (simp add: seg_flags_def user_flags_def conf)

lemma mapped_program_writeable:
  "mapped_program f phs s k = Some e \<Longrightarrow> bit e 1 \<Longrightarrow>
    s k = Some e \<or> (\<exists>ph \<in> set phs. p_flags ph AND PF_W \<noteq> 0 \<and> covers f ph k)"
proof (induction phs rule: rev_induct)
  case (snoc ph phs)
  have st: "mapped_program f (phs @ [ph]) s k = map_segment f ph (mapped_program f phs s) k" by (simp add: mapped_program_def)
  show ?case
  proof (cases "covers f ph k")
    case True
    then have "e = (of_nat (page_no (elf_phdr_phys_address f ph) + (k - page_no (p_vaddr ph))) * PAGING_PAGE_SIZE) OR seg_flags ph"
      using snoc.prems(1) by (simp only: st map_segment_def if_True option.inject)
    then have "p_flags ph AND PF_W \<noteq> 0" using snoc.prems(2) by (simp only: frame_bit seg_flags_bit not_False_eq_True)
    with True show ?thesis by auto
  next
    case False
    then have "mapped_program f phs s k = Some e" using snoc.prems(1) unfolding st by (simp add: map_segment_def)
    with snoc.IH snoc.prems(2) show ?thesis by auto
  qed
qed (simp add: mapped_program_def)

section \<open>Properties\<close>

text \<open>
  C9. Loading maps the program where its headers say: for a process whose ELF file has its program headers inside the
  file and no segment that ends above 4 GB, \<open>process_map_elf\<close> succeeds and the address space is the old one with the
  segments laid over it in the order of the headers, page \<open>j\<close> of a segment to page \<open>j\<close> of its bytes in the loaded
  file; it changes nothing but page tables, and makes a page writeable for the program only if a segment that
  asks for it covers the page.
\<close>

theorem process_map_elf_maps:
  assumes "process_at m p pr c dir" and "elf_files m (proc_ptr pr) = Some f" and "bufs m (elf_memory_field f) = Some b"
    and "headers_inside b" and "\<forall>ph \<in> set (phdrs b). seg_fits f ph"
  shows "\<exists>m'. process_map_elf m p = Done (0, m') \<and> m' = m\<lparr>ptables := ptables m'\<rparr> \<and> dir_ok m' dir \<and>
    space m' dir = mapped_program f (phdrs b) (space m dir) \<and>
    (\<forall>k e. space m' dir k = Some e \<and> bit e 1 \<longrightarrow> space m dir k = Some e \<or>
       (\<exists>ph \<in> set (phdrs b). p_flags ph AND PF_W \<noteq> 0 \<and> covers f ph k))"
proof -
  from map_elf_from [OF assms(4) refl assms(5,1,3), of 0] obtain m' where m':
    "process_map_elf_from m pr f (elf_memory_field f) (header_of b) 0 0 = Done (0, m')" "m' = m\<lparr>ptables := ptables m'\<rparr>"
    "dir_ok m' dir" "space m' dir = mapped_program f (phdrs b) (space m dir)" by auto
  have "header_at m (elf_memory_field f) = Done (header_of b)"
    using assms(3,4) by (simp add: header_at_def read_in_def sub_object_def headers_inside_def header_of_def deref_Some
        del: andthen_eq_Done)
  then have "process_map_elf m p = Done (0, m')"
    using assms(1,2) m'(1) by (simp add: process_map_elf_def process_at_def deref_Some elf_header_ptr_def del: andthen_eq_Done)
  with m'(2-4) mapped_program_writeable [of f "phdrs b" "space m dir"] show ?thesis by (intro exI [of _ m']) simp
qed

text \<open>A program with one writeable segment of 84 bytes at 4 MB.\<close>

definition sim_program :: "u8 list" where
  "sim_program = (replicate 52 0)[28 := 52, 44 := 1] @ (replicate 32 0)[0 := 1, 10 := 0x40, 16 := 0x54, 20 := 0x54, 24 := 7]"

lemma sim_program_headers:
  "headers_inside sim_program" "phdrs sim_program = [phdr_of sim_program 0]"
  "p_vaddr (phdr_of sim_program 0) = 0x400000" "p_offset (phdr_of sim_program 0) = 0"
  "p_memsz (phdr_of sim_program 0) = 84" "p_flags (phdr_of sim_program 0) = 7"
proof -
  have h: "e_phoff (header_of sim_program) = 52" "e_phnum (header_of sim_program) = 1" "length sim_program = 84"
    by (simp_all add: header_of_def decode_elf_header_def sim_program_def le32_def le16_def nth_append)
  then show "headers_inside sim_program" "phdrs sim_program = [phdr_of sim_program 0]"
    by (simp_all add: headers_inside_def phdrs_def)
  have "drop 52 sim_program = (replicate 32 0)[0 := 1, 10 := 0x40, 16 := 0x54, 20 := 0x54, 24 := 7]" by (simp add: sim_program_def)
  then show "p_vaddr (phdr_of sim_program 0) = 0x400000" "p_offset (phdr_of sim_program 0) = 0"
    "p_memsz (phdr_of sim_program 0) = 84" "p_flags (phdr_of sim_program 0) = 7"
    by (simp_all add: phdr_of_def h decode_phdr_def le32_def)
qed

theorem process_map_elf_maps_witness:
  "\<exists>(m :: sim kernel) m' dir. process_map_elf m 0x1404000 = Done (0, m') \<and> space m' dir 1024 = Some 0x900007"
proof -
  obtain m0 :: "sim kernel" and c dir where m0: "process_at m0 0x1404000 sim_proc c dir" "saddr (kernel_heap m0) = 0x1000000"
    using sim_process by blast
  let ?pr = "sim_proc\<lparr>filetype := PROCESS_FILE_TYPE_ELF, proc_ptr := 0x901000\<rparr>"
  let ?f = "sim_elf_file\<lparr>elf_memory_field := 0x900000\<rparr>"
  let ?m = "m0\<lparr>bufs := (bufs m0)(0x900000 \<mapsto> sim_program), elf_files := [0x901000 \<mapsto> ?f], procs := [0x1404000 \<mapsto> ?pr]\<rparr>"
  from m0(1) obtain tk where at0: "kmem_ok m0" "owned m0 (proc_allocations sim_proc)"
    "unat (saddr (kernel_heap m0)) + 4096 * heap_blocks (kernel_heap m0) < 2 ^ 32" "tasks m0 (proc_task sim_proc) = Some tk"
    "page_directory tk = c" "chunks m0 c = Some dir" "dir_ok m0 dir" unfolding process_at_def by blast
  have "\<not> in_heap (kernel_heap m0) 0x900000" by (simp add: in_heap_def m0(2))
  then have "kmem_ok ?m" using at0(1) by (simp add: kmem_ok_def kmem_live_def)
  moreover have "dir_ok ?m dir" by (rule dir_ok_ptables [OF at0(7)]) simp
  moreover have "owned ?m al = owned m0 al" for al by (simp add: owned_def entry_ok_def kmem_live_def)
  then have "owned ?m (proc_allocations ?pr)" using at0(2) by simp
  ultimately have at: "process_at ?m 0x1404000 ?pr c dir"
    using at0(3-6) by (simp add: process_at_def)
  have ph: "elf_phdr_phys_address ?f (phdr_of sim_program 0) = 0x900000"
    by (simp add: elf_phdr_phys_address_def elf_memory_def sim_program_headers)
  have sp: "seg_pages ?f (phdr_of sim_program 0) = 1" by (simp add: seg_pages_def ph sim_program_headers)
  have "seg_fits ?f (phdr_of sim_program 0)" by (simp add: seg_fits_def ph sp sim_program_headers page_no_def)
  then have "\<forall>ph \<in> set (phdrs sim_program). seg_fits ?f ph" by (simp add: sim_program_headers(2))
  with process_map_elf_maps [OF at _ _ sim_program_headers(1), of ?f] obtain m' where
    m': "process_map_elf ?m 0x1404000 = Done (0, m')" "space m' dir = mapped_program ?f (phdrs sim_program) (space ?m dir)" by auto
  have "space m' dir 1024 = Some 0x900007"
    unfolding m'(2) mapped_program_def sim_program_headers(2)
    by (simp add: map_segment_def covers_def sp ph sim_program_headers page_no_def seg_flags_def user_flags_def PF_W_def conf)
  with m'(1) show ?thesis by blast
qed

end
