(* ===== verification/Userlib.thy ===== *)
theory Userlib
  imports Cstring
begin

text \<open>
  The C library of the user programs, \<^verbatim>\<open>programs/stdlib/src\<close>: \<open>itoa\<close> and \<open>printf\<close> of
  \<^verbatim>\<open>stdlib.c\<close> and \<^verbatim>\<open>stdio.c\<close>, \<open>strtok\<close> of \<^verbatim>\<open>string.c\<close> (the rest of which is the text of the kernel's
  \<^verbatim>\<open>string.c\<close>, see theory Cstring), and the command line functions of \<^verbatim>\<open>pandora.c\<close>. System calls
  (\<^verbatim>\<open>pandora.asm\<close>) are parameters. The properties compare each routine with an independent
  description of what it should compute: decimal numerals, the words of a line, an edited line.
\<close>

section \<open>stdlib.c\<close>

text \<open>The digits go to \<open>text\<close> from the end; \<open>i\<close> is never positive.\<close>

function itoa_loop :: "u8 list \<Rightarrow> int \<Rightarrow> int \<Rightarrow> (u8 list \<times> int) run" where
  "itoa_loop text loc i =
     (if i \<noteq> 0 then
        let loc = loc - 1
        in if loc < 0 then Fault
           else andthen (wr text (nat loc) (word_of_int (0x30 - i smod 10))) (\<lambda>text.
             itoa_loop text loc (i sdiv 10))
      else Done (text, loc))"
  by pat_completeness auto
termination
  by (relation "measure (\<lambda>(text, loc, i). nat loc)") auto

declare itoa_loop.simps [simp del]

text \<open>
  \<open>text\<close> is the static buffer as the last call has left it. The result is the buffer and the index
  in it of the first character of the result.
\<close>

definition itoa :: "u8 list \<Rightarrow> int \<Rightarrow> (u8 list \<times> int) run" where
  "itoa text i =
     andthen (wr text 11 0) (\<lambda>text.
     let (neg, i) = (if i \<ge> 0 then (False, - i) else (True, i))
     in andthen (itoa_loop text 11 i) (\<lambda>(text, loc).
        andthen (if loc = 11 then andthen (wr text 10 0x30) (\<lambda>text. Done (text, 10)) else Done (text, loc)) (\<lambda>(text, loc).
        if neg then
          if loc - 1 < 0 then Fault
          else andthen (wr text (nat (loc - 1)) 0x2D) (\<lambda>text. Done (text, loc - 1))
        else Done (text, loc))))"

section \<open>strtok\<close>

text \<open>The inner loops: the index of the delimiter that equals \<open>c\<close>, or \<open>len\<close>.\<close>

function strtok_find :: "u8 \<Rightarrow> u8 list \<Rightarrow> nat \<Rightarrow> nat \<Rightarrow> nat run" where
  "strtok_find c delimiters i len =
     (if i < len then
        andthen (rd delimiters i) (\<lambda>d. if c = d then Done i else strtok_find c delimiters (Suc i) len)
      else Done i)"
  by pat_completeness auto
termination
  by (relation "measure (\<lambda>(c, delimiters, i, len). len - i)") auto

declare strtok_find.simps [simp del]

text \<open>Skipping leading delimiters, and finding the end of the token, in the buffer \<open>b\<close>.\<close>

function strtok_skip :: "u8 list \<Rightarrow> u8 list \<Rightarrow> nat \<Rightarrow> nat \<Rightarrow> nat run" where
  "strtok_skip b delimiters len p =
     andthen (rd b p) (\<lambda>c.
     andthen (strtok_find c delimiters 0 len) (\<lambda>i.
     if i = len then Done p else strtok_skip b delimiters len (Suc p)))"
  by pat_completeness auto
termination
  by (relation "measure (\<lambda>(b, delimiters, len, p). length b - p)") auto

function strtok_end :: "u8 list \<Rightarrow> u8 list \<Rightarrow> nat \<Rightarrow> nat \<Rightarrow> (u8 list \<times> nat) run" where
  "strtok_end b delimiters len sp =
     andthen (rd b sp) (\<lambda>c.
     if c = 0 then Done (b, sp)
     else andthen (strtok_find c delimiters 0 len) (\<lambda>i.
       if i < len then andthen (wr b sp 0) (\<lambda>b. Done (b, Suc sp))
       else strtok_end b delimiters len (Suc sp)))"
  by pat_completeness auto
termination
  by (relation "measure (\<lambda>(b, delimiters, len, sp). length b - sp)") auto

declare strtok_skip.simps [simp del] strtok_end.simps [simp del]

text \<open>
  Pointers are offsets in the buffer \<open>b\<close>; \<open>sp\<close> is the static pointer, \<open>None\<close> for null. The result
  is the token, the buffer and the static pointer after the call.
\<close>

definition strtok ::
    "u8 list \<Rightarrow> nat option \<Rightarrow> nat option \<Rightarrow> u8 list \<Rightarrow> (nat option \<times> u8 list \<times> nat option) run" where
  "strtok b sp str delimiters =
     andthen (strlen delimiters) (\<lambda>len.
     if str = None \<and> sp = None then Done (None, b, sp)
     else
       let p_start = (case sp of None \<Rightarrow> the str | Some s \<Rightarrow> s)
       in andthen (strtok_skip b delimiters (nat len) p_start) (\<lambda>p_start.
          andthen (rd b p_start) (\<lambda>c.
          if c = 0 then Done (None, b, None)
          else andthen (strtok_end b delimiters (nat len) p_start) (\<lambda>(b, sp).
            Done (Some p_start, b, Some sp)))))"

section \<open>pandora.c\<close>

record command_argument =
  argument :: "u8 list"
  next_argument :: addr

text \<open>
  The user heap: \<open>'u\<close> is the state behind the allocation system call, \<open>cargs\<close> holds the
  \<^verbatim>\<open>struct command_argument\<close> objects (516 bytes).
\<close>

record 'u umem =
  user_heap :: 'u
  cargs :: "addr \<Rightarrow> command_argument option"

definition new_argument ::
    "('u \<Rightarrow> u32 \<Rightarrow> addr \<times> 'u) \<Rightarrow> 'u umem \<Rightarrow> u8 list \<Rightarrow> (addr \<times> 'u umem) run" where
  "new_argument pandora_malloc m token =
     (let (p, h) = pandora_malloc (user_heap m) 516;
          m = m\<lparr>user_heap := h\<rparr>
      in if p = 0 then Done (0, m)
         else andthen (strncpy (replicate 512 0) token 512) (\<lambda>a.
           Done (p, m\<lparr>cargs := (cargs m)(p \<mapsto> \<lparr>argument = a, next_argument = 0\<rparr>)\<rparr>)))"

text \<open>The delimiter string is a single space.\<close>

definition space_string :: "u8 list" where "space_string = [0x20, 0]"

text \<open>
  The loop of \<open>pandora_parse_command\<close> ends because \<open>strtok\<close> moves the static pointer forward.
\<close>

lemma strtok_skip_le: "strtok_skip b d len p = Done q \<Longrightarrow> p \<le> q \<and> q < length b"
proof (induction b d len p rule: strtok_skip.induct)
  case (1 b d len p)
  from "1.prems" [unfolded strtok_skip.simps [of b d len p]] obtain c i where c: "rd b p = Done c" and i: "strtok_find c d 0 len = Done i"
    and r: "(if i = len then Done p else strtok_skip b d len (Suc p)) = Done q"
    by (simp only: andthen_eq_Done) blast
  show ?case
  proof (cases "i = len")
    case True
    with c r show ?thesis by simp
  next
    case False
    with r "1.IH" [OF c i False] show ?thesis by simp
  qed
qed

lemma strtok_end_less:
  "strtok_end b d len sp = Done (b', q) \<Longrightarrow> sp \<le> q \<and> length b' = length b \<and>
    (b ! sp \<noteq> 0 \<longrightarrow> sp < q) \<and> q \<le> length b"
proof (induction b d len sp rule: strtok_end.induct)
  case (1 b d len sp)
  from "1.prems" [unfolded strtok_end.simps [of b d len sp]] obtain c where c: "rd b sp = Done c"
    and r: "(if c = 0 then Done (b, sp) else andthen (strtok_find c d 0 len) (\<lambda>i.
       if i < len then andthen (wr b sp 0) (\<lambda>b. Done (b, Suc sp))
       else strtok_end b d len (Suc sp))) = Done (b', q)"
    by (simp only: andthen_eq_Done) blast
  show ?case
  proof (cases "c = 0")
    case True
    with c r show ?thesis by auto
  next
    case False
    with r obtain i where i: "strtok_find c d 0 len = Done i"
      and r': "(if i < len then andthen (wr b sp 0) (\<lambda>b. Done (b, Suc sp))
       else strtok_end b d len (Suc sp)) = Done (b', q)" by auto
    show ?thesis
    proof (cases "i < len")
      case True
      with c r' show ?thesis by auto
    next
      case False
      with r' "1.IH" [OF c \<open>c \<noteq> 0\<close> i False] c show ?thesis by auto
    qed
  qed
qed

lemma strtok_progress:
  assumes "strtok b (Some s) None d = Done (Some t, b', Some s')"
  shows "length b' - s' < length b - s"
  using assms
  by (fastforce simp: strtok_def split: if_splits dest!: strtok_skip_le strtok_end_less)

lemma strtok_sp_Some: "strtok b sp str d = Done (Some t, b', sp') \<Longrightarrow> sp' \<noteq> None"
  by (auto simp: strtok_def split: if_splits)

function parse_command_loop ::
    "('u \<Rightarrow> u32 \<Rightarrow> addr \<times> 'u) \<Rightarrow> 'u umem \<Rightarrow> u8 list \<Rightarrow> nat option \<Rightarrow> nat option \<Rightarrow> addr \<Rightarrow>
      ('u umem \<times> nat option) run" where
  "parse_command_loop pandora_malloc m scommand sp token current =
     (case token of
        None \<Rightarrow> Done (m, sp)
      | Some t \<Rightarrow>
          andthen (new_argument pandora_malloc m (drop t scommand)) (\<lambda>(new_command, m).
          if new_command = 0 then Done (m, sp)
          else andthen (deref (cargs m) current) (\<lambda>c.
            let m = m\<lparr>cargs := (cargs m)(current \<mapsto> c\<lparr>next_argument := new_command\<rparr>)\<rparr>
            in andthen (strtok scommand sp None space_string) (\<lambda>(token, scommand, sp).
               parse_command_loop pandora_malloc m scommand sp token new_command))))"
  by pat_completeness auto
termination
proof (relation "measure (\<lambda>(f, m, scommand, sp, token, current).
    case token of None \<Rightarrow> 0 | Some t \<Rightarrow> Suc (case sp of None \<Rightarrow> 0 | Some s \<Rightarrow> Suc (length scommand - s)))",
    goal_cases)
  case (2 f m scommand sp token current t p nc m1 c m2 q tok r b' sp')
  then have r: "strtok scommand sp None space_string = Done (tok, b', sp')" by simp
  show ?case
  proof (cases tok)
    case None
    then show ?thesis using 2 by simp
  next
    case (Some t')
    then obtain s' where "sp' = Some s'" using strtok_sp_Some r by blast
    moreover obtain s where "sp = Some s"
      using r Some by (cases sp) (auto simp: strtok_def)
    ultimately show ?thesis
      using 2 r Some strtok_progress [of scommand s space_string t' b' s'] by simp
  qed
qed simp

declare parse_command_loop.simps [simp del]

text \<open>\<open>sp\<close> is the static pointer of \<open>strtok\<close>, which outlives the call; \<open>stale\<close> the stack bytes.\<close>

definition pandora_parse_command ::
    "('u \<Rightarrow> u32 \<Rightarrow> addr \<times> 'u) \<Rightarrow> 'u umem \<Rightarrow> nat option \<Rightarrow> u8 list \<Rightarrow> int \<Rightarrow>
      (addr \<times> 'u umem \<times> nat option) run" where
  "pandora_parse_command pandora_malloc m sp command mx =
     (if mx \<ge> 1025 then Done (0, m, sp)
      else andthen (strncpy (replicate 1025 0xCC) command 1025) (\<lambda>scommand.
        andthen (strtok scommand sp (Some 0) space_string) (\<lambda>(token, scommand, sp).
        case token of
          None \<Rightarrow> Done (0, m, sp)
        | Some t \<Rightarrow>
            andthen (new_argument pandora_malloc m (drop t scommand)) (\<lambda>(root_command, m).
            if root_command = 0 then Done (0, m, sp)
            else andthen (strtok scommand sp None space_string) (\<lambda>(token, scommand, sp).
              andthen (parse_command_loop pandora_malloc m scommand sp token root_command) (\<lambda>(m, sp).
              Done (root_command, m, sp)))))))"

text \<open>Running a command line; \<open>pandora_system\<close> is the system call that starts the process.\<close>

definition pandora_system_run ::
    "('u \<Rightarrow> u32 \<Rightarrow> addr \<times> 'u) \<Rightarrow> ('u umem \<Rightarrow> addr \<Rightarrow> int \<times> 'u umem) \<Rightarrow> 'u umem \<Rightarrow> nat option \<Rightarrow> u8 list \<Rightarrow>
      (int \<times> 'u umem \<times> nat option) run" where
  "pandora_system_run pandora_malloc pandora_system m sp command =
     andthen (strncpy (replicate 1024 0xCC) command 1024) (\<lambda>buf.
     andthen (pandora_parse_command pandora_malloc m sp buf 1024) (\<lambda>(root_command_argument, m, sp).
     if root_command_argument = 0 then Done (- 1, m, sp)
     else let (res, m) = pandora_system m root_command_argument in Done (res, m, sp)))"

text \<open>
  Waiting for a key: a key source of type \<open>'k\<close>; \<open>None\<close> when no key is ever pressed again.
\<close>

partial_function (option) pandora_getkeyblock :: "('k \<Rightarrow> int \<times> 'k) \<Rightarrow> 'k \<Rightarrow> (int \<times> 'k) option" where
  "pandora_getkeyblock pandora_getkey k =
     (let (val, k) = pandora_getkey k
      in if val = 0 then pandora_getkeyblock pandora_getkey k else Some (val, k))"

text \<open>
  \<open>pandora_terminal_readline\<close> for the keys that arrive. \<open>out\<close> is the caller's buffer, \<open>i\<close> the
  index; the result is the buffer, the keys that are left, and the characters echoed so far. When
  the keys run out the function keeps waiting: \<open>Panic\<close>, it never comes back.
\<close>

fun readline_loop :: "u8 list \<Rightarrow> int \<Rightarrow> bool \<Rightarrow> int \<Rightarrow> u8 list \<Rightarrow> u8 list \<Rightarrow> (u8 list \<times> int \<times> u8 list \<times> u8 list) run" where
  "readline_loop out mx echo i shown keys =
     (if i < mx - 1 then
        case keys of
          [] \<Rightarrow> Panic
        | key # keys \<Rightarrow>
            if key = 13 then Done (out, i, shown, keys)
            else
              let shown = (if echo then shown @ [key] else shown)
              in if key = 0x08 \<and> i \<ge> 1 then
                   andthen (wr out (nat (i - 1)) 0) (\<lambda>out. readline_loop out mx echo (i - 2 + 1) shown keys)
                 else andthen (wr out (nat i) key) (\<lambda>out. readline_loop out mx echo (i + 1) shown keys)
      else Done (out, i, shown, keys))"

declare readline_loop.simps [simp del]

definition pandora_terminal_readline ::
    "u8 list \<Rightarrow> int \<Rightarrow> bool \<Rightarrow> u8 list \<Rightarrow> (u8 list \<times> u8 list \<times> u8 list) run" where
  "pandora_terminal_readline out mx output_while_typing keys =
     andthen (readline_loop out mx output_while_typing 0 [] keys) (\<lambda>(out, i, shown, keys).
     andthen (wr out (nat i) 0) (\<lambda>out. Done (out, shown, keys)))"

section \<open>stdio.c\<close>

text \<open>A variadic argument is an integer or a string; the characters printed are the result.\<close>

datatype arg = IntArg int | StrArg "u8 list"

definition print_string :: "u8 list \<Rightarrow> u8 list run" where
  "print_string s = (if terminated s then Done (cstring s) else Fault)"

text \<open>\<open>text\<close> is the static buffer of \<open>itoa\<close>; a \<^verbatim>\<open>%\<close> at the end makes the loop run past the terminator.\<close>

fun printf_loop :: "u8 list \<Rightarrow> u8 list \<Rightarrow> arg list \<Rightarrow> u8 list \<Rightarrow> u8 list run" where
  "printf_loop text [] args shown = Fault"
| "printf_loop text (c # p) args shown =
     (if c = 0 then Done shown
      else if c \<noteq> 0x25 then printf_loop text p args (shown @ [c])
      else case p of
          [] \<Rightarrow> Fault
        | d # p' \<Rightarrow>
            if d = 0x69 then
              case args of
                IntArg ival # args \<Rightarrow>
                  andthen (itoa text ival) (\<lambda>(text, loc).
                  andthen (print_string (drop (nat loc) text)) (\<lambda>s. printf_loop text p' args (shown @ s)))
              | _ \<Rightarrow> Fault
            else if d = 0x73 then
              case args of
                StrArg sval # args \<Rightarrow>
                  andthen (print_string sval) (\<lambda>s. printf_loop text p' args (shown @ s))
              | _ \<Rightarrow> Fault
            else printf_loop text p' args (shown @ [d]))"

definition printf :: "u8 list \<Rightarrow> u8 list \<Rightarrow> arg list \<Rightarrow> u8 list run" where
  "printf text format args = printf_loop text format args []"

text \<open>The remaining wrappers of the system calls, which are parameters.\<close>

definition putchar :: "(int \<Rightarrow> 'w \<Rightarrow> 'w) \<Rightarrow> int \<Rightarrow> 'w \<Rightarrow> int \<times> 'w" where
  "putchar pandora_putchar c w = (0, pandora_putchar c w)"

definition malloc :: "('u \<Rightarrow> u32 \<Rightarrow> addr \<times> 'u) \<Rightarrow> 'u \<Rightarrow> u32 \<Rightarrow> addr \<times> 'u" where
  "malloc pandora_malloc h n = pandora_malloc h n"

definition free :: "('u \<Rightarrow> addr \<Rightarrow> 'u) \<Rightarrow> 'u \<Rightarrow> addr \<Rightarrow> 'u" where
  "free pandora_free h p = pandora_free h p"

section \<open>Decimal numerals\<close>

text \<open>The digits of a number, none for 0, the numeral of an integer, and reading one back.\<close>

fun digits :: "nat \<Rightarrow> u8 list" where
  "digits n = (if n = 0 then [] else digits (n div 10) @ [of_nat (0x30 + n mod 10)])"

declare digits.simps [simp del]

definition numeral_of :: "int \<Rightarrow> u8 list" where
  "numeral_of i = (if i < 0 then [0x2D] else []) @ (if i = 0 then [0x30] else digits (nat \<bar>i\<bar>))"

definition digits_value :: "u8 list \<Rightarrow> int" where
  "digits_value = foldl (\<lambda>v c. 10 * v + (uint c - 0x30)) 0"

definition numeral_value :: "u8 list \<Rightarrow> int" where
  "numeral_value s = (case s of c # ds \<Rightarrow> if c = 0x2D then - digits_value ds else digits_value s | [] \<Rightarrow> 0)"

lemma uint_u8_of_nat: "n < 256 \<Longrightarrow> uint (of_nat n :: u8) = int n"
  by (simp add: unsigned_of_nat take_bit_nat_eq_self)

lemma digit_byte: "d < 10 \<Longrightarrow> uint (of_nat (0x30 + d) :: u8) = int (0x30 + d)"
  by (rule uint_u8_of_nat) simp

lemma digits_value_digits: "digits_value (digits n) = int n"
proof (induction n rule: digits.induct)
  case (1 n)
  show ?case
  proof (cases "n = 0")
    case True
    then show ?thesis by (simp add: digits.simps [of 0] digits_value_def)
  next
    case False
    have "digits_value (digits n) = 10 * digits_value (digits (n div 10)) + (uint (of_nat (0x30 + n mod 10) :: u8) - 0x30)"
      using False by (simp add: digits.simps [of n] digits_value_def)
    also have "uint (of_nat (0x30 + n mod 10) :: u8) = int (0x30 + n mod 10)"
      by (rule digit_byte) simp
    finally have "digits_value (digits n) = 10 * int (n div 10) + int (n mod 10)"
      using "1.IH" [OF False] by simp
    then show ?thesis by (metis mult_div_mod_eq of_nat_add of_nat_mult of_nat_numeral)
  qed
qed

lemma digits_nonempty: "0 < n \<Longrightarrow> digits n \<noteq> []"
  by (simp add: digits.simps [of n])

lemma digits_chars: "c \<in> set (digits n) \<Longrightarrow> c \<noteq> 0 \<and> c \<noteq> 0x2D"
proof (induction n rule: digits.induct)
  case (1 n)
  have d: "n mod 10 < 10" by simp
  have "of_nat (0x30 + n mod 10) \<noteq> (0 :: u8) \<and> of_nat (0x30 + n mod 10) \<noteq> (0x2D :: u8)"
    using digit_byte [OF d] by (auto simp: word_uint_eq_iff)
  with 1 show ?case
    by (cases "n = 0") (auto simp: digits.simps [of 0] digits.simps [of n])
qed

lemma numeral_value_numeral: "numeral_value (numeral_of i) = i"
proof (cases "i = 0")
  case True
  then show ?thesis by (simp add: numeral_of_def numeral_value_def digits_value_def)
next
  case False
  then have "0 < nat \<bar>i\<bar>" by simp
  from digits_nonempty [OF this] obtain c ds where d: "digits (nat \<bar>i\<bar>) = c # ds"
    by (cases "digits (nat \<bar>i\<bar>)") auto
  then have "c \<noteq> 0x2D" using digits_chars [of c "nat \<bar>i\<bar>"] by simp
  with False d digits_value_digits [of "nat \<bar>i\<bar>"] show ?thesis
    by (simp add: numeral_of_def numeral_value_def split: if_splits)
qed

lemma length_digits: "n < 10 ^ k \<Longrightarrow> length (digits n) \<le> k"
proof (induction k arbitrary: n)
  case 0
  then show ?case by (simp add: digits.simps [of 0])
next
  case (Suc k)
  then have "n div 10 < 10 ^ k" by (simp add: less_mult_imp_div_less mult.commute)
  from Suc.IH [OF this] show ?case by (subst digits.simps) simp
qed

lemma signed_parts:
  "(- int n) smod 10 = - int (n mod 10)" "(- int n) sdiv 10 = - int (n div 10)"
  by (cases "n = 0"; simp add: smod_int_alt_def signed_divide_int_def sgn_if zmod_int zdiv_int)+

lemma itoa_loop_eq:
  assumes "length (digits n) \<le> loc" and "loc \<le> length b"
  shows "itoa_loop b (int loc) (- int n) =
    Done (take (loc - length (digits n)) b @ digits n @ drop loc b, int (loc - length (digits n)))"
  using assms
proof (induction n arbitrary: b loc rule: digits.induct)
  case (1 n)
  show ?case
  proof (cases "n = 0")
    case True
    then show ?thesis by (simp add: itoa_loop.simps [of b] digits.simps [of 0])
  next
    case False
    let ?d = "digits (n div 10)" and ?c = "of_nat (0x30 + n mod 10) :: u8"
    have dg: "digits n = ?d @ [?c]" using False by (simp add: digits.simps [of n])
    then have loc: "0 < loc" "length ?d \<le> loc - 1" using "1.prems"(1) by simp_all
    have c: "word_of_int (0x30 - (- int n) smod 10) = ?c"
      unfolding signed_parts by (simp add: of_nat_add)
    let ?t = "b[loc - 1 := ?c]"
    have e: "nat (int loc - 1) = loc - 1" "int loc - 1 = int (loc - 1)" using loc(1) by simp_all
    have ne: "- int n \<noteq> 0" using False by simp
    have w: "wr b (loc - 1) ?c = Done ?t" using loc(1) "1.prems"(2) by simp
    have "itoa_loop b (int loc) (- int n) = itoa_loop ?t (int (loc - 1)) (- int (n div 10))"
      unfolding itoa_loop.simps [of b] Let_def e c signed_parts(2)
      using ne w by (simp only: if_True not_False_eq_True andthen.simps nat_int simp_thms)
        (simp add: w del: of_nat_diff)
    also have "\<dots> = Done (take (loc - 1 - length ?d) ?t @ ?d @ drop (loc - 1) ?t, int (loc - 1 - length ?d))"
      using "1.IH" [OF False loc(2)] "1.prems"(2) by simp
    also have "take (loc - 1 - length ?d) ?t = take (loc - length (digits n)) b"
      by (simp add: dg)
    also have "drop (loc - 1) ?t = ?c # drop loc b"
      using loc(1) "1.prems"(2) by (simp add: Cons_nth_drop_Suc [symmetric] drop_update_cancel)
    finally show ?thesis by (simp add: dg)
  qed
qed

lemma itoa_numeral:
  assumes "length b = 12" and "- (2 ^ 31) \<le> i" and "i < 2 ^ 31"
  shows "\<exists>b' loc. itoa b i = Done (b', int loc) \<and> loc \<le> 11 \<and> length b' = 12 \<and>
    drop loc b' = numeral_of i @ [0]"
proof -
  obtain n ds where n: "n = nat \<bar>i\<bar>" and ds: "ds = digits n" by blast
  have "n < 10 ^ 10" using assms(2,3) n by (simp add: nat_less_iff)
  then have len: "length ds \<le> 10" unfolding ds by (rule length_digits)
  let ?t = "b[11 := 0]" and ?k = "11 - length ds"
  have dr: "drop 11 ?t = [0]" using assms(1) by (simp add: drop_update_cancel Cons_nth_drop_Suc [symmetric])
  have loop: "itoa_loop ?t 11 (- int n) = Done (take ?k b @ ds @ [0], int ?k)"
    using itoa_loop_eq [of n 11 ?t] len assms(1) dr ds by simp
  have w: "wr b 11 0 = Done ?t" using assms(1) by simp
  have nd: "n = 0 \<longleftrightarrow> ds = []" using digits_nonempty [of n] ds by (auto simp: digits.simps [of 0])
  let ?r = "take ?k b @ ds @ [0]"
  have lr: "length ?r = 12" using len assms(1) by simp
  have drk: "drop ?k ?r = ds @ [0]" using assms(1) len by simp
  consider "i < 0" "0 < n" "i = - int n" | "i = 0" "n = 0" | "0 < i" "0 < n" "i = int n"
    using n by linarith
  then show ?thesis
  proof cases
    case 1
    then have k: "?k < 11" "int ?k \<noteq> 11" using nd by (cases ds; simp)+
    have k0: "0 < ?k" using len by simp
    let ?m = "?r[?k - 1 := 0x2D]"
    have "int ?k - 1 = int (?k - 1)" using k0 by linarith
    moreover have "wr ?r (?k - 1) 0x2D = Done ?m" using lr len by simp
    moreover have "(if i \<ge> 0 then (False, - i) else (True, i)) = (True, - int n)" using 1 by simp
    moreover have "\<not> int (?k - 1) < 0" by simp
    ultimately have "itoa b i = Done (?m, int (?k - 1))"
      unfolding itoa_def w andthen.simps Let_def
      by (simp only: prod.case loop k(2) andthen.simps if_True if_False nat_int)
    moreover have "drop (?k - 1) ?m = 0x2D # drop ?k ?r"
    proof -
      have "?k - 1 < length ?r" "Suc (?k - 1) = ?k" using len k lr by simp_all
      then show ?thesis by (simp add: Cons_nth_drop_Suc [symmetric] drop_update_cancel)
    qed
    moreover have "numeral_of i = 0x2D # ds"
      using 1(1) unfolding numeral_of_def ds n by simp
    moreover have "length ?m = 12" "?k - 1 \<le> 11" using lr by simp_all
    ultimately show ?thesis unfolding drk by (metis append_Cons)
  next
    case 2
    then have e: "ds = []" using nd by simp
    let ?m = "(b[11 := 0])[10 := 0x30]"
    have "take 11 b @ [0] = ?t" using assms(1) dr by (metis append_take_drop_id take_update_cancel order_refl)
    then have "itoa b i = Done (?m, int 10)"
      using 2 w loop e assms(1) by (simp add: itoa_def run_simps)
    moreover have "drop 10 ?m = [0x30, 0]"
      using assms(1) by (simp add: Cons_nth_drop_Suc [symmetric] drop_update_cancel)
    ultimately show ?thesis
      using 2 assms(1) by (intro exI [of _ ?m] exI [of _ 10]) (simp add: numeral_of_def)
  next
    case 3
    then have k: "?k < 11" "int ?k \<noteq> 11" using nd by (cases ds; simp)+
    have "(if i \<ge> 0 then (False, - i) else (True, i)) = (False, - int n)" using 3 by simp
    then have "itoa b i = Done (?r, int ?k)"
      unfolding itoa_def w andthen.simps Let_def
      by (simp only: prod.case loop k(2) andthen.simps if_True if_False nat_int)
    moreover have "numeral_of i = ds"
      using 3(1) unfolding numeral_of_def ds n by simp
    moreover have "?k \<le> 11" by simp
    ultimately show ?thesis using lr drk by metis
  qed
qed

section \<open>Words\<close>

text \<open>The words of a string, separated by characters with the property \<open>d\<close>.\<close>

function words_of :: "(u8 \<Rightarrow> bool) \<Rightarrow> u8 list \<Rightarrow> u8 list list" where
  "words_of d s =
     (let t = dropWhile d s
      in if t = [] then [] else takeWhile (\<lambda>c. \<not> d c) t # words_of d (dropWhile (\<lambda>c. \<not> d c) t))"
  by pat_completeness auto
termination
proof (relation "measure (\<lambda>(d, s). length s)")
  fix d and s t :: "u8 list"
  assume t: "t = dropWhile d s" "t \<noteq> []"
  obtain c r where cr: "t = c # r" using t(2) by (cases t) auto
  have "length (dropWhile (\<lambda>c. \<not> d c) t) \<le> length r"
    using cr hd_dropWhile [of d s] t length_dropWhile_le [of "\<lambda>c. \<not> d c" r] by simp
  moreover have "length t \<le> length s" unfolding t by (rule length_dropWhile_le)
  ultimately show "((d, dropWhile (\<lambda>c. \<not> d c) t), d, s) \<in> measure (\<lambda>(d, s). length s)"
    using cr by simp
qed simp

declare words_of.simps [simp del]

lemma words_of_delimiter: "d c \<Longrightarrow> words_of d (c # s) = words_of d s"
  by (simp add: words_of.simps [of d "c # s"] words_of.simps [of d s])

lemma strtok_find_eq:
  assumes "i \<le> len" and "len \<le> length D"
  shows "\<exists>j. strtok_find c D i len = Done j \<and> i \<le> j \<and> j \<le> len \<and>
    (j < len \<longleftrightarrow> c \<in> set (drop i (take len D)))"
  using assms
proof (induction "len - i" arbitrary: i)
  case 0
  then show ?case by (simp add: strtok_find.simps [of c D i])
next
  case (Suc k)
  then have i: "i < len" and k: "k = len - Suc i" by simp_all
  have dr: "drop i (take len D) = D ! i # drop (Suc i) (take len D)"
    using i Suc.prems(2) by (simp add: Cons_nth_drop_Suc [symmetric])
  show ?case
  proof (cases "c = D ! i")
    case True
    then show ?thesis
      using i dr Suc.prems(2) by (simp add: strtok_find.simps [of _ D i] run_simps)
  next
    case False
    then have "strtok_find c D i len = strtok_find c D (Suc i) len"
      using i Suc.prems(2) by (simp add: strtok_find.simps [of c D i] run_simps)
    with Suc.hyps(1) [OF k] i Suc.prems(2) False dr show ?thesis by auto
  qed
qed

lemma strtok_find_delimiter:
  assumes "terminated D"
  shows "\<exists>j. strtok_find c D 0 (length (cstring D)) = Done j \<and> j \<le> length (cstring D) \<and>
    (j < length (cstring D) \<longleftrightarrow> c \<in> set (cstring D))"
proof -
  have "take (length (cstring D)) D = cstring D"
    by (simp add: cstring_def takeWhile_eq_take [symmetric])
  then show ?thesis
    using strtok_find_eq [of 0 "length (cstring D)" D c] length_cstring_le [of D] by auto
qed

lemma rd_drop: "drop p b = c # r \<Longrightarrow> rd b p = Done c"
  by (metis nth_via_drop rd_in drop_eq_Nil list.distinct(1) not_le)

lemma drop_Suc_tl: "drop p b = c # r \<Longrightarrow> drop (Suc p) b = r"
  by (metis drop_Suc list.sel(3) tl_drop)

lemma strtok_skip_eq:
  assumes "terminated D" and "terminated (drop p b)"
  shows "strtok_skip b D (length (cstring D)) p =
    Done (p + length (takeWhile (\<lambda>c. c \<in> set (cstring D)) (cstring (drop p b))))"
  using assms(2)
proof (induction "length b - p" arbitrary: p)
  case 0
  then show ?case by simp
next
  case (Suc k)
  from Suc.prems obtain c r where cr: "drop p b = c # r" by (cases "drop p b") auto
  have k: "k = length b - Suc p" using Suc.hyps(2) by simp
  obtain j where j: "strtok_find c D 0 (length (cstring D)) = Done j" "j \<le> length (cstring D)"
    "j < length (cstring D) \<longleftrightarrow> c \<in> set (cstring D)" using strtok_find_delimiter [OF assms(1)] by blast
  show ?case
  proof (cases "c \<in> set (cstring D)")
    case True
    then have c0: "c \<noteq> 0" by auto
    then have tr: "terminated (drop (Suc p) b)" using Suc.prems cr drop_Suc_tl [OF cr] by simp
    have "strtok_skip b D (length (cstring D)) p = strtok_skip b D (length (cstring D)) (Suc p)"
      using j True rd_drop [OF cr] by (subst strtok_skip.simps) (simp del: rd_eq_Done)
    with Suc.hyps(1) [OF k tr] True c0 show ?thesis
      by (simp add: cr drop_Suc_tl [OF cr])
  next
    case False
    then have "j = length (cstring D)" using j by auto
    then have "strtok_skip b D (length (cstring D)) p = Done p"
      using j rd_drop [OF cr] by (subst strtok_skip.simps) (simp del: rd_eq_Done)
    then show ?thesis using False by (simp add: cr)
  qed
qed

lemma strtok_end_eq:
  assumes "terminated D" and "terminated (drop p b)"
  defines "t \<equiv> takeWhile (\<lambda>c. c \<notin> set (cstring D)) (cstring (drop p b))"
  shows "strtok_end b D (length (cstring D)) p =
    (if t = cstring (drop p b) then Done (b, p + length t)
     else Done (b[p + length t := 0], Suc (p + length t)))"
  using assms(2) unfolding t_def
proof (induction "length b - p" arbitrary: p)
  case 0
  then show ?case by simp
next
  case (Suc k)
  from Suc.prems obtain c r where cr: "drop p b = c # r" by (cases "drop p b") auto
  have k: "k = length b - Suc p" using Suc.hyps(2) by simp
  have pb: "p < length b" using cr by (metis drop_eq_Nil list.distinct(1) not_le)
  obtain j where j: "strtok_find c D 0 (length (cstring D)) = Done j" "j \<le> length (cstring D)"
    "j < length (cstring D) \<longleftrightarrow> c \<in> set (cstring D)" using strtok_find_delimiter [OF assms(1)] by blast
  show ?case
  proof (cases "c = 0")
    case True
    then show ?thesis using rd_drop [OF cr] by (subst strtok_end.simps) (simp add: cr del: rd_eq_Done)
  next
    case c0: False
    then have tr: "terminated (drop (Suc p) b)" using Suc.prems cr drop_Suc_tl [OF cr] by simp
    show ?thesis
    proof (cases "c \<in> set (cstring D)")
      case True
      then have "strtok_end b D (length (cstring D)) p = Done (b[p := 0], Suc p)"
        using j c0 rd_drop [OF cr] pb by (subst strtok_end.simps) (simp add: run_simps del: rd_eq_Done)
      then show ?thesis using True c0 by (simp add: cr)
    next
      case False
      then have "strtok_end b D (length (cstring D)) p = strtok_end b D (length (cstring D)) (Suc p)"
        using j c0 rd_drop [OF cr] by (subst strtok_end.simps) (simp del: rd_eq_Done)
      with Suc.hyps(1) [OF k tr] False c0 show ?thesis
        by (simp add: cr drop_Suc_tl [OF cr])
    qed
  qed
qed


lemma terminated_split: "terminated b \<Longrightarrow> \<exists>r. b = cstring b @ 0 # r"
  by (induction b) auto

text \<open>One call of \<open>strtok\<close> takes the first word off the rest of the line.\<close>

lemma strtok_step:
  assumes D: "terminated D" and t: "terminated (drop p b)"
    and p: "str = Some p \<and> sp = None \<or> sp = Some p"
  defines "d \<equiv> \<lambda>c. c \<in> set (cstring D)"
  shows "\<exists>tok b' sp'. strtok b sp str D = Done (tok, b', sp') \<and> length b' = length b \<and>
    (case words_of d (cstring (drop p b)) of
       [] \<Rightarrow> tok = None \<and> sp' = None
     | w # ws \<Rightarrow> \<exists>q p'. tok = Some q \<and> sp' = Some p' \<and> terminated (drop q b') \<and> cstring (drop q b') = w \<and>
         terminated (drop p' b') \<and> words_of d (cstring (drop p' b')) = ws)"
proof -
  define s where "s = cstring (drop p b)"
  define q where "q = p + length (takeWhile d s)"
  define u where "u = dropWhile d s"
  have dq: "drop q b = drop (length (takeWhile d s)) (drop p b)"
    unfolding q_def by (simp add: add.commute)
  obtain r where r: "drop p b = s @ 0 # r"
    using terminated_split [OF t] unfolding s_def by blast
  have ts: "s = takeWhile d s @ u" unfolding u_def by simp
  have u0: "0 \<notin> set u" using ts unfolding s_def by (metis Un_iff set_append zero_notin_cstring)
  have drq: "drop q b = u @ 0 # r" unfolding dq r by (subst (2) ts) simp
  have trq: "terminated (drop q b)" and csq: "cstring (drop q b) = u"
    unfolding drq using u0 by simp_all
  have qb: "q < length b" using drq by (metis drop_eq_Nil append_is_Nil_conv list.distinct(1) not_le)
  have len: "strlen D = Done (int (length (cstring D)))" using D by (simp add: strlen_eq)
  have skip: "strtok_skip b D (length (cstring D)) p = Done q"
    using strtok_skip_eq [OF D t] unfolding q_def d_def s_def .
  have start: "(case sp of None \<Rightarrow> the str | Some s \<Rightarrow> s) = p" "\<not> (str = None \<and> sp = None)"
    using p by auto
  have run: "strtok b sp str D = andthen (rd b q) (\<lambda>c. if c = 0 then Done (None, b, None)
      else andthen (strtok_end b D (length (cstring D)) q) (\<lambda>(b, sp). Done (Some q, b, Some sp)))"
    unfolding strtok_def len andthen.simps start(1) Let_def if_not_P [OF start(2)] nat_int skip ..
  have w: "words_of d s = (if u = [] then [] else takeWhile (\<lambda>c. \<not> d c) u # words_of d (dropWhile (\<lambda>c. \<not> d c) u))"
    unfolding words_of.simps [of d s] u_def Let_def ..
  show ?thesis
  proof (cases u)
    case Nil
    then have "rd b q = Done 0" using rd_drop [of q b] drq by simp
    then have "strtok b sp str D = Done (None, b, None)" unfolding run by simp
    then show ?thesis unfolding s_def [symmetric] w using Nil by simp
  next
    case (Cons c v)
    then have c: "rd b q = Done c" "c \<noteq> 0" using rd_drop [of q b c] drq u0 by (simp_all del: rd_eq_Done)
    define tk where "tk = takeWhile (\<lambda>c. \<not> d c) u"
    define rest where "rest = dropWhile (\<lambda>c. \<not> d c) u"
    have ut: "u = tk @ rest" unfolding tk_def rest_def by simp
    have e: "strtok_end b D (length (cstring D)) q =
        (if tk = u then Done (b, q + length tk) else Done (b[q + length tk := 0], Suc (q + length tk)))"
      using strtok_end_eq [OF D trq] unfolding csq tk_def d_def .
    have ws: "words_of d s = tk # words_of d rest" unfolding w tk_def rest_def using Cons by simp
    show ?thesis
    proof (cases "tk = u")
      case True
      then have rest: "rest = []" using ut by simp
      have "drop (q + length tk) b = drop (length u) (drop q b)" using True by (simp add: add.commute)
      then have dp: "drop (q + length tk) b = 0 # r" unfolding drq by simp
      have st: "strtok b sp str D = Done (Some q, b, Some (q + length tk))"
        unfolding run c(1) andthen.simps if_not_P [OF c(2)] e using True by simp
      show ?thesis
        unfolding s_def [symmetric] ws
        by (intro exI [of _ "Some q"] exI [of _ b] exI [of _ "Some (q + length tk)"])
          (simp add: st [unfolded True] trq csq dp [unfolded True] True rest words_of.simps [of d "[]"])
    next
      case False
      then obtain c' rs where rs: "rest = c' # rs" using ut by (cases rest) auto
      have c': "d c'" using hd_dropWhile [of "\<lambda>c. \<not> d c" u] rs unfolding rest_def by simp
      let ?b = "b[q + length tk := 0]"
      have lt: "q + length tk < length b"
      proof -
        have "length (drop q b) = length tk + length rest + Suc (length r)" unfolding drq ut by simp
        then show ?thesis by simp
      qed
      have st: "strtok b sp str D = Done (Some q, ?b, Some (Suc (q + length tk)))"
        unfolding run c(1) andthen.simps if_not_P [OF c(2)] e using False by simp
      have bq: "drop q ?b = tk @ 0 # rs @ 0 # r"
        using drq unfolding ut rs by (simp add: drop_update_swap list_update_append)
      have "drop (Suc (q + length tk)) ?b = drop (Suc (length tk)) (drop q b)"
        by (simp add: drop_update_cancel add.commute)
      then have bp: "drop (Suc (q + length tk)) ?b = rs @ 0 # r" unfolding drq ut rs by simp
      have z: "0 \<notin> set tk" "0 \<notin> set rs" using u0 unfolding ut rs by simp_all
      have wr: "words_of d rest = words_of d rs" unfolding rs by (rule words_of_delimiter [of d, OF c'])
      show ?thesis
        unfolding s_def [symmetric] ws
        by (intro exI [of _ "Some q"] exI [of _ ?b] exI [of _ "Some (Suc (q + length tk))"])
          (simp add: st bq bp z wr)
    qed
  qed
qed


lemma cstring_space [simp]: "terminated space_string" "cstring space_string = [0x20]"
  by (simp_all add: space_string_def)

text \<open>
  \<open>serves f Inv\<close>: as long as \<open>Inv h U n\<close>, the allocator \<open>f\<close> has room for \<open>n\<close> more arguments and
  returns addresses that are not in the set \<open>U\<close> of those in use.
\<close>

definition serves :: "('u \<Rightarrow> u32 \<Rightarrow> addr \<times> 'u) \<Rightarrow> ('u \<Rightarrow> addr set \<Rightarrow> nat \<Rightarrow> bool) \<Rightarrow> bool" where
  "serves f Inv = (\<forall>h U n. Inv h U (Suc n) \<longrightarrow>
     (\<exists>p h'. f h 516 = (p, h') \<and> p \<noteq> 0 \<and> p \<notin> U \<and> Inv h' (insert p U) n))"

text \<open>The linked list of arguments from \<open>p\<close> holds the words \<open>ws\<close>.\<close>

fun args_list :: "'u umem \<Rightarrow> addr \<Rightarrow> u8 list list \<Rightarrow> bool" where
  "args_list m p [] = (p = 0)"
| "args_list m p (w # ws) = (p \<noteq> 0 \<and> (case cargs m p of None \<Rightarrow> False
     | Some c \<Rightarrow> cstring (argument c) = w \<and> args_list m (next_argument c) ws))"

text \<open>What is left to parse: the token in hand and the words after the static pointer.\<close>

definition pending :: "u8 list \<Rightarrow> nat option \<Rightarrow> nat option \<Rightarrow> u8 list list \<Rightarrow> bool" where
  "pending b sp tok ws = (case ws of
     [] \<Rightarrow> tok = None \<and> sp = None
   | w # ws \<Rightarrow> \<exists>q p. tok = Some q \<and> sp = Some p \<and> terminated (drop q b) \<and> cstring (drop q b) = w \<and>
       terminated (drop p b) \<and> words_of (\<lambda>c. c = 0x20) (cstring (drop p b)) = ws)"

lemma strtok_pending:
  assumes "terminated (drop p b)" and "str = Some p \<and> sp = None \<or> sp = Some p"
  shows "\<exists>tok b' sp'. strtok b sp str space_string = Done (tok, b', sp') \<and>
    pending b' sp' tok (words_of (\<lambda>c. c = 0x20) (cstring (drop p b)))"
  using strtok_step [OF cstring_space(1) assms]
  unfolding cstring_space(2) pending_def by (fastforce split: list.splits)

lemma new_argument_eq:
  assumes "serves f Inv" and "Inv (user_heap m) U (Suc n)" and "terminated b"
  shows "\<exists>p m'. new_argument f m b = Done (p, m') \<and> p \<noteq> 0 \<and> p \<notin> U \<and>
    Inv (user_heap m') (insert p U) n \<and> (\<exists>a. cargs m' = (cargs m)(p \<mapsto> \<lparr>argument = a, next_argument = 0\<rparr>) \<and>
    cstring a = take 511 (cstring b))"
proof -
  obtain p h where f: "f (user_heap m) 516 = (p, h)" and p: "p \<noteq> 0" "p \<notin> U" "Inv h (insert p U) n"
    using assms(1,2) unfolding serves_def by blast
  have z: "0 \<notin> set (take 511 (cstring b))" by (meson in_set_takeD zero_notin_cstring)
  let ?a = "take 511 (cstring b) @ 0 # drop (Suc (length (take 511 (cstring b)))) (replicate 512 0)"
  have s: "strncpy (replicate 512 0) b 512 = Done ?a"
    unfolding strncpy_eq [OF assms(3)] Let_def by simp
  have c: "cstring ?a = take 511 (cstring b)" using z by (rule cstring_append)
  have "new_argument f m b = Done (p, m\<lparr>user_heap := h, cargs := (cargs m)(p \<mapsto> \<lparr>argument = ?a, next_argument = 0\<rparr>)\<rparr>)"
    unfolding new_argument_def f Let_def prod.case if_not_P [OF p(1)] s by simp
  with p c show ?thesis by (intro exI conjI) auto
qed

lemma parse_command_loop_eq:
  assumes "serves f Inv"
  shows "\<lbrakk>pending b sp tok ws; Inv (user_heap m) U (length ws + k); cur \<in> U; cargs m cur = Some c; next_argument c = 0\<rbrakk> \<Longrightarrow>
    \<exists>m' p U'. parse_command_loop f m b sp tok cur = Done (m', None) \<and>
      cargs m' cur = Some (c\<lparr>next_argument := p\<rparr>) \<and> args_list m' p (map (take 511) ws) \<and>
      (\<forall>x \<in> U - {cur}. cargs m' x = cargs m x) \<and> U \<subseteq> U' \<and> Inv (user_heap m') U' k"
proof (induction ws arbitrary: b sp tok m U cur c)
  case Nil
  have "c\<lparr>next_argument := 0\<rparr> = c" using Nil.prems(5) by (cases c) simp
  then show ?case
    using Nil.prems by (simp add: parse_command_loop.simps [of f m b] pending_def) blast
next
  case (Cons w ws)
  from Cons.prems(1) obtain q p where tok: "tok = Some q" and sp: "sp = Some p"
    and q: "terminated (drop q b)" "cstring (drop q b) = w"
    and p: "terminated (drop p b)" "words_of (\<lambda>c. c = 0x20) (cstring (drop p b)) = ws"
    unfolding pending_def by auto
  from Cons.prems(2) have I: "Inv (user_heap m) U (Suc (length ws + k))" by simp
  obtain nc m1 a where na: "new_argument f m (drop q b) = Done (nc, m1)" and nc: "nc \<noteq> 0" "nc \<notin> U"
    and I1: "Inv (user_heap m1) (insert nc U) (length ws + k)"
    and m1: "cargs m1 = (cargs m)(nc \<mapsto> \<lparr>argument = a, next_argument = 0\<rparr>)" "cstring a = take 511 w"
    using new_argument_eq [OF assms I q(1)] q(2) by metis
  have ncur: "cur \<noteq> nc" using nc(2) Cons.prems(3) by blast
  define m2 where "m2 = m1\<lparr>cargs := (cargs m1)(cur \<mapsto> c\<lparr>next_argument := nc\<rparr>)\<rparr>"
  obtain tok' b' sp' where st: "strtok b sp None space_string = Done (tok', b', sp')"
    and pd: "pending b' sp' tok' ws"
    using strtok_pending [OF p(1), of None sp] sp p(2) by auto
  have step: "parse_command_loop f m b sp tok cur = parse_command_loop f m2 b' sp' tok' nc"
    unfolding parse_command_loop.simps [of f m b] tok option.case na andthen.simps prod.case if_not_P [OF nc(1)]
    using m1(1) ncur Cons.prems(4) by (simp add: st run_simps m2_def del: deref_eq_Done)
  have "cargs m2 nc = Some \<lparr>argument = a, next_argument = 0\<rparr>" "Inv (user_heap m2) (insert nc U) (length ws + k)"
    unfolding m2_def using ncur m1(1) I1 by simp_all
  from Cons.IH [OF pd this(2) _ this(1)] obtain m' p' U' where
    r: "parse_command_loop f m2 b' sp' tok' nc = Done (m', None)"
      "cargs m' nc = Some \<lparr>argument = a, next_argument = p'\<rparr>" "args_list m' p' (map (take 511) ws)"
      "\<forall>x \<in> insert nc U - {nc}. cargs m' x = cargs m2 x" "insert nc U \<subseteq> U'" "Inv (user_heap m') U' k"
    by auto
  have cu: "cargs m' cur = Some (c\<lparr>next_argument := nc\<rparr>)"
    using r(4) Cons.prems(3) ncur unfolding m2_def by simp
  have al: "args_list m' nc (map (take 511) (w # ws))" using nc(1) r(2,3) m1(2) by simp
  have fr: "\<forall>x \<in> U - {cur}. cargs m' x = cargs m x"
    using r(4) nc(2) m1(1) unfolding m2_def by auto
  show ?case unfolding step r(1) using cu al fr r(5,6) by blast
qed

text \<open>
  The parser once it holds the first token; \<open>k\<close> is the number of allocations the heap can still serve
  afterwards.
\<close>

lemma parse_pending:
  assumes "serves f Inv" and pd: "pending b sp tok ws" and I: "Inv (user_heap m) U (length ws + k)"
  shows "\<exists>p m' U'. (case tok of
          None \<Rightarrow> Done (0, m, sp)
        | Some t \<Rightarrow>
            andthen (new_argument f m (drop t b)) (\<lambda>(root_command, m).
            if root_command = 0 then Done (0, m, sp)
            else andthen (strtok b sp None space_string) (\<lambda>(token, scommand, sp).
              andthen (parse_command_loop f m scommand sp token root_command) (\<lambda>(m, sp).
              Done (root_command, m, sp))))) = Done (p, m', None) \<and>
    args_list m' p (map (take 511) ws) \<and> (\<forall>x \<in> U. cargs m' x = cargs m x) \<and> U \<subseteq> U' \<and> Inv (user_heap m') U' k"
proof (cases ws)
  case Nil
  with pd have "tok = None" "sp = None" unfolding pending_def by simp_all
  then show ?thesis using Nil I by auto
next
  case (Cons w ws')
  from pd Cons obtain q p where tok: "tok = Some q" and sp: "sp = Some p"
    and q: "terminated (drop q b)" "cstring (drop q b) = w"
    and p: "terminated (drop p b)" "words_of (\<lambda>c. c = 0x20) (cstring (drop p b)) = ws'"
    unfolding pending_def by auto
  from I Cons have I1: "Inv (user_heap m) U (Suc (length ws' + k))" by simp
  obtain nc m1 a where na: "new_argument f m (drop q b) = Done (nc, m1)" and nc: "nc \<noteq> 0" "nc \<notin> U"
    and I2: "Inv (user_heap m1) (insert nc U) (length ws' + k)"
    and m1: "cargs m1 = (cargs m)(nc \<mapsto> \<lparr>argument = a, next_argument = 0\<rparr>)" "cstring a = take 511 w"
    using new_argument_eq [OF assms(1) I1 q(1)] q(2) by metis
  obtain tok' b' sp' where st: "strtok b sp None space_string = Done (tok', b', sp')" and pd': "pending b' sp' tok' ws'"
    using strtok_pending [OF p(1), of None sp] sp p(2) by auto
  have "cargs m1 nc = Some \<lparr>argument = a, next_argument = 0\<rparr>" unfolding m1(1) by simp
  from parse_command_loop_eq [OF assms(1) pd' I2 _ this] obtain m' p' U' where
    r: "parse_command_loop f m1 b' sp' tok' nc = Done (m', None)"
      "cargs m' nc = Some \<lparr>argument = a, next_argument = p'\<rparr>" "args_list m' p' (map (take 511) ws')"
      "\<forall>x \<in> insert nc U - {nc}. cargs m' x = cargs m1 x" "insert nc U \<subseteq> U'" "Inv (user_heap m') U' k"
    by auto
  have "args_list m' nc (map (take 511) (w # ws'))" using nc(1) r(2,3) m1(2) by simp
  moreover have "\<forall>x \<in> U. cargs m' x = cargs m x" using r(4) nc(2) m1(1) by auto
  moreover have "U \<subseteq> U'" using r(5) by blast
  ultimately show ?thesis
    unfolding tok option.case na andthen.simps prod.case if_not_P [OF nc(1)] st r(1) Cons using r(6) by blast
qed

lemma parse_command_words:
  assumes "serves f Inv" and "terminated command" and "mx < 1025"
    and "Inv (user_heap m) U (length (words_of (\<lambda>c. c = 0x20) (take 1024 (cstring command))) + k)"
  shows "\<exists>p m' U'. pandora_parse_command f m None command mx = Done (p, m', None) \<and>
    args_list m' p (map (take 511) (words_of (\<lambda>c. c = 0x20) (take 1024 (cstring command)))) \<and>
    (\<forall>x \<in> U. cargs m' x = cargs m x) \<and> U \<subseteq> U' \<and> Inv (user_heap m') U' k"
proof -
  define s where "s = take 1024 (cstring command)"
  define b where "b = s @ 0 # drop (Suc (length s)) (replicate 1025 (0xCC :: u8))"
  have z: "0 \<notin> set s" unfolding s_def by (meson in_set_takeD zero_notin_cstring)
  have cp: "strncpy (replicate 1025 0xCC) command 1025 = Done b"
    unfolding strncpy_eq [OF assms(2)] Let_def s_def b_def by simp
  have b: "terminated (drop 0 b)" "cstring (drop 0 b) = s" unfolding b_def using z by simp_all
  obtain tok b1 sp where st: "strtok b None (Some 0) space_string = Done (tok, b1, sp)"
    and pd: "pending b1 sp tok (words_of (\<lambda>c. c = 0x20) s)"
    using strtok_pending [OF b(1), of "Some 0" None] b(2) by auto
  from parse_pending [OF assms(1) pd assms(4) [folded s_def]] show ?thesis
    using assms(3) unfolding pandora_parse_command_def cp andthen.simps st prod.case s_def [symmetric] by simp
qed

text \<open>
  C23. Parsing a command line: \<open>pandora_parse_command\<close> cuts the line (of which it keeps 1024
  characters) at the spaces and returns the list of its words in order, each truncated to 511
  characters; the result is null exactly when there is no word. It leaves \<open>strtok\<close> ready for the
  next line and touches no other argument list. (\<open>f\<close> is the allocator of the process; \<open>U\<close> holds
  the addresses in use, \<open>n\<close> how many allocations it can still serve.)
\<close>

theorem pandora_parse_command_words:
  assumes "serves f Inv" and "terminated command" and "mx < 1025"
    and "Inv (user_heap m) U (length (words_of (\<lambda>c. c = 0x20) (take 1024 (cstring command))))"
  shows "\<exists>p m'. pandora_parse_command f m None command mx = Done (p, m', None) \<and>
    args_list m' p (map (take 511) (words_of (\<lambda>c. c = 0x20) (take 1024 (cstring command)))) \<and>
    (\<forall>x \<in> U. cargs m' x = cargs m x)"
  using parse_command_words [OF assms(1-3), of m U 0] assms(4) by auto

text \<open>An allocator that counts upwards.\<close>

definition counter_malloc :: "u32 \<Rightarrow> u32 \<Rightarrow> addr \<times> u32" where
  "counter_malloc h n = (h, h + n)"

definition counter_room :: "u32 \<Rightarrow> addr set \<Rightarrow> nat \<Rightarrow> bool" where
  "counter_room h U n = (0 < h \<and> (\<forall>p \<in> U. p < h) \<and> unat h + 516 * n < 2 ^ 32)"

lemma counter_serves: "serves counter_malloc counter_room"
proof -
  have "\<exists>p h'. counter_malloc h 516 = (p, h') \<and> p \<noteq> 0 \<and> p \<notin> U \<and> counter_room h' (insert p U) n"
    if r: "counter_room h U (Suc n)" for h U n
  proof -
    from r have u: "unat (h + 516) = unat h + 516"
      unfolding counter_room_def by (subst unat_add_u32) simp_all
    then have "h < h + 516" by (simp add: word_less_nat_alt)
    with r u show ?thesis
      unfolding counter_malloc_def counter_room_def by (auto dest: less_trans)
  qed
  then show ?thesis unfolding serves_def by blast
qed

definition sample_line :: "u8 list" where
  "sample_line = [0x20, 0x6C, 0x73, 0x20, 0x20, 0x61, 0]"

theorem pandora_parse_command_words_witness:
  "\<exists>p m'. pandora_parse_command counter_malloc \<lparr>user_heap = 0x1000, cargs = \<lambda>_. None\<rparr> None sample_line 1024 =
      Done (p, m', None) \<and> args_list m' p [[0x6C, 0x73], [0x61]]"
proof -
  have w: "words_of (\<lambda>c. c = 0x20) (take 1024 (cstring sample_line)) = [[0x6C, 0x73], [0x61]]"
    by (simp add: sample_line_def words_of.simps)
  have "counter_room (user_heap \<lparr>user_heap = 0x1000, cargs = \<lambda>_. None\<rparr>) {}
      (length (words_of (\<lambda>c. c = 0x20) (take 1024 (cstring sample_line))))"
    unfolding w counter_room_def by simp
  from pandora_parse_command_words [OF counter_serves _ _ this] show ?thesis
    unfolding w by (simp add: sample_line_def) 
qed


section \<open>Numbers and edited lines\<close>

text \<open>
  C35. \<open>itoa\<close> writes the decimal numeral of every 32 bit integer, the smallest one included, into
  its buffer of 12 characters without leaving it, whatever an earlier call has left there, and the
  numeral stands for the number.
\<close>

theorem itoa_decimal:
  assumes "length b = 12" and "- (2 ^ 31) \<le> i" and "i < 2 ^ 31"
  shows "\<exists>b' loc. itoa b i = Done (b', int loc) \<and> length b' = 12 \<and>
    drop loc b' = numeral_of i @ [0] \<and> numeral_value (numeral_of i) = i"
  using itoa_numeral [OF assms] numeral_value_numeral [of i] by blast

theorem itoa_decimal_witness:
  "\<exists>b' loc. itoa (replicate 12 7) (- (2 ^ 31)) = Done (b', int loc) \<and> length b' = 12 \<and>
    drop loc b' = numeral_of (- (2 ^ 31)) @ [0]"
  using itoa_decimal [of "replicate 12 7" "- (2 ^ 31)"] by auto

text \<open>
  The line a user has typed when \<open>readline\<close> returns, and the keys that are left: a carriage return
  ends the line, a backspace takes back the last character, and the line is full with \<open>n - 1\<close>
  characters.
\<close>

fun edited :: "nat \<Rightarrow> u8 list \<Rightarrow> u8 list \<Rightarrow> (u8 list \<times> u8 list) option" where
  "edited n line keys =
     (if length line < n - 1 then
        case keys of
          [] \<Rightarrow> None
        | key # keys \<Rightarrow>
            if key = 13 then Some (line, keys)
            else if key = 0x08 \<and> line \<noteq> [] then edited n (butlast line) keys
            else edited n (line @ [key]) keys
      else Some (line, keys))"

declare edited.simps [simp del]

lemma edited_full: "\<not> length line < n - 1 \<Longrightarrow> edited n line keys = Some (line, keys)"
  by (subst edited.simps) simp

lemma edited_Nil: "length line < n - 1 \<Longrightarrow> edited n line [] = None"
  by (subst edited.simps) simp

lemma edited_Cons: "length line < n - 1 \<Longrightarrow> edited n line (key # keys) =
    (if key = 13 then Some (line, keys)
     else if key = 0x08 \<and> line \<noteq> [] then edited n (butlast line) keys
     else edited n (line @ [key]) keys)"
  by (subst edited.simps) simp

lemma edited_ends: "13 \<in> set keys \<Longrightarrow> \<exists>r. edited n line keys = Some r"
proof (induction keys arbitrary: line)
  case (Cons key keys)
  show ?case
  proof (cases "length line < n - 1")
    case True
    with Cons show ?thesis unfolding edited_Cons [OF True] by auto
  qed (simp add: edited_full)
qed simp

lemma edited_short: "edited n line keys = Some (l, r) \<Longrightarrow> length line < n \<Longrightarrow> length l < n"
proof (induction n line keys rule: edited.induct)
  case (1 n line keys)
  show ?case
  proof (cases "length line < n - 1")
    case False
    with "1.prems" show ?thesis by (simp add: edited_full)
  next
    case True
    with "1.prems"(1) obtain key ks where k: "keys = key # ks"
      by (cases keys) (simp_all add: edited_Nil)
    have "length (butlast line) < n" "length (line @ [key]) < n" using True by simp_all
    then show ?thesis
      using "1.IH" [OF True k] "1.prems"(1) True unfolding k
      by (cases "key = 13"; cases "key = 0x08 \<and> line \<noteq> []") (auto simp: edited_Cons)
  qed
qed

lemma readline_loop_eq:
  assumes "edited n line keys = Some (l, r)" and "take (length line) out = line"
    and "n \<le> length out" and "length line < n"
  shows "\<exists>out' typed. readline_loop out (int n) echo (int (length line)) shown keys =
      Done (out', int (length l), shown @ (if echo then typed else []), r) \<and>
    take (length l) out' = l \<and> length out' = length out \<and> drop n out' = drop n out \<and>
    (keys = typed @ r \<or> keys = typed @ 13 # r)"
  using assms
proof (induction n line keys arbitrary: out shown rule: edited.induct)
  case (1 n line keys)
  show ?case
  proof (cases "length line < n - 1")
    case False
    with "1.prems" have "\<not> int (length line) < int n - 1" "l = line" "r = keys"
      by (auto simp: edited_full)
    then show ?thesis using "1.prems"(2) by (simp add: readline_loop.simps [of out])
  next
    case True
    then have lt: "int (length line) < int n - 1" by linarith
    from True "1.prems"(1) obtain key ks where k: "keys = key # ks"
      by (cases keys) (simp_all add: edited_Nil)
    consider "key = 13" | "key \<noteq> 13" "key = 0x08 \<and> line \<noteq> []" | "key \<noteq> 13" "\<not> (key = 0x08 \<and> line \<noteq> [])"
      by blast
    then show ?thesis
    proof cases
      case 1
      with True "1.prems"(1) have e: "l = line" "r = ks" unfolding k by (simp_all add: edited_Cons)
      have "readline_loop out (int n) echo (int (length line)) shown keys = Done (out, int (length line), shown @ [], ks)"
        unfolding readline_loop.simps [of out] k using 1 lt by simp
      then show ?thesis using "1.prems"(2) 1 unfolding e k by (intro exI [of _ out] exI [of _ "[]"]) simp
    next
      case 2
      define o1 where "o1 = out[length line - 1 := 0]"
      have pos: "0 < length line" using 2(2) by simp
      have lo: "length line \<le> length out" using "1.prems"(3,4) by simp
      have ed: "edited n (butlast line) ks = Some (l, r)"
        using "1.prems"(1) True 2 unfolding k by (simp add: edited_Cons)
      have "take (length (butlast line)) o1 = take (length line - 1) out"
        unfolding o1_def by simp
      also have "\<dots> = take (length line - 1) (take (length line) out)" by (simp add: min_def)
      finally have tk: "take (length (butlast line)) o1 = butlast line"
        unfolding "1.prems"(2) by (simp add: butlast_conv_take)
      have sm: "length (butlast line) < n" "n \<le> length o1" using "1.prems"(3,4) unfolding o1_def by simp_all
      obtain out' typed where
        r: "readline_loop o1 (int n) echo (int (length (butlast line))) (shown @ (if echo then [key] else [])) ks =
          Done (out', int (length l), (shown @ (if echo then [key] else [])) @ (if echo then typed else []), r)"
        and o: "take (length l) out' = l" "length out' = length o1" "drop n out' = drop n o1"
          "ks = typed @ r \<or> ks = typed @ 13 # r"
        using "1.IH"(1) [OF True k 2(1) 2(2) ed tk sm(2,1)] by blast
      have ix: "nat (int (length line) - 1) = length line - 1" "int (length line) - 2 + 1 = int (length (butlast line))"
        "int (length line) \<ge> 1" using pos unfolding length_butlast by linarith+
      have "length line - 1 < length out" using pos lo by linarith
      then have w: "wr out (length line - 1) 0 = Done o1" unfolding o1_def by (simp add: wr_def)
      have "readline_loop out (int n) echo (int (length line)) shown keys =
          readline_loop o1 (int n) echo (int (length (butlast line))) (shown @ (if echo then [key] else [])) ks"
        unfolding readline_loop.simps [of out] k if_P [OF lt] list.case if_not_P [OF 2(1)] Let_def ix(1,2) w
        using 2(2) ix(3) by simp
      moreover have "drop n o1 = drop n out" unfolding o1_def using "1.prems"(4) by simp
      ultimately show ?thesis
        using r o unfolding k o1_def
        by (intro exI [of _ out'] exI [of _ "key # typed"]) auto
    next
      case 3
      define o1 where "o1 = out[length line := key]"
      have lo: "length line < length out" using "1.prems"(3,4) by simp
      have ed: "edited n (line @ [key]) ks = Some (l, r)"
        using "1.prems"(1) True 3 unfolding k by (simp add: edited_Cons)
      have tk: "take (length (line @ [key])) o1 = line @ [key]"
        unfolding o1_def using "1.prems"(2) lo by (simp add: take_Suc_conv_app_nth)
      have sm: "length (line @ [key]) < n" "n \<le> length o1" using "1.prems"(3) True unfolding o1_def by simp_all
      obtain out' typed where
        r: "readline_loop o1 (int n) echo (int (length (line @ [key]))) (shown @ (if echo then [key] else [])) ks =
          Done (out', int (length l), (shown @ (if echo then [key] else [])) @ (if echo then typed else []), r)"
        and o: "take (length l) out' = l" "length out' = length o1" "drop n out' = drop n o1"
          "ks = typed @ r \<or> ks = typed @ 13 # r"
        using "1.IH"(2) [OF True k 3(1) 3(2) ed tk sm(2,1)] by blast
      have ix: "nat (int (length line)) = length line" "int (length line) + 1 = int (length (line @ [key]))" by simp_all
      have w: "wr out (length line) key = Done o1" unfolding o1_def using lo by (simp add: wr_def)
      have ns: "\<not> (key = 0x08 \<and> int (length line) \<ge> 1)" using 3(2) by (cases line) auto
      have "readline_loop out (int n) echo (int (length line)) shown keys =
          readline_loop o1 (int n) echo (int (length (line @ [key]))) (shown @ (if echo then [key] else [])) ks"
        unfolding readline_loop.simps [of out] k if_P [OF lt] list.case if_not_P [OF 3(1)] Let_def if_not_P [OF ns] ix w
        by simp
      moreover have "drop n o1 = drop n out" unfolding o1_def using "1.prems"(4) by simp
      ultimately show ?thesis
        using r o unfolding k o1_def
        by (intro exI [of _ out'] exI [of _ "key # typed"]) auto
    qed
  qed
qed

lemma readline_edits:
  assumes ed: "edited n [] keys = Some (line, rest)" and "0 < n" and "n \<le> length out"
  shows "\<exists>out' typed. pandora_terminal_readline out (int n) echo keys = Done (out', if echo then typed else [], rest) \<and>
    take (Suc (length line)) out' = line @ [0] \<and> length line < n \<and> length out' = length out \<and>
    drop n out' = drop n out \<and> (keys = typed @ rest \<or> keys = typed @ 13 # rest)"
proof -
  have len: "length line < n" using edited_short [OF ed] assms(2) by simp
  obtain out' typed where r: "readline_loop out (int n) echo 0 [] keys =
      Done (out', int (length line), if echo then typed else [], rest)"
    and o: "take (length line) out' = line" "length out' = length out" "drop n out' = drop n out"
      "keys = typed @ rest \<or> keys = typed @ 13 # rest"
    using readline_loop_eq [OF ed _ assms(3), of echo "[]"] assms(2) by auto
  let ?o = "out'[length line := 0]"
  have "wr out' (nat (int (length line))) 0 = Done ?o" using len o(2) assms(3) by simp
  then have "pandora_terminal_readline out (int n) echo keys = Done (?o, if echo then typed else [], rest)"
    unfolding pandora_terminal_readline_def r by simp
  moreover have "take (Suc (length line)) ?o = line @ [0]"
    using o(1,2) len assms(3) by (simp add: take_Suc_conv_app_nth)
  moreover have "drop n ?o = drop n out" "length ?o = length out" using len o(2,3) by simp_all
  ultimately show ?thesis using len o(4) by blast
qed

text \<open>
  C24. Line input: once the user presses return, \<open>pandora_terminal_readline\<close> comes back with the
  line as it stands after all corrections, terminated, within the \<open>n\<close> characters of the buffer it
  may use; keys pressed later stay unread, and exactly the keys typed are echoed if asked for.
\<close>

theorem pandora_terminal_readline_edits:
  assumes "13 \<in> set keys" and "0 < n" and "n \<le> length out"
  shows "\<exists>line rest out' typed. edited n [] keys = Some (line, rest) \<and>
    pandora_terminal_readline out (int n) echo keys = Done (out', if echo then typed else [], rest) \<and>
    take (Suc (length line)) out' = line @ [0] \<and> length line < n \<and> drop n out' = drop n out \<and>
    (keys = typed @ rest \<or> keys = typed @ 13 # rest)"
  using edited_ends [OF assms(1), of n "[]"] readline_edits [OF _ assms(2,3), of keys _ _ echo] by fast

text \<open>Typing \<open>lz\<close>, a backspace, \<open>s\<close> and return gives \<open>ls\<close>.\<close>

theorem pandora_terminal_readline_edits_witness:
  "\<exists>out' rest. pandora_terminal_readline (replicate 8 1) 8 True [0x6C, 0x7A, 0x08, 0x73, 13, 0x61] =
      Done (out', [0x6C, 0x7A, 0x08, 0x73], rest) \<and> take 3 out' = [0x6C, 0x73, 0]"
proof -
  have "edited 8 [] [0x6C, 0x7A, 0x08, 0x73, 13, 0x61] = Some ([0x6C, 0x73], [0x61])"
    by (simp add: edited.simps)
  moreover have "typed = [0x6C, 0x7A, 0x08, 0x73]"
    if "[0x6C, 0x7A, 0x08, 0x73, 13, 0x61 :: u8] = typed @ [0x61] \<or>
      [0x6C, 0x7A, 0x08, 0x73, 13, 0x61] = typed @ 13 # [0x61]"
      "readline_loop (replicate 8 1) 8 True 0 [] [0x6C, 0x7A, 0x08, 0x73, 13, 0x61] = Done (o1, i, typed, r)"
    for typed o1 i r
    using that by (auto simp: readline_loop.simps run_simps)
  ultimately show ?thesis
    using pandora_terminal_readline_edits [of "[0x6C, 0x7A, 0x08, 0x73, 13, 0x61]" 8 "replicate 8 1" True]
    by (auto simp: pandora_terminal_readline_def numeral_3_eq_3)
qed

end
