(* ===== verification/Shell.thy ===== *)
theory Shell
  imports Userlib
begin

text \<open>
  The user programs: the entry point \<^verbatim>\<open>programs/stdlib/src/start.c\<close>, the shell \<^verbatim>\<open>programs/shell/src/shell.c\<close> and
  \<^verbatim>\<open>programs/blank/blank.c\<close>. The two programs never return, so their loops are given by the state after \<open>n\<close>
  rounds. The shell reads a line, cuts it into words and asks the system to run the command they make; the
  property follows a whole session of lines.
\<close>

section \<open>start.c\<close>

text \<open>The result of \<open>main\<close> is not used; the stub in assembly exits afterwards.\<close>

definition c_start :: "('s \<Rightarrow> (int \<times> addr) \<times> 's) \<Rightarrow> (int \<Rightarrow> addr \<Rightarrow> 's \<Rightarrow> (int \<times> 's) run) \<Rightarrow> 's \<Rightarrow> 's run" where
  "c_start pandora_process_get_arguments main s =
     (let ((argc, argv), s) = pandora_process_get_arguments s
      in andthen (main argc argv s) (\<lambda>(res, s). Done s))"

section \<open>blank.c\<close>

text \<open>\<open>text\<close> is the buffer of \<open>itoa\<close>, which this format does not use, \<open>arg0\<close> the string \<open>argv[0]\<close>.\<close>

definition blank_format :: "u8 list" where "blank_format = [0x25, 0x73, 0x0A, 0]"

primrec blank_rounds :: "u8 list \<Rightarrow> u8 list \<Rightarrow> nat \<Rightarrow> u8 list \<Rightarrow> u8 list run" where
  "blank_rounds text arg0 0 shown = Done shown"
| "blank_rounds text arg0 (Suc n) shown =
     andthen (printf text blank_format [StrArg arg0]) (\<lambda>s. blank_rounds text arg0 n (shown @ s))"

lemma blank_rounds_prints:
  assumes "terminated arg0"
  shows "blank_rounds text arg0 n shown = Done (shown @ concat (replicate n (cstring arg0 @ [0x0A])))"
  using assms by (induction n arbitrary: shown) (simp_all add: printf_def blank_format_def print_string_def)

section \<open>shell.c\<close>

text \<open>
  The state of the shell: the keys it has not read, what it has written to the screen, its local buffer,
  its heap and the static pointer of \<open>strtok\<close>.
\<close>

record 'u shell =
  keys_left :: "u8 list"
  shown :: "u8 list"
  line_buffer :: "u8 list"
  memory :: "'u umem"
  strtok_pointer :: "nat option"

definition banner :: "u8 list" where
  "banner = [0x50, 0x61, 0x6E, 0x64, 0x6F, 0x72, 0x61, 0x20, 0x76, 0x31, 0x2E, 0x30, 0x2E, 0x30, 0x0A, 0]"

definition prompt :: "u8 list" where "prompt = [0x3E, 0x20, 0]"

definition newline :: "u8 list" where "newline = [0x0A, 0]"

definition shell_print :: "'u shell \<Rightarrow> u8 list \<Rightarrow> 'u shell run" where
  "shell_print s str = andthen (print_string str) (\<lambda>t. Done (s\<lparr>shown := shown s @ t\<rparr>))"

text \<open>One round of the loop in \<open>main\<close>.\<close>

definition shell_round ::
    "('u \<Rightarrow> u32 \<Rightarrow> addr \<times> 'u) \<Rightarrow> ('u umem \<Rightarrow> addr \<Rightarrow> int \<times> 'u umem) \<Rightarrow> 'u shell \<Rightarrow> 'u shell run" where
  "shell_round pandora_malloc pandora_system s =
     andthen (shell_print s prompt) (\<lambda>s.
     andthen (pandora_terminal_readline (line_buffer s) 1024 True (keys_left s)) (\<lambda>(buf, echoed, keys).
     let s = s\<lparr>line_buffer := buf, shown := shown s @ echoed, keys_left := keys\<rparr>
     in andthen (shell_print s newline) (\<lambda>s.
     andthen (pandora_system_run pandora_malloc pandora_system (memory s) (strtok_pointer s) (line_buffer s)) (\<lambda>(res, m, sp).
     shell_print (s\<lparr>memory := m, strtok_pointer := sp\<rparr>) newline))))"

primrec shell_rounds ::
    "('u \<Rightarrow> u32 \<Rightarrow> addr \<times> 'u) \<Rightarrow> ('u umem \<Rightarrow> addr \<Rightarrow> int \<times> 'u umem) \<Rightarrow> nat \<Rightarrow> 'u shell \<Rightarrow> 'u shell run" where
  "shell_rounds pandora_malloc pandora_system 0 s = Done s"
| "shell_rounds pandora_malloc pandora_system (Suc n) s =
     andthen (shell_round pandora_malloc pandora_system s) (shell_rounds pandora_malloc pandora_system n)"

definition shell_main ::
    "('u \<Rightarrow> u32 \<Rightarrow> addr \<times> 'u) \<Rightarrow> ('u umem \<Rightarrow> addr \<Rightarrow> int \<times> 'u umem) \<Rightarrow> nat \<Rightarrow> 'u shell \<Rightarrow> 'u shell run" where
  "shell_main pandora_malloc pandora_system n s =
     andthen (shell_print s banner) (shell_rounds pandora_malloc pandora_system n)"

section \<open>What a session means\<close>

text \<open>The words of a line as the system gets them, and the lines a user types, one after the other.\<close>

definition line_words :: "u8 list \<Rightarrow> u8 list list" where
  "line_words line = map (take 511) (words_of (\<lambda>c. c = 0x20) (cstring line))"

fun typed_lines :: "nat \<Rightarrow> u8 list \<Rightarrow> (u8 list list \<times> u8 list) option" where
  "typed_lines 0 keys = Some ([], keys)"
| "typed_lines (Suc n) keys =
     (case edited 1024 [] keys of
        None \<Rightarrow> None
      | Some (line, rest) \<Rightarrow>
          (case typed_lines n rest of None \<Rightarrow> None | Some (lines, r) \<Rightarrow> Some (line # lines, r)))"

text \<open>
  What the shell relies on: the allocator serves requests, and the system call acts on the rest of the
  system (\<open>world\<close>) as the words at its argument say (\<open>act\<close>), without using up the heap of the shell.
\<close>

definition performs ::
    "('u \<Rightarrow> u32 \<Rightarrow> addr \<times> 'u) \<Rightarrow> ('u umem \<Rightarrow> addr \<Rightarrow> int \<times> 'u umem) \<Rightarrow> ('u \<Rightarrow> addr set \<Rightarrow> nat \<Rightarrow> bool) \<Rightarrow>
      ('u \<Rightarrow> 'w) \<Rightarrow> (u8 list list \<Rightarrow> 'w \<Rightarrow> 'w) \<Rightarrow> bool" where
  "performs f sys Inv world act \<longleftrightarrow> serves f Inv \<and> (\<forall>h n. world (snd (f h n)) = world h) \<and>
     (\<forall>m p ws. args_list m p ws \<longrightarrow> world (user_heap (snd (sys m p))) = act ws (world (user_heap m))) \<and>
     (\<forall>m p U n. Inv (user_heap m) U n \<longrightarrow> Inv (user_heap (snd (sys m p))) U n)"

lemma performs_serves:
  assumes "performs f sys Inv world act"
  shows "serves f (\<lambda>h U n. Inv h U n \<and> world h = w)"
proof -
  have "\<exists>p h'. f h 516 = (p, h') \<and> p \<noteq> 0 \<and> p \<notin> U \<and> Inv h' (insert p U) n \<and> world h' = w"
    if "Inv h U (Suc n)" "world h = w" for h U n
    using assms that unfolding performs_def serves_def by (metis snd_conv)
  then show ?thesis by (simp add: serves_def)
qed

lemma print_constant [simp]:
  "shell_print s prompt = Done (s\<lparr>shown := shown s @ [0x3E, 0x20]\<rparr>)"
  "shell_print s newline = Done (s\<lparr>shown := shown s @ [0x0A]\<rparr>)"
  "\<exists>t. shell_print s banner = Done (s\<lparr>shown := shown s @ t\<rparr>)"
  by (auto simp: shell_print_def print_string_def prompt_def newline_def banner_def)

lemma cstring_line: "cstring (line @ 0 # r) = cstring line" "terminated (line @ 0 # r)"
  by (induction line) (auto simp: cstring_def)

lemma cstring_short: "length line < n \<Longrightarrow> take n (cstring line) = cstring line"
  using length_cstring_le [of line] by simp

text \<open>Running the command in a buffer that holds a line.\<close>

lemma system_run_words:
  assumes "performs f sys Inv world act" and "length line < 1024"
    and "Inv (user_heap m) U (length (line_words line) + k)"
  shows "\<exists>res m' U'. pandora_system_run f sys m None (line @ 0 # r) = Done (res, m', None) \<and> Inv (user_heap m') U' k \<and>
    world (user_heap m') = (if line_words line = [] then world (user_heap m) else act (line_words line) (world (user_heap m)))"
proof -
  let ?w = "world (user_heap m)"
  let ?c = "cstring line"
  have c: "take 1023 ?c = ?c" "take 1024 ?c = ?c" using length_cstring_le [of line] assms(2) by simp_all
  define buf where "buf = ?c @ 0 # drop (Suc (length ?c)) (replicate 1024 (0xCC :: u8))"
  have "strncpy (replicate 1024 0xCC) (line @ 0 # r) 1024 = Done buf"
    using c length_cstring_le [of line] assms(2)
    by (simp add: strncpy_eq [OF cstring_line(2)] cstring_line(1) Let_def buf_def)
  moreover have "cstring buf = ?c" unfolding buf_def by (rule cstring_append) simp
  moreover have "terminated buf" unfolding buf_def by (rule cstring_line)
  ultimately have buf: "strncpy (replicate 1024 0xCC) (line @ 0 # r) 1024 = Done buf" "terminated buf" "cstring buf = ?c"
    by blast+
  have len: "length (words_of (\<lambda>c. c = 0x20) (take 1024 (cstring buf))) = length (line_words line)"
    by (simp add: buf c line_words_def)
  from parse_command_words [OF performs_serves [OF assms(1), of ?w] buf(2), of 1024 m U k] assms(3)
  obtain p m1 U' where m1: "pandora_parse_command f m None buf 1024 = Done (p, m1, None)"
    "args_list m1 p (line_words line)" "Inv (user_heap m1) U' k" "world (user_heap m1) = ?w"
    unfolding len by (auto simp: line_words_def buf c)
  show ?thesis
  proof (cases "p = 0")
    case True
    with m1(2) have "line_words line = []" by (cases "line_words line") auto
    with True m1 show ?thesis by (auto simp: pandora_system_run_def buf(1))
  next
    case False
    with m1(2) have ne: "line_words line \<noteq> []" by (cases "line_words line") auto
    obtain res m2 where m2: "sys m1 p = (res, m2)" by fastforce
    with assms(1) m1(2-4) have "world (user_heap m2) = act (line_words line) ?w" "Inv (user_heap m2) U' k"
      unfolding performs_def by (metis snd_conv)+
    with False ne m1(1) m2 show ?thesis by (auto simp: pandora_system_run_def buf(1))
  qed
qed

lemma shell_round_line:
  assumes "performs f sys Inv world act" and "edited 1024 [] (keys_left s) = Some (line, rest)"
    and "length (line_buffer s) = 1024" and "strtok_pointer s = None"
    and "Inv (user_heap (memory s)) U (length (line_words line) + k)"
  shows "\<exists>s' U'. shell_round f sys s = Done s' \<and> keys_left s' = rest \<and> length (line_buffer s') = 1024 \<and>
    strtok_pointer s' = None \<and> Inv (user_heap (memory s')) U' k \<and>
    world (user_heap (memory s')) = fold act (filter (\<lambda>ws. ws \<noteq> []) [line_words line]) (world (user_heap (memory s)))"
proof -
  from readline_edits [OF assms(2), of "line_buffer s" True] assms(3) obtain buf typed where
    rl: "pandora_terminal_readline (line_buffer s) 1024 True (keys_left s) = Done (buf, typed, rest)"
    and b: "take (Suc (length line)) buf = line @ [0]" "length line < 1024" "length buf = 1024" by auto
  have "buf = line @ 0 # drop (Suc (length line)) buf"
    using append_take_drop_id [of "Suc (length line)" buf] b(1) by simp
  then obtain r where buf: "buf = line @ 0 # r" by blast
  from system_run_words [OF assms(1) b(2) assms(5), of r] obtain res m' U' where
    run: "pandora_system_run f sys (memory s) None buf = Done (res, m', None)" "Inv (user_heap m') U' k"
    "world (user_heap m') = (if line_words line = [] then world (user_heap (memory s))
       else act (line_words line) (world (user_heap (memory s))))"
    unfolding buf by auto
  show ?thesis
    using rl run b(3) assms(4) by (auto simp: shell_round_def Let_def)
qed

lemma shell_rounds_lines:
  assumes "performs f sys Inv world act"
  shows "typed_lines n (keys_left s) = Some (lines, rest) \<Longrightarrow> length (line_buffer s) = 1024 \<Longrightarrow>
    strtok_pointer s = None \<Longrightarrow> Inv (user_heap (memory s)) U (sum_list (map (\<lambda>l. length (line_words l)) lines)) \<Longrightarrow>
    \<exists>s'. shell_rounds f sys n s = Done s' \<and> keys_left s' = rest \<and> strtok_pointer s' = None \<and>
      world (user_heap (memory s')) =
        fold act (filter (\<lambda>ws. ws \<noteq> []) (map line_words lines)) (world (user_heap (memory s)))"
proof (induction n arbitrary: s lines U)
  case (Suc n)
  from Suc.prems(1) obtain line r ls where l: "edited 1024 [] (keys_left s) = Some (line, r)"
    "typed_lines n r = Some (ls, rest)" "lines = line # ls" by (auto split: option.splits)
  from Suc.prems(4) have I: "Inv (user_heap (memory s)) U (length (line_words line) + sum_list (map (\<lambda>l. length (line_words l)) ls))"
    by (simp add: l(3))
  from shell_round_line [OF assms l(1) Suc.prems(2,3) I] obtain s1 U1 where s1: "shell_round f sys s = Done s1"
    "keys_left s1 = r" "length (line_buffer s1) = 1024" "strtok_pointer s1 = None"
    "Inv (user_heap (memory s1)) U1 (sum_list (map (\<lambda>l. length (line_words l)) ls))"
    "world (user_heap (memory s1)) = fold act (filter (\<lambda>ws. ws \<noteq> []) [line_words line]) (world (user_heap (memory s)))"
    by blast
  from Suc.IH [OF _ s1(3,4,5)] l(2) s1(2) obtain s2 where "shell_rounds f sys n s1 = Done s2" "keys_left s2 = rest"
    "strtok_pointer s2 = None" "world (user_heap (memory s2)) =
        fold act (filter (\<lambda>ws. ws \<noteq> []) (map line_words ls)) (world (user_heap (memory s1)))" by blast
  then show ?case using s1(1,6) by (simp add: l(3) del: andthen_eq_Done)
qed simp

section \<open>Properties\<close>

text \<open>
  C7. A session with the shell: when the user has typed \<open>n\<close> lines, the shell has come back to its prompt \<open>n\<close>
  times, and has asked the system to run exactly the commands of these lines, in order, each with the words of the
  line as the user left it after all corrections; empty lines start nothing, and what was typed ahead is still unread.
\<close>

theorem shell_session:
  assumes "performs f sys Inv world act" and "typed_lines n (keys_left s) = Some (lines, rest)"
    and "length (line_buffer s) = 1024" and "strtok_pointer s = None"
    and "Inv (user_heap (memory s)) U (sum_list (map (\<lambda>l. length (line_words l)) lines))"
  shows "\<exists>s'. shell_main f sys n s = Done s' \<and> keys_left s' = rest \<and>
    world (user_heap (memory s')) =
      fold act (filter (\<lambda>ws. ws \<noteq> []) (map line_words lines)) (world (user_heap (memory s)))"
proof -
  obtain t where t: "shell_print s banner = Done (s\<lparr>shown := shown s @ t\<rparr>)" using print_constant(3) by blast
  from shell_rounds_lines [OF assms(1), of n "s\<lparr>shown := shown s @ t\<rparr>" lines rest U] assms(2-5)
  show ?thesis unfolding shell_main_def t by auto
qed

text \<open>A system that keeps a log of the commands it is asked to run, next to the counting allocator.\<close>

fun words_at :: "nat \<Rightarrow> 'u umem \<Rightarrow> addr \<Rightarrow> u8 list list" where
  "words_at 0 m p = []"
| "words_at (Suc n) m p = (if p = 0 then [] else
     (case cargs m p of None \<Rightarrow> [] | Some c \<Rightarrow> cstring (argument c) # words_at n m (next_argument c)))"

definition log_malloc :: "u32 \<times> u8 list list list \<Rightarrow> u32 \<Rightarrow> addr \<times> u32 \<times> u8 list list list" where
  "log_malloc = (\<lambda>(h, l) n. (h, h + n, l))"

definition log_system :: "(u32 \<times> u8 list list list) umem \<Rightarrow> addr \<Rightarrow> int \<times> (u32 \<times> u8 list list list) umem" where
  "log_system m p = (0, m\<lparr>user_heap := (fst (user_heap m), snd (user_heap m) @ [words_at 8 m p])\<rparr>)"

lemma words_at_list: "args_list m p ws \<Longrightarrow> words_at n m p = take n ws"
proof (induction n arbitrary: p ws)
  case (Suc n)
  then show ?case by (cases ws) (auto split: option.splits)
qed simp

lemma log_performs:
  "performs log_malloc log_system (\<lambda>h. counter_room (fst h)) snd (\<lambda>ws l. l @ [take 8 ws])"
proof -
  have "\<exists>p h'. log_malloc h 516 = (p, h') \<and> p \<noteq> 0 \<and> p \<notin> U \<and> counter_room (fst h') (insert p U) n"
    if "counter_room (fst h) U (Suc n)" for h U n
    using counter_serves that unfolding serves_def counter_malloc_def
    by (cases h) (auto simp: log_malloc_def)
  then show ?thesis
    by (auto simp: performs_def serves_def log_malloc_def log_system_def words_at_list)
qed

definition sample_keys :: "u8 list" where
  "sample_keys = [0x6C, 0x7A, 0x08, 0x73, 13, 0x20, 13, 0x61, 0x20, 0x62, 13, 0x63]"

lemma sample_lines: "typed_lines 3 sample_keys = Some ([[0x6C, 0x73], [0x20], [0x61, 0x20, 0x62]], [0x63])"
  by (simp add: sample_keys_def numeral_3_eq_3 edited.simps)

lemma sample_words: "line_words [0x6C, 0x73] = [[0x6C, 0x73]]" "line_words [0x20] = []"
  "line_words [0x61, 0x20, 0x62] = [[0x61], [0x62]]"
  by (simp_all add: line_words_def cstring_def words_of.simps)

text \<open>Typing \<open>lz\<close>, a backspace, \<open>s\<close>, an empty line and \<open>a b\<close> runs \<open>ls\<close> and then \<open>a\<close> with the argument \<open>b\<close>.\<close>

theorem shell_session_witness:
  "\<exists>s'. shell_main log_malloc log_system 3 \<lparr>keys_left = sample_keys, shown = [], line_buffer = replicate 1024 1,
      memory = \<lparr>user_heap = (0x1000, []), cargs = Map.empty\<rparr>, strtok_pointer = None\<rparr> = Done s' \<and>
    keys_left s' = [0x63] \<and> snd (user_heap (memory s')) = [[[0x6C, 0x73]], [[0x61], [0x62]]]"
  using shell_session [OF log_performs, of 3 "\<lparr>keys_left = sample_keys, shown = [], line_buffer = replicate 1024 1,
      memory = \<lparr>user_heap = (0x1000, []), cargs = Map.empty\<rparr>, strtok_pointer = None\<rparr>"
      "[[0x6C, 0x73], [0x20], [0x61, 0x20, 0x62]]" "[0x63]" "{}"]
  by (simp add: sample_lines sample_words counter_room_def)

end
