(* ===== verification/Spec2Isabelle.thy ===== *)
theory Spec2Isabelle
  imports Address_Spaces Input Output Task_Lifecycle Program_Load Elf_Mapping Shell
begin

text \<open>
  A model of the PandoraOS kernel (\<^verbatim>\<open>src/\<close>) and of the C library of its user programs (\<^verbatim>\<open>programs/stdlib\<close>),
  with the theorems that state what each part does. The kernel is a 32 bit protected mode kernel for the i686:
  it boots from a FAT16 disk, gives every process an address space of its own, loads ELF and flat binaries,
  switches between tasks on the clock interrupt and serves ten system calls on interrupt \<^verbatim>\<open>0x80\<close>.

  \<^bold>\<open>How the code is modelled.\<close> Every C function is a HOL function of the same name. The global variables and the
  objects on the heap are the fields of a state record that is passed through; each component extends the
  record of the components it calls, so that the code of a lower layer runs unchanged on the state of a higher
  one: \<open>heap\<close> (block table), \<open>kmem\<close> (kernel heap and byte buffers), \<open>pmem\<close> (page tables), then the path parts, the
  disk streams, the FAT16 objects, the descriptors, the ELF files, \<open>taskmem\<close> (tasks and processes) and at the
  top \<open>kernel\<close>. A C object in the heap is an entry of a store, a map from addresses that is undefined outside
  the objects allocated at the moment: a null or dangling pointer is an address the store does not know. The
  result type \<open>run\<close> has three outcomes: \<open>Done\<close>; \<open>Panic\<close>, the function never comes back (\<^verbatim>\<open>panic\<close>, which ends in an endless
  loop, or a wait for an event that does not come); and \<open>Fault\<close>, an access outside every object the code may
  use, or a position in a disk stream that leaves the range of its \<^verbatim>\<open>int\<close>. The code reports errors as negative numbers or null pointers, and so does the model, with the numbers of
  \<^verbatim>\<open>status.h\<close>. Pointers, sizes and fields of hardware structures are words of their width; a C \<^verbatim>\<open>int\<close> is an \<open>int\<close>,
  with the conversions from and to words written out and the range in the hypotheses where it matters.
  Hardware is a parameter: a value of type \<open>ports\<close> says how the devices behind the ports behave.

  \<^bold>\<open>Theories and sources.\<close>

  \<^item> \<open>Prelude\<close>: machine types, outcomes, array accesses, status codes and configuration (\<^verbatim>\<open>status.h\<close>, \<^verbatim>\<open>config.h\<close>).
  \<^item> \<open>Cstring\<close>: \<^verbatim>\<open>memory/memory.c\<close>, \<^verbatim>\<open>string/string.c\<close>, each routine against the C string in its buffer.
  \<^item> \<open>Heap_Blocks\<close>, \<open>Kheap\<close>: \<^verbatim>\<open>memory/heap/heap.c\<close>, \<^verbatim>\<open>heap.h\<close>, \<^verbatim>\<open>kheap.c\<close>. The block table is abstracted to the set of
    the allocations it describes; the interface \<open>allocator\<close> of the clients is a locale, interpreted on the block
    allocator and on \<open>kzalloc\<close>/\<open>kfree\<close>. \<open>Heap_Steps\<close> has the heap as a state machine of its clients' calls, and
    says from their bookkeeping which calls return a block, which return null and which overrun the table.
  \<^item> \<open>Paging\<close>: \<^verbatim>\<open>memory/paging/paging.c\<close>; \<open>space\<close> is the address space a directory describes. \<open>Address_Spaces\<close>:
    several of them.
  \<^item> \<open>Pparser\<close>: \<^verbatim>\<open>fs/pparser.c\<close>, the linked list of the components of a path.
  \<^item> \<open>Ports\<close>, \<open>Disk\<close>: \<^verbatim>\<open>io/io.h\<close>, \<^verbatim>\<open>disk/disk.c\<close>, \<^verbatim>\<open>disk/streamer.c\<close>; \<open>ata_drive\<close> is the protocol the driver relies on.
  \<^item> \<open>Fat16\<close>: \<^verbatim>\<open>fs/fat/fat16.c\<close>. \<open>Fat16_Read\<close>: what a read delivers; \<open>Fat16_Names\<close>: file names;
    \<open>Fat16_Open\<close>: opening a file of the root directory by its name.
  \<^item> \<open>Vfs\<close>: \<^verbatim>\<open>fs/file.c\<close> and \<^verbatim>\<open>disk_search_and_init\<close>. \<open>Files\<close>: the descriptor table and the error path of \<open>fopen\<close>;
    \<open>File_Access\<close>: from a path to the bytes of the file, through all the layers below; \<open>Program_Load\<close>:
    loading a binary into a process, and what of it stays allocated.
  \<^item> \<open>Elf\<close>: \<^verbatim>\<open>loader/formats\<close>. \<open>Elf_Segments\<close>: the range of the loadable segments; \<open>Elf_Mapping\<close>:
    the address space of a process after its segments are mapped.
  \<^item> \<open>Task\<close>, \<open>Process\<close>: \<^verbatim>\<open>task/task.c\<close>, \<^verbatim>\<open>task/process.c\<close>. \<open>Scheduler\<close>: the ring of tasks under clock interrupts; \<open>Task_Lifecycle\<close>: creation and release of a task;
    \<open>Process_Memory\<close>: the memory of a process; \<open>User_Copy\<close>: reading it from the kernel.
  \<^item> \<open>Gdt\<close>, \<open>Idt\<close>: \<^verbatim>\<open>gdt/gdt.c\<close>, \<^verbatim>\<open>idt/idt.c\<close>, the descriptors as the processor decodes them.
  \<^item> \<open>Terminal\<close>, \<open>Keyboard\<close>: the terminal of \<^verbatim>\<open>kernel.c\<close>, \<^verbatim>\<open>keyboard/keyboard.c\<close>, \<^verbatim>\<open>keyboard/pso2.c\<close>; the interface \<open>fifo\<close> of
    a queue is a locale, interpreted on the ring buffer.
  \<^item> \<open>Kernel\<close>: the handlers of \<^verbatim>\<open>idt/idt.c\<close>, the system calls of \<^verbatim>\<open>isr80h/\<close> and \<^verbatim>\<open>kernel_main\<close>, over all of the above.
    \<open>Traps\<close>: dispatch of interrupts and calls; \<open>Input\<close>: a key from the interrupt to the program; \<open>Output\<close>: a
    string from the program to the screen.
  \<^item> \<open>Userlib\<close>: \<^verbatim>\<open>programs/stdlib/src\<close>, the library of the user programs. \<open>Shell\<close>: \<^verbatim>\<open>start.c\<close>, \<^verbatim>\<open>shell.c\<close> and
    \<^verbatim>\<open>blank.c\<close>, the entry point and the two programs.

  \<^bold>\<open>How the parts interact.\<close> The heap is under everything. Paging allocates its tables in it, the path parser its
  lists, FAT16 its directories and items; FAT16 reads through streams, streams through the disk driver, the
  driver through the ports. \<open>fopen\<close> parses the path, asks the file system that resolved the disk and hands out a
  descriptor. The loader reads a file to the heap, the process maps it, and a task is created for it. Interrupts
  save the registers of the current task, switch to the address space of the kernel, run the registered
  function and return to the task that is then the current one.

  \<^bold>\<open>What the groups of lemmas show.\<close> For each component: a well-formedness invariant (\<open>heap_ok\<close>, \<open>kmem_ok\<close>, \<open>pages_ok\<close>,
  \<open>dir_ok\<close>, \<open>task_ring\<close>, \<open>owned\<close>, \<open>term_ok\<close>, \<open>mounted\<close>) and that the operations keep it; an abstraction (allocations, \<open>space\<close>, components of a path,
  bytes of a file, queue of keys, words of a line) and that the operations compute the abstract function; the
  behaviour on errors, including the cases in which the code goes wrong, each stated as a theorem about what it
  does. The properties \<^verbatim>\<open>C1\<close> to \<^verbatim>\<open>C40\<close> are the theorems with these names in the text before them; every one with
  hypotheses is followed by a theorem that applies it to a concrete state.

  \<^bold>\<open>Bounds and fuel.\<close> \<open>pathparser_free\<close> and similar loops over linked lists of path parts have fuel for 108 parts,
  enough because a path has at most 108 characters and every part has one of them. An address
  is looked up in the buffer that starts at most 100 MB before it, which is the size of the heap and therefore
  of the largest buffer. Loops that follow data of a user program (argument lists) or wait for an
  event are partial functions of type \<open>option\<close>, \<open>None\<close> for no end, and \<open>Panic\<close> in their callers. All other loops are
  structural or have a termination proof.

  \<^bold>\<open>Local variables.\<close> A local array whose address is passed on is a list that is passed and returned; where its
  address is visible to the code it is a buffer at an address outside of the heap.

  \<^bold>\<open>Not modelled.\<close> The assembly files (\<^verbatim>\<open>boot.asm\<close>, \<^verbatim>\<open>kernel.asm\<close>, \<^verbatim>\<open>*.asm\<close>): boot sector, entry points and single privileged
  instructions, seen by the C code as parameters or as fields of the state (\<open>cr3\<close>, \<open>user_segments\<close>). Makefiles and linker
  scripts. The library of the user programs repeats the text of \<^verbatim>\<open>memory.c\<close> and of the routines of \<^verbatim>\<open>string.c\<close> other
  than \<open>strtok\<close>; theory \<open>Cstring\<close> stands for both. Caches and the translation look-aside buffer: a change of
  a page table is visible at once. Interrupts do not nest: the handlers run with interrupts disabled.
\<close>

end
